(* ===== verification/Prelude.thy ===== *)
theory Prelude
  imports Complex_Main "HOL-Library.AList"
begin

text \<open>
  Shared vocabulary of the development: the exceptions of the code base as values, the
  fragment of Python's \<open>str\<close>, \<open>int\<close> and \<open>dict\<close> that the modelled modules use, and the
  generic lemmas the component theories rest on.

  Strings are \<open>char list\<close>, a \<open>char\<close> standing for the code point it encodes (0 to 255), so
  the character classes below are those of \<open>str\<close> on the Latin-1 range; code points above
  255 are outside the model.  Dictionaries are association lists: \<open>AList.update\<close> keeps the
  place of a present key and appends a new one, as \<open>dict.__setitem__\<close> does.
\<close>

section \<open>Named collections\<close>

named_theorems py_str_simps \<open>equations of the string primitives\<close>
named_theorems dict_simps \<open>equations of the association-list dictionaries\<close>
named_theorems first_seen_simps \<open>laws of first-occurrence filtering\<close>

section \<open>Exceptions\<close>

text \<open>The error hierarchy of \<open>domain/errors\<close> with the built-in exceptions the code raises.\<close>

datatype pyerr =
    ValidationError string
  | NotFoundError string
  | InfrastructureError string
  | UnauthorizedError string
  | ValueError string
  | RuntimeError string
  | TypeError string
  | OverflowError string
  | KeyError string
  | AttributeError string

type_synonym 'a res = "pyerr + 'a"

fun is_ok :: "'a res \<Rightarrow> bool" where
  "is_ok (Inl _) = False"
| "is_ok (Inr _) = True"

lemma is_ok_iff: "is_ok r \<longleftrightarrow> (\<exists>x. r = Inr x)"
  by (cases r) auto

lemma map_sum_eq_Inr: "map_sum id f r = Inr y \<longleftrightarrow> (\<exists>x. r = Inr x \<and> y = f x)"
  by (cases r) auto

section \<open>Characters\<close>

definition py_isspace :: "char \<Rightarrow> bool" where
  "py_isspace c =
     (let n = (of_char c :: nat)
      in (9 \<le> n \<and> n \<le> 13) \<or> (28 \<le> n \<and> n \<le> 32) \<or> n = 133 \<or> n = 160)"

definition py_isdigit :: "char \<Rightarrow> bool" where
  "py_isdigit c = (let n = (of_char c :: nat) in 48 \<le> n \<and> n \<le> 57)"

definition py_isalnum :: "char \<Rightarrow> bool" where
  "py_isalnum c =
     (let n = (of_char c :: nat)
      in (48 \<le> n \<and> n \<le> 57) \<or> (65 \<le> n \<and> n \<le> 90) \<or> (97 \<le> n \<and> n \<le> 122)
       \<or> n = 170 \<or> n = 178 \<or> n = 179 \<or> n = 181 \<or> n = 185 \<or> n = 186
       \<or> (188 \<le> n \<and> n \<le> 190) \<or> (192 \<le> n \<and> n \<le> 214)
       \<or> (216 \<le> n \<and> n \<le> 246) \<or> (248 \<le> n \<and> n \<le> 255))"

definition py_lower_char :: "char \<Rightarrow> char" where
  "py_lower_char c =
     (let n = (of_char c :: nat)
      in if (65 \<le> n \<and> n \<le> 90) \<or> (192 \<le> n \<and> n \<le> 222 \<and> n \<noteq> 215)
         then char_of (n + 32) else c)"

text \<open>
  \<open>str.upper\<close> expands the sharp s (223) to \<open>SS\<close>; the two letters whose upper case lies
  above code point 255 (181 and 255) are kept, their images being outside the model.
\<close>

definition py_upper_char :: "char \<Rightarrow> string" where
  "py_upper_char c =
     (let n = (of_char c :: nat)
      in if n = 223 then ''SS''
         else if (97 \<le> n \<and> n \<le> 122) \<or> (224 \<le> n \<and> n \<le> 254 \<and> n \<noteq> 247)
         then [char_of (n - 32)] else [c])"

lemma of_char_char_of_small:
  "n < 256 \<Longrightarrow> (of_char (char_of n :: char) :: nat) = n"
  by (simp add: of_char_of)

lemma of_char_less_256: "(of_char c :: nat) < 256"
  using nat_of_char_less_256 by simp

lemma py_lower_char_idem [simp]: "py_lower_char (py_lower_char c) = py_lower_char c"
proof -
  have lt: "(of_char c :: nat) < 256" by (rule of_char_less_256)
  show ?thesis
    by (auto simp: py_lower_char_def Let_def of_char_char_of_small)
qed

lemma space_not_alnum: "py_isspace c \<Longrightarrow> \<not> py_isalnum c"
  by (auto simp: py_isspace_def py_isalnum_def Let_def)

lemma lower_char_space [simp]: "py_isspace (py_lower_char c) = py_isspace c"
proof -
  have lt: "(of_char c :: nat) < 256" by (rule of_char_less_256)
  show ?thesis
    by (auto simp: py_lower_char_def py_isspace_def Let_def of_char_char_of_small)
qed

lemma isspace_blank [simp]: "py_isspace CHR '' ''"
  by (simp add: py_isspace_def)

section \<open>Strings\<close>

definition py_lower :: "string \<Rightarrow> string" where
  "py_lower s = map py_lower_char s"

definition py_upper :: "string \<Rightarrow> string" where
  "py_upper s = concat (map py_upper_char s)"

definition py_lstrip :: "string \<Rightarrow> string" where
  "py_lstrip s = dropWhile py_isspace s"

definition py_rstrip :: "string \<Rightarrow> string" where
  "py_rstrip s = rev (dropWhile py_isspace (rev s))"

definition py_strip :: "string \<Rightarrow> string" where
  "py_strip s = py_rstrip (py_lstrip s)"

fun py_join :: "string \<Rightarrow> string list \<Rightarrow> string" where
  "py_join sep [] = []"
| "py_join sep [x] = x"
| "py_join sep (x # y # xs) = x @ sep @ py_join sep (y # xs)"

text \<open>\<open>s.split()\<close>: maximal runs of non-blank characters.\<close>

fun split_ws_acc :: "string \<Rightarrow> string \<Rightarrow> string list" where
  "split_ws_acc acc [] = (if acc = [] then [] else [rev acc])"
| "split_ws_acc acc (c # cs) =
     (if py_isspace c
      then (if acc = [] then split_ws_acc [] cs else rev acc # split_ws_acc [] cs)
      else split_ws_acc (c # acc) cs)"

definition py_split :: "string \<Rightarrow> string list" where
  "py_split s = split_ws_acc [] s"

text \<open>\<open>s.split(sep)\<close> for a one-character separator: never empty, empty fields kept.\<close>

fun py_split_on :: "char \<Rightarrow> string \<Rightarrow> string list" where
  "py_split_on sep [] = [[]]"
| "py_split_on sep (c # cs) =
     (case py_split_on sep cs of
        [] \<Rightarrow> [[c]]
      | w # ws \<Rightarrow> if c = sep then [] # w # ws else (c # w) # ws)"

definition py_startswith :: "string \<Rightarrow> string \<Rightarrow> bool" where
  "py_startswith s p = (take (length p) s = p)"

definition py_endswith :: "string \<Rightarrow> string \<Rightarrow> bool" where
  "py_endswith s p = (length p \<le> length s \<and> drop (length s - length p) s = p)"

fun py_contains :: "string \<Rightarrow> string \<Rightarrow> bool" where
  "py_contains [] p = (p = [])"
| "py_contains (c # cs) p = (py_startswith (c # cs) p \<or> py_contains cs p)"

definition py_replace_char :: "char \<Rightarrow> char \<Rightarrow> string \<Rightarrow> string" where
  "py_replace_char a b s = map (\<lambda>c. if c = a then b else c) s"

text \<open>\<open>value or ""\<close> for an optional string.\<close>

definition or_empty :: "string option \<Rightarrow> string" where
  "or_empty v = (case v of None \<Rightarrow> [] | Some s \<Rightarrow> s)"

text \<open>A string that is falsy (empty) becomes \<open>None\<close>: \<open>text or None\<close>.\<close>

definition or_none :: "string \<Rightarrow> string option" where
  "or_none s = (if s = [] then None else Some s)"

lemma or_none_simps [simp]:
  "or_none [] = None"
  "or_none s = None \<longleftrightarrow> s = []"
  "or_none s = Some t \<longleftrightarrow> s = t \<and> t \<noteq> []"
  by (auto simp: or_none_def)

lemma or_empty_simps [simp]: "or_empty None = []" "or_empty (Some s) = s"
  by (simp_all add: or_empty_def)

subsection \<open>Stripping and case folding\<close>

lemma py_lower_idem [simp]: "py_lower (py_lower s) = py_lower s"
  by (simp add: py_lower_def)

lemma py_lower_simps [py_str_simps]:
  "py_lower [] = []"
  "py_lower (c # s) = py_lower_char c # py_lower s"
  "py_lower (s @ t) = py_lower s @ py_lower t"
  "length (py_lower s) = length s"
  "py_lower s = [] \<longleftrightarrow> s = []"
  by (simp_all add: py_lower_def)

lemma dropWhile_lower: "dropWhile py_isspace (py_lower s) = py_lower (dropWhile py_isspace s)"
  by (induction s) (auto simp: py_lower_def)

lemma rev_lower: "rev (py_lower s) = py_lower (rev s)"
  by (simp add: py_lower_def rev_map)

lemma py_strip_lower: "py_strip (py_lower s) = py_lower (py_strip s)"
  by (simp add: py_strip_def py_lstrip_def py_rstrip_def dropWhile_lower rev_lower)

lemma dropWhile_idem: "dropWhile P (dropWhile P xs) = dropWhile P xs"
  by (induction xs) auto

lemma py_strip_Nil [simp]: "py_strip [] = []"
  by (simp add: py_strip_def py_lstrip_def py_rstrip_def)

lemma rstrip_hd:
  assumes "s = [] \<or> \<not> py_isspace (hd s)"
  shows "py_rstrip s = [] \<or> \<not> py_isspace (hd (py_rstrip s))"
proof (cases "py_rstrip s")
  case Nil
  then show ?thesis by simp
next
  case (Cons c cs)
  have "prefix_of": "\<exists>t. s = py_rstrip s @ t"
    unfolding py_rstrip_def
    by (metis rev_append rev_rev_ident takeWhile_dropWhile_id)
  then obtain t where "s = (c # cs) @ t" using Cons by metis
  then show ?thesis using assms Cons by auto
qed

lemma lstrip_id: "s = [] \<or> \<not> py_isspace (hd s) \<Longrightarrow> py_lstrip s = s"
  by (cases s) (auto simp: py_lstrip_def)

lemma hd_lstrip: "py_lstrip s = [] \<or> \<not> py_isspace (hd (py_lstrip s))"
  by (induction s) (auto simp: py_lstrip_def)

lemma rstrip_idem: "py_rstrip (py_rstrip s) = py_rstrip s"
  by (simp add: py_rstrip_def dropWhile_idem)

lemma py_strip_idem [simp]: "py_strip (py_strip s) = py_strip s"
proof -
  have "py_lstrip (py_rstrip (py_lstrip s)) = py_rstrip (py_lstrip s)"
    by (rule lstrip_id [OF rstrip_hd [OF hd_lstrip]])
  then show ?thesis by (simp add: py_strip_def rstrip_idem)
qed

lemma py_strip_no_space:
  assumes "\<forall>c \<in> set s. \<not> py_isspace c"
  shows "py_strip s = s"
proof -
  have *: "dropWhile py_isspace t = t" if "\<forall>c \<in> set t. \<not> py_isspace c" for t
    using that by (cases t) simp_all
  have "dropWhile py_isspace s = s" and "dropWhile py_isspace (rev s) = rev s"
    using assms by (simp_all add: *)
  then show ?thesis by (simp add: py_strip_def py_lstrip_def py_rstrip_def)
qed

subsection \<open>Splitting and joining\<close>

lemma split_ws_acc_words:
  assumes "\<forall>c \<in> set acc. \<not> py_isspace c"
  shows "\<forall>w \<in> set (split_ws_acc acc s). w \<noteq> [] \<and> (\<forall>c \<in> set w. \<not> py_isspace c)"
  using assms
proof (induction s arbitrary: acc)
  case Nil
  then show ?case by auto
next
  case (Cons c cs)
  show ?case
  proof (cases "py_isspace c")
    case True
    have "\<forall>w \<in> set (split_ws_acc [] cs). w \<noteq> [] \<and> (\<forall>c \<in> set w. \<not> py_isspace c)"
      by (rule Cons.IH) simp
    then show ?thesis using True Cons.prems by auto
  next
    case False
    then have "\<forall>d \<in> set (c # acc). \<not> py_isspace d" using Cons.prems by simp
    from Cons.IH [OF this] show ?thesis using False by simp
  qed
qed

lemma py_split_words:
  "w \<in> set (py_split s) \<Longrightarrow> w \<noteq> [] \<and> (\<forall>c \<in> set w. \<not> py_isspace c)"
  using split_ws_acc_words [of "[]" s] by (simp add: py_split_def)

lemma split_ws_acc_chars:
  "w \<in> set (split_ws_acc acc s) \<Longrightarrow> set w \<subseteq> set acc \<union> set s"
  by (induction acc s rule: split_ws_acc.induct) (fastforce split: if_splits)+

lemma py_split_chars: "w \<in> set (py_split s) \<Longrightarrow> set w \<subseteq> set s"
  using split_ws_acc_chars [of w "[]" s] by (simp add: py_split_def)

lemma split_ws_acc_word:
  assumes "\<forall>c \<in> set w. \<not> py_isspace c"
  shows "split_ws_acc acc (w @ s) = split_ws_acc (rev w @ acc) s"
  using assms by (induction w arbitrary: acc) auto

lemma split_join_blank:
  assumes "\<forall>w \<in> set ws. w \<noteq> [] \<and> (\<forall>c \<in> set w. \<not> py_isspace c)"
  shows "py_split (py_join '' '' ws) = ws"
  using assms
proof (induction ws rule: induct_list012)
  case 1
  then show ?case by (simp add: py_split_def)
next
  case (2 x)
  then show ?case
    using split_ws_acc_word [of x "[]" "[]"] by (simp add: py_split_def)
next
  case (3 x y xs)
  have IH: "py_split (py_join '' '' (y # xs)) = y # xs"
    using 3 by simp
  have "py_split (x @ '' '' @ py_join '' '' (y # xs))
      = split_ws_acc (rev x) ('' '' @ py_join '' '' (y # xs))"
    using 3 split_ws_acc_word [of x "[]"] by (simp add: py_split_def)
  also have "\<dots> = x # split_ws_acc [] (py_join '' '' (y # xs))"
    using 3 by simp
  also have "\<dots> = x # y # xs"
    using IH by (simp add: py_split_def)
  finally show ?case by simp
qed

lemma py_join_last:
  assumes "ws \<noteq> []" and "\<forall>w \<in> set ws. w \<noteq> []"
  shows "py_join sep ws \<noteq> [] \<and> hd (py_join sep ws) = hd (hd ws)
       \<and> last (py_join sep ws) = last (last ws)"
  using assms by (induction ws rule: induct_list012) auto

text \<open>Text that neither begins nor ends with a blank is unchanged by \<open>strip\<close>.\<close>

lemma py_strip_id:
  assumes "s \<noteq> []" and "\<not> py_isspace (hd s)" and "\<not> py_isspace (last s)"
  shows "py_strip s = s"
proof -
  have "py_lstrip s = s" using assms by (intro lstrip_id) simp
  moreover have "dropWhile py_isspace (rev s) = rev s"
    using assms by (cases "rev s") (auto simp: last_rev)
  ultimately show ?thesis by (simp add: py_strip_def py_rstrip_def)
qed

lemma py_strip_join_blank:
  assumes "\<forall>w \<in> set ws. w \<noteq> [] \<and> (\<forall>c \<in> set w. \<not> py_isspace c)"
  shows "py_strip (py_join '' '' ws) = py_join '' '' ws"
proof (cases "ws = []")
  case False
  have j: "py_join '' '' ws \<noteq> []" "hd (py_join '' '' ws) = hd (hd ws)"
      "last (py_join '' '' ws) = last (last ws)"
    using py_join_last [OF False] assms by blast+
  have mem: "hd ws \<in> set ws" "last ws \<in> set ws" using False by simp_all
  then have "hd ws \<noteq> []" "last ws \<noteq> []" using assms by blast+
  then have "hd (hd ws) \<in> set (hd ws)" "last (last ws) \<in> set (last ws)" by simp_all
  then have "\<not> py_isspace (hd (hd ws))" "\<not> py_isspace (last (last ws))"
    using assms mem by blast+
  then show ?thesis using j by (intro py_strip_id) simp_all
qed simp

lemma py_split_on_not_Nil [simp]: "py_split_on sep s \<noteq> []"
  by (cases s) (auto split: list.splits)

lemma py_split_on_join: "py_join [sep] (py_split_on sep s) = s"
proof (induction s)
  case Nil
  then show ?case by simp
next
  case (Cons c cs)
  obtain w ws where ws: "py_split_on sep cs = w # ws"
    by (cases "py_split_on sep cs") auto
  then show ?case using Cons by (cases ws) auto
qed

section \<open>First occurrences\<close>

text \<open>
  Several routines keep the first element of each key, in order.  Their common contract: the
  accumulator \<open>seen\<close> decides, a new key is kept and remembered.
\<close>

locale first_seen_filter =
  fixes go :: "'k list \<Rightarrow> 'a list \<Rightarrow> 'a list" and key :: "'a \<Rightarrow> 'k"
  assumes go_Nil: "go seen [] = []"
    and go_seen: "key x \<in> set seen \<Longrightarrow> go seen (x # xs) = go seen xs"
    and go_new: "key x \<notin> set seen \<Longrightarrow> go seen (x # xs) = x # go (key x # seen) xs"
begin

lemma keys_go: "key ` set (go seen xs) = key ` set xs - set seen"
proof (induction xs arbitrary: seen)
  case Nil
  then show ?case by (simp add: go_Nil)
next
  case (Cons x xs)
  then show ?case by (cases "key x \<in> set seen") (auto simp: go_seen go_new)
qed

lemma distinct_go: "distinct (map key (go seen xs))"
proof (induction xs arbitrary: seen)
  case Nil
  then show ?case by (simp add: go_Nil)
next
  case (Cons x xs)
  show ?case
  proof (cases "key x \<in> set seen")
    case True
    then show ?thesis using Cons by (simp add: go_seen)
  next
    case False
    have "key x \<notin> key ` set (go (key x # seen) xs)" by (simp add: keys_go)
    then show ?thesis using Cons False by (simp add: go_new)
  qed
qed

lemma set_go: "set (go seen xs) \<subseteq> set xs"
proof (induction xs arbitrary: seen)
  case Nil
  then show ?case by (simp add: go_Nil)
next
  case (Cons x xs)
  then show ?case by (cases "key x \<in> set seen") (fastforce simp: go_seen go_new)+
qed

text \<open>What is kept for a key is its first element.\<close>

lemma find_go: "k \<notin> set seen \<Longrightarrow> find (\<lambda>x. key x = k) (go seen xs) = find (\<lambda>x. key x = k) xs"
proof (induction xs arbitrary: seen)
  case Nil
  then show ?case by (simp add: go_Nil)
next
  case (Cons x xs)
  then show ?case by (cases "key x \<in> set seen") (auto simp: go_seen go_new)
qed

lemma go_distinct: "distinct (map key xs) \<Longrightarrow> key ` set xs \<inter> set seen = {} \<Longrightarrow> go seen xs = xs"
proof (induction xs arbitrary: seen)
  case Nil
  then show ?case by (simp add: go_Nil)
next
  case (Cons x xs)
  then have "go (key x # seen) xs = xs" by (intro Cons.IH) auto
  then show ?case using Cons.prems by (simp add: go_new)
qed

lemma go_idem: "go [] (go [] xs) = go [] xs"
  by (rule go_distinct) (simp_all add: distinct_go)

end

end
