(* ===== verification/Values.thy ===== *)
theory Values
  imports Prelude
begin

text \<open>
  Dynamically typed values: the \<open>Any\<close> that provider rows, torrent rows and settings carry
  (JSON without floating-point numbers), with the conversions the code applies to them:
  truth testing, \<open>str(v)\<close>, \<open>int(v)\<close>, \<open>d.get(k)\<close>.  Decimal printing and parsing of
  integers are inverse to each other.
\<close>

section \<open>Decimal integers\<close>

fun nat_str :: "nat \<Rightarrow> string" where
  "nat_str n = (if n < 10 then [char_of (48 + n)]
                else nat_str (n div 10) @ [char_of (48 + n mod 10)])"

declare nat_str.simps [simp del]

definition int_str :: "int \<Rightarrow> string" where
  "int_str i = (if i < 0 then CHR ''-'' # nat_str (nat (- i)) else nat_str (nat i))"

text \<open>\<open>f"{n:05d}"\<close>: zero padding to a width.\<close>

definition nat_str_pad :: "nat \<Rightarrow> nat \<Rightarrow> string" where
  "nat_str_pad w n = replicate (w - length (nat_str n)) CHR ''0'' @ nat_str n"

text \<open>
  \<open>int(s)\<close>: surrounding blanks, a sign, decimal digits with single underscores between
  digits; \<open>None\<close> is the \<open>ValueError\<close>.
\<close>

fun int_digits :: "bool \<Rightarrow> nat \<Rightarrow> string \<Rightarrow> nat option" where
  "int_digits p acc [] = (if p then Some acc else None)"
| "int_digits p acc (c # cs) =
     (if py_isdigit c then int_digits True (10 * acc + (of_char c - 48)) cs
      else if c = CHR ''_'' \<and> p then int_digits False acc cs
      else None)"

definition parse_int :: "string \<Rightarrow> int option" where
  "parse_int s =
     (case py_strip s of
        [] \<Rightarrow> None
      | c # cs \<Rightarrow>
          if c = CHR ''-'' then map_option (\<lambda>n. - int n) (int_digits False 0 cs)
          else if c = CHR ''+'' then map_option int (int_digits False 0 cs)
          else map_option int (int_digits False 0 (c # cs)))"

lemma digit_char:
  assumes "d < (10::nat)"
  shows "py_isdigit (char_of (48 + d))" and "(of_char (char_of (48 + d) :: char) :: nat) - 48 = d"
  using assms by (simp_all add: py_isdigit_def of_char_char_of_small Let_def)

lemma nat_str_not_Nil [simp]: "nat_str n \<noteq> []"
  by (subst nat_str.simps) simp

lemma nat_str_digits: "\<forall>c \<in> set (nat_str n). py_isdigit c"
proof (induction n rule: nat_str.induct)
  case (1 n)
  show ?case
  proof (cases "n < 10")
    case True
    then show ?thesis by (subst nat_str.simps) (simp add: digit_char)
  next
    case False
    with 1 have "\<forall>c \<in> set (nat_str (n div 10)). py_isdigit c" by simp
    moreover have "py_isdigit (char_of (48 + n mod 10))" by (rule digit_char) simp
    ultimately show ?thesis using False by (subst nat_str.simps) auto
  qed
qed

lemma int_digits_nat_str: "int_digits p 0 (nat_str n @ t) = int_digits True n t"
proof (induction n arbitrary: p t rule: nat_str.induct)
  case (1 n)
  show ?case
  proof (cases "n < 10")
    case True
    then show ?thesis
      by (subst nat_str.simps) (simp add: digit_char)
  next
    case False
    let ?d = "char_of (48 + n mod 10) :: char"
    have d: "py_isdigit ?d" "(of_char ?d :: nat) - 48 = n mod 10"
      by (rule digit_char, simp)+
    have "int_digits p 0 (nat_str n @ t) = int_digits p 0 (nat_str (n div 10) @ ?d # t)"
      using False by (subst nat_str.simps) simp
    also have "\<dots> = int_digits True (n div 10) (?d # t)"
      using False 1 by blast
    also have "\<dots> = int_digits True n t"
      using d by (simp add: mult.commute)
    finally show ?thesis .
  qed
qed

lemma digit_not_space: "py_isdigit c \<Longrightarrow> \<not> py_isspace c"
  by (auto simp: py_isdigit_def py_isspace_def Let_def)

lemma nat_str_strip: "py_strip (nat_str n) = nat_str n"
  using nat_str_digits digit_not_space by (intro py_strip_no_space) blast

lemma nat_str_hd: "py_isdigit (hd (nat_str n))"
  using nat_str_digits by (metis list.set_sel(1) nat_str_not_Nil)

lemma sign_not_digit [simp]: "\<not> py_isdigit CHR ''-''" "\<not> py_isdigit CHR ''+''"
  by (simp_all add: py_isdigit_def)

lemma parse_nat_str: "parse_int (nat_str n) = Some (int n)"
proof -
  obtain c cs where c: "nat_str n = c # cs" by (cases "nat_str n") simp_all
  have "py_isdigit c" using nat_str_hd [of n] c by simp
  then have nc: "c \<noteq> CHR ''-''" "c \<noteq> CHR ''+''" by auto
  have "int_digits False 0 (c # cs) = Some n"
    using int_digits_nat_str [of False n "[]"] c by simp
  moreover have "py_strip (c # cs) = c # cs" using nat_str_strip [of n] c by simp
  ultimately show ?thesis using nc by (simp add: parse_int_def c del: int_digits.simps)
qed

lemma parse_int_str: "parse_int (int_str i) = Some i"
proof (cases "i < 0")
  case False
  then show ?thesis by (simp add: int_str_def parse_nat_str)
next
  case True
  let ?s = "nat_str (nat (- i))"
  have "\<forall>c \<in> set (CHR ''-'' # ?s). \<not> py_isspace c"
    using nat_str_digits digit_not_space by (auto simp: py_isspace_def)
  then have "py_strip (CHR ''-'' # ?s) = CHR ''-'' # ?s" by (rule py_strip_no_space)
  moreover have "int_digits False 0 ?s = Some (nat (- i))"
    using int_digits_nat_str [of False "nat (- i)" "[]"] by simp
  ultimately show ?thesis
    using True by (simp add: int_str_def parse_int_def)
qed

lemma int_str_inject [simp]: "int_str i = int_str j \<longleftrightarrow> i = j"
  using parse_int_str by (metis option.inject)

lemma nat_str_inject [simp]: "nat_str m = nat_str n \<longleftrightarrow> m = n"
  using parse_nat_str by (metis of_nat_eq_iff option.inject)

section \<open>Values\<close>

datatype pyval =
    PNone
  | PBool bool
  | PInt int
  | PStr string
  | PList "pyval list"
  | PDict "(string \<times> pyval) list"

type_synonym pydict = "(string \<times> pyval) list"

fun py_truthy :: "pyval \<Rightarrow> bool" where
  "py_truthy PNone = False"
| "py_truthy (PBool b) = b"
| "py_truthy (PInt i) = (i \<noteq> 0)"
| "py_truthy (PStr s) = (s \<noteq> [])"
| "py_truthy (PList xs) = (xs \<noteq> [])"
| "py_truthy (PDict d) = (d \<noteq> [])"

text \<open>\<open>d.get(k)\<close>, with \<open>None\<close> for a missing key.\<close>

definition dget :: "pydict \<Rightarrow> string \<Rightarrow> pyval" where
  "dget d k = (case map_of d k of None \<Rightarrow> PNone | Some v \<Rightarrow> v)"

text \<open>\<open>a or b\<close>.\<close>

definition py_or :: "pyval \<Rightarrow> pyval \<Rightarrow> pyval" where
  "py_or a b = (if py_truthy a then a else b)"

text \<open>\<open>repr\<close> of a string: the quote is chosen, then quote, backslash and control characters
  are escaped.\<close>

definition hex_digit :: "nat \<Rightarrow> char" where
  "hex_digit n = (if n < 10 then char_of (48 + n) else char_of (87 + n))"

definition repr_char :: "char \<Rightarrow> char \<Rightarrow> string" where
  "repr_char q c =
     (let n = (of_char c :: nat)
      in if c = q \<or> n = 92 then [char_of (92::nat), c]
         else if n = 9 then [char_of (92::nat), CHR ''t'']
         else if n = 10 then [char_of (92::nat), CHR ''n'']
         else if n = 13 then [char_of (92::nat), CHR ''r'']
         else if n < 32 \<or> (127 \<le> n \<and> n \<le> 160) \<or> n = 173
           then [char_of (92::nat), CHR ''x'', hex_digit (n div 16), hex_digit (n mod 16)]
         else [c])"

definition repr_str :: "string \<Rightarrow> string" where
  "repr_str s =
     (let q = (if char_of (39::nat) \<in> set s \<and> char_of (34::nat) \<notin> set s
               then char_of (34::nat) else char_of (39::nat))
      in [q] @ concat (map (repr_char q) s) @ [q])"

fun py_repr :: "pyval \<Rightarrow> string"
and py_repr_items :: "pyval list \<Rightarrow> string list"
and py_repr_pairs :: "(string \<times> pyval) list \<Rightarrow> string list" where
  "py_repr PNone = ''None''"
| "py_repr (PBool b) = (if b then ''True'' else ''False'')"
| "py_repr (PInt i) = int_str i"
| "py_repr (PStr s) = repr_str s"
| "py_repr (PList xs) = ''['' @ py_join '', '' (py_repr_items xs) @ '']''"
| "py_repr (PDict d) = ''{'' @ py_join '', '' (py_repr_pairs d) @ ''}''"
| "py_repr_items [] = []"
| "py_repr_items (x # xs) = py_repr x # py_repr_items xs"
| "py_repr_pairs [] = []"
| "py_repr_pairs ((k, v) # kvs) = (repr_str k @ '': '' @ py_repr v) # py_repr_pairs kvs"

text \<open>\<open>str(v)\<close>: the text itself for a string, the representation otherwise.\<close>

definition py_str :: "pyval \<Rightarrow> string" where
  "py_str v = (case v of PStr s \<Rightarrow> s | _ \<Rightarrow> py_repr v)"

text \<open>\<open>str(v or "")\<close>.\<close>

definition str_or_empty :: "pyval \<Rightarrow> string" where
  "str_or_empty v = (if py_truthy v then py_str v else [])"

text \<open>\<open>int(v)\<close>; \<open>None\<close> stands for the \<open>TypeError\<close> or \<open>ValueError\<close> every caller catches.\<close>

fun py_int :: "pyval \<Rightarrow> int option" where
  "py_int (PBool b) = Some (if b then 1 else 0)"
| "py_int (PInt i) = Some i"
| "py_int (PStr s) = parse_int s"
| "py_int _ = None"

text \<open>\<open>int(round(x))\<close> rounds half to even.\<close>

definition py_round :: "rat \<Rightarrow> int" where
  "py_round x =
     (let f = \<lfloor>x\<rfloor>; d = x - of_int f
      in if d < 1 / 2 then f else if d > 1 / 2 then f + 1
         else if even f then f else f + 1)"

text \<open>
  \<open>float(v)\<close> as a rational: decimal notation with an optional exponent.  The texts for infinity and
  not-a-number are outside the model.
\<close>

definition digits_or_none :: "string \<Rightarrow> bool" where
  "digits_or_none s = (s = [] \<or> int_digits False 0 s \<noteq> None)"

definition parse_exponent :: "string \<Rightarrow> int option" where
  "parse_exponent s =
     (case s of
        [] \<Rightarrow> None
      | c # cs \<Rightarrow>
          if c = CHR ''-'' then map_option (\<lambda>n. - int n) (int_digits False 0 cs)
          else if c = CHR ''+'' then map_option int (int_digits False 0 cs)
          else map_option int (int_digits False 0 s))"

definition power_of_ten :: "int \<Rightarrow> rat" where
  "power_of_ten e = (if e < 0 then 1 / 10 ^ nat (- e) else 10 ^ nat e)"

definition parse_unsigned_float :: "string \<Rightarrow> rat option" where
  "parse_unsigned_float s =
     (let is_e = (\<lambda>c. c = CHR ''e'' \<or> c = CHR ''E'');
          mant = takeWhile (\<lambda>c. \<not> is_e c) s; tail = dropWhile (\<lambda>c. \<not> is_e c) s;
          whole = takeWhile (\<lambda>c. c \<noteq> CHR ''.'') mant;
          frac = drop 1 (dropWhile (\<lambda>c. c \<noteq> CHR ''.'') mant);
          e = (if tail = [] then Some 0 else parse_exponent (tl tail));
          value = (\<lambda>t. case int_digits False 0 t of None \<Rightarrow> 0 | Some n \<Rightarrow> rat_of_nat n)
      in if (whole = [] \<and> frac = []) \<or> \<not> digits_or_none whole \<or> \<not> digits_or_none frac then None
         else map_option (\<lambda>e. (value whole + value frac / 10 ^ length (filter py_isdigit frac))
                               * power_of_ten e) e)"

definition parse_float :: "string \<Rightarrow> rat option" where
  "parse_float s =
     (case py_strip s of
        [] \<Rightarrow> None
      | c # cs \<Rightarrow>
          if c = CHR ''-'' then map_option uminus (parse_unsigned_float cs)
          else if c = CHR ''+'' then parse_unsigned_float cs
          else parse_unsigned_float (c # cs))"

fun py_float :: "pyval \<Rightarrow> rat option" where
  "py_float (PBool b) = Some (if b then 1 else 0)"
| "py_float (PInt i) = Some (rat_of_int i)"
| "py_float (PStr s) = parse_float s"
| "py_float _ = None"

lemma str_or_empty_simps [simp]:
  "str_or_empty PNone = []"
  "str_or_empty (PStr s) = s"
  by (simp_all add: str_or_empty_def py_str_def)

lemma dget_simps [simp]:
  "dget [] k = PNone"
  "dget ((k, v) # d) k = v"
  "k \<noteq> k' \<Longrightarrow> dget ((k, v) # d) k' = dget d k'"
  by (simp_all add: dget_def)

lemma py_int_str: "py_int (PStr (py_str (PInt i))) = Some i"
  by (simp add: py_str_def parse_int_str)

end
