(* ===== verification/Covers.thy ===== *)
theory Covers
  imports Values
begin

text \<open>
  Cover image selection (\<open>domain/cover_images.py\<close>): variants with optional pixel sizes, the
  smallest image that still covers the slot, the largest when none does.  CSS lengths and
  pixel ratios are exact rationals.
\<close>

section \<open>Variants\<close>

definition size_rank :: "string \<Rightarrow> int" where
  "size_rank s =
     (if s = ''small'' then 1 else if s = ''medium'' then 2
      else if s = ''large'' then 3 else if s = ''original'' then 4 else 0)"

record CoverVariant =
  cv_url :: string
  cv_size :: string
  cv_width :: "int option"
  cv_height :: "int option"

text \<open>A variant is a \<open>CoverVariant\<close> or a mapping with the same keys.\<close>

datatype cover_item = CV CoverVariant | CM pydict

definition as_dict :: "CoverVariant \<Rightarrow> pydict" where
  "as_dict v =
     [(''url'', PStr (cv_url v)), (''size'', PStr (cv_size v))]
     @ (case cv_width v of None \<Rightarrow> [] | Some w \<Rightarrow> [(''width'', PInt w)])
     @ (case cv_height v of None \<Rightarrow> [] | Some h \<Rightarrow> [(''height'', PInt h)])"

definition variants_as_dicts :: "CoverVariant list \<Rightarrow> pydict list" where
  "variants_as_dicts vs = map as_dict vs"

text \<open>\<open>None\<close> is an argument \<open>float()\<close> rejects.\<close>

definition needed_cover_px :: "rat option \<Rightarrow> rat option \<Rightarrow> int" where
  "needed_cover_px css_px device_pixel_ratio =
     (let css = (case css_px of None \<Rightarrow> 0 | Some c \<Rightarrow> c);
          dpr = (case device_pixel_ratio of None \<Rightarrow> 1 | Some d \<Rightarrow> d)
      in if css \<le> 0 then 0
         else let dpr' = (if dpr \<le> 0 then 1 else dpr)
              in max 1 (py_round (css * dpr')))"

definition positive_int :: "int option \<Rightarrow> int option" where
  "positive_int w = (case w of None \<Rightarrow> None | Some v \<Rightarrow> if v > 0 then Some v else None)"

fun variant_width :: "cover_item \<Rightarrow> int option" where
  "variant_width (CV v) = positive_int (cv_width v)"
| "variant_width (CM d) = positive_int (py_int (dget d ''width''))"

fun variant_url :: "cover_item \<Rightarrow> string option" where
  "variant_url (CV v) = or_none (py_strip (cv_url v))"
| "variant_url (CM d) = or_none (py_strip (str_or_empty (dget d ''url'')))"

fun variant_size_rank :: "cover_item \<Rightarrow> int" where
  "variant_size_rank (CV v) = size_rank (cv_size v)"
| "variant_size_rank (CM d) = size_rank (py_str (py_or (dget d ''size'') (PStr ''medium'')))"

section \<open>Selection\<close>

fun cover_sized :: "cover_item list \<Rightarrow> (int \<times> string) list" where
  "cover_sized [] = []"
| "cover_sized (item # items) =
     (case (variant_url item, variant_width item) of
        (Some url, Some width) \<Rightarrow> (width, url) # cover_sized items
      | _ \<Rightarrow> cover_sized items)"

fun cover_unsized :: "cover_item list \<Rightarrow> (int \<times> string) list" where
  "cover_unsized [] = []"
| "cover_unsized (item # items) =
     (case (variant_url item, variant_width item) of
        (Some url, None) \<Rightarrow> (variant_size_rank item, url) # cover_unsized items
      | _ \<Rightarrow> cover_unsized items)"

definition pick_cover_url ::
  "cover_item list \<Rightarrow> int \<Rightarrow> string option \<Rightarrow> string option" where
  "pick_cover_url items needed_px fallback =
     (let sized = cover_sized items; unsized = cover_unsized items
      in if sized \<noteq> [] then
           (let needed = max 0 needed_px;
                adequate = filter (\<lambda>(w, u). w \<ge> needed) sized
            in if adequate \<noteq> [] then Some (snd (hd (sort_key fst adequate)))
               else Some (snd (hd (sort_key (\<lambda>p. - fst p) sized))))
         else if unsized \<noteq> [] then Some (snd (hd (sort_key (\<lambda>p. - fst p) unsized)))
         else fallback)"

definition largest_cover_url :: "cover_item list \<Rightarrow> string option \<Rightarrow> string option" where
  "largest_cover_url items fallback = pick_cover_url items (10 ^ 9) fallback"

text \<open>Building variants from a provider's key-to-url mapping and a dimension catalogue.\<close>

fun cover_variants_from_mapping ::
  "(string \<times> string option) list \<Rightarrow> (string \<rightharpoonup> int \<times> int) \<Rightarrow> (string \<rightharpoonup> string)
   \<Rightarrow> CoverVariant list" where
  "cover_variants_from_mapping [] dims labels = []"
| "cover_variants_from_mapping ((key, url) # rest) dims labels =
     (if or_empty url = [] then cover_variants_from_mapping rest dims labels
      else \<lparr>cv_url = or_empty url,
            cv_size = (case labels key of None \<Rightarrow> key | Some l \<Rightarrow> l),
            cv_width = map_option fst (dims key),
            cv_height = map_option snd (dims key)\<rparr>
           # cover_variants_from_mapping rest dims labels)"

definition ANILIST_COVER_DIMENSIONS :: "string \<rightharpoonup> int \<times> int" where
  "ANILIST_COVER_DIMENSIONS =
     [''medium'' \<mapsto> (230, 326), ''large'' \<mapsto> (460, 650), ''extraLarge'' \<mapsto> (960, 1360)]"

definition JIKAN_COVER_DIMENSIONS :: "string \<rightharpoonup> int \<times> int" where
  "JIKAN_COVER_DIMENSIONS =
     [''small_image_url'' \<mapsto> (168, 236), ''image_url'' \<mapsto> (225, 350),
      ''large_image_url'' \<mapsto> (300, 450)]"

definition MAL_COVER_DIMENSIONS :: "string \<rightharpoonup> int \<times> int" where
  "MAL_COVER_DIMENSIONS =
     [''small'' \<mapsto> (100, 141), ''medium'' \<mapsto> (225, 318), ''large'' \<mapsto> (425, 600)]"

definition ANILIST_SIZE_LABELS :: "string \<rightharpoonup> string" where
  "ANILIST_SIZE_LABELS =
     [''medium'' \<mapsto> ''medium'', ''large'' \<mapsto> ''large'', ''extraLarge'' \<mapsto> ''original'']"

text \<open>Kitsu's \<open>posterImage.meta.dimensions[size]\<close>, for a decoded JSON poster.\<close>

definition merge_kitsu_dimensions :: "pyval \<Rightarrow> string \<Rightarrow> int option \<times> int option" where
  "merge_kitsu_dimensions poster size_label =
     (case poster of
        PDict p \<Rightarrow>
          (case dget p ''meta'' of
             PDict m \<Rightarrow>
               (case dget m ''dimensions'' of
                  PDict d \<Rightarrow>
                    (case dget d size_label of
                       PDict e \<Rightarrow> (py_int (dget e ''width''), py_int (dget e ''height''))
                     | _ \<Rightarrow> (None, None))
                | _ \<Rightarrow> (None, None))
           | _ \<Rightarrow> (None, None))
      | _ \<Rightarrow> (None, None))"

section \<open>The chosen cover\<close>

declare variant_url.simps [simp del] variant_width.simps [simp del]
  variant_size_rank.simps [simp del]

lemma hd_sort_key:
  assumes "xs \<noteq> []"
  shows "hd (sort_key f xs) \<in> set xs" and "x \<in> set xs \<Longrightarrow> f (hd (sort_key f xs)) \<le> f x"
proof -
  obtain y ys where y: "sort_key f xs = y # ys"
    using assms by (metis length_0_conv length_sort list.exhaust)
  then have s: "set xs = set (y # ys)" by (metis set_sort)
  then show "hd (sort_key f xs) \<in> set xs" using y by simp
  have "sorted (map f (y # ys))" using y sorted_sort_key [of f xs] by simp
  then show "x \<in> set xs \<Longrightarrow> f (hd (sort_key f xs)) \<le> f x"
    using y s by auto
qed

lemma cover_sized_iff:
  "(w, u) \<in> set (cover_sized items) \<longleftrightarrow>
   (\<exists>item \<in> set items. variant_url item = Some u \<and> variant_width item = Some w)"
  by (induction items) (auto split: option.splits)

lemma cover_unsized_iff:
  "(r, u) \<in> set (cover_unsized items) \<longleftrightarrow>
   (\<exists>item \<in> set items. variant_url item = Some u \<and> variant_width item = None
      \<and> variant_size_rank item = r)"
  by (induction items) (auto split: option.splits)

lemma positive_int_pos: "positive_int w = Some v \<Longrightarrow> 0 < v"
  by (auto simp: positive_int_def split: option.splits if_splits)

lemma variant_width_pos: "variant_width item = Some w \<Longrightarrow> 0 < w"
  by (cases item) (auto simp: variant_width.simps dest: positive_int_pos)

lemma pick_cover_adequate:
  assumes "adequate = filter (\<lambda>(w, u). w \<ge> max 0 needed) (cover_sized items)"
    and "adequate \<noteq> []"
  shows "\<exists>w u. pick_cover_url items needed fb = Some u \<and> (w, u) \<in> set adequate
           \<and> (\<forall>(w', u') \<in> set adequate. w \<le> w')"
proof -
  let ?p = "hd (sort_key fst adequate)"
  have "cover_sized items \<noteq> []" using assms by auto
  then have "pick_cover_url items needed fb = Some (snd ?p)"
    using assms by (simp add: pick_cover_url_def Let_def)
  moreover have "?p \<in> set adequate" and "\<forall>x \<in> set adequate. fst ?p \<le> fst x"
    using hd_sort_key [OF assms(2), where f = fst] by blast+
  ultimately show ?thesis
    by (intro exI [of _ "fst ?p"] exI [of _ "snd ?p"]) (simp add: case_prod_unfold)
qed

lemma pick_cover_none_adequate:
  assumes "cover_sized items \<noteq> []"
    and "filter (\<lambda>(w, u). w \<ge> max 0 needed) (cover_sized items) = []"
  shows "\<exists>w u. pick_cover_url items needed fb = Some u \<and> (w, u) \<in> set (cover_sized items)
           \<and> (\<forall>(w', u') \<in> set (cover_sized items). w' \<le> w)"
proof -
  let ?s = "cover_sized items"
  let ?p = "hd (sort_key (\<lambda>p. - fst p) ?s)"
  have "pick_cover_url items needed fb = Some (snd ?p)"
    using assms by (simp add: pick_cover_url_def Let_def)
  moreover have "?p \<in> set ?s" and "\<forall>x \<in> set ?s. - fst ?p \<le> - fst x"
    using assms(1) hd_sort_key [where xs = "?s" and f = "\<lambda>p. - fst p"] by blast+
  ultimately show ?thesis
    by (intro exI [of _ "fst ?p"] exI [of _ "snd ?p"]) (simp add: case_prod_unfold)
qed

lemma variant_as_dict:
  assumes "cv_size v \<noteq> []"
  shows "variant_url (CM (as_dict v)) = variant_url (CV v)"
    and "variant_width (CM (as_dict v)) = variant_width (CV v)"
    and "variant_size_rank (CM (as_dict v)) = variant_size_rank (CV v)"
  using assms
  by (auto simp: variant_url.simps variant_width.simps variant_size_rank.simps as_dict_def
        dget_def py_or_def py_str_def positive_int_def split: option.splits)

lemma cover_lists_as_dicts:
  assumes "\<forall>v \<in> set vs. cv_size v \<noteq> []"
  shows "cover_sized (map CM (variants_as_dicts vs)) = cover_sized (map CV vs)"
    and "cover_unsized (map CM (variants_as_dicts vs)) = cover_unsized (map CV vs)"
  using assms
  by (induction vs) (auto simp: variants_as_dicts_def variant_as_dict split: option.splits)

section \<open>Properties\<close>

text \<open>
  When some variant has a usable url and a width of at least the needed pixels, the
  chosen url is that of such a variant of least width: the slot is covered and no narrower
  adequate image exists.
\<close>

lemma pick_cover_smallest_adequate:
  assumes "item \<in> set items" and "variant_url item = Some u0"
    and "variant_width item = Some w0" and "max 0 needed_px \<le> w0"
  shows "\<exists>best \<in> set items. \<exists>w.
           pick_cover_url items needed_px fallback = variant_url best
         \<and> variant_width best = Some w \<and> max 0 needed_px \<le> w
         \<and> (\<forall>other \<in> set items. \<forall>w'. variant_url other \<noteq> None \<longrightarrow>
              variant_width other = Some w' \<longrightarrow> max 0 needed_px \<le> w' \<longrightarrow> w \<le> w')"
proof -
  let ?ad = "filter (\<lambda>(w, u). w \<ge> max 0 needed_px) (cover_sized items)"
  have "(w0, u0) \<in> set ?ad" using assms by (auto simp: cover_sized_iff)
  then have "?ad \<noteq> []" by (metis empty_iff list.set(1))
  then obtain w u where pick: "pick_cover_url items needed_px fallback = Some u"
      and mem: "(w, u) \<in> set ?ad" and least: "\<forall>(w', u') \<in> set ?ad. w \<le> w'"
    using pick_cover_adequate [OF refl] by blast
  from mem obtain best where best: "best \<in> set items" "variant_url best = Some u"
      "variant_width best = Some w" "max 0 needed_px \<le> w"
    by (auto simp: cover_sized_iff)
  have "w \<le> w'" if "other \<in> set items" "variant_url other \<noteq> None"
      "variant_width other = Some w'" "max 0 needed_px \<le> w'" for other w'
  proof -
    obtain u' where "variant_url other = Some u'"
      using \<open>variant_url other \<noteq> None\<close> by blast
    then have "(w', u') \<in> set ?ad" using that by (auto simp: cover_sized_iff)
    then show ?thesis using least by blast
  qed
  then show ?thesis using pick best by metis
qed

lemma pick_cover_smallest_adequate_witness:
  "\<exists>best \<in> set [CM [(''url'', PStr ''a''), (''width'', PInt 100)],
                 CM [(''url'', PStr ''b''), (''width'', PStr ''300'')]]. \<exists>w.
     pick_cover_url [CM [(''url'', PStr ''a''), (''width'', PInt 100)],
                     CM [(''url'', PStr ''b''), (''width'', PStr ''300'')]] 200 None
       = variant_url best \<and> variant_width best = Some w \<and> max 0 200 \<le> w"
proof -
  have u: "variant_url (CM [(''url'', PStr ''b''), (''width'', PStr ''300'')]) = Some ''b''"
    by code_simp
  have w: "variant_width (CM [(''url'', PStr ''b''), (''width'', PStr ''300'')]) = Some 300"
    by code_simp
  show ?thesis
    using pick_cover_smallest_adequate
      [of "CM [(''url'', PStr ''b''), (''width'', PStr ''300'')]"
          "[CM [(''url'', PStr ''a''), (''width'', PInt 100)],
            CM [(''url'', PStr ''b''), (''width'', PStr ''300'')]]" "''b''" 300 200 None, OF _ u w]
    by fastforce
qed

text \<open>
  Serialising the variants with \<open>as_dict\<close> does not change the chosen cover: selection on
  the stored mappings agrees with selection on the objects, for labelled variants.
\<close>

lemma pick_cover_as_dicts:
  assumes "\<forall>v \<in> set vs. cv_size v \<noteq> []"
  shows "pick_cover_url (map CM (variants_as_dicts vs)) needed_px fallback
       = pick_cover_url (map CV vs) needed_px fallback"
  using cover_lists_as_dicts [OF assms] by (simp add: pick_cover_url_def)

lemma pick_cover_as_dicts_witness:
  "pick_cover_url (map CM (variants_as_dicts
      [\<lparr>cv_url = ''s'', cv_size = ''small'', cv_width = None, cv_height = None\<rparr>,
       \<lparr>cv_url = ''o'', cv_size = ''original'', cv_width = None, cv_height = None\<rparr>])) 64 None
   = Some ''o''"
proof -
  let ?vs = "[\<lparr>cv_url = ''s'', cv_size = ''small'', cv_width = None, cv_height = None\<rparr>,
       \<lparr>cv_url = ''o'', cv_size = ''original'', cv_width = None, cv_height = None\<rparr>]"
  have "pick_cover_url (map CM (variants_as_dicts ?vs)) 64 None
      = pick_cover_url (map CV ?vs) 64 None"
    by (rule pick_cover_as_dicts) simp
  also have "\<dots> = Some ''o''" by code_simp
  finally show ?thesis .
qed

end
