(* ===== verification/Contracts.thy ===== *)
theory Contracts
  imports Values "HOL-Library.Char_ord" "HOL-Library.List_Lexorder"
begin

text \<open>
  The data contracts shared by the components: \<open>shared/contracts.py\<close> (records, payloads,
  ingestion results and the payload fingerprint), \<open>domain/entities\<close> (the entity handed to
  clients) and \<open>domain/catalog.py\<close> (how a canonical catalogue id is chosen).
\<close>

section \<open>Records\<close>

datatype IngestionStatus = COMPLETE | PARTIAL | FAILED

datatype ProviderName = JIKAN | ANILIST | KITSU | MAL | ANIDB | UNKNOWN

fun provider_value :: "ProviderName \<Rightarrow> string" where
  "provider_value JIKAN = ''jikan''"
| "provider_value ANILIST = ''anilist''"
| "provider_value KITSU = ''kitsu''"
| "provider_value MAL = ''myanimelist''"
| "provider_value ANIDB = ''anidb''"
| "provider_value UNKNOWN = ''unknown''"

record AnimeRecord =
  ar_id :: int
  ar_title :: string
  ar_title_synonyms :: "string list"
  ar_synopsis :: "string option"
  ar_episodes :: "int option"
  ar_duration :: "int option"
  ar_status :: "string option"
  ar_rating :: "string option"
  ar_date_from :: "int option"
  ar_date_to :: "int option"
  ar_picture :: "string option"
  ar_trailer :: "string option"
  ar_broadcast :: "string option"
  ar_genres :: "string list"
  ar_external_ids :: "(string \<times> pyval) list"
  ar_source_provider :: ProviderName
  ar_picture_variants :: "pydict list"

record ProviderAnimePayload =
  pp_title :: string
  pp_external_ids :: "(string \<times> int) list"
  pp_title_synonyms :: "string list"
  pp_synopsis :: "string option"
  pp_episodes :: "int option"
  pp_duration :: "int option"
  pp_status :: "string option"
  pp_rating :: "string option"
  pp_date_from :: "int option"
  pp_date_to :: "int option"
  pp_picture :: "string option"
  pp_trailer :: "string option"
  pp_broadcast :: "string option"
  pp_genres :: "string list"
  pp_source_provider :: ProviderName
  pp_picture_variants :: "pydict list"

record AnimeEntity =
  ae_id :: int
  ae_title :: string
  ae_picture :: "string option"
  ae_title_synonyms :: "string list"
  ae_date_from :: "int option"
  ae_date_to :: "int option"
  ae_episodes :: "int option"
  ae_status :: "string option"
  ae_genres :: "string list"
  ae_tag :: "string option"
  ae_liked :: "bool option"

record IngestionResult =
  ir_status :: IngestionStatus
  ir_payloads :: "ProviderAnimePayload list"
  ir_failed_providers :: nat
  ir_total_providers :: nat
  ir_errors :: "string list"
  ir_persisted_count :: int

definition successful_providers :: "IngestionResult \<Rightarrow> nat" where
  "successful_providers r = ir_total_providers r - ir_failed_providers r"

record ResolvedCatalogEntry =
  rc_catalog_id :: int
  rc_external_ids :: "(string \<times> int) list"
  rc_merged_from :: "int list"

section \<open>Provider keys and fingerprints\<close>

definition INDEX_PROVIDER_KEYS :: "string list" where
  "INDEX_PROVIDER_KEYS = [''mal_id'', ''kitsu_id'', ''anilist_id'', ''anidb_id'']"

datatype fingerprint =
    FpExt "(string \<times> int) list"
  | FpTitle string string

text \<open>The keys of a dictionary are distinct, so sorting its items sorts them by key.\<close>

definition payload_fingerprint :: "ProviderAnimePayload \<Rightarrow> fingerprint" where
  "payload_fingerprint p =
     (let ext = sort_key fst (pp_external_ids p)
      in if ext \<noteq> [] then FpExt ext
         else FpTitle (provider_value (pp_source_provider p))
                (py_lower (py_strip (pp_title p))))"

lemma payload_fingerprint_ext:
  assumes "pp_external_ids p \<noteq> []"
  shows "payload_fingerprint p = payload_fingerprint q \<longleftrightarrow>
         sort_key fst (pp_external_ids p) = sort_key fst (pp_external_ids q)"
proof -
  have ne: "sort_key fst (pp_external_ids r) \<noteq> [] \<longleftrightarrow> pp_external_ids r \<noteq> []" for r
    by (metis length_0_conv length_sort)
  show ?thesis
    using assms by (auto simp: payload_fingerprint_def Let_def ne)
qed

section \<open>Catalogue ids\<close>

datatype RepairStrategy = PROVIDER_ID | TITLE | ALL

fun min_int_list :: "int \<Rightarrow> int list \<Rightarrow> int" where
  "min_int_list m [] = m"
| "min_int_list m (x # xs) = min_int_list (min m x) xs"

definition preferred_catalog_id :: "int list \<Rightarrow> int res" where
  "preferred_catalog_id ids =
     (case ids of
        [] \<Rightarrow> Inl (ValueError ''preferred_catalog_id requires at least one id'')
      | i # is \<Rightarrow>
          (case filter (\<lambda>i. i > 0) ids of
             p # ps \<Rightarrow> Inr (min_int_list p ps)
           | [] \<Rightarrow> Inr (min_int_list i is)))"

lemma min_int_list_Min: "min_int_list m xs = Min (insert m (set xs))"
proof (induction xs arbitrary: m)
  case Nil
  then show ?case by simp
next
  case (Cons x xs)
  have "Min (insert (min m x) (set xs)) = Min (insert m (insert x (set xs)))"
  proof (cases "set xs = {}")
    case True
    then show ?thesis by simp
  next
    case False
    then show ?thesis by (simp add: min.assoc)
  qed
  then show ?case using Cons by simp
qed

lemma preferred_catalog_id_Inr:
  "preferred_catalog_id ids = Inr c \<longleftrightarrow>
   ids \<noteq> [] \<and>
   c = (if \<exists>i \<in> set ids. i > 0 then Min {i \<in> set ids. i > 0} else Min (set ids))"
proof (cases ids)
  case Nil
  then show ?thesis by (simp add: preferred_catalog_id_def)
next
  case (Cons i js)
  show ?thesis
  proof (cases "filter (\<lambda>i. i > 0) ids")
    case Nil
    then have no: "\<not> (\<exists>i \<in> set ids. i > 0)" by (auto simp: filter_empty_conv)
    show ?thesis
      using Nil no by (simp add: preferred_catalog_id_def Cons min_int_list_Min) auto
  next
    case (Cons p ps)
    have set_eq: "insert p (set ps) = {i \<in> set ids. i > 0}"
      using Cons by (metis list.simps(15) set_filter)
    then have "\<exists>i \<in> set ids. i > 0" by auto
    then show ?thesis
      using Cons \<open>ids = i # js\<close> set_eq
      by (simp add: preferred_catalog_id_def min_int_list_Min del: filter.simps) auto
  qed
qed

lemma preferred_catalog_id_mem: "preferred_catalog_id ids = Inr c \<Longrightarrow> c \<in> set ids"
proof -
  assume a: "preferred_catalog_id ids = Inr c"
  then have ne: "ids \<noteq> []" by (simp add: preferred_catalog_id_Inr)
  show ?thesis
  proof (cases "\<exists>i \<in> set ids. i > 0")
    case True
    then have "c = Min {i \<in> set ids. i > 0}" using a by (simp add: preferred_catalog_id_Inr)
    moreover have "Min {i \<in> set ids. i > 0} \<in> {i \<in> set ids. i > 0}"
      using True by (intro Min_in) auto
    ultimately show ?thesis by simp
  next
    case False
    then have "c = Min (set ids)" using a by (simp add: preferred_catalog_id_Inr)
    then show ?thesis using ne by simp
  qed
qed

lemma preferred_catalog_id_total: "ids \<noteq> [] \<Longrightarrow> \<exists>c. preferred_catalog_id ids = Inr c"
  by (simp add: preferred_catalog_id_Inr)

text \<open>The choice depends on the set of ids only, not on their order or multiplicity.\<close>

lemma preferred_catalog_id_set:
  "set ids = set ids' \<Longrightarrow> preferred_catalog_id ids = preferred_catalog_id ids'"
proof (cases "ids = []")
  case False
  assume eq: "set ids = set ids'"
  obtain c where "preferred_catalog_id ids = Inr c"
    using preferred_catalog_id_total [OF False] by blast
  moreover from this have "preferred_catalog_id ids' = Inr c"
    using eq False by (auto simp: preferred_catalog_id_Inr)
  ultimately show ?thesis by simp
qed simp

end
