(* ===== verification/Catalog.thy ===== *)
theory Catalog
  imports Contracts
begin

text \<open>
  The catalogue tables of the two catalogue repositories
  (\<open>adapters/persistence/catalog_repository.py\<close>) and the first of them:
  \<open>CatalogIndexRepository\<close>, lookups, backfill and allocation in \<open>indexList\<close>.

  A table is the list of its rows, a SQL statement acts on the rows its \<open>WHERE\<close> clause
  selects, and a comparison with \<open>NULL\<close> selects nothing.  \<open>broken\<close> lists the tables whose
  statements raise (a missing table, a schema mismatch); \<open>rel_column\<close> is the name the schema
  gives the related-id column of \<open>animeRelations\<close>.  The id a fresh \<open>indexList\<close> row receives
  is the engine's choice and an argument (\<open>fresh_id\<close>).  Locks, commits and log lines are not
  modelled.
\<close>

section \<open>Tables\<close>

record index_row =
  ix_id :: int
  ix_ext :: "string \<Rightarrow> int option"

type_synonym id_value_row = "int \<times> string option"
type_synonym picture_row = "int \<times> string option \<times> string"
type_synonym relation_row = "int \<times> string option \<times> int option"

record catdb =
  indexList :: "index_row list"
  anime_tbl :: "(int \<times> string option) list"
  title_synonyms :: "id_value_row list"
  genres_tbl :: "id_value_row list"
  torrentsIndex :: "id_value_row list"
  pictures :: "picture_row list"
  broadcasts :: "(int \<times> string) list"
  animeRelations :: "relation_row list"
  characterRelations :: "(int \<times> int) list"
  user_tags_tbl :: "(int \<times> string) list"
  rel_column :: string
  broken :: "string list"

definition raises :: "catdb \<Rightarrow> string \<Rightarrow> bool" where
  "raises db table \<longleftrightarrow> table \<in> set (broken db)"

section \<open>The index repository\<close>

definition validate_key :: "string \<Rightarrow> string res" where
  "validate_key key =
     (if key \<in> set INDEX_PROVIDER_KEYS then Inr key
      else Inl (ValueError (''Invalid provider key: '' @ key)))"

definition find_by_external :: "catdb \<Rightarrow> string \<Rightarrow> int \<Rightarrow> int option res" where
  "find_by_external db key ext =
     (case validate_key key of
        Inl e \<Rightarrow> Inl e
      | Inr key \<Rightarrow>
          if raises db ''indexList'' then Inl (RuntimeError ''indexList'')
          else Inr (map_option ix_id (find (\<lambda>r. ix_ext r key = Some ext) (indexList db))))"

text \<open>One query per provider column; a later row of the result overwrites an earlier one.\<close>

fun batch_column :: "index_row list \<Rightarrow> string \<Rightarrow> int list \<Rightarrow> ((string \<times> int) \<times> int) list \<Rightarrow>
    ((string \<times> int) \<times> int) list" where
  "batch_column [] key ids out = out"
| "batch_column (r # rs) key ids out =
     batch_column rs key ids
       (case ix_ext r key of
          None \<Rightarrow> out
        | Some v \<Rightarrow> if v \<in> set ids then AList.update (key, v) (ix_id r) out else out)"

fun group_pairs :: "(string \<times> int) list \<Rightarrow> (string \<times> int list) list \<Rightarrow> (string \<times> int list) list"
  where
  "group_pairs [] grouped = grouped"
| "group_pairs ((k, e) # pairs) grouped =
     group_pairs pairs
       (AList.update k ((case map_of grouped k of None \<Rightarrow> [] | Some es \<Rightarrow> es) @ [e]) grouped)"

definition find_by_external_batch ::
  "catdb \<Rightarrow> (string \<times> int) list \<Rightarrow> ((string \<times> int) \<times> int) list res" where
  "find_by_external_batch db pairs =
     (case find (\<lambda>(k, e). k \<notin> set INDEX_PROVIDER_KEYS) pairs of
        Some (k, e) \<Rightarrow> Inl (ValueError (''Invalid provider key: '' @ k))
      | None \<Rightarrow>
          if pairs \<noteq> [] \<and> raises db ''indexList'' then Inl (RuntimeError ''indexList'')
          else Inr (foldl (\<lambda>out (key, ids). batch_column (indexList db) key ids out) []
                      (group_pairs pairs [])))"

definition get_external_ids :: "catdb \<Rightarrow> int \<Rightarrow> (string \<times> int) list res" where
  "get_external_ids db internal_id =
     (if raises db ''indexList'' then Inl (RuntimeError ''indexList'')
      else Inr (case find (\<lambda>r. ix_id r = internal_id) (indexList db) of
                  None \<Rightarrow> []
                | Some r \<Rightarrow>
                    List.map_filter (\<lambda>col. map_option (Pair col) (ix_ext r col))
                      INDEX_PROVIDER_KEYS))"

text \<open>\<open>UPDATE indexList SET key=? WHERE id=? AND key IS NULL\<close> for every valid item.\<close>

definition backfill_row :: "int \<Rightarrow> string \<Rightarrow> int \<Rightarrow> index_row \<Rightarrow> index_row" where
  "backfill_row internal_id key value r =
     (if ix_id r = internal_id \<and> ix_ext r key = None
      then r\<lparr>ix_ext := (ix_ext r)(key \<mapsto> value)\<rparr> else r)"

fun backfill_items :: "int \<Rightarrow> (string \<times> int) list \<Rightarrow> index_row list \<Rightarrow> index_row list" where
  "backfill_items internal_id [] rows = rows"
| "backfill_items internal_id ((key, value) # items) rows =
     (if key \<in> set INDEX_PROVIDER_KEYS
      then backfill_items internal_id items (map (backfill_row internal_id key value) rows)
      else backfill_items internal_id items rows)"

definition backfill_external_ids ::
  "catdb \<Rightarrow> int \<Rightarrow> (string \<times> int) list \<Rightarrow> catdb res" where
  "backfill_external_ids db internal_id external_ids =
     (if list_ex (\<lambda>(k, v). k \<in> set INDEX_PROVIDER_KEYS) external_ids \<and> raises db ''indexList''
      then Inl (RuntimeError ''indexList'')
      else Inr (db\<lparr>indexList := backfill_items internal_id external_ids (indexList db)\<rparr>))"

text \<open>
  \<open>Database.getId\<close> of \<open>adapters/persistence/dbManager.py\<close>: look the external id up, insert a
  row when it is absent, and look it up again.
\<close>

definition getId :: "(catdb \<Rightarrow> int) \<Rightarrow> catdb \<Rightarrow> string \<Rightarrow> int \<Rightarrow> (int option \<times> catdb) res" where
  "getId fresh_id db key ext =
     (case find_by_external db key ext of
        Inl e \<Rightarrow> Inl e
      | Inr (Some i) \<Rightarrow> Inr (Some i, db)
      | Inr None \<Rightarrow>
          let row = \<lparr>ix_id = fresh_id db, ix_ext = [key \<mapsto> ext]\<rparr>;
              db' = db\<lparr>indexList := indexList db @ [row]\<rparr>
          in (case find_by_external db' key ext of
                Inl e \<Rightarrow> Inl e
              | Inr found \<Rightarrow> Inr (found, db')))"

text \<open>The scan of \<open>allocate\<close> for an external id that is already indexed.\<close>

fun first_existing :: "catdb \<Rightarrow> (string \<times> int) list \<Rightarrow> int option res" where
  "first_existing db [] = Inr None"
| "first_existing db ((key, ext) # items) =
     (case find_by_external db key ext of
        Inl e \<Rightarrow> Inl e
      | Inr (Some i) \<Rightarrow> Inr (Some i)
      | Inr None \<Rightarrow> first_existing db items)"

definition allocate ::
  "(catdb \<Rightarrow> int) \<Rightarrow> catdb \<Rightarrow> (string \<times> int) list \<Rightarrow> (int \<times> catdb) res" where
  "allocate fresh_id db external_ids =
     (let normalized = filter (\<lambda>(k, v). k \<in> set INDEX_PROVIDER_KEYS) external_ids
      in if normalized = []
         then Inl (ValueError ''At least one external id is required to allocate a row'')
         else case first_existing db normalized of
           Inl e \<Rightarrow> Inl e
         | Inr (Some existing) \<Rightarrow>
             map_sum id (Pair existing) (backfill_external_ids db existing normalized)
         | Inr None \<Rightarrow>
             let primary = hd (sort_key fst normalized)
             in (case getId fresh_id db (fst primary) (snd primary) of
                   Inl e \<Rightarrow> Inl e
                 | Inr (None, db') \<Rightarrow> Inl (RuntimeError ''getId failed to allocate indexList row'')
                 | Inr (Some i, db') \<Rightarrow>
                     map_sum id (Pair i) (backfill_external_ids db' i normalized)))"

section \<open>Well-formed indexes\<close>

text \<open>
  The invariant of \<open>indexList\<close>: internal ids are distinct and no two rows carry the same
  external id of a provider.
\<close>

definition index_wf :: "index_row list \<Rightarrow> bool" where
  "index_wf rows \<longleftrightarrow>
     distinct (map ix_id rows)
     \<and> (\<forall>k \<in> set INDEX_PROVIDER_KEYS. \<forall>r \<in> set rows. \<forall>s \<in> set rows.
          ix_ext r k \<noteq> None \<longrightarrow> ix_ext r k = ix_ext s k \<longrightarrow> ix_id r = ix_id s)"

lemma index_wf_ids: "index_wf rows \<Longrightarrow> distinct (map ix_id rows)"
  by (simp add: index_wf_def)

lemma index_wfD:
  "index_wf rows \<Longrightarrow> k \<in> set INDEX_PROVIDER_KEYS \<Longrightarrow> r \<in> set rows \<Longrightarrow> s \<in> set rows \<Longrightarrow>
   ix_ext r k \<noteq> None \<Longrightarrow> ix_ext r k = ix_ext s k \<Longrightarrow> ix_id r = ix_id s"
  unfolding index_wf_def by blast

lemma index_wfI:
  assumes "distinct (map ix_id rows)"
    and "\<And>k r s. k \<in> set INDEX_PROVIDER_KEYS \<Longrightarrow> r \<in> set rows \<Longrightarrow> s \<in> set rows \<Longrightarrow>
           ix_ext r k \<noteq> None \<Longrightarrow> ix_ext r k = ix_ext s k \<Longrightarrow> ix_id r = ix_id s"
  shows "index_wf rows"
  using assms unfolding index_wf_def by blast

lemma distinct_ids_eq:
  "distinct (map ix_id rows) \<Longrightarrow> r \<in> set rows \<Longrightarrow> s \<in> set rows \<Longrightarrow>
   ix_id r = ix_id s \<Longrightarrow> r = s"
  by (auto simp: distinct_map dest: inj_onD)

lemma index_wf_rows_eq:
  assumes "index_wf rows" and "r \<in> set rows" and "s \<in> set rows"
    and "k \<in> set INDEX_PROVIDER_KEYS" and "ix_ext r k = Some e" and "ix_ext s k = Some e"
  shows "r = s"
proof -
  have "ix_ext r k \<noteq> None" "ix_ext r k = ix_ext s k" using assms(5,6) by simp_all
  then have "ix_id r = ix_id s" by (rule index_wfD [OF assms(1,4,2,3)])
  then show ?thesis by (rule distinct_ids_eq [OF index_wf_ids [OF assms(1)] assms(2,3)])
qed

lemma find_Some_mem: "find P xs = Some x \<Longrightarrow> x \<in> set xs \<and> P x"
  by (induction xs) (auto split: if_splits)

lemma find_None_iff_list: "find P xs = None \<longleftrightarrow> (\<forall>x \<in> set xs. \<not> P x)"
  by (induction xs) auto

lemma find_row_wf:
  assumes "index_wf rows" and "k \<in> set INDEX_PROVIDER_KEYS"
  shows "find (\<lambda>r. ix_ext r k = Some e) rows = Some r \<longleftrightarrow> r \<in> set rows \<and> ix_ext r k = Some e"
proof
  show "find (\<lambda>r. ix_ext r k = Some e) rows = Some r \<Longrightarrow> r \<in> set rows \<and> ix_ext r k = Some e"
    by (auto dest: find_Some_mem)
next
  assume a: "r \<in> set rows \<and> ix_ext r k = Some e"
  then obtain s where s: "find (\<lambda>r. ix_ext r k = Some e) rows = Some s"
    by (cases "find (\<lambda>r. ix_ext r k = Some e) rows") (auto simp: find_None_iff_list)
  then have "s \<in> set rows" "ix_ext s k = Some e" by (auto dest: find_Some_mem)
  with a have "s = r" using index_wf_rows_eq [OF assms(1) _ _ assms(2)] by blast
  with s show "find (\<lambda>r. ix_ext r k = Some e) rows = Some r" by simp
qed

lemma find_id_row:
  assumes "distinct (map ix_id rows)" and "r \<in> set rows"
  shows "find (\<lambda>s. ix_id s = ix_id r) rows = Some r"
proof -
  obtain s where s: "find (\<lambda>s. ix_id s = ix_id r) rows = Some s"
    using assms(2) by (cases "find (\<lambda>s. ix_id s = ix_id r) rows") (auto simp: find_None_iff_list)
  then have "s \<in> set rows" "ix_id s = ix_id r" by (auto dest: find_Some_mem)
  then have "s = r" using distinct_ids_eq [OF assms(1)] assms(2) by blast
  then show ?thesis using s by simp
qed

section \<open>Lookups and backfill\<close>

text \<open>What a lookup of a valid key returns on a working table.\<close>

lemma find_by_external_ok:
  assumes "k \<in> set INDEX_PROVIDER_KEYS" and "\<not> raises db ''indexList''"
  shows "find_by_external db k e =
     Inr (map_option ix_id (find (\<lambda>r. ix_ext r k = Some e) (indexList db)))"
  using assms by (simp add: find_by_external_def validate_key_def)

lemma find_by_external_wf:
  assumes "index_wf (indexList db)" and "k \<in> set INDEX_PROVIDER_KEYS"
    and "\<not> raises db ''indexList''"
  shows "find_by_external db k e = Inr (Some i) \<longleftrightarrow>
     (\<exists>r \<in> set (indexList db). ix_id r = i \<and> ix_ext r k = Some e)"
  using find_row_wf [OF assms(1,2)] by (auto simp: find_by_external_ok assms)

lemma find_by_external_None:
  assumes "k \<in> set INDEX_PROVIDER_KEYS" and "\<not> raises db ''indexList''"
  shows "find_by_external db k e = Inr None \<longleftrightarrow>
     (\<forall>r \<in> set (indexList db). ix_ext r k \<noteq> Some e)"
  by (simp add: find_by_external_ok assms find_None_iff_list)

text \<open>The closed form of a backfill: absent columns take the first value offered.\<close>

definition backfilled :: "int \<Rightarrow> (string \<times> int) list \<Rightarrow> index_row \<Rightarrow> index_row" where
  "backfilled i items r =
     (if ix_id r = i
      then r\<lparr>ix_ext := (\<lambda>k. case ix_ext r k of Some v \<Rightarrow> Some v
               | None \<Rightarrow> if k \<in> set INDEX_PROVIDER_KEYS then map_of items k else None)\<rparr>
      else r)"

lemma ix_id_backfilled [simp]: "ix_id (backfilled i items r) = ix_id r"
  by (simp add: backfilled_def)

lemma ix_ext_backfilled:
  "ix_ext (backfilled i items r) k =
     (if ix_id r = i \<and> ix_ext r k = None \<and> k \<in> set INDEX_PROVIDER_KEYS then map_of items k
      else ix_ext r k)"
  by (auto simp: backfilled_def split: option.splits)

lemma backfilled_Cons:
  "k \<in> set INDEX_PROVIDER_KEYS \<Longrightarrow>
   backfilled i items (backfill_row i k v r) = backfilled i ((k, v) # items) r"
  by (auto simp: backfilled_def backfill_row_def fun_eq_iff intro!: index_row.equality
      split: option.splits)

lemma backfilled_skip:
  "k \<notin> set INDEX_PROVIDER_KEYS \<Longrightarrow> backfilled i ((k, v) # items) r = backfilled i items r"
  by (auto simp: backfilled_def fun_eq_iff intro!: index_row.equality split: option.splits)

lemma backfilled_Nil: "backfilled i [] r = r"
  by (auto simp: backfilled_def fun_eq_iff intro!: index_row.equality split: option.splits)

lemma backfill_items_map: "backfill_items i items rows = map (backfilled i items) rows"
proof (induction i items rows rule: backfill_items.induct)
  case (1 i rows)
  then show ?case by (simp add: backfilled_Nil map_idI)
next
  case (2 i k v items rows)
  then show ?case by (auto simp: backfilled_Cons backfilled_skip)
qed

lemma ids_backfill [simp]: "map ix_id (backfill_items i items rows) = map ix_id rows"
  by (simp add: backfill_items_map o_def)

lemma get_external_ids_row:
  assumes "\<not> raises db ''indexList''" and "distinct (map ix_id (indexList db))"
    and "r \<in> set (indexList db)" and "get_external_ids db (ix_id r) = Inr exts"
  shows "map_of exts k = (if k \<in> set INDEX_PROVIDER_KEYS then ix_ext r k else None)"
proof -
  have exts: "exts = List.map_filter (\<lambda>col. map_option (Pair col) (ix_ext r col)) INDEX_PROVIDER_KEYS"
    using assms find_id_row [OF assms(2,3)] by (simp add: get_external_ids_def)
  have "map_of (List.map_filter (\<lambda>col. map_option (Pair col) (ix_ext r col)) cols) k
      = (if k \<in> set cols then ix_ext r k else None)" for cols
    by (induction cols) (auto simp: map_filter_simps split: option.splits)
  then show ?thesis by (simp add: exts)
qed

lemma get_external_ids_none:
  assumes "\<not> raises db ''indexList''" and "i \<notin> ix_id ` set (indexList db)"
  shows "get_external_ids db i = Inr []"
proof -
  have "find (\<lambda>r. ix_id r = i) (indexList db) = None"
    using assms by (auto simp: find_None_iff_list)
  then show ?thesis using assms by (simp add: get_external_ids_def)
qed

text \<open>Backfilling external ids that no row carries keeps the index well-formed.\<close>

lemma backfill_fresh_wf:
  assumes wf: "index_wf rows"
    and fresh: "\<forall>(k, v) \<in> set items. \<forall>r \<in> set rows. ix_ext r k = Some v \<longrightarrow> ix_id r = i"
  shows "index_wf (backfill_items i items rows)"
proof -
  have key: "ix_id r = ix_id s"
    if k: "k \<in> set INDEX_PROVIDER_KEYS" and r: "r \<in> set rows" and s: "s \<in> set rows"
      and some: "ix_ext (backfilled i items r) k \<noteq> None"
      and eq: "ix_ext (backfilled i items r) k = ix_ext (backfilled i items s) k" for k r s
  proof (cases "ix_ext r k = None \<longleftrightarrow> ix_ext s k = None")
    case True
    show ?thesis
    proof (cases "ix_ext r k")
      case None
      then have "ix_id r = i" "ix_id s = i"
        using True some eq by (auto simp: ix_ext_backfilled split: if_splits)
      then show ?thesis by simp
    next
      case (Some v)
      then have "ix_ext r k = ix_ext s k" using True eq by (auto simp: ix_ext_backfilled)
      then show ?thesis using index_wfD [OF wf k r s] Some by (metis option.discI)
    qed
  next
    case False
    have claim: "ix_id b = i \<and> ix_id a = i"
      if "a \<in> set rows" "b \<in> set rows" "ix_ext a k = Some v" "ix_ext b k = None"
        "ix_ext (backfilled i items a) k = ix_ext (backfilled i items b) k" for a b v
    proof -
      have "ix_id b = i" and "map_of items k = Some v"
        using that by (auto simp: ix_ext_backfilled split: if_splits)
      then show ?thesis using fresh that by (fastforce dest: map_of_SomeD)
    qed
    show ?thesis
    proof (cases "ix_ext r k")
      case None
      then obtain v where "ix_ext s k = Some v" using False by auto
      then show ?thesis using claim [OF s r _ None] eq by simp
    next
      case (Some v)
      then have "ix_ext s k = None" using False by auto
      then show ?thesis using claim [OF r s Some] eq by simp
    qed
  qed
  show ?thesis
  proof (rule index_wfI)
    show "distinct (map ix_id (backfill_items i items rows))"
      using index_wf_ids [OF wf] by simp
  next
    fix k r s
    assume k: "k \<in> set INDEX_PROVIDER_KEYS"
      and mem: "r \<in> set (backfill_items i items rows)" "s \<in> set (backfill_items i items rows)"
      and ne: "ix_ext r k \<noteq> None" "ix_ext r k = ix_ext s k"
    from mem obtain r0 s0 where "r0 \<in> set rows" "s0 \<in> set rows" "r = backfilled i items r0"
        "s = backfilled i items s0"
      unfolding backfill_items_map by auto
    then show "ix_id r = ix_id s" using key [OF k, of r0 s0] ne by simp
  qed
qed

end
