(* ===== verification/CatalogMerge.thy ===== *)
theory CatalogMerge
  imports Catalog
begin

text \<open>
  \<open>CatalogMergeRepository\<close> (\<open>adapters/persistence/catalog_repository.py\<close>): folding a duplicate
  catalogue id into a canonical one over every table, the repair of duplicates and the purge
  of provisional rows.  The five repointing routines obey one contract, the locale
  \<open>repoint_table\<close>, interpreted on each of them.
\<close>

section \<open>The merge repository\<close>

text \<open>
  The loop over the duplicate's values: a row whose value the canonical id already has is
  deleted, any other is moved to the canonical id.
\<close>

fun repoint_torrents_loop ::
  "int \<Rightarrow> int \<Rightarrow> string option list \<Rightarrow> id_value_row list \<Rightarrow> id_value_row list" where
  "repoint_torrents_loop dup canon [] t = t"
| "repoint_torrents_loop dup canon (None # vs) t = repoint_torrents_loop dup canon vs t"
| "repoint_torrents_loop dup canon (Some h # vs) t =
     (if list_ex (\<lambda>(i, v). i = canon \<and> v = Some h) t
      then repoint_torrents_loop dup canon vs (filter (\<lambda>(i, v). \<not> (i = dup \<and> v = Some h)) t)
      else repoint_torrents_loop dup canon vs
             (map (\<lambda>(i, v). if i = dup \<and> v = Some h then (canon, v) else (i, v)) t))"

definition repoint_torrents_index :: "int \<Rightarrow> int \<Rightarrow> catdb \<Rightarrow> catdb" where
  "repoint_torrents_index dup canon db =
     (if raises db ''torrentsIndex'' then db
      else db\<lparr>torrentsIndex :=
        repoint_torrents_loop dup canon
          (map snd (filter (\<lambda>(i, v). i = dup) (torrentsIndex db))) (torrentsIndex db)\<rparr>)"

fun repoint_id_value_loop ::
  "int \<Rightarrow> int \<Rightarrow> string option list \<Rightarrow> id_value_row list \<Rightarrow> id_value_row list" where
  "repoint_id_value_loop dup canon [] t = t"
| "repoint_id_value_loop dup canon (None # vs) t = repoint_id_value_loop dup canon vs t"
| "repoint_id_value_loop dup canon (Some x # vs) t =
     (if list_ex (\<lambda>(i, v). i = canon \<and> v = Some x) t
      then repoint_id_value_loop dup canon vs (filter (\<lambda>(i, v). \<not> (i = dup \<and> v = Some x)) t)
      else repoint_id_value_loop dup canon vs
             (map (\<lambda>(i, v). if i = dup \<and> v = Some x then (canon, v) else (i, v)) t))"

definition repoint_id_value_rows :: "int \<Rightarrow> int \<Rightarrow> id_value_row list \<Rightarrow> id_value_row list" where
  "repoint_id_value_rows dup canon t =
     repoint_id_value_loop dup canon (map snd (filter (\<lambda>(i, v). i = dup) t)) t"

fun repoint_pictures_loop ::
  "int \<Rightarrow> int \<Rightarrow> string option list \<Rightarrow> picture_row list \<Rightarrow> picture_row list" where
  "repoint_pictures_loop dup canon [] t = t"
| "repoint_pictures_loop dup canon (sz # szs) t =
     (if list_ex (\<lambda>(i, s, u). i = canon \<and> sz \<noteq> None \<and> s = sz) t
      then repoint_pictures_loop dup canon szs
             (filter (\<lambda>(i, s, u). \<not> (i = dup \<and> sz \<noteq> None \<and> s = sz)) t)
      else repoint_pictures_loop dup canon szs
             (map (\<lambda>(i, s, u). if i = dup \<and> sz \<noteq> None \<and> s = sz then (canon, s, u)
                               else (i, s, u)) t))"

definition repoint_pictures :: "int \<Rightarrow> int \<Rightarrow> catdb \<Rightarrow> catdb" where
  "repoint_pictures dup canon db =
     (if raises db ''pictures'' then db
      else db\<lparr>pictures :=
        repoint_pictures_loop dup canon
          (map (fst \<circ> snd) (filter (\<lambda>r. fst r = dup) (pictures db))) (pictures db)\<rparr>)"

definition repoint_broadcasts :: "int \<Rightarrow> int \<Rightarrow> catdb \<Rightarrow> catdb" where
  "repoint_broadcasts dup canon db =
     (if raises db ''broadcasts'' then db
      else if \<not> list_ex (\<lambda>(i, b). i = dup) (broadcasts db) then db
      else if list_ex (\<lambda>(i, b). i = canon) (broadcasts db)
      then db\<lparr>broadcasts := filter (\<lambda>(i, b). i \<noteq> dup) (broadcasts db)\<rparr>
      else db\<lparr>broadcasts := map (\<lambda>(i, b). if i = dup then (canon, b) else (i, b)) (broadcasts db)\<rparr>)"

fun repoint_relations_loop ::
  "int \<Rightarrow> int \<Rightarrow> (string option \<times> int option) list \<Rightarrow> relation_row list \<Rightarrow> relation_row list"
  where
  "repoint_relations_loop dup canon [] t = t"
| "repoint_relations_loop dup canon ((ty, None) # ks) t = repoint_relations_loop dup canon ks t"
| "repoint_relations_loop dup canon ((ty, Some rel) # ks) t =
     (if list_ex (\<lambda>(i, y, r). i = canon \<and> ty \<noteq> None \<and> y = ty \<and> r = Some rel) t
      then repoint_relations_loop dup canon ks
             (filter (\<lambda>(i, y, r). \<not> (i = dup \<and> ty \<noteq> None \<and> y = ty \<and> r = Some rel)) t)
      else repoint_relations_loop dup canon ks
             (map (\<lambda>(i, y, r). if i = dup \<and> ty \<noteq> None \<and> y = ty \<and> r = Some rel
                               then (canon, y, r) else (i, y, r)) t))"

text \<open>A schema with neither column name, or a broken table, leaves the rows alone.\<close>

definition repoint_anime_relations :: "int \<Rightarrow> int \<Rightarrow> catdb \<Rightarrow> catdb" where
  "repoint_anime_relations dup canon db =
     (if raises db ''animeRelations'' \<or> rel_column db \<notin> {''rel_id'', ''related_id''} then db
      else db\<lparr>animeRelations :=
        repoint_relations_loop dup canon
          (map snd (filter (\<lambda>r. fst r = dup) (animeRelations db))) (animeRelations db)\<rparr>)"

text \<open>\<open>DELETE FROM t WHERE id=?\<close> over \<open>_DELETE_ID_TABLES\<close>; a failing table is skipped.\<close>

definition delete_id_tables :: "int \<Rightarrow> catdb \<Rightarrow> catdb" where
  "delete_id_tables i db = db\<lparr>
     title_synonyms := (if raises db ''title_synonyms'' then title_synonyms db
                        else filter (\<lambda>r. fst r \<noteq> i) (title_synonyms db)),
     torrentsIndex := (if raises db ''torrentsIndex'' then torrentsIndex db
                        else filter (\<lambda>r. fst r \<noteq> i) (torrentsIndex db)),
     genres_tbl := (if raises db ''genres'' then genres_tbl db
                        else filter (\<lambda>r. fst r \<noteq> i) (genres_tbl db)),
     pictures := (if raises db ''pictures'' then pictures db
                        else filter (\<lambda>r. fst r \<noteq> i) (pictures db)),
     broadcasts := (if raises db ''broadcasts'' then broadcasts db
                        else filter (\<lambda>r. fst r \<noteq> i) (broadcasts db)),
     animeRelations := (if raises db ''animeRelations'' then animeRelations db
                        else filter (\<lambda>r. fst r \<noteq> i) (animeRelations db)),
     anime_tbl := (if raises db ''anime'' then anime_tbl db
                        else filter (\<lambda>r. fst r \<noteq> i) (anime_tbl db)),
     indexList := (if raises db ''indexList'' then indexList db
                        else filter (\<lambda>r. ix_id r \<noteq> i) (indexList db))\<rparr>"

definition delete_character_relations :: "int \<Rightarrow> catdb \<Rightarrow> catdb" where
  "delete_character_relations i db =
     (if raises db ''characterRelations'' then db
      else db\<lparr>characterRelations := filter (\<lambda>r. fst r \<noteq> i) (characterRelations db)\<rparr>)"

definition repoint_anime_id_tables :: "int \<Rightarrow> int \<Rightarrow> catdb \<Rightarrow> catdb" where
  "repoint_anime_id_tables dup canon db =
     (let move = (\<lambda>t. map (\<lambda>(i, x). if i = dup then (canon, x) else (i, x)) t)
      in db\<lparr>
        characterRelations := (if raises db ''characterRelations'' then characterRelations db
                               else map (\<lambda>(i, x). if i = dup then (canon, x) else (i, x))
                                      (characterRelations db)),
        user_tags_tbl := (if raises db ''user_tags'' then user_tags_tbl db
                          else move (user_tags_tbl db))\<rparr>)"

definition repoint_all :: "int \<Rightarrow> int \<Rightarrow> catdb \<Rightarrow> catdb" where
  "repoint_all dup canon db0 =
     (let db1 = repoint_torrents_index dup canon db0;
          db2 = (if raises db1 ''title_synonyms'' then db1
                 else db1\<lparr>title_synonyms := repoint_id_value_rows dup canon (title_synonyms db1)\<rparr>);
          db3 = (if raises db2 ''genres'' then db2
                 else db2\<lparr>genres_tbl := repoint_id_value_rows dup canon (genres_tbl db2)\<rparr>);
          db4 = repoint_pictures dup canon db3;
          db5 = repoint_broadcasts dup canon db4;
          db6 = repoint_anime_relations dup canon db5
      in repoint_anime_id_tables dup canon db6)"

definition merge :: "catdb \<Rightarrow> int \<Rightarrow> int \<Rightarrow> (int \<times> catdb) res" where
  "merge db dup canon =
     (if dup = canon then Inr (canon, db)
      else case get_external_ids db dup of
        Inl e \<Rightarrow> Inl e
      | Inr dup_ids \<Rightarrow>
          (case backfill_external_ids db canon dup_ids of
             Inl e \<Rightarrow> Inl e
           | Inr db' \<Rightarrow>
               Inr (canon,
                 delete_character_relations dup
                   (delete_id_tables dup (repoint_all dup canon db')))))"

fun merge_duplicates :: "catdb \<Rightarrow> int \<Rightarrow> int list \<Rightarrow> (nat \<times> catdb) res" where
  "merge_duplicates db canon [] = Inr (0, db)"
| "merge_duplicates db canon (dup # dups) =
     (if dup = canon then merge_duplicates db canon dups
      else case merge db dup canon of
        Inl e \<Rightarrow> Inl e
      | Inr (c, db') \<Rightarrow> map_sum id (\<lambda>(n, db''). (Suc n, db'')) (merge_duplicates db' canon dups))"

text \<open>The groups of internal ids that share an external id, in order of first appearance.\<close>

fun group_by_external :: "(int \<times> int) list \<Rightarrow> (int \<times> int list) list \<Rightarrow> (int \<times> int list) list" where
  "group_by_external [] groups = groups"
| "group_by_external ((i, e) # rows) groups =
     group_by_external rows
       (AList.update e ((case map_of groups e of None \<Rightarrow> [] | Some is \<Rightarrow> is) @ [i]) groups)"

fun merge_groups :: "catdb \<Rightarrow> int list list \<Rightarrow> (nat \<times> catdb) res" where
  "merge_groups db [] = Inr (0, db)"
| "merge_groups db (ids # groups) =
     (if length ids < 2 then merge_groups db groups
      else case preferred_catalog_id ids of
        Inl e \<Rightarrow> Inl e
      | Inr canon \<Rightarrow>
          (case merge_duplicates db canon ids of
             Inl e \<Rightarrow> Inl e
           | Inr (n, db') \<Rightarrow> map_sum id (\<lambda>(m, db''). (n + m, db'')) (merge_groups db' groups)))"

definition column_rows :: "catdb \<Rightarrow> string \<Rightarrow> (int \<times> int) list" where
  "column_rows db col =
     List.map_filter (\<lambda>r. map_option (Pair (ix_id r)) (ix_ext r col)) (indexList db)"

text \<open>\<open>INDEX_PROVIDER_KEYS\<close> is a set: the columns come in the order \<open>cols\<close>.\<close>

fun repair_by_provider_id :: "catdb \<Rightarrow> string list \<Rightarrow> (nat \<times> catdb) res" where
  "repair_by_provider_id db [] = Inr (0, db)"
| "repair_by_provider_id db (col # cols) =
     (if raises db ''indexList'' then repair_by_provider_id db cols
      else case merge_groups db (map snd (group_by_external (column_rows db col) [])) of
        Inl e \<Rightarrow> Inl e
      | Inr (n, db') \<Rightarrow>
          map_sum id (\<lambda>(m, db''). (n + m, db'')) (repair_by_provider_id db' cols))"

text \<open>
  The scan by title lets the SQL engine normalise and group the titles; the id groups it
  answers (\<open>None\<close> when the statement fails) are the argument \<open>title_groups\<close>.
\<close>

definition repair_by_title ::
  "(catdb \<Rightarrow> int list list option) \<Rightarrow> catdb \<Rightarrow> (nat \<times> catdb) res" where
  "repair_by_title title_groups db =
     (case title_groups db of None \<Rightarrow> Inr (0, db) | Some groups \<Rightarrow> merge_groups db groups)"

definition repair_duplicates ::
  "(catdb \<Rightarrow> int list list option) \<Rightarrow> string list \<Rightarrow> RepairStrategy \<Rightarrow> catdb \<Rightarrow>
   (nat \<times> catdb) res" where
  "repair_duplicates title_groups cols strategy db =
     (case (if strategy \<in> {PROVIDER_ID, RepairStrategy.ALL} then repair_by_provider_id db cols else Inr (0, db)) of
        Inl e \<Rightarrow> Inl e
      | Inr (n, db1) \<Rightarrow>
          (case (if strategy \<in> {TITLE, RepairStrategy.ALL} then repair_by_title title_groups db1 else Inr (0, db1)) of
             Inl e \<Rightarrow> Inl e
           | Inr (m, db2) \<Rightarrow> Inr (n + m, db2)))"

text \<open>Purging the rows whose catalogue id is provisional (negative).\<close>

fun purge_ids :: "catdb \<Rightarrow> int list \<Rightarrow> nat \<times> catdb" where
  "purge_ids db [] = (0, db)"
| "purge_ids db (i # is) =
     (let db1 = delete_character_relations i (delete_id_tables i db);
          db2 = (if raises db1 ''user_tags'' then db1
                 else db1\<lparr>user_tags_tbl := filter (\<lambda>r. fst r \<noteq> i) (user_tags_tbl db1)\<rparr>);
          (n, db3) = purge_ids db2 is
      in (Suc n, db3))"

definition purge_provisional_anime_rows :: "catdb \<Rightarrow> nat \<times> catdb" where
  "purge_provisional_anime_rows db =
     (if raises db ''anime'' then (0, db)
      else purge_ids db (filter (\<lambda>i. i < 0) (map fst (anime_tbl db))))"

section \<open>The contract of the repointing loops\<close>

text \<open>The keys a table holds for an id, and the claim that it holds each at most once.\<close>

definition owned_keys :: "('r \<Rightarrow> int) \<Rightarrow> ('r \<Rightarrow> 'k option) \<Rightarrow> 'r list \<Rightarrow> int \<Rightarrow> 'k set" where
  "owned_keys rid key t i = {k. \<exists>r \<in> set t. rid r = i \<and> key r = Some k}"

definition keys_once :: "('r \<Rightarrow> int) \<Rightarrow> ('r \<Rightarrow> 'k option) \<Rightarrow> 'r list \<Rightarrow> bool" where
  "keys_once rid key t \<longleftrightarrow>
     (\<forall>i k. length (filter (\<lambda>r. rid r = i \<and> key r = Some k) t) \<le> 1)"

lemma keys_once_filter: "keys_once rid key t \<Longrightarrow> keys_once rid key (filter Q t)"
proof -
  have "length (filter P (filter Q t)) \<le> length (filter P t)" for P
    by (induction t) auto
  then show "keys_once rid key t \<Longrightarrow> keys_once rid key (filter Q t)"
    unfolding keys_once_def by (meson le_trans)
qed

lemma owned_keys_filter_id:
  "owned_keys rid key (filter (\<lambda>r. rid r \<noteq> d) t) i = (if i = d then {} else owned_keys rid key t i)"
  by (auto simp: owned_keys_def)

lemma owned_keys_Nil: "owned_keys rid key [] i = {}"
  by (simp add: owned_keys_def)

lemma owned_keys_Cons:
  "owned_keys rid key (r # t) i =
     (if rid r = i then set_option (key r) else {}) \<union> owned_keys rid key t i"
  by (auto simp: owned_keys_def)

locale repoint_table =
  fixes row_id :: "'r \<Rightarrow> int"
    and row_elem :: "'r \<Rightarrow> 'e"
    and elem_key :: "'e \<Rightarrow> 'k option"
    and set_id :: "int \<Rightarrow> 'r \<Rightarrow> 'r"
    and repoint :: "int \<Rightarrow> int \<Rightarrow> 'e list \<Rightarrow> 'r list \<Rightarrow> 'r list"
  assumes row_id_set: "row_id (set_id i r) = i"
    and row_elem_set: "row_elem (set_id i r) = row_elem r"
    and repoint_Nil: "repoint d c [] t = t"
    and repoint_null: "elem_key e = None \<Longrightarrow> repoint d c (e # es) t = repoint d c es t"
    and repoint_present: "elem_key e = Some k \<Longrightarrow>
          \<exists>r \<in> set t. row_id r = c \<and> elem_key (row_elem r) = Some k \<Longrightarrow>
          repoint d c (e # es) t =
            repoint d c es (filter (\<lambda>r. \<not> (row_id r = d \<and> elem_key (row_elem r) = Some k)) t)"
    and repoint_absent: "elem_key e = Some k \<Longrightarrow>
          \<not> (\<exists>r \<in> set t. row_id r = c \<and> elem_key (row_elem r) = Some k) \<Longrightarrow>
          repoint d c (e # es) t =
            repoint d c es (map (\<lambda>r. if row_id r = d \<and> elem_key (row_elem r) = Some k
                                     then set_id c r else r) t)"
begin

abbreviation key_of :: "'r \<Rightarrow> 'k option" where
  "key_of r \<equiv> elem_key (row_elem r)"

lemma owned_drop:
  assumes "d \<noteq> c"
  shows "owned_keys row_id key_of (filter (\<lambda>r. \<not> (row_id r = d \<and> key_of r = Some k)) t) c
           = owned_keys row_id key_of t c"
    and "owned_keys row_id key_of (filter (\<lambda>r. \<not> (row_id r = d \<and> key_of r = Some k)) t) d
           = owned_keys row_id key_of t d - {k}"
  using assms by (auto simp: owned_keys_def)

lemma owned_move:
  assumes "d \<noteq> c"
  shows "owned_keys row_id key_of (map (\<lambda>r. if row_id r = d \<and> key_of r = Some k
             then set_id c r else r) t) c
           = owned_keys row_id key_of t c \<union> (owned_keys row_id key_of t d \<inter> {k})"
    and "owned_keys row_id key_of (map (\<lambda>r. if row_id r = d \<and> key_of r = Some k
             then set_id c r else r) t) d
           = owned_keys row_id key_of t d - {k}"
  using assms
  by (induction t) (auto simp: owned_keys_Nil owned_keys_Cons row_id_set row_elem_set)

lemma repoint_owned:
  assumes "d \<noteq> c"
  shows "owned_keys row_id key_of (repoint d c es t) c =
           owned_keys row_id key_of t c
           \<union> {k \<in> owned_keys row_id key_of t d. \<exists>e \<in> set es. elem_key e = Some k}
       \<and> owned_keys row_id key_of (repoint d c es t) d =
           owned_keys row_id key_of t d - {k. \<exists>e \<in> set es. elem_key e = Some k}"
proof (induction es arbitrary: t)
  case Nil
  then show ?case by (simp add: repoint_Nil)
next
  case (Cons e es)
  show ?case
  proof (cases "elem_key e")
    case None
    then show ?thesis using Cons [of t] by (simp add: repoint_null)
  next
    case (Some k)
    show ?thesis
    proof (cases "\<exists>r \<in> set t. row_id r = c \<and> key_of r = Some k")
      case True
      then have "k \<in> owned_keys row_id key_of t c" by (auto simp: owned_keys_def)
      then show ?thesis
        using Some by (simp only: repoint_present [OF Some True] Cons owned_drop [OF assms]) auto
    next
      case False
      then show ?thesis
        using Some by (simp only: repoint_absent [OF Some False] Cons owned_move [OF assms]) auto
    qed
  qed
qed

lemma repoint_other_rows:
  assumes "i \<noteq> c" and "i \<noteq> d"
  shows "filter (\<lambda>r. row_id r = i) (repoint d c es t) = filter (\<lambda>r. row_id r = i) t"
proof (induction es arbitrary: t)
  case Nil
  then show ?case by (simp add: repoint_Nil)
next
  case (Cons e es)
  show ?case
  proof (cases "elem_key e")
    case None
    then show ?thesis by (simp add: repoint_null Cons)
  next
    case (Some k)
    have 1: "filter (\<lambda>r. row_id r = i) (filter (\<lambda>r. \<not> (row_id r = d \<and> key_of r = Some k)) t)
        = filter (\<lambda>r. row_id r = i) t"
      using assms by (induction t) auto
    have 2: "filter (\<lambda>r. row_id r = i)
          (map (\<lambda>r. if row_id r = d \<and> key_of r = Some k then set_id c r else r) t)
        = filter (\<lambda>r. row_id r = i) t"
      using assms by (induction t) (auto simp: row_id_set)
    show ?thesis
      using 1 2 Some
      by (cases "\<exists>r \<in> set t. row_id r = c \<and> key_of r = Some k")
         (simp_all only: repoint_present repoint_absent Cons not_False_eq_True)
  qed
qed

lemma repoint_keeps_canonical:
  assumes "d \<noteq> c" and "r \<in> set t" and "row_id r = c"
  shows "r \<in> set (repoint d c es t)"
  using assms(2)
proof (induction es arbitrary: t)
  case Nil
  then show ?case by (simp add: repoint_Nil)
next
  case (Cons e es)
  show ?case
  proof (cases "elem_key e")
    case None
    then show ?thesis using Cons by (simp add: repoint_null)
  next
    case (Some k)
    have "r \<in> set (filter (\<lambda>r. \<not> (row_id r = d \<and> key_of r = Some k)) t)"
      using Cons.prems assms by simp
    moreover have "r \<in> set (map (\<lambda>r. if row_id r = d \<and> key_of r = Some k
        then set_id c r else r) t)"
      using Cons.prems assms by force
    ultimately show ?thesis
      using Some Cons.IH
      by (cases "\<exists>r \<in> set t. row_id r = c \<and> key_of r = Some k")
         (simp_all only: repoint_present repoint_absent not_False_eq_True)
  qed
qed

lemma repoint_step_once:
  assumes "keys_once row_id key_of t" and "d \<noteq> c"
    and absent: "\<not> (\<exists>r \<in> set t. row_id r = c \<and> key_of r = Some k)"
  shows "keys_once row_id key_of
           (map (\<lambda>r. if row_id r = d \<and> key_of r = Some k then set_id c r else r) t)"
proof -
  let ?f = "\<lambda>r. if row_id r = d \<and> key_of r = Some k then set_id c r else r"
  have "length (filter (\<lambda>r. row_id r = i \<and> key_of r = Some k') (map ?f t)) \<le> 1" for i k'
  proof -
    have eq: "length (filter (\<lambda>r. row_id r = i \<and> key_of r = Some k') (map ?f t)) =
        length (filter (\<lambda>r. (if row_id r = d \<and> key_of r = Some k then c else row_id r) = i
                   \<and> key_of r = Some k') t)"
      by (simp add: filter_map o_def row_id_set row_elem_set if_distrib [of row_id] cong: if_cong)
         (rule arg_cong [where f = length], rule filter_cong, auto simp: row_id_set row_elem_set)
    have once: "length (filter (\<lambda>r. row_id r = j \<and> key_of r = Some k') t) \<le> 1" for j
      using assms(1) by (simp add: keys_once_def)
    show ?thesis
    proof (cases "k' = k \<and> i = c")
      case True
      then have "filter (\<lambda>r. (if row_id r = d \<and> key_of r = Some k then c else row_id r) = i
                   \<and> key_of r = Some k') t = filter (\<lambda>r. row_id r = d \<and> key_of r = Some k') t"
        using absent assms(2) by (intro filter_cong) auto
      then show ?thesis using eq once [of d] by simp
    next
      case False
      have "length (filter (\<lambda>r. (if row_id r = d \<and> key_of r = Some k then c else row_id r) = i
                   \<and> key_of r = Some k') t) \<le> length (filter (\<lambda>r. row_id r = i \<and> key_of r = Some k') t)"
        using False by (induction t) auto
      then show ?thesis using eq once [of i] by simp
    qed
  qed
  then show ?thesis by (simp add: keys_once_def)
qed

lemma repoint_once:
  assumes "keys_once row_id key_of t" and "d \<noteq> c"
  shows "keys_once row_id key_of (repoint d c es t)"
  using assms(1)
proof (induction es arbitrary: t)
  case Nil
  then show ?case by (simp add: repoint_Nil)
next
  case (Cons e es)
  show ?case
  proof (cases "elem_key e")
    case None
    then show ?thesis using Cons by (simp add: repoint_null)
  next
    case (Some k)
    show ?thesis
    proof (cases "\<exists>r \<in> set t. row_id r = c \<and> key_of r = Some k")
      case True
      have "keys_once row_id key_of (filter (\<lambda>r. \<not> (row_id r = d \<and> key_of r = Some k)) t)"
        using Cons.prems by (rule keys_once_filter)
      then show ?thesis using Some True Cons.IH by (simp add: repoint_present)
    next
      case False
      then show ?thesis
        using Some Cons repoint_step_once [OF Cons.prems assms(2) False]
        by (simp add: repoint_absent)
    qed
  qed
qed

text \<open>The way the repository calls the loop: on the elements of the duplicate's rows.\<close>

lemma repoint_all_elems:
  assumes "d \<noteq> c"
  shows "owned_keys row_id key_of
           (repoint d c (map row_elem (filter (\<lambda>r. row_id r = d) t)) t) c =
         owned_keys row_id key_of t c \<union> owned_keys row_id key_of t d"
    and "owned_keys row_id key_of
           (repoint d c (map row_elem (filter (\<lambda>r. row_id r = d) t)) t) d = {}"
  using repoint_owned [OF assms] by (auto simp: owned_keys_def)

end

section \<open>The contract holds for every table\<close>

text \<open>The comparable key of a relation row: both components must be non-null.\<close>

fun relation_key :: "string option \<times> int option \<Rightarrow> (string \<times> int) option" where
  "relation_key (Some ty, Some rel) = Some (ty, rel)"
| "relation_key _ = None"

definition set_row_id :: "int \<Rightarrow> int \<times> 'x \<Rightarrow> int \<times> 'x" where
  "set_row_id i r = (i, snd r)"

lemma relation_key_Some:
  "relation_key e = Some k \<longleftrightarrow> e = (Some (fst k), Some (snd k))"
  by (cases e; cases "fst e"; cases "snd e"; cases k) auto

lemma loop_shapes:
  "(\<lambda>(i, v). \<not> (i = d \<and> v = Some k)) = (\<lambda>r. \<not> (fst r = d \<and> snd r = Some k))"
  "(\<lambda>(i, v). if i = d \<and> v = Some k then (c, v) else (i, v)) =
     (\<lambda>r. if fst r = d \<and> snd r = Some k then set_row_id c r else r)"
  by (auto simp: fun_eq_iff set_row_id_def)

lemma picture_shapes:
  "(\<lambda>(i, s, u). \<not> (i = d \<and> Some k \<noteq> None \<and> s = Some k)) =
     (\<lambda>r. \<not> (fst r = d \<and> (fst \<circ> snd) r = Some k))"
  "(\<lambda>(i, s, u). if i = d \<and> Some k \<noteq> None \<and> s = Some k then (c, s, u) else (i, s, u)) =
     (\<lambda>r. if fst r = d \<and> (fst \<circ> snd) r = Some k then set_row_id c r else r)"
  by (auto simp: fun_eq_iff set_row_id_def)

lemma relation_shapes:
  "(\<lambda>(i, y, r). \<not> (i = d \<and> Some ty \<noteq> None \<and> y = Some ty \<and> r = Some rel)) =
     (\<lambda>r. \<not> (fst r = d \<and> relation_key (snd r) = Some (ty, rel)))"
  "(\<lambda>(i, y, r). if i = d \<and> Some ty \<noteq> None \<and> y = Some ty \<and> r = Some rel
       then (c, y, r) else (i, y, r)) =
     (\<lambda>r. if fst r = d \<and> relation_key (snd r) = Some (ty, rel) then set_row_id c r else r)"
  by (auto simp: fun_eq_iff set_row_id_def relation_key_Some)

interpretation torrents_rows: repoint_table fst snd id set_row_id repoint_torrents_loop
proof (unfold_locales, goal_cases)
  case (5 e k t c d es)
  then have "list_ex (\<lambda>(i, v). i = c \<and> v = Some k) t" by (auto simp: list_ex_iff)
  then show ?case using 5 by (simp only: repoint_torrents_loop.simps loop_shapes id_apply if_True)
next
  case (6 e k t c d es)
  then have "\<not> list_ex (\<lambda>(i, v). i = c \<and> v = Some k) t" by (auto simp: list_ex_iff)
  then show ?case using 6 by (simp only: repoint_torrents_loop.simps loop_shapes id_apply if_False)
qed (simp_all add: set_row_id_def)

interpretation id_value_rows: repoint_table fst snd id set_row_id repoint_id_value_loop
proof (unfold_locales, goal_cases)
  case (5 e k t c d es)
  then have "list_ex (\<lambda>(i, v). i = c \<and> v = Some k) t" by (auto simp: list_ex_iff)
  then show ?case using 5 by (simp only: repoint_id_value_loop.simps loop_shapes id_apply if_True)
next
  case (6 e k t c d es)
  then have "\<not> list_ex (\<lambda>(i, v). i = c \<and> v = Some k) t" by (auto simp: list_ex_iff)
  then show ?case using 6 by (simp only: repoint_id_value_loop.simps loop_shapes id_apply if_False)
qed (simp_all add: set_row_id_def)

interpretation picture_rows: repoint_table fst "fst \<circ> snd" id set_row_id repoint_pictures_loop
proof (unfold_locales, goal_cases)
  case (4 e d c es t)
  then show ?case by (simp add: case_prod_unfold)
next
  case (5 e k t c d es)
  then have "e = Some k" "list_ex (\<lambda>(i, s, u). i = c \<and> Some k \<noteq> None \<and> s = Some k) t"
    by (auto simp: list_ex_iff)
  then show ?case
    by (simp only: repoint_pictures_loop.simps picture_shapes id_apply if_True)
next
  case (6 e k t c d es)
  then have "e = Some k" "\<not> list_ex (\<lambda>(i, s, u). i = c \<and> Some k \<noteq> None \<and> s = Some k) t"
    by (auto simp: list_ex_iff)
  then show ?case
    by (simp only: repoint_pictures_loop.simps picture_shapes id_apply if_False)
qed (simp_all add: set_row_id_def)

interpretation relation_rows: repoint_table fst snd relation_key set_row_id repoint_relations_loop
proof (unfold_locales, goal_cases)
  case (4 e d c es t)
  then show ?case
    by (cases e; cases "snd e"; cases "fst e") (simp_all add: case_prod_unfold)
next
  case (5 e k t c d es)
  obtain ty rel where k: "k = (ty, rel)" by (cases k)
  then have "e = (Some ty, Some rel)"
      "list_ex (\<lambda>(i, y, r). i = c \<and> Some ty \<noteq> None \<and> y = Some ty \<and> r = Some rel) t"
    using 5 by (auto simp: list_ex_iff relation_key_Some)
  then show ?case
    by (simp only: repoint_relations_loop.simps relation_shapes k if_True)
next
  case (6 e k t c d es)
  obtain ty rel where k: "k = (ty, rel)" by (cases k)
  then have "e = (Some ty, Some rel)"
      "\<not> list_ex (\<lambda>(i, y, r). i = c \<and> Some ty \<noteq> None \<and> y = Some ty \<and> r = Some rel) t"
    using 6 by (auto simp: list_ex_iff relation_key_Some)
  then show ?case
    by (simp only: repoint_relations_loop.simps relation_shapes k if_False)
qed (simp_all add: set_row_id_def)

named_theorems table_frames \<open>fields a catalogue routine leaves alone\<close>

section \<open>Frames\<close>

text \<open>Each routine changes its own table only.\<close>

lemma repoint_torrents_index_frame [table_frames]:
  "indexList (repoint_torrents_index d c db) = indexList db"
  "anime_tbl (repoint_torrents_index d c db) = anime_tbl db"
  "title_synonyms (repoint_torrents_index d c db) = title_synonyms db"
  "genres_tbl (repoint_torrents_index d c db) = genres_tbl db"
  "pictures (repoint_torrents_index d c db) = pictures db"
  "broadcasts (repoint_torrents_index d c db) = broadcasts db"
  "animeRelations (repoint_torrents_index d c db) = animeRelations db"
  "characterRelations (repoint_torrents_index d c db) = characterRelations db"
  "user_tags_tbl (repoint_torrents_index d c db) = user_tags_tbl db"
  "rel_column (repoint_torrents_index d c db) = rel_column db"
  "broken (repoint_torrents_index d c db) = broken db"
  by (simp_all add: repoint_torrents_index_def)

lemma repoint_pictures_frame [table_frames]:
  "indexList (repoint_pictures d c db) = indexList db"
  "anime_tbl (repoint_pictures d c db) = anime_tbl db"
  "title_synonyms (repoint_pictures d c db) = title_synonyms db"
  "genres_tbl (repoint_pictures d c db) = genres_tbl db"
  "torrentsIndex (repoint_pictures d c db) = torrentsIndex db"
  "broadcasts (repoint_pictures d c db) = broadcasts db"
  "animeRelations (repoint_pictures d c db) = animeRelations db"
  "characterRelations (repoint_pictures d c db) = characterRelations db"
  "user_tags_tbl (repoint_pictures d c db) = user_tags_tbl db"
  "rel_column (repoint_pictures d c db) = rel_column db"
  "broken (repoint_pictures d c db) = broken db"
  by (simp_all add: repoint_pictures_def)

lemma repoint_broadcasts_frame [table_frames]:
  "indexList (repoint_broadcasts d c db) = indexList db"
  "anime_tbl (repoint_broadcasts d c db) = anime_tbl db"
  "title_synonyms (repoint_broadcasts d c db) = title_synonyms db"
  "genres_tbl (repoint_broadcasts d c db) = genres_tbl db"
  "torrentsIndex (repoint_broadcasts d c db) = torrentsIndex db"
  "pictures (repoint_broadcasts d c db) = pictures db"
  "animeRelations (repoint_broadcasts d c db) = animeRelations db"
  "characterRelations (repoint_broadcasts d c db) = characterRelations db"
  "user_tags_tbl (repoint_broadcasts d c db) = user_tags_tbl db"
  "rel_column (repoint_broadcasts d c db) = rel_column db"
  "broken (repoint_broadcasts d c db) = broken db"
  by (simp_all add: repoint_broadcasts_def)

lemma repoint_anime_relations_frame [table_frames]:
  "indexList (repoint_anime_relations d c db) = indexList db"
  "anime_tbl (repoint_anime_relations d c db) = anime_tbl db"
  "title_synonyms (repoint_anime_relations d c db) = title_synonyms db"
  "genres_tbl (repoint_anime_relations d c db) = genres_tbl db"
  "torrentsIndex (repoint_anime_relations d c db) = torrentsIndex db"
  "pictures (repoint_anime_relations d c db) = pictures db"
  "broadcasts (repoint_anime_relations d c db) = broadcasts db"
  "characterRelations (repoint_anime_relations d c db) = characterRelations db"
  "user_tags_tbl (repoint_anime_relations d c db) = user_tags_tbl db"
  "rel_column (repoint_anime_relations d c db) = rel_column db"
  "broken (repoint_anime_relations d c db) = broken db"
  by (simp_all add: repoint_anime_relations_def)

lemma repoint_anime_id_tables_frame [table_frames]:
  "indexList (repoint_anime_id_tables d c db) = indexList db"
  "anime_tbl (repoint_anime_id_tables d c db) = anime_tbl db"
  "title_synonyms (repoint_anime_id_tables d c db) = title_synonyms db"
  "genres_tbl (repoint_anime_id_tables d c db) = genres_tbl db"
  "torrentsIndex (repoint_anime_id_tables d c db) = torrentsIndex db"
  "pictures (repoint_anime_id_tables d c db) = pictures db"
  "broadcasts (repoint_anime_id_tables d c db) = broadcasts db"
  "animeRelations (repoint_anime_id_tables d c db) = animeRelations db"
  "rel_column (repoint_anime_id_tables d c db) = rel_column db"
  "broken (repoint_anime_id_tables d c db) = broken db"
  by (simp_all add: repoint_anime_id_tables_def Let_def)

lemma delete_character_relations_frame [table_frames]:
  "indexList (delete_character_relations d db) = indexList db"
  "anime_tbl (delete_character_relations d db) = anime_tbl db"
  "title_synonyms (delete_character_relations d db) = title_synonyms db"
  "genres_tbl (delete_character_relations d db) = genres_tbl db"
  "torrentsIndex (delete_character_relations d db) = torrentsIndex db"
  "pictures (delete_character_relations d db) = pictures db"
  "broadcasts (delete_character_relations d db) = broadcasts db"
  "animeRelations (delete_character_relations d db) = animeRelations db"
  "user_tags_tbl (delete_character_relations d db) = user_tags_tbl db"
  "rel_column (delete_character_relations d db) = rel_column db"
  "broken (delete_character_relations d db) = broken db"
  by (simp_all add: delete_character_relations_def)

lemma raises_cong: "broken db = broken db' \<Longrightarrow> raises db t = raises db' t"
  by (simp add: raises_def)

section \<open>Merging two ids\<close>

text \<open>A database whose tables all answer and whose relation table has a known column.\<close>

definition healthy :: "catdb \<Rightarrow> bool" where
  "healthy db \<longleftrightarrow> broken db = [] \<and> rel_column db \<in> {''rel_id'', ''related_id''}"

lemma healthy_raises [simp]: "healthy db \<Longrightarrow> \<not> raises db t"
  by (simp add: healthy_def raises_def)

lemma relation_rows_arg:
  "map snd (filter (\<lambda>r. fst r = d) t) = map snd (filter (\<lambda>(i, v). i = d) t)"
  by (simp add: case_prod_unfold)

definition move_id :: "int \<Rightarrow> int \<Rightarrow> (int \<times> 'x) list \<Rightarrow> (int \<times> 'x) list" where
  "move_id dup canon t = map (\<lambda>(i, x). if i = dup then (canon, x) else (i, x)) t"

lemma fst_move_id: "dup \<noteq> canon \<Longrightarrow> r \<in> set (move_id dup canon t) \<Longrightarrow> fst r \<noteq> dup"
  by (auto simp: move_id_def split: if_splits)

text \<open>The tables after the repointing stage, on a database that answers.\<close>

lemma repoint_tables:
  assumes "healthy db"
  shows "torrentsIndex (repoint_torrents_index dup canon db) =
       repoint_torrents_loop dup canon (map snd (filter (\<lambda>r. fst r = dup) (torrentsIndex db)))
         (torrentsIndex db)"
    and "pictures (repoint_pictures dup canon db) =
       repoint_pictures_loop dup canon
         (map (fst \<circ> snd) (filter (\<lambda>r. fst r = dup) (pictures db))) (pictures db)"
    and "animeRelations (repoint_anime_relations dup canon db) =
       repoint_relations_loop dup canon
         (map snd (filter (\<lambda>r. fst r = dup) (animeRelations db))) (animeRelations db)"
    and "characterRelations (repoint_anime_id_tables dup canon db) =
       move_id dup canon (characterRelations db)"
    and "user_tags_tbl (repoint_anime_id_tables dup canon db) = move_id dup canon (user_tags_tbl db)"
proof -
  have rc: "\<not> (rel_column db \<notin> {''rel_id'', ''related_id''})"
    using assms by (simp add: healthy_def)
  note nr = healthy_raises [OF assms]
  show "torrentsIndex (repoint_torrents_index dup canon db) =
       repoint_torrents_loop dup canon (map snd (filter (\<lambda>r. fst r = dup) (torrentsIndex db)))
         (torrentsIndex db)"
    unfolding repoint_torrents_index_def by (simp only: nr if_False) (simp add: case_prod_unfold)
  show "pictures (repoint_pictures dup canon db) =
       repoint_pictures_loop dup canon
         (map (fst \<circ> snd) (filter (\<lambda>r. fst r = dup) (pictures db))) (pictures db)"
    unfolding repoint_pictures_def by (simp only: nr if_False) simp
  show "animeRelations (repoint_anime_relations dup canon db) =
       repoint_relations_loop dup canon
         (map snd (filter (\<lambda>r. fst r = dup) (animeRelations db))) (animeRelations db)"
    unfolding repoint_anime_relations_def by (simp only: nr rc if_False simp_thms) simp
  show "characterRelations (repoint_anime_id_tables dup canon db) =
       move_id dup canon (characterRelations db)"
    unfolding repoint_anime_id_tables_def Let_def move_id_def by (simp only: nr if_False) simp
  show "user_tags_tbl (repoint_anime_id_tables dup canon db) = move_id dup canon (user_tags_tbl db)"
    unfolding repoint_anime_id_tables_def Let_def move_id_def by (simp only: nr if_False) simp
qed

text \<open>Being healthy is a matter of two fields that no routine touches.\<close>

lemma healthy_cong:
  "broken d = broken e \<Longrightarrow> rel_column d = rel_column e \<Longrightarrow> healthy d = healthy e"
  by (simp add: healthy_def)

lemma repoint_broadcasts_cong:
  "broadcasts d1 = broadcasts d2 \<Longrightarrow> broken d1 = broken d2 \<Longrightarrow>
   broadcasts (repoint_broadcasts dup canon d1) = broadcasts (repoint_broadcasts dup canon d2)"
  by (simp add: repoint_broadcasts_def raises_def)

lemma repoint_all_healthy:
  assumes h: "healthy db"
  shows "indexList (repoint_all dup canon db) = indexList db"
    and "anime_tbl (repoint_all dup canon db) = anime_tbl db"
    and "title_synonyms (repoint_all dup canon db) =
           repoint_id_value_rows dup canon (title_synonyms db)"
    and "genres_tbl (repoint_all dup canon db) = repoint_id_value_rows dup canon (genres_tbl db)"
    and "torrentsIndex (repoint_all dup canon db) =
           repoint_torrents_loop dup canon
             (map snd (filter (\<lambda>r. fst r = dup) (torrentsIndex db))) (torrentsIndex db)"
    and "pictures (repoint_all dup canon db) =
           repoint_pictures_loop dup canon
             (map (fst \<circ> snd) (filter (\<lambda>r. fst r = dup) (pictures db))) (pictures db)"
    and "broadcasts (repoint_all dup canon db) = broadcasts (repoint_broadcasts dup canon db)"
    and "animeRelations (repoint_all dup canon db) =
           repoint_relations_loop dup canon
             (map snd (filter (\<lambda>r. fst r = dup) (animeRelations db))) (animeRelations db)"
    and "characterRelations (repoint_all dup canon db) = move_id dup canon (characterRelations db)"
    and "user_tags_tbl (repoint_all dup canon db) = move_id dup canon (user_tags_tbl db)"
    and "broken (repoint_all dup canon db) = broken db"
    and "rel_column (repoint_all dup canon db) = rel_column db"
proof -
  define d1 where "d1 = repoint_torrents_index dup canon db"
  define d2 where "d2 = d1\<lparr>title_synonyms := repoint_id_value_rows dup canon (title_synonyms d1)\<rparr>"
  define d3 where "d3 = d2\<lparr>genres_tbl := repoint_id_value_rows dup canon (genres_tbl d2)\<rparr>"
  define d4 where "d4 = repoint_pictures dup canon d3"
  define d5 where "d5 = repoint_broadcasts dup canon d4"
  define d6 where "d6 = repoint_anime_relations dup canon d5"
  have h1: "healthy d1" unfolding d1_def by (rule healthy_cong [THEN iffD2, OF _ _ h])
      (simp_all only: table_frames)
  have h2: "healthy d2" unfolding d2_def by (rule healthy_cong [THEN iffD2, OF _ _ h1]) simp_all
  have h3: "healthy d3" unfolding d3_def by (rule healthy_cong [THEN iffD2, OF _ _ h2]) simp_all
  have h4: "healthy d4" unfolding d4_def by (rule healthy_cong [THEN iffD2, OF _ _ h3])
      (simp_all only: table_frames)
  have h5: "healthy d5" unfolding d5_def by (rule healthy_cong [THEN iffD2, OF _ _ h4])
      (simp_all only: table_frames)
  have h6: "healthy d6" unfolding d6_def by (rule healthy_cong [THEN iffD2, OF _ _ h5])
      (simp_all only: table_frames)
  have all: "repoint_all dup canon db = repoint_anime_id_tables dup canon d6"
    unfolding repoint_all_def Let_def d1_def [symmetric]
    by (simp only: healthy_raises [OF h1] if_False d2_def [symmetric])
       (simp only: healthy_raises [OF h2] if_False d3_def [symmetric] d4_def [symmetric]
          d5_def [symmetric] d6_def [symmetric])
  have f2: "indexList d2 = indexList d1" "anime_tbl d2 = anime_tbl d1" "genres_tbl d2 = genres_tbl d1"
     "title_synonyms d2 = repoint_id_value_rows dup canon (title_synonyms d1)"
     "torrentsIndex d2 = torrentsIndex d1" "pictures d2 = pictures d1" "broadcasts d2 = broadcasts d1"
     "animeRelations d2 = animeRelations d1" "characterRelations d2 = characterRelations d1"
     "user_tags_tbl d2 = user_tags_tbl d1" "broken d2 = broken d1" "rel_column d2 = rel_column d1"
    by (simp_all add: d2_def)
  have f3: "indexList d3 = indexList d2" "anime_tbl d3 = anime_tbl d2"
     "genres_tbl d3 = repoint_id_value_rows dup canon (genres_tbl d2)"
     "title_synonyms d3 = title_synonyms d2"
     "torrentsIndex d3 = torrentsIndex d2" "pictures d3 = pictures d2" "broadcasts d3 = broadcasts d2"
     "animeRelations d3 = animeRelations d2" "characterRelations d3 = characterRelations d2"
     "user_tags_tbl d3 = user_tags_tbl d2" "broken d3 = broken d2" "rel_column d3 = rel_column d2"
    by (simp_all add: d3_def)
  have e1: "indexList d1 = indexList db" "anime_tbl d1 = anime_tbl db" "genres_tbl d1 = genres_tbl db"
     "title_synonyms d1 = title_synonyms db" "pictures d1 = pictures db" "broadcasts d1 = broadcasts db"
     "animeRelations d1 = animeRelations db" "characterRelations d1 = characterRelations db"
     "user_tags_tbl d1 = user_tags_tbl db" "broken d1 = broken db" "rel_column d1 = rel_column db"
    by (simp_all only: d1_def table_frames)
  note e = d6_def d5_def d4_def f3 f2 e1
  show "indexList (repoint_all dup canon db) = indexList db"
    by (simp only: all table_frames e)
  show "anime_tbl (repoint_all dup canon db) = anime_tbl db"
    by (simp only: all table_frames e)
  show "title_synonyms (repoint_all dup canon db) =
           repoint_id_value_rows dup canon (title_synonyms db)"
    by (simp only: all table_frames e)
  show "genres_tbl (repoint_all dup canon db) = repoint_id_value_rows dup canon (genres_tbl db)"
    by (simp only: all table_frames e)
  show "torrentsIndex (repoint_all dup canon db) =
           repoint_torrents_loop dup canon
             (map snd (filter (\<lambda>r. fst r = dup) (torrentsIndex db))) (torrentsIndex db)"
    by (simp only: all table_frames e) (simp only: d1_def repoint_tables [OF h])
  show "pictures (repoint_all dup canon db) =
           repoint_pictures_loop dup canon
             (map (fst \<circ> snd) (filter (\<lambda>r. fst r = dup) (pictures db))) (pictures db)"
    by (simp only: all table_frames d6_def d5_def) (simp only: d4_def repoint_tables [OF h3] f3 f2 e1)
  have "broadcasts (repoint_broadcasts dup canon d4) = broadcasts (repoint_broadcasts dup canon db)"
    by (rule repoint_broadcasts_cong) (simp_all only: table_frames e)
  then show "broadcasts (repoint_all dup canon db) = broadcasts (repoint_broadcasts dup canon db)"
    by (simp only: all table_frames d6_def d5_def)
  show "animeRelations (repoint_all dup canon db) =
           repoint_relations_loop dup canon
             (map snd (filter (\<lambda>r. fst r = dup) (animeRelations db))) (animeRelations db)"
    unfolding all d6_def repoint_anime_id_tables_frame repoint_tables(3) [OF h5]
    by (simp only: d5_def d4_def table_frames f3 f2 e1)
  show "characterRelations (repoint_all dup canon db) = move_id dup canon (characterRelations db)"
    by (simp only: all repoint_tables [OF h6]) (simp only: table_frames e)
  show "user_tags_tbl (repoint_all dup canon db) = move_id dup canon (user_tags_tbl db)"
    by (simp only: all repoint_tables [OF h6]) (simp only: table_frames e)
  show "broken (repoint_all dup canon db) = broken db"
    by (simp only: all table_frames e)
  show "rel_column (repoint_all dup canon db) = rel_column db"
    by (simp only: all table_frames e)
qed


lemma delete_id_tables_healthy:
  assumes "healthy db"
  shows "indexList (delete_id_tables i db) = filter (\<lambda>r. ix_id r \<noteq> i) (indexList db)"
    and "anime_tbl (delete_id_tables i db) = filter (\<lambda>r. fst r \<noteq> i) (anime_tbl db)"
    and "title_synonyms (delete_id_tables i db) = filter (\<lambda>r. fst r \<noteq> i) (title_synonyms db)"
    and "genres_tbl (delete_id_tables i db) = filter (\<lambda>r. fst r \<noteq> i) (genres_tbl db)"
    and "torrentsIndex (delete_id_tables i db) = filter (\<lambda>r. fst r \<noteq> i) (torrentsIndex db)"
    and "pictures (delete_id_tables i db) = filter (\<lambda>r. fst r \<noteq> i) (pictures db)"
    and "broadcasts (delete_id_tables i db) = filter (\<lambda>r. fst r \<noteq> i) (broadcasts db)"
    and "animeRelations (delete_id_tables i db) = filter (\<lambda>r. fst r \<noteq> i) (animeRelations db)"
    and "characterRelations (delete_id_tables i db) = characterRelations db"
    and "user_tags_tbl (delete_id_tables i db) = user_tags_tbl db"
    and "broken (delete_id_tables i db) = broken db"
    and "rel_column (delete_id_tables i db) = rel_column db"
  unfolding delete_id_tables_def by (simp_all add: healthy_raises [OF assms])

text \<open>The database a merge leaves, given the duplicate's external ids.\<close>

definition merged_db :: "int \<Rightarrow> int \<Rightarrow> (string \<times> int) list \<Rightarrow> catdb \<Rightarrow> catdb" where
  "merged_db dup canon exts db =
     delete_character_relations dup (delete_id_tables dup (repoint_all dup canon
       (db\<lparr>indexList := backfill_items canon exts (indexList db)\<rparr>)))"

lemma merge_healthy:
  assumes "healthy db" and "dup \<noteq> canon"
  obtains exts where "get_external_ids db dup = Inr exts"
    and "merge db dup canon = Inr (canon, merged_db dup canon exts db)"
proof -
  obtain exts where exts: "get_external_ids db dup = Inr exts"
    using assms(1) by (simp add: get_external_ids_def)
  moreover have "merge db dup canon = Inr (canon, merged_db dup canon exts db)"
    using assms exts by (simp add: merge_def merged_db_def backfill_external_ids_def)
  ultimately show ?thesis by (rule that)
qed

lemma merged_tables:
  assumes h: "healthy db"
  shows "indexList (merged_db dup canon exts db) =
           filter (\<lambda>r. ix_id r \<noteq> dup) (backfill_items canon exts (indexList db))"
    and "anime_tbl (merged_db dup canon exts db) = filter (\<lambda>r. fst r \<noteq> dup) (anime_tbl db)"
    and "title_synonyms (merged_db dup canon exts db) =
           filter (\<lambda>r. fst r \<noteq> dup) (repoint_id_value_rows dup canon (title_synonyms db))"
    and "genres_tbl (merged_db dup canon exts db) =
           filter (\<lambda>r. fst r \<noteq> dup) (repoint_id_value_rows dup canon (genres_tbl db))"
    and "torrentsIndex (merged_db dup canon exts db) = filter (\<lambda>r. fst r \<noteq> dup)
           (repoint_torrents_loop dup canon
             (map snd (filter (\<lambda>r. fst r = dup) (torrentsIndex db))) (torrentsIndex db))"
    and "pictures (merged_db dup canon exts db) = filter (\<lambda>r. fst r \<noteq> dup)
           (repoint_pictures_loop dup canon
             (map (fst \<circ> snd) (filter (\<lambda>r. fst r = dup) (pictures db))) (pictures db))"
    and "broadcasts (merged_db dup canon exts db) =
           filter (\<lambda>r. fst r \<noteq> dup) (broadcasts (repoint_broadcasts dup canon db))"
    and "animeRelations (merged_db dup canon exts db) = filter (\<lambda>r. fst r \<noteq> dup)
           (repoint_relations_loop dup canon
             (map snd (filter (\<lambda>r. fst r = dup) (animeRelations db))) (animeRelations db))"
    and "characterRelations (merged_db dup canon exts db) =
           filter (\<lambda>r. fst r \<noteq> dup) (move_id dup canon (characterRelations db))"
    and "user_tags_tbl (merged_db dup canon exts db) = move_id dup canon (user_tags_tbl db)"
    and "broken (merged_db dup canon exts db) = broken db"
    and "rel_column (merged_db dup canon exts db) = rel_column db"
proof -
  define d0 where "d0 = db\<lparr>indexList := backfill_items canon exts (indexList db)\<rparr>"
  define d1 where "d1 = repoint_all dup canon d0"
  define d2 where "d2 = delete_id_tables dup d1"
  have h0: "healthy d0" unfolding d0_def by (rule healthy_cong [THEN iffD2, OF _ _ h]) simp_all
  have h1: "healthy d1" unfolding d1_def by (rule healthy_cong [THEN iffD2, OF _ _ h0])
      (simp_all only: repoint_all_healthy [OF h0])
  have h2: "healthy d2" unfolding d2_def by (rule healthy_cong [THEN iffD2, OF _ _ h1])
      (simp_all only: delete_id_tables_healthy [OF h1])
  have m: "merged_db dup canon exts db = delete_character_relations dup d2"
    by (simp only: merged_db_def d0_def d1_def d2_def)
  have c: "characterRelations (delete_character_relations dup d2) =
      filter (\<lambda>r. fst r \<noteq> dup) (characterRelations d2)"
    unfolding delete_character_relations_def by (simp only: healthy_raises [OF h2] if_False) simp
  have bc: "broadcasts (repoint_broadcasts dup canon d0) = broadcasts (repoint_broadcasts dup canon db)"
    by (rule repoint_broadcasts_cong) (simp_all add: d0_def)
  have e0: "indexList d0 = backfill_items canon exts (indexList db)" "anime_tbl d0 = anime_tbl db"
     "genres_tbl d0 = genres_tbl db" "title_synonyms d0 = title_synonyms db"
     "torrentsIndex d0 = torrentsIndex db" "pictures d0 = pictures db"
     "animeRelations d0 = animeRelations db" "characterRelations d0 = characterRelations db"
     "user_tags_tbl d0 = user_tags_tbl db" "broken d0 = broken db" "rel_column d0 = rel_column db"
    by (simp_all add: d0_def)
  note e2 = delete_id_tables_healthy [OF h1, of dup, folded d2_def]
  note e1 = repoint_all_healthy [OF h0, of dup canon, folded d1_def]
  note e = m delete_character_relations_frame c e2 e1 e0 bc
  show "indexList (merged_db dup canon exts db) =
           filter (\<lambda>r. ix_id r \<noteq> dup) (backfill_items canon exts (indexList db))"
    by (simp only: e)
  show "anime_tbl (merged_db dup canon exts db) = filter (\<lambda>r. fst r \<noteq> dup) (anime_tbl db)"
    by (simp only: e)
  show "title_synonyms (merged_db dup canon exts db) =
           filter (\<lambda>r. fst r \<noteq> dup) (repoint_id_value_rows dup canon (title_synonyms db))"
    by (simp only: e)
  show "genres_tbl (merged_db dup canon exts db) =
           filter (\<lambda>r. fst r \<noteq> dup) (repoint_id_value_rows dup canon (genres_tbl db))"
    by (simp only: e)
  show "torrentsIndex (merged_db dup canon exts db) = filter (\<lambda>r. fst r \<noteq> dup)
           (repoint_torrents_loop dup canon
             (map snd (filter (\<lambda>r. fst r = dup) (torrentsIndex db))) (torrentsIndex db))"
    by (simp only: e)
  show "pictures (merged_db dup canon exts db) = filter (\<lambda>r. fst r \<noteq> dup)
           (repoint_pictures_loop dup canon
             (map (fst \<circ> snd) (filter (\<lambda>r. fst r = dup) (pictures db))) (pictures db))"
    by (simp only: e)
  show "broadcasts (merged_db dup canon exts db) =
           filter (\<lambda>r. fst r \<noteq> dup) (broadcasts (repoint_broadcasts dup canon db))"
    by (simp only: e)
  show "animeRelations (merged_db dup canon exts db) = filter (\<lambda>r. fst r \<noteq> dup)
           (repoint_relations_loop dup canon
             (map snd (filter (\<lambda>r. fst r = dup) (animeRelations db))) (animeRelations db))"
    by (simp only: e)
  show "characterRelations (merged_db dup canon exts db) =
           filter (\<lambda>r. fst r \<noteq> dup) (move_id dup canon (characterRelations db))"
    by (simp only: e)
  show "user_tags_tbl (merged_db dup canon exts db) = move_id dup canon (user_tags_tbl db)"
    by (simp only: e)
  show "broken (merged_db dup canon exts db) = broken db"
    by (simp only: e)
  show "rel_column (merged_db dup canon exts db) = rel_column db"
    by (simp only: e)
qed


section \<open>Ownership after a merge\<close>

text \<open>
  What a merge must do to a table whose rows carry a key: the canonical id owns the keys of
  both ids, the duplicate owns no row, and the rows of every other id are untouched.
\<close>

definition folded_rows ::
  "('r \<Rightarrow> int) \<Rightarrow> ('r \<Rightarrow> 'k option) \<Rightarrow> int \<Rightarrow> int \<Rightarrow> 'r list \<Rightarrow> 'r list \<Rightarrow> bool" where
  "folded_rows rid key dup canon t t' \<longleftrightarrow>
     owned_keys rid key t' canon = owned_keys rid key t canon \<union> owned_keys rid key t dup
     \<and> filter (\<lambda>r. rid r = dup) t' = []
     \<and> (\<forall>i. i \<noteq> dup \<longrightarrow> i \<noteq> canon \<longrightarrow> filter (\<lambda>r. rid r = i) t' = filter (\<lambda>r. rid r = i) t)"

lemma filter_other_id:
  "i \<noteq> d \<Longrightarrow> filter (\<lambda>r. rid r = i) (filter (\<lambda>r. rid r \<noteq> d) t) = filter (\<lambda>r. rid r = i) t"
  by (induction t) auto

lemma folded_rowsI:
  assumes "dup \<noteq> canon"
    and "owned_keys rid key u canon = owned_keys rid key t canon \<union> owned_keys rid key t dup"
    and "\<And>i. i \<noteq> canon \<Longrightarrow> i \<noteq> dup \<Longrightarrow> filter (\<lambda>r. rid r = i) u = filter (\<lambda>r. rid r = i) t"
  shows "folded_rows rid key dup canon t (filter (\<lambda>r. rid r \<noteq> dup) u)"
  unfolding folded_rows_def
  using assms by (auto simp: owned_keys_filter_id filter_other_id simp del: filter_filter)

lemma folded_torrents:
  "dup \<noteq> canon \<Longrightarrow> folded_rows fst snd dup canon t (filter (\<lambda>r. fst r \<noteq> dup)
     (repoint_torrents_loop dup canon (map snd (filter (\<lambda>r. fst r = dup) t)) t))"
  using torrents_rows.repoint_all_elems [of dup canon t] torrents_rows.repoint_other_rows
  by (intro folded_rowsI) (simp_all add: id_def)

lemma folded_id_values:
  "dup \<noteq> canon \<Longrightarrow> folded_rows fst snd dup canon t (filter (\<lambda>r. fst r \<noteq> dup)
     (repoint_id_value_rows dup canon t))"
  using id_value_rows.repoint_all_elems [of dup canon t] id_value_rows.repoint_other_rows
  by (intro folded_rowsI) (simp_all add: id_def repoint_id_value_rows_def case_prod_unfold)

lemma folded_pictures:
  "dup \<noteq> canon \<Longrightarrow> folded_rows fst (fst \<circ> snd) dup canon t (filter (\<lambda>r. fst r \<noteq> dup)
     (repoint_pictures_loop dup canon (map (fst \<circ> snd) (filter (\<lambda>r. fst r = dup) t)) t))"
  using picture_rows.repoint_all_elems [of dup canon t] picture_rows.repoint_other_rows
  by (intro folded_rowsI) (simp_all add: id_def o_def)

lemma folded_relations:
  "dup \<noteq> canon \<Longrightarrow> folded_rows fst (\<lambda>r. relation_key (snd r)) dup canon t
     (filter (\<lambda>r. fst r \<noteq> dup)
       (repoint_relations_loop dup canon (map snd (filter (\<lambda>r. fst r = dup) t)) t))"
  using relation_rows.repoint_all_elems [of dup canon t] relation_rows.repoint_other_rows
  by (intro folded_rowsI) simp_all

lemma folded_moved:
  assumes "dup \<noteq> canon"
  shows "folded_rows fst (\<lambda>r. Some (snd r)) dup canon t
           (filter (\<lambda>r. fst r \<noteq> dup) (move_id dup canon t))"
    and "folded_rows fst (\<lambda>r. Some (snd r)) dup canon t (move_id dup canon t)"
proof -
  have own: "owned_keys fst (\<lambda>r. Some (snd r)) (move_id dup canon t) canon =
      owned_keys fst (\<lambda>r. Some (snd r)) t canon \<union> owned_keys fst (\<lambda>r. Some (snd r)) t dup"
    unfolding owned_keys_def move_id_def by force
  have other: "filter (\<lambda>r. fst r = i) (move_id dup canon t) = filter (\<lambda>r. fst r = i) t"
    if "i \<noteq> canon" "i \<noteq> dup" for i
    using that by (induction t) (auto simp: move_id_def)
  show *: "folded_rows fst (\<lambda>r. Some (snd r)) dup canon t
           (filter (\<lambda>r. fst r \<noteq> dup) (move_id dup canon t))"
    by (rule folded_rowsI [OF assms own]) (rule other)
  have "filter (\<lambda>r. fst r \<noteq> dup) (move_id dup canon t) = move_id dup canon t"
    using fst_move_id [OF assms] unfolding filter_id_conv by blast
  with * show "folded_rows fst (\<lambda>r. Some (snd r)) dup canon t (move_id dup canon t)" by simp
qed

lemma folded_broadcasts:
  assumes "healthy db" and "dup \<noteq> canon"
  shows "\<forall>r \<in> set (filter (\<lambda>r. fst r \<noteq> dup) (broadcasts (repoint_broadcasts dup canon db))).
            fst r \<noteq> dup"
    and "filter (\<lambda>r. fst r = canon)
           (filter (\<lambda>r. fst r \<noteq> dup) (broadcasts (repoint_broadcasts dup canon db))) =
         (if \<exists>r \<in> set (broadcasts db). fst r = canon
          then filter (\<lambda>r. fst r = canon) (broadcasts db)
          else map (\<lambda>r. (canon, snd r)) (filter (\<lambda>r. fst r = dup) (broadcasts db)))"
proof -
  let ?t = "broadcasts db"
  have moved: "filter (\<lambda>r. fst r = canon) (filter (\<lambda>r. fst r \<noteq> dup)
        (map (\<lambda>(i, b). if i = dup then (canon, b) else (i, b)) t)) =
      map (\<lambda>r. (canon, snd r)) (filter (\<lambda>r. fst r = dup) t)"
    if "\<forall>r \<in> set t. fst r \<noteq> canon" for t :: "(int \<times> string) list"
    using that assms(2) by (induction t) (auto split: if_splits)
  have kept: "filter (\<lambda>r. fst r = canon) (filter (\<lambda>r. fst r \<noteq> dup) t) =
      filter (\<lambda>r. fst r = canon) t" for t :: "(int \<times> string) list"
    using assms(2) by (intro filter_other_id) simp
  have none: "filter (\<lambda>r. fst r = dup) t = []" if "\<not> list_ex (\<lambda>(i, b). i = dup) t"
    for t :: "(int \<times> string) list"
    using that by (auto simp: list_ex_iff filter_empty_conv)
  have none': "filter (\<lambda>r. fst r = canon) t = []" if "\<not> list_ex (\<lambda>(i, b). i = canon) t"
    for t :: "(int \<times> string) list"
    using that by (auto simp: list_ex_iff filter_empty_conv)
  have ex: "list_ex (\<lambda>(i, b). i = canon) ?t \<longleftrightarrow> (\<exists>r \<in> set ?t. fst r = canon)"
    by (force simp: list_ex_iff)
  show "\<forall>r \<in> set (filter (\<lambda>r. fst r \<noteq> dup) (broadcasts (repoint_broadcasts dup canon db))).
            fst r \<noteq> dup" by simp
  consider (no) "\<not> list_ex (\<lambda>(i, b). i = dup) ?t"
    | (both) "list_ex (\<lambda>(i, b). i = dup) ?t" "list_ex (\<lambda>(i, b). i = canon) ?t"
    | (move) "list_ex (\<lambda>(i, b). i = dup) ?t" "\<not> list_ex (\<lambda>(i, b). i = canon) ?t"
    by blast
  then show "filter (\<lambda>r. fst r = canon)
           (filter (\<lambda>r. fst r \<noteq> dup) (broadcasts (repoint_broadcasts dup canon db))) =
         (if \<exists>r \<in> set (broadcasts db). fst r = canon
          then filter (\<lambda>r. fst r = canon) (broadcasts db)
          else map (\<lambda>r. (canon, snd r)) (filter (\<lambda>r. fst r = dup) (broadcasts db)))"
  proof cases
    case no
    then have "repoint_broadcasts dup canon db = db"
      unfolding repoint_broadcasts_def by (simp only: if_True if_False not_False_eq_True if_cancel)
    then show ?thesis using none [OF no] none' [of ?t] ex by (cases "list_ex (\<lambda>(i, b). i = canon) ?t") (simp_all only: kept if_True if_False list.map not_False_eq_True)
  next
    case both
    then have "broadcasts (repoint_broadcasts dup canon db) = filter (\<lambda>(i, b). i \<noteq> dup) ?t"
      using healthy_raises [OF assms(1)] by (simp add: repoint_broadcasts_def)
    then show ?thesis using both ex kept by (simp add: case_prod_unfold)
  next
    case move
    then have "broadcasts (repoint_broadcasts dup canon db) =
        map (\<lambda>(i, b). if i = dup then (canon, b) else (i, b)) ?t"
      using healthy_raises [OF assms(1)] by (simp add: repoint_broadcasts_def)
    moreover have "\<forall>r \<in> set ?t. fst r \<noteq> canon" using move ex by blast
    ultimately show ?thesis using move ex moved by auto
  qed
qed


section \<open>The index after a merge\<close>

definition col_unique :: "string \<Rightarrow> index_row list \<Rightarrow> bool" where
  "col_unique k rows \<longleftrightarrow>
     (\<forall>r \<in> set rows. \<forall>s \<in> set rows.
        ix_ext r k \<noteq> None \<longrightarrow> ix_ext r k = ix_ext s k \<longrightarrow> ix_id r = ix_id s)"

lemma col_uniqueD:
  "col_unique k rows \<Longrightarrow> r \<in> set rows \<Longrightarrow> s \<in> set rows \<Longrightarrow> ix_ext r k = Some v \<Longrightarrow>
   ix_ext s k = Some v \<Longrightarrow> ix_id r = ix_id s"
  unfolding col_unique_def by (metis option.discI)

lemma col_uniqueI:
  assumes "\<And>r s v. r \<in> set rows \<Longrightarrow> s \<in> set rows \<Longrightarrow> ix_ext r k = Some v \<Longrightarrow>
    ix_ext s k = Some v \<Longrightarrow> ix_id r = ix_id s"
  shows "col_unique k rows"
  unfolding col_unique_def using assms by (metis not_None_eq)

lemma index_wf_cols:
  "index_wf rows \<longleftrightarrow>
     distinct (map ix_id rows) \<and> (\<forall>k \<in> set INDEX_PROVIDER_KEYS. col_unique k rows)"
  unfolding index_wf_def col_unique_def by blast

text \<open>What \<open>get_external_ids\<close> gives for an id: the columns of its row, nothing without a row.\<close>

lemma get_external_ids_cols:
  assumes "\<not> raises db ''indexList''" and "distinct (map ix_id (indexList db))"
    and "get_external_ids db i = Inr exts" and "k \<in> set INDEX_PROVIDER_KEYS"
  shows "map_of exts k = Some v \<longleftrightarrow> (\<exists>r \<in> set (indexList db). ix_id r = i \<and> ix_ext r k = Some v)"
proof (cases "i \<in> ix_id ` set (indexList db)")
  case True
  then obtain r where r: "r \<in> set (indexList db)" "ix_id r = i" by auto
  have "map_of exts k = ix_ext r k"
    using get_external_ids_row [OF assms(1,2) r(1)] assms(3,4) r(2) by simp
  then show ?thesis using r distinct_ids_eq [OF assms(2)] by metis
next
  case False
  then have "exts = []" using get_external_ids_none [OF assms(1)] assms(3) by auto
  then show ?thesis using False by auto
qed

text \<open>A merge of the index rows keeps a column free of duplicates.\<close>

lemma merged_col_unique:
  assumes u: "col_unique k rows" and k: "k \<in> set INDEX_PROVIDER_KEYS"
    and exts: "\<And>v. map_of exts k = Some v \<longleftrightarrow> (\<exists>r \<in> set rows. ix_id r = dup \<and> ix_ext r k = Some v)"
  shows "col_unique k (filter (\<lambda>r. ix_id r \<noteq> dup) (backfill_items canon exts rows))"
proof (rule col_uniqueI)
  fix r s v
  assume "r \<in> set (filter (\<lambda>r. ix_id r \<noteq> dup) (backfill_items canon exts rows))"
    and "s \<in> set (filter (\<lambda>r. ix_id r \<noteq> dup) (backfill_items canon exts rows))"
    and v: "ix_ext r k = Some v" "ix_ext s k = Some v"
  then obtain r0 s0 where r0: "r0 \<in> set rows" "ix_id r0 \<noteq> dup" "r = backfilled canon exts r0"
    and s0: "s0 \<in> set rows" "ix_id s0 \<noteq> dup" "s = backfilled canon exts s0"
    by (auto simp: backfill_items_map)
  have moved: "ix_id a = canon \<and> (\<exists>d \<in> set rows. ix_id d = dup \<and> ix_ext d k = Some v)"
    if "ix_ext (backfilled canon exts a) k = Some v" "ix_ext a k \<noteq> Some v" for a
    using that exts [of v] by (auto simp: ix_ext_backfilled split: if_splits)
  show "ix_id r = ix_id s"
  proof (cases "ix_ext r0 k = Some v"; cases "ix_ext s0 k = Some v")
    assume "ix_ext r0 k = Some v" "ix_ext s0 k = Some v"
    then show ?thesis using col_uniqueD [OF u r0(1) s0(1)] r0 s0 by simp
  next
    assume a: "ix_ext r0 k = Some v" "ix_ext s0 k \<noteq> Some v"
    then obtain d where "d \<in> set rows" "ix_id d = dup" "ix_ext d k = Some v"
      using moved [of s0] v s0 by auto
    then show ?thesis using col_uniqueD [OF u r0(1), of d] a r0 by simp
  next
    assume a: "ix_ext r0 k \<noteq> Some v" "ix_ext s0 k = Some v"
    then obtain d where "d \<in> set rows" "ix_id d = dup" "ix_ext d k = Some v"
      using moved [of r0] v r0 by auto
    then show ?thesis using col_uniqueD [OF u s0(1), of d] a s0 by simp
  next
    assume "ix_ext r0 k \<noteq> Some v" "ix_ext s0 k \<noteq> Some v"
    then show ?thesis using moved [of r0] moved [of s0] v r0 s0 by simp
  qed
qed

text \<open>The ids of a column with their values; a merge removes the duplicate's entry only.\<close>

definition col_view :: "index_row list \<Rightarrow> string \<Rightarrow> (int \<times> int option) list" where
  "col_view rows k = map (\<lambda>r. (ix_id r, ix_ext r k)) rows"

lemma merge_step:
  assumes h: "healthy db" and d: "distinct (map ix_id (indexList db))" and ne: "dup \<noteq> canon"
  obtains db' where "merge db dup canon = Inr (canon, db')" and "healthy db'"
    and "map ix_id (indexList db') = filter (\<lambda>i. i \<noteq> dup) (map ix_id (indexList db))"
    and "\<And>k. k \<in> set INDEX_PROVIDER_KEYS \<Longrightarrow> col_unique k (indexList db) \<Longrightarrow>
           col_unique k (indexList db')"
    and "\<And>k e. (canon, Some e) \<in> set (col_view (indexList db) k) \<Longrightarrow>
           col_view (indexList db') k = filter (\<lambda>v. fst v \<noteq> dup) (col_view (indexList db) k)"
proof -
  note nr = healthy_raises [OF h, of "''indexList''"]
  obtain exts where exts: "get_external_ids db dup = Inr exts"
    and m: "merge db dup canon = Inr (canon, merged_db dup canon exts db)"
    by (rule merge_healthy [OF h ne])
  let ?rows = "indexList db"
  let ?rows' = "filter (\<lambda>r. ix_id r \<noteq> dup) (backfill_items canon exts ?rows)"
  have rows': "indexList (merged_db dup canon exts db) = ?rows'" by (rule merged_tables [OF h])
  have h': "healthy (merged_db dup canon exts db)"
    by (rule healthy_cong [THEN iffD2, OF _ _ h]) (rule merged_tables [OF h])+
  have ids: "map ix_id ?rows' = filter (\<lambda>i. i \<noteq> dup) (map ix_id ?rows)"
    unfolding backfill_items_map by (induction ?rows) (simp_all add: filter_map o_def)
  have unique: "col_unique k ?rows'" if "k \<in> set INDEX_PROVIDER_KEYS" "col_unique k ?rows" for k
    using merged_col_unique [OF that(2,1)] get_external_ids_cols [OF nr d exts that(1)] by blast
  have view: "col_view ?rows' k = filter (\<lambda>v. fst v \<noteq> dup) (col_view ?rows k)"
    if mem: "(canon, Some e) \<in> set (col_view ?rows k)" for k e
  proof -
    obtain c where c: "c \<in> set ?rows" "ix_id c = canon" "ix_ext c k = Some e"
      using mem by (auto simp: col_view_def)
    have some: "ix_ext r k = Some e" if "r \<in> set ?rows" "ix_id r = canon" for r
      using distinct_ids_eq [OF d that(1) c(1)] that c by simp
    have "(ix_id (backfilled canon exts r), ix_ext (backfilled canon exts r) k) = (ix_id r, ix_ext r k)"
      if "r \<in> set ?rows" for r
      using some [OF that] by (cases "ix_id r = canon") (simp_all add: ix_ext_backfilled)
    then show ?thesis
      unfolding col_view_def backfill_items_map filter_map map_map o_def
      by (simp add: o_def)
  qed
  show ?thesis
    by (rule that [OF m h']) (use ids unique view in \<open>simp_all only: rows'\<close>)
qed

section \<open>Repairing duplicates\<close>

text \<open>Merging a list of duplicates into an indexed canonical id.\<close>

lemma merge_duplicates_step:
  assumes "healthy db" and "distinct (map ix_id (indexList db))"
    and "(canon, Some e) \<in> set (col_view (indexList db) k)"
    and "distinct dups" and "set dups \<subseteq> set (map ix_id (indexList db))"
  shows "\<exists>n db'. merge_duplicates db canon dups = Inr (n, db') \<and> healthy db'
     \<and> distinct (map ix_id (indexList db'))
     \<and> length (indexList db) = n + length (indexList db')
     \<and> (\<forall>c \<in> set INDEX_PROVIDER_KEYS. col_unique c (indexList db) \<longrightarrow> col_unique c (indexList db'))
     \<and> col_view (indexList db') k =
         filter (\<lambda>v. fst v \<in> set dups \<longrightarrow> fst v = canon) (col_view (indexList db) k)"
  using assms
proof (induction dups arbitrary: db)
  case Nil
  then show ?case by simp
next
  case (Cons x dups)
  show ?case
  proof (cases "x = canon")
    case True
    with Cons.prems have p: "distinct dups" "set dups \<subseteq> set (map ix_id (indexList db))"
      "canon \<notin> set dups" by auto
    have f: "(fst v \<in> set (x # dups) \<longrightarrow> fst v = canon) = (fst v \<in> set dups \<longrightarrow> fst v = canon)"
      for v :: "int \<times> int option" using True by auto
    have md: "merge_duplicates db canon (x # dups) = merge_duplicates db canon dups"
      using True by simp
    show ?thesis
      using Cons.IH [OF Cons.prems(1-3) p(1,2)] by (simp only: f md)
  next
    case False
    from Cons.prems(1,2) False obtain db1 where m: "merge db x canon = Inr (canon, db1)"
      and h1: "healthy db1"
      and ids: "map ix_id (indexList db1) = filter (\<lambda>i. i \<noteq> x) (map ix_id (indexList db))"
      and u1: "\<And>k. k \<in> set INDEX_PROVIDER_KEYS \<Longrightarrow> col_unique k (indexList db) \<Longrightarrow>
           col_unique k (indexList db1)"
      and v1: "\<And>k e. (canon, Some e) \<in> set (col_view (indexList db) k) \<Longrightarrow>
           col_view (indexList db1) k = filter (\<lambda>v. fst v \<noteq> x) (col_view (indexList db) k)"
      by (rule merge_step) blast
    have d1: "distinct (map ix_id (indexList db1))" using ids Cons.prems(2) by simp
    have view: "col_view (indexList db1) k = filter (\<lambda>v. fst v \<noteq> x) (col_view (indexList db) k)"
      by (rule v1 [OF Cons.prems(3)])
    then have c1: "(canon, Some e) \<in> set (col_view (indexList db1) k)"
      using Cons.prems(3) False by simp
    have sub: "set dups \<subseteq> set (map ix_id (indexList db1))" "distinct dups"
      using Cons.prems(4,5) by (auto simp: ids)
    have one: "length (filter (\<lambda>i. i \<noteq> x) xs) + 1 = length xs" if "distinct xs" "x \<in> set xs" for xs
      using that
    proof (induction xs)
      case (Cons a xs)
      have "filter (\<lambda>i. i \<noteq> x) xs = xs" if "x \<notin> set xs"
        using that by (auto simp: filter_id_conv)
      then show ?case using Cons by auto
    qed simp
    have "x \<in> set (map ix_id (indexList db))" using Cons.prems(5) by simp
    then have "length (map ix_id (indexList db1)) + 1 = length (map ix_id (indexList db))"
      unfolding ids using one Cons.prems(2) by blast
    then have len: "length (indexList db) = Suc (length (indexList db1))" by simp
    obtain n db' where ih: "merge_duplicates db1 canon dups = Inr (n, db')" "healthy db'"
       "distinct (map ix_id (indexList db'))" "length (indexList db1) = n + length (indexList db')"
       "\<forall>c \<in> set INDEX_PROVIDER_KEYS. col_unique c (indexList db1) \<longrightarrow> col_unique c (indexList db')"
       "col_view (indexList db') k =
         filter (\<lambda>v. fst v \<in> set dups \<longrightarrow> fst v = canon) (col_view (indexList db1) k)"
      using Cons.IH [OF h1 d1 c1 sub(2,1)] by blast
    have "col_view (indexList db') k =
         filter (\<lambda>v. fst v \<in> set (x # dups) \<longrightarrow> fst v = canon) (col_view (indexList db) k)"
      unfolding ih(6) view filter_filter using False by (intro filter_cong) auto
    moreover have "merge_duplicates db canon (x # dups) = Inr (Suc n, db')"
      using False m ih(1) by simp
    ultimately show ?thesis using ih len u1 by auto
  qed
qed


text \<open>What the grouping of a column yields.\<close>

lemma map_of_group_by_external:
  "map_of (group_by_external rows groups) e =
     (let found = map fst (filter (\<lambda>p. snd p = e) rows)
      in case map_of groups e of
           Some is \<Rightarrow> Some (is @ found)
         | None \<Rightarrow> if found = [] then None else Some found)"
proof (induction rows groups rule: group_by_external.induct)
  case (1 groups)
  then show ?case by (simp split: option.splits)
next
  case (2 i e' rows groups)
  then show ?case
    by (cases "e' = e") (auto simp: update_conv' Let_def split: option.splits)
qed

lemma distinct_group_by_external:
  "distinct (map fst groups) \<Longrightarrow> distinct (map fst (group_by_external rows groups))"
  by (induction rows groups rule: group_by_external.induct) (simp_all add: distinct_update)

lemma group_by_external_ids:
  "(e, ids) \<in> set (group_by_external rows []) \<Longrightarrow>
   ids = map fst (filter (\<lambda>p. snd p = e) rows) \<and> ids \<noteq> []"
proof -
  assume "(e, ids) \<in> set (group_by_external rows [])"
  then have "map_of (group_by_external rows []) e = Some ids"
    using distinct_group_by_external [of "[]" rows] by (simp add: map_of_is_SomeI)
  then show ?thesis by (auto simp: map_of_group_by_external Let_def split: if_splits)
qed

text \<open>Groups of ids that share a value of column \<open>k\<close>, pairwise disjoint.\<close>

definition column_groups :: "index_row list \<Rightarrow> string \<Rightarrow> int list list \<Rightarrow> bool" where
  "column_groups rows k gs \<longleftrightarrow>
     distinct (concat gs)
     \<and> (\<forall>g \<in> set gs. g \<noteq> [] \<and> (\<exists>e. \<forall>i \<in> set g. (i, Some e) \<in> set (col_view rows k)))"

definition chosen :: "int list \<Rightarrow> int" where
  "chosen g = (case preferred_catalog_id g of Inl e \<Rightarrow> 0 | Inr c \<Rightarrow> c)"

lemma chosen_in: "g \<noteq> [] \<Longrightarrow> preferred_catalog_id g = Inr (chosen g) \<and> chosen g \<in> set g"
  using preferred_catalog_id_total [of g] preferred_catalog_id_mem [of g]
  by (auto simp: chosen_def)

lemma merge_groups_step:
  assumes "healthy db" and "distinct (map ix_id (indexList db))"
    and "column_groups (indexList db) k gs"
  shows "\<exists>n db'. merge_groups db gs = Inr (n, db') \<and> healthy db'
     \<and> distinct (map ix_id (indexList db'))
     \<and> length (indexList db) = n + length (indexList db')
     \<and> (\<forall>c \<in> set INDEX_PROVIDER_KEYS. col_unique c (indexList db) \<longrightarrow> col_unique c (indexList db'))
     \<and> col_view (indexList db') k =
         filter (\<lambda>v. \<forall>g \<in> set gs. fst v \<in> set g \<longrightarrow> fst v = chosen g) (col_view (indexList db) k)"
  using assms
proof (induction gs arbitrary: db)
  case Nil
  then show ?case by simp
next
  case (Cons g gs)
  from Cons.prems(3) obtain e where g: "g \<noteq> []" "distinct g" "set g \<inter> set (concat gs) = {}"
      "\<forall>i \<in> set g. (i, Some e) \<in> set (col_view (indexList db) k)"
    and gs: "column_groups (indexList db) k gs"
    unfolding column_groups_def by auto
  have c: "preferred_catalog_id g = Inr (chosen g)" "chosen g \<in> set g"
    using chosen_in [OF g(1)] by auto
  have "\<exists>n db'. (if length g < 2 then Inr (0, db) else merge_duplicates db (chosen g) g) = Inr (n, db')
     \<and> healthy db' \<and> distinct (map ix_id (indexList db'))
     \<and> length (indexList db) = n + length (indexList db')
     \<and> (\<forall>c \<in> set INDEX_PROVIDER_KEYS. col_unique c (indexList db) \<longrightarrow> col_unique c (indexList db'))
     \<and> col_view (indexList db') k =
         filter (\<lambda>v. fst v \<in> set g \<longrightarrow> fst v = chosen g) (col_view (indexList db) k)"
  proof (cases "length g < 2")
    case True
    then have "g = [chosen g]" using g(1) c(2) by (cases g) auto
    then have "(fst v \<in> set g \<longrightarrow> fst v = chosen g) = True" for v :: "int \<times> int option"
      by (metis empty_iff insert_iff list.set(1) list.simps(15))
    then show ?thesis using True Cons.prems(1,2) by simp
  next
    case False
    have mem: "(chosen g, Some e) \<in> set (col_view (indexList db) k)" using g(4) c(2) by blast
    have sub: "set g \<subseteq> set (map ix_id (indexList db))"
      using g(4) by (auto simp: col_view_def)
    show ?thesis
      using merge_duplicates_step [OF Cons.prems(1,2) mem g(2) sub] False by simp
  qed
  then obtain n db1 where m: "(if length g < 2 then Inr (0, db)
        else merge_duplicates db (chosen g) g) = Inr (n, db1)"
    and h1: "healthy db1" and d1: "distinct (map ix_id (indexList db1))"
    and l1: "length (indexList db) = n + length (indexList db1)"
    and u1: "\<forall>c \<in> set INDEX_PROVIDER_KEYS. col_unique c (indexList db) \<longrightarrow> col_unique c (indexList db1)"
    and v1: "col_view (indexList db1) k =
         filter (\<lambda>v. fst v \<in> set g \<longrightarrow> fst v = chosen g) (col_view (indexList db) k)"
    by blast
  have "\<exists>e. \<forall>i \<in> set h. (i, Some e) \<in> set (col_view (indexList db1) k)"
    if h: "h \<in> set gs" for h
  proof -
    obtain e' where "\<forall>i \<in> set h. (i, Some e') \<in> set (col_view (indexList db) k)"
      using gs h unfolding column_groups_def by blast
    moreover have "i \<notin> set g" if "i \<in> set h" for i using g(3) h that by auto
    ultimately show ?thesis unfolding v1 by auto
  qed
  then have gs1: "column_groups (indexList db1) k gs"
    using gs unfolding column_groups_def by blast
  obtain n' db' where ih: "merge_groups db1 gs = Inr (n', db')" "healthy db'"
     "distinct (map ix_id (indexList db'))" "length (indexList db1) = n' + length (indexList db')"
     "\<forall>c \<in> set INDEX_PROVIDER_KEYS. col_unique c (indexList db1) \<longrightarrow> col_unique c (indexList db')"
     "col_view (indexList db') k =
         filter (\<lambda>v. \<forall>g \<in> set gs. fst v \<in> set g \<longrightarrow> fst v = chosen g) (col_view (indexList db1) k)"
    using Cons.IH [OF h1 d1 gs1] by blast
  have mg: "merge_groups db (g # gs) = Inr (n + n', db')"
  proof (cases "length g < 2")
    case True
    then have "n = 0" "db1 = db" using m by simp_all
    then show ?thesis using True ih(1) by simp
  next
    case False
    then have "merge_duplicates db (chosen g) g = Inr (n, db1)" using m by simp
    then show ?thesis using False ih(1) c(1) by simp
  qed
  have "col_view (indexList db') k =
      filter (\<lambda>v. \<forall>h \<in> set (g # gs). fst v \<in> set h \<longrightarrow> fst v = chosen h) (col_view (indexList db) k)"
    unfolding ih(6) v1 filter_filter by (intro filter_cong) auto
  then show ?case using mg ih l1 u1 by auto
qed


lemma column_rows_iff: "(i, e) \<in> set (column_rows db k) \<longleftrightarrow> (i, Some e) \<in> set (col_view (indexList db) k)"
proof -
  have "(i, e) \<in> set (List.map_filter (\<lambda>r. map_option (Pair (ix_id r)) (ix_ext r k)) rows) \<longleftrightarrow>
      (i, Some e) \<in> set (map (\<lambda>r. (ix_id r, ix_ext r k)) rows)" for rows
    by (induction rows) (auto simp: map_filter_simps split: option.splits)
  then show ?thesis by (simp only: column_rows_def col_view_def)
qed

lemma distinct_map_filter_sub:
  "distinct (map f xs) \<Longrightarrow> distinct (map f (filter P xs))"
  by (induction xs) auto

lemma distinct_column_rows:
  assumes "distinct (map ix_id (indexList db))"
  shows "distinct (map fst (column_rows db k))"
proof -
  have "map fst (column_rows db k) = map ix_id (filter (\<lambda>r. ix_ext r k \<noteq> None) (indexList db))"
  proof -
    have "map fst (List.map_filter (\<lambda>r. map_option (Pair (ix_id r)) (ix_ext r k)) rows) =
        map ix_id (filter (\<lambda>r. ix_ext r k \<noteq> None) rows)" for rows
      by (induction rows) (auto simp: map_filter_simps)
    then show ?thesis by (simp only: column_rows_def)
  qed
  then show ?thesis using distinct_map_filter_sub [OF assms] by simp
qed

text \<open>The groups the repair computes are groups of the column.\<close>

lemma repair_groups:
  assumes d: "distinct (map ix_id (indexList db))"
  shows "column_groups (indexList db) k (map snd (group_by_external (column_rows db k) []))"
proof -
  let ?rows = "column_rows db k"
  let ?gs = "group_by_external ?rows []"
  have dr: "distinct (map fst ?rows)" by (rule distinct_column_rows [OF d])
  have keys: "distinct (map fst ?gs)" by (rule distinct_group_by_external) simp
  have ids: "ids = map fst (filter (\<lambda>p. snd p = e) ?rows)" "ids \<noteq> []"
    if "(e, ids) \<in> set ?gs" for e ids
    using group_by_external_ids [OF that] by auto
  have shared: "\<forall>i \<in> set ids. (i, Some e) \<in> set (col_view (indexList db) k)"
    if "(e, ids) \<in> set ?gs" for e ids
    unfolding ids(1) [OF that] by (auto simp: column_rows_iff)
  have inj: "e = e'" if "i \<in> set ids" "i \<in> set ids'" "(e, ids) \<in> set ?gs" "(e', ids') \<in> set ?gs"
    for e e' i ids ids'
  proof -
    have "(i, e) \<in> set ?rows" using that(1) unfolding ids(1) [OF that(3)] by auto
    moreover have "(i, e') \<in> set ?rows" using that(2) unfolding ids(1) [OF that(4)] by auto
    ultimately show ?thesis using dr by (metis eq_key_imp_eq_value)
  qed
  have each: "distinct ids" if "(e, ids) \<in> set ?gs" for e ids
    unfolding ids(1) [OF that] by (rule distinct_map_filter_sub [OF dr])
  have "distinct (concat (map snd gs))"
    if "distinct (map fst gs)" "set gs \<subseteq> set ?gs" for gs
    using that
  proof (induction gs)
    case (Cons p gs)
    obtain e hs where p: "p = (e, hs)" by (cases p)
    have "set hs \<inter> set js = {}" if "(e', js) \<in> set gs" for e' js
    proof -
      have "e' \<noteq> e" using Cons.prems(1) that p by force
      moreover have "(e, hs) \<in> set ?gs" "(e', js) \<in> set ?gs" using Cons.prems(2) that p by auto
      ultimately show ?thesis using inj by fastforce
    qed
    moreover have "distinct hs" using each [of e hs] Cons.prems(2) p by simp
    ultimately show ?case using Cons p by fastforce
  qed simp
  then have "distinct (concat (map snd ?gs))" using keys by blast
  moreover have "g \<noteq> [] \<and> (\<exists>e. \<forall>i \<in> set g. (i, Some e) \<in> set (col_view (indexList db) k))"
    if "g \<in> set (map snd ?gs)" for g
    using that shared ids(2) by fastforce
  ultimately show ?thesis unfolding column_groups_def by blast
qed

text \<open>After the groups of a column are merged, the column is free of duplicates.\<close>

lemma groups_merged_unique:
  assumes view: "col_view rows' k =
      filter (\<lambda>v. \<forall>g \<in> set (map snd (group_by_external (column_rows db k) [])).
                    fst v \<in> set g \<longrightarrow> fst v = chosen g) (col_view (indexList db) k)"
  shows "col_unique k rows'"
proof (rule col_uniqueI)
  fix r s v
  assume r: "r \<in> set rows'" "ix_ext r k = Some v" and s: "s \<in> set rows'" "ix_ext s k = Some v"
  have mem: "(ix_id r, Some v) \<in> set (col_view rows' k)" "(ix_id s, Some v) \<in> set (col_view rows' k)"
    using r s by (force simp: col_view_def)+
  let ?gs = "group_by_external (column_rows db k) []"
  define g where "g = map fst (filter (\<lambda>p. snd p = v) (column_rows db k))"
  have "(ix_id r, v) \<in> set (column_rows db k)" "(ix_id s, v) \<in> set (column_rows db k)"
    using mem by (simp_all add: view column_rows_iff)
  then have ids: "ix_id r \<in> set g" "ix_id s \<in> set g" by (force simp: g_def)+
  then have "g \<noteq> []" by auto
  then have "map_of ?gs v = Some g"
    by (auto simp: map_of_group_by_external Let_def g_def)
  then have "g \<in> set (map snd ?gs)" by (force dest: map_of_SomeD)
  then have "ix_id r = chosen g" "ix_id s = chosen g" using mem ids unfolding view by auto
  then show "ix_id r = ix_id s" by simp
qed

lemma repair_step:
  assumes "healthy db" and "distinct (map ix_id (indexList db))"
    and "set cols \<subseteq> set INDEX_PROVIDER_KEYS"
  shows "\<exists>n db'. repair_by_provider_id db cols = Inr (n, db') \<and> healthy db'
     \<and> distinct (map ix_id (indexList db'))
     \<and> length (indexList db) = n + length (indexList db')
     \<and> (\<forall>c \<in> set INDEX_PROVIDER_KEYS. c \<in> set cols \<or> col_unique c (indexList db) \<longrightarrow>
          col_unique c (indexList db'))"
  using assms
proof (induction cols arbitrary: db)
  case Nil
  then show ?case by simp
next
  case (Cons k cols)
  let ?gs = "map snd (group_by_external (column_rows db k) [])"
  obtain n db1 where m: "merge_groups db ?gs = Inr (n, db1)" and h1: "healthy db1"
    and d1: "distinct (map ix_id (indexList db1))"
    and l1: "length (indexList db) = n + length (indexList db1)"
    and u1: "\<forall>c \<in> set INDEX_PROVIDER_KEYS. col_unique c (indexList db) \<longrightarrow> col_unique c (indexList db1)"
    and v1: "col_view (indexList db1) k =
         filter (\<lambda>v. \<forall>g \<in> set ?gs. fst v \<in> set g \<longrightarrow> fst v = chosen g) (col_view (indexList db) k)"
    using merge_groups_step [OF Cons.prems(1,2) repair_groups [OF Cons.prems(2)]] by blast
  have uk: "col_unique k (indexList db1)" by (rule groups_merged_unique [OF v1])
  obtain n' db' where ih: "repair_by_provider_id db1 cols = Inr (n', db')" "healthy db'"
     "distinct (map ix_id (indexList db'))" "length (indexList db1) = n' + length (indexList db')"
     "\<forall>c \<in> set INDEX_PROVIDER_KEYS. c \<in> set cols \<or> col_unique c (indexList db1) \<longrightarrow>
          col_unique c (indexList db')"
    using Cons.IH [OF h1 d1] Cons.prems(3) by auto
  have "repair_by_provider_id db (k # cols) = Inr (n + n', db')"
    using m ih(1) healthy_raises [OF Cons.prems(1)] by simp
  then show ?case using ih l1 u1 uk by auto
qed

section \<open>Properties\<close>


definition merge_example :: catdb where
  "merge_example = \<lparr>
     indexList = [\<lparr>ix_id = 1, ix_ext = [''mal_id'' \<mapsto> 10]\<rparr>,
                  \<lparr>ix_id = 2, ix_ext = [''kitsu_id'' \<mapsto> 20]\<rparr>,
                  \<lparr>ix_id = 3, ix_ext = [''mal_id'' \<mapsto> 10, ''anidb_id'' \<mapsto> 30]\<rparr>],
     anime_tbl = [(1, Some ''A''), (2, Some ''B''), (3, Some ''A'')],
     title_synonyms = [(3, Some ''Alt''), (1, Some ''Alt''), (3, Some ''Other'')],
     genres_tbl = [], torrentsIndex = [(3, Some ''h'')], pictures = [], broadcasts = [],
     animeRelations = [], characterRelations = [], user_tags_tbl = [(3, ''WATCHING'')],
     rel_column = ''rel_id'', broken = []\<rparr>"

lemma merge_example_facts:
  "healthy merge_example" "distinct (map ix_id (indexList merge_example))"
  by (simp_all add: merge_example_def healthy_def)


text \<open>
  C3. Repairing duplicates by provider id, in whatever order the provider columns are
  visited, never fails on a database whose statements answer and whose internal ids are
  distinct; afterwards the index is well-formed (no external id is carried by two rows), and
  the number it reports is exactly the number of index rows folded away.
\<close>

theorem repair_establishes_unique_index:
  assumes "healthy db" and "distinct (map ix_id (indexList db))"
    and "set cols = set INDEX_PROVIDER_KEYS"
  shows "\<exists>n db'. repair_by_provider_id db cols = Inr (n, db')
     \<and> index_wf (indexList db')
     \<and> length (indexList db) = n + length (indexList db')"
  using repair_step [OF assms(1,2), of cols] assms(3) by (auto simp: index_wf_cols)

theorem repair_establishes_unique_index_witness:
  "\<exists>n db'. repair_by_provider_id merge_example (rev INDEX_PROVIDER_KEYS) = Inr (n, db')
     \<and> index_wf (indexList db')
     \<and> length (indexList merge_example) = n + length (indexList db')"
  by (rule repair_establishes_unique_index [OF merge_example_facts]) simp


text \<open>
  A merge rewrites relations that start at the duplicate, never those that point to it: a
  relation row of any other title whose related id is the duplicate is still there
  afterwards, although no index row has that id any more.
\<close>

lemma merge_leaves_reverse_relations:
  assumes "healthy db" and "dup \<noteq> canon" and "i \<noteq> dup" and "i \<noteq> canon"
    and "(i, ty, Some dup) \<in> set (animeRelations db)"
  shows "\<exists>db'. merge db dup canon = Inr (canon, db')
     \<and> (i, ty, Some dup) \<in> set (animeRelations db') \<and> dup \<notin> ix_id ` set (indexList db')"
proof -
  obtain exts where m: "merge db dup canon = Inr (canon, merged_db dup canon exts db)"
    by (rule merge_healthy [OF assms(1,2)])
  let ?db' = "merged_db dup canon exts db"
  have "filter (\<lambda>r. fst r = i) (animeRelations ?db') = filter (\<lambda>r. fst r = i) (animeRelations db)"
    using folded_relations [OF assms(2), of "animeRelations db"] assms(3,4)
    unfolding merged_tables [OF assms(1)] folded_rows_def by blast
  moreover have "(i, ty, Some dup) \<in> set (filter (\<lambda>r. fst r = i) (animeRelations db))"
    using assms(5) by simp
  ultimately have "(i, ty, Some dup) \<in> set (animeRelations ?db')" by (metis filter_is_subset in_mono)
  moreover have "dup \<notin> ix_id ` set (indexList ?db')"
    unfolding merged_tables [OF assms(1)] by auto
  ultimately show ?thesis using m by blast
qed

lemma merge_leaves_reverse_relations_witness:
  "\<exists>db'. merge (merge_example\<lparr>animeRelations := [(2, Some ''sequel'', Some 3)]\<rparr>) 3 1 = Inr (1, db')
     \<and> (2, Some ''sequel'', Some 3) \<in> set (animeRelations db') \<and> 3 \<notin> ix_id ` set (indexList db')"
  by (rule merge_leaves_reverse_relations) (simp_all add: merge_example_def healthy_def)

section \<open>Purging\<close>

lemma purge_ids_tables:
  assumes "healthy db"
  shows "(fst (purge_ids db is) = length is)
     \<and> (anime_tbl (snd (purge_ids db is)) = filter (\<lambda>r. fst r \<notin> set is) (anime_tbl db))
     \<and> (indexList (snd (purge_ids db is)) = filter (\<lambda>r. ix_id r \<notin> set is) (indexList db))
     \<and> (title_synonyms (snd (purge_ids db is)) = filter (\<lambda>r. fst r \<notin> set is) (title_synonyms db))
     \<and> (torrentsIndex (snd (purge_ids db is)) = filter (\<lambda>r. fst r \<notin> set is) (torrentsIndex db))
     \<and> (user_tags_tbl (snd (purge_ids db is)) = filter (\<lambda>r. fst r \<notin> set is) (user_tags_tbl db))
     \<and> (characterRelations (snd (purge_ids db is)) =
           filter (\<lambda>r. fst r \<notin> set is) (characterRelations db))"
  using assms
proof (induction "is" arbitrary: db)
  case (Cons i js)
  define d1 where "d1 = delete_id_tables i db"
  define d2 where "d2 = delete_character_relations i d1"
  define d3 where "d3 = d2\<lparr>user_tags_tbl := filter (\<lambda>r. fst r \<noteq> i) (user_tags_tbl d2)\<rparr>"
  have h1: "healthy d1" unfolding d1_def
    by (rule healthy_cong [THEN iffD2, OF _ _ Cons.prems]) (rule delete_id_tables_healthy [OF Cons.prems])+
  have h2: "healthy d2" unfolding d2_def
    by (rule healthy_cong [THEN iffD2, OF _ _ h1]) (rule delete_character_relations_frame)+
  have h3: "healthy d3" unfolding d3_def by (rule healthy_cong [THEN iffD2, OF _ _ h2]) simp_all
  have p: "purge_ids db (i # js) = (Suc (fst (purge_ids d3 js)), snd (purge_ids d3 js))"
    unfolding purge_ids.simps Let_def d1_def [symmetric] d2_def [symmetric]
    by (simp only: healthy_raises [OF h2] if_False d3_def [symmetric] case_prod_unfold)
  have f: "anime_tbl d3 = filter (\<lambda>r. fst r \<noteq> i) (anime_tbl db)"
    "indexList d3 = filter (\<lambda>r. ix_id r \<noteq> i) (indexList db)"
    "title_synonyms d3 = filter (\<lambda>r. fst r \<noteq> i) (title_synonyms db)"
    "torrentsIndex d3 = filter (\<lambda>r. fst r \<noteq> i) (torrentsIndex db)"
    "user_tags_tbl d3 = filter (\<lambda>r. fst r \<noteq> i) (user_tags_tbl db)"
    "characterRelations d3 = filter (\<lambda>r. fst r \<noteq> i) (characterRelations db)"
    by (simp_all add: d3_def d2_def d1_def delete_character_relations_frame
        delete_id_tables_healthy [OF Cons.prems] delete_character_relations_def
        healthy_raises [OF h1 [unfolded d1_def]])
  have e: "filter (\<lambda>r. g r \<notin> set js) (filter (\<lambda>r. g r \<noteq> i) t) = filter (\<lambda>r. g r \<notin> set (i # js)) t"
    for g :: "'r \<Rightarrow> int" and t
    by (induction t) auto
  note ih = Cons.IH [OF h3, THEN conjunct1] Cons.IH [OF h3, THEN conjunct2, THEN conjunct1]
    Cons.IH [OF h3, THEN conjunct2, THEN conjunct2]
  have "fst (purge_ids db (i # js)) = length (i # js)" using ih(1) unfolding p by simp
  moreover have "anime_tbl (snd (purge_ids db (i # js))) = filter (\<lambda>r. fst r \<notin> set (i # js)) (anime_tbl db)"
    by (simp only: p snd_conv ih f e)
  moreover have "indexList (snd (purge_ids db (i # js))) = filter (\<lambda>r. ix_id r \<notin> set (i # js)) (indexList db)"
    by (simp only: p snd_conv ih f e)
  moreover have "title_synonyms (snd (purge_ids db (i # js))) =
      filter (\<lambda>r. fst r \<notin> set (i # js)) (title_synonyms db)"
    by (simp only: p snd_conv ih f e)
  moreover have "torrentsIndex (snd (purge_ids db (i # js))) =
      filter (\<lambda>r. fst r \<notin> set (i # js)) (torrentsIndex db)"
    by (simp only: p snd_conv ih f e)
  moreover have "user_tags_tbl (snd (purge_ids db (i # js))) =
      filter (\<lambda>r. fst r \<notin> set (i # js)) (user_tags_tbl db)"
    by (simp only: p snd_conv ih f e)
  moreover have "characterRelations (snd (purge_ids db (i # js))) =
      filter (\<lambda>r. fst r \<notin> set (i # js)) (characterRelations db)"
    by (simp only: p snd_conv ih f e)
  ultimately show ?case by (intro conjI)
qed simp_all

text \<open>
  Purging removes the provisional titles and nothing else: the catalogue rows left are
  those with a non-negative id, their number is reported, and the titles, torrents, tags and
  characters of every surviving title are kept as they were.
\<close>

lemma purge_removes_only_provisional:
  assumes "healthy db" and "purge_provisional_anime_rows db = (n, db')"
  shows "anime_tbl db' = filter (\<lambda>r. \<not> fst r < 0) (anime_tbl db)
     \<and> n + length (anime_tbl db') = length (anime_tbl db)
     \<and> (\<forall>i. i \<ge> 0 \<longrightarrow>
          filter (\<lambda>r. fst r = i) (title_synonyms db') = filter (\<lambda>r. fst r = i) (title_synonyms db)
        \<and> filter (\<lambda>r. fst r = i) (torrentsIndex db') = filter (\<lambda>r. fst r = i) (torrentsIndex db)
        \<and> filter (\<lambda>r. fst r = i) (user_tags_tbl db') = filter (\<lambda>r. fst r = i) (user_tags_tbl db)
        \<and> filter (\<lambda>r. fst r = i) (characterRelations db') =
            filter (\<lambda>r. fst r = i) (characterRelations db)
        \<and> filter (\<lambda>r. ix_id r = i) (indexList db') = filter (\<lambda>r. ix_id r = i) (indexList db))"
proof -
  let ?is = "filter (\<lambda>i. i < 0) (map fst (anime_tbl db))"
  have p: "purge_ids db ?is = (n, db')"
    using assms(2) healthy_raises [OF assms(1)] by (simp add: purge_provisional_anime_rows_def)
  have t: "n = length ?is"
    "anime_tbl db' = filter (\<lambda>r. fst r \<notin> set ?is) (anime_tbl db)"
    "indexList db' = filter (\<lambda>r. ix_id r \<notin> set ?is) (indexList db)"
    "title_synonyms db' = filter (\<lambda>r. fst r \<notin> set ?is) (title_synonyms db)"
    "torrentsIndex db' = filter (\<lambda>r. fst r \<notin> set ?is) (torrentsIndex db)"
    "user_tags_tbl db' = filter (\<lambda>r. fst r \<notin> set ?is) (user_tags_tbl db)"
    "characterRelations db' = filter (\<lambda>r. fst r \<notin> set ?is) (characterRelations db)"
    using purge_ids_tables [OF assms(1), of ?is] unfolding p fst_conv snd_conv
    by - (elim conjE, assumption)+
  have a: "filter (\<lambda>r. fst r \<notin> set ?is) (anime_tbl db) = filter (\<lambda>r. \<not> fst r < 0) (anime_tbl db)"
    by (rule filter_cong) force+
  have len: "length (filter (\<lambda>i. i < 0) (map fst xs)) + length (filter (\<lambda>r. \<not> fst r < 0) xs) = length xs"
    for xs :: "(int \<times> string option) list"
    by (induction xs) auto
  have keep: "filter (\<lambda>r. g r = i) (filter (\<lambda>r. g r \<notin> set ?is) xs) = filter (\<lambda>r. g r = i) xs"
    if "i \<ge> 0" for g :: "'r \<Rightarrow> int" and i xs
    using that by (induction xs) auto
  have "n + length (anime_tbl db') = length (anime_tbl db)" unfolding t(1,2) a by (rule len)
  then show ?thesis
    by (intro conjI allI impI) (simp_all only: t(2-) a keep)
qed

lemma purge_removes_only_provisional_witness:
  "anime_tbl (snd (purge_provisional_anime_rows
      (merge_example\<lparr>anime_tbl := [(-5, None), (2, Some ''B'')]\<rparr>))) = [(2, Some ''B'')]"
  using purge_removes_only_provisional
    [of "merge_example\<lparr>anime_tbl := [(-5, None), (2, Some ''B'')]\<rparr>",
      OF _ prod.collapse [symmetric]]
  by (simp add: merge_example_def healthy_def)

end
