(* ===== verification/CatalogIdentity.thy ===== *)
theory CatalogIdentity
  imports CatalogMerge
begin

text \<open>
  \<open>CatalogIdentityService\<close> (\<open>application/services/catalog_identity.py\<close>): one internal id for
  the external ids of a payload, folding the rows the ids disagree on.

  The service receives its index repository and its merge service (\<open>__init__\<close>), so its
  operations take them as a record of operations, \<open>identity_deps\<close>.  What the service needs
  of them is the locale \<open>catalog_services\<close>; the repositories of \<open>Catalog\<close> and
  \<open>CatalogMerge\<close> satisfy it.
\<close>

section \<open>The service\<close>

record 's identity_deps =
  find_op :: "'s \<Rightarrow> string \<Rightarrow> int \<Rightarrow> int option res"
  find_batch_op :: "'s \<Rightarrow> (string \<times> int) list \<Rightarrow> ((string \<times> int) \<times> int) list res"
  backfill_op :: "'s \<Rightarrow> int \<Rightarrow> (string \<times> int) list \<Rightarrow> 's res"
  allocate_op :: "'s \<Rightarrow> (string \<times> int) list \<Rightarrow> (int \<times> 's) res"
  merge_op :: "'s \<Rightarrow> int \<Rightarrow> int \<Rightarrow> (int \<times> 's) res"

fun normalize_ids_acc :: "(string \<times> int) list \<Rightarrow> pydict \<Rightarrow> (string \<times> int) list" where
  "normalize_ids_acc out [] = out"
| "normalize_ids_acc out ((key, value) # items) =
     (if key \<notin> set INDEX_PROVIDER_KEYS \<or> value = PNone then normalize_ids_acc out items
      else case py_int value of
        Some n \<Rightarrow> normalize_ids_acc (AList.update key n out) items
      | None \<Rightarrow> normalize_ids_acc out items)"

definition normalize_external_ids :: "pydict \<Rightarrow> (string \<times> int) list" where
  "normalize_external_ids external_ids = normalize_ids_acc [] external_ids"

text \<open>The set \<open>found\<close> is a list without repetitions.\<close>

fun find_all :: "'s identity_deps \<Rightarrow> 's \<Rightarrow> (string \<times> int) list \<Rightarrow> int list \<Rightarrow> int list res" where
  "find_all D s [] found = Inr found"
| "find_all D s ((key, ext) # items) found =
     (case find_op D s key ext of
        Inl e \<Rightarrow> Inl e
      | Inr None \<Rightarrow> find_all D s items found
      | Inr (Some i) \<Rightarrow> find_all D s items (List.insert i found))"

fun merge_found :: "'s identity_deps \<Rightarrow> 's \<Rightarrow> int \<Rightarrow> int list \<Rightarrow> int list \<Rightarrow> (int list \<times> 's) res" where
  "merge_found D s canonical [] merged_from = Inr (merged_from, s)"
| "merge_found D s canonical (duplicate # ds) merged_from =
     (if duplicate = canonical then merge_found D s canonical ds merged_from
      else case merge_op D s duplicate canonical of
        Inl e \<Rightarrow> Inl e
      | Inr (c, s') \<Rightarrow> merge_found D s' canonical ds (merged_from @ [duplicate]))"

definition resolve_found ::
  "'s identity_deps \<Rightarrow> 's \<Rightarrow> (string \<times> int) list \<Rightarrow> int list \<Rightarrow> (ResolvedCatalogEntry \<times> 's) res"
  where
  "resolve_found D s normalized found =
     (let entry = (\<lambda>i merged. \<lparr>rc_catalog_id = i, rc_external_ids = normalized,
                              rc_merged_from = merged\<rparr>)
      in if length found > 1
         then (case preferred_catalog_id found of
                 Inl e \<Rightarrow> Inl e
               | Inr canonical \<Rightarrow>
                   (case merge_found D s canonical (sort found) [] of
                      Inl e \<Rightarrow> Inl e
                    | Inr (merged, s') \<Rightarrow>
                        map_sum id (Pair (entry canonical merged)) (backfill_op D s' canonical normalized)))
         else if length found = 1
         then map_sum id (Pair (entry (hd found) [])) (backfill_op D s (hd found) normalized)
         else map_sum id (\<lambda>(i, s'). (entry i [], s')) (allocate_op D s normalized))"

definition no_ids_error :: pyerr where
  "no_ids_error = ValueError ''Cannot resolve catalogue identity without external ids''"

definition resolve_external_ids ::
  "'s identity_deps \<Rightarrow> 's \<Rightarrow> pydict \<Rightarrow> (ResolvedCatalogEntry \<times> 's) res" where
  "resolve_external_ids D s external_ids =
     (let normalized = normalize_external_ids external_ids
      in if normalized = [] then Inl no_ids_error
         else case find_all D s normalized [] of
           Inl e \<Rightarrow> Inl e
         | Inr found \<Rightarrow> resolve_found D s normalized found)"

definition resolve ::
  "'s identity_deps \<Rightarrow> 's \<Rightarrow> ProviderAnimePayload \<Rightarrow> (ResolvedCatalogEntry \<times> 's) res" where
  "resolve D s payload =
     resolve_external_ids D s (map (\<lambda>(k, v). (k, PInt v)) (pp_external_ids payload))"

text \<open>The batch resolves through a lookup table that is read once, before any merge.\<close>

fun find_all_lookup ::
  "'s identity_deps \<Rightarrow> 's \<Rightarrow> ((string \<times> int) \<times> int) list \<Rightarrow> (string \<times> int) list \<Rightarrow> int list \<Rightarrow>
   int list res" where
  "find_all_lookup D s lookup [] found = Inr found"
| "find_all_lookup D s lookup ((key, ext) # items) found =
     (case (case map_of lookup (key, ext) of
              Some i \<Rightarrow> Inr (Some i)
            | None \<Rightarrow> find_op D s key ext) of
        Inl e \<Rightarrow> Inl e
      | Inr None \<Rightarrow> find_all_lookup D s lookup items found
      | Inr (Some i) \<Rightarrow> find_all_lookup D s lookup items (List.insert i found))"

definition resolve_with_lookup ::
  "'s identity_deps \<Rightarrow> 's \<Rightarrow> (string \<times> int) list \<Rightarrow> ((string \<times> int) \<times> int) list \<Rightarrow>
   (ResolvedCatalogEntry \<times> 's) res" where
  "resolve_with_lookup D s normalized lookup =
     (case find_all_lookup D s lookup normalized [] of
        Inl e \<Rightarrow> Inl e
      | Inr found \<Rightarrow> resolve_found D s normalized found)"

fun resolve_each ::
  "'s identity_deps \<Rightarrow> 's \<Rightarrow> ((string \<times> int) \<times> int) list \<Rightarrow> (string \<times> int) list list \<Rightarrow>
   (ResolvedCatalogEntry list \<times> 's) res" where
  "resolve_each D s lookup [] = Inr ([], s)"
| "resolve_each D s lookup (normalized # rest) =
     (if normalized = [] then Inl no_ids_error
      else case resolve_with_lookup D s normalized lookup of
        Inl e \<Rightarrow> Inl e
      | Inr (entry, s') \<Rightarrow>
          let lookup' = foldl (\<lambda>l (k, e). AList.update (k, e) (rc_catalog_id entry) l)
                          lookup (rc_external_ids entry)
          in map_sum id (\<lambda>(es, s''). (entry # es, s'')) (resolve_each D s' lookup' rest))"

definition resolve_external_ids_batch ::
  "'s identity_deps \<Rightarrow> 's \<Rightarrow> pydict list \<Rightarrow> (ResolvedCatalogEntry list \<times> 's) res" where
  "resolve_external_ids_batch D s entries =
     (let normalized_list = map normalize_external_ids entries
      in case find_batch_op D s (concat normalized_list) of
           Inl e \<Rightarrow> Inl e
         | Inr lookup \<Rightarrow> resolve_each D s lookup normalized_list)"

fun link_loop ::
  "'s identity_deps \<Rightarrow> 's \<Rightarrow> int \<Rightarrow> (string \<times> int) list \<Rightarrow> (int \<times> 's) res" where
  "link_loop D s canonical [] = Inr (canonical, s)"
| "link_loop D s canonical ((key, ext) # items) =
     (case find_op D s key ext of
        Inl e \<Rightarrow> Inl e
      | Inr None \<Rightarrow> link_loop D s canonical items
      | Inr (Some existing) \<Rightarrow>
          if existing \<noteq> canonical
          then (case merge_op D s canonical existing of
                  Inl e \<Rightarrow> Inl e
                | Inr (c, s') \<Rightarrow> link_loop D s' c items)
          else link_loop D s canonical items)"

definition link ::
  "'s identity_deps \<Rightarrow> 's \<Rightarrow> int \<Rightarrow> pydict \<Rightarrow> (int \<times> 's) res" where
  "link D s internal_id external_ids =
     (let normalized = normalize_external_ids external_ids
      in if normalized = [] then Inr (internal_id, s)
         else case link_loop D s internal_id normalized of
           Inl e \<Rightarrow> Inl e
         | Inr (canonical, s') \<Rightarrow>
             map_sum id (Pair canonical) (backfill_op D s' canonical normalized))"

section \<open>Normalised external ids\<close>

lemma normalize_ids_acc_keys:
  assumes "distinct (map fst out)" and "fst ` set out \<subseteq> set INDEX_PROVIDER_KEYS"
  shows "distinct (map fst (normalize_ids_acc out items))
       \<and> fst ` set (normalize_ids_acc out items) \<subseteq> set INDEX_PROVIDER_KEYS"
  using assms
proof (induction out items rule: normalize_ids_acc.induct)
  case (2 out key v items)
  have upd: "distinct (map fst (AList.update key n out))"
      "key \<in> set INDEX_PROVIDER_KEYS \<Longrightarrow>
       fst ` set (AList.update key n out) \<subseteq> set INDEX_PROVIDER_KEYS" for n
    using 2 by (simp_all add: distinct_update dom_update)
  show ?case
  proof (cases "key \<notin> set INDEX_PROVIDER_KEYS \<or> v = PNone")
    case True
    then show ?thesis using 2 by auto
  next
    case False
    then show ?thesis using 2 upd by (cases "py_int v") simp_all
  qed
qed simp

lemma normalized_keys:
  "distinct (map fst (normalize_external_ids items))"
  "fst ` set (normalize_external_ids items) \<subseteq> set INDEX_PROVIDER_KEYS"
  using normalize_ids_acc_keys [of "[]" items] by (simp_all add: normalize_external_ids_def)


text \<open>What a resolution promises, over the observers of the next section.\<close>

definition resolved ::
  "('s \<Rightarrow> bool) \<Rightarrow> ('s \<Rightarrow> int set) \<Rightarrow> ('s \<Rightarrow> string \<Rightarrow> int \<Rightarrow> int set) \<Rightarrow>
   's \<Rightarrow> (string \<times> int) list \<Rightarrow> ResolvedCatalogEntry \<Rightarrow> 's \<Rightarrow> bool" where
  "resolved ok rows holders s items entry s' \<longleftrightarrow>
     ok s' \<and> rc_catalog_id entry \<in> rows s' \<and> rc_external_ids entry = items
     \<and> (\<forall>(k, e) \<in> set items. holders s' k e \<subseteq> {rc_catalog_id entry})
     \<and> (\<exists>(k, e) \<in> set items. rc_catalog_id entry \<in> holders s' k e)
     \<and> (\<forall>k \<in> fst ` set items. \<exists>e. rc_catalog_id entry \<in> holders s' k e)
     \<and> rows s' = insert (rc_catalog_id entry) (rows s - set (rc_merged_from entry))
     \<and> rc_catalog_id entry \<notin> set (rc_merged_from entry)
     \<and> (\<forall>k e. holders s' k e - {rc_catalog_id entry} =
            holders s k e - {rc_catalog_id entry} - set (rc_merged_from entry))"

lemma distinct_singleton: "distinct xs \<Longrightarrow> set xs = {c} \<Longrightarrow> xs = [c]"
proof (cases xs)
  case (Cons a as)
  assume "distinct xs" "set xs = {c}"
  then have "a = c" "set as \<subseteq> {c}" "a \<notin> set as" using Cons by auto
  then show ?thesis using Cons by (cases as) auto
qed simp

section \<open>What the service needs of its repositories\<close>

text \<open>
  \<open>rows\<close> are the internal ids, \<open>holders s k e\<close> the ids whose row carries external id \<open>e\<close> in
  column \<open>k\<close>.  Lookups answer from the holders; a merge moves or drops the duplicate's ids
  and touches no bystander; a backfill fills the empty columns of one row; an allocation
  adds one row that carries the ids it was given.
\<close>

locale catalog_services =
  fixes D :: "'s identity_deps"
    and inv :: "'s \<Rightarrow> bool"
    and rows :: "'s \<Rightarrow> int set"
    and holders :: "'s \<Rightarrow> string \<Rightarrow> int \<Rightarrow> int set"
  assumes holders_rows: "inv s \<Longrightarrow> holders s k e \<subseteq> rows s"
    and find_none: "inv s \<Longrightarrow> k \<in> set INDEX_PROVIDER_KEYS \<Longrightarrow> holders s k e = {} \<Longrightarrow>
          find_op D s k e = Inr None"
    and find_some: "inv s \<Longrightarrow> k \<in> set INDEX_PROVIDER_KEYS \<Longrightarrow> i \<in> holders s k e \<Longrightarrow>
          find_op D s k e = Inr (Some i)"
    and merge_ok: "inv s \<Longrightarrow> d \<noteq> c \<Longrightarrow> \<exists>s'. merge_op D s d c = Inr (c, s') \<and> inv s'
          \<and> rows s' = rows s - {d}
          \<and> (\<forall>k e. holders s' k e - {c} = holders s k e - {c, d})
          \<and> (\<forall>k e. c \<in> holders s k e \<longrightarrow> c \<in> holders s' k e)"
    and backfill_ok: "inv s \<Longrightarrow> i \<in> rows s \<Longrightarrow> fst ` set items \<subseteq> set INDEX_PROVIDER_KEYS \<Longrightarrow>
          \<forall>(k, e) \<in> set items. holders s k e \<subseteq> {i} \<Longrightarrow>
          \<exists>s'. backfill_op D s i items = Inr s' \<and> inv s' \<and> rows s' = rows s
          \<and> (\<forall>k e. holders s' k e - {i} = holders s k e - {i})
          \<and> (\<forall>k e. i \<in> holders s k e \<longrightarrow> i \<in> holders s' k e)
          \<and> (\<forall>k \<in> fst ` set items. \<exists>e. i \<in> holders s' k e)"
    and backfill_idle: "inv s \<Longrightarrow> \<forall>k \<in> fst ` set items. \<exists>e. i \<in> holders s k e \<Longrightarrow>
          backfill_op D s i items = Inr s"
    and allocate_ok: "inv s \<Longrightarrow> items \<noteq> [] \<Longrightarrow> fst ` set items \<subseteq> set INDEX_PROVIDER_KEYS \<Longrightarrow>
          distinct (map fst items) \<Longrightarrow> \<forall>(k, e) \<in> set items. holders s k e = {} \<Longrightarrow>
          \<exists>i s'. allocate_op D s items = Inr (i, s') \<and> inv s' \<and> i \<notin> rows s
          \<and> rows s' = insert i (rows s)
          \<and> (\<forall>k e. holders s' k e - {i} = holders s k e)
          \<and> (\<forall>(k, e) \<in> set items. i \<in> holders s' k e)"
begin

lemma holder_unique:
  "inv s \<Longrightarrow> k \<in> set INDEX_PROVIDER_KEYS \<Longrightarrow> i \<in> holders s k e \<Longrightarrow> j \<in> holders s k e \<Longrightarrow> i = j"
  using find_some by (metis Inr_inject option.inject)

lemma find_op_cases:
  assumes "inv s" and "k \<in> set INDEX_PROVIDER_KEYS"
  obtains (none) "holders s k e = {}" "find_op D s k e = Inr None"
  | (some) i where "holders s k e = {i}" "find_op D s k e = Inr (Some i)"
proof (cases "holders s k e = {}")
  case True
  then show ?thesis using none find_none [OF assms] by blast
next
  case False
  then obtain i where i: "i \<in> holders s k e" by auto
  then have "holders s k e = {i}" using holder_unique [OF assms] by blast
  then show ?thesis using some find_some [OF assms i] by blast
qed

text \<open>The ids a list of external ids leads to.\<close>

lemma find_all_ok:
  assumes "inv s" and "fst ` set items \<subseteq> set INDEX_PROVIDER_KEYS" and "distinct found"
  shows "\<exists>out. find_all D s items found = Inr out \<and> distinct out
     \<and> set out = set found \<union> (\<Union>(k, e) \<in> set items. holders s k e)"
  using assms(2,3)
proof (induction items arbitrary: found)
  case Nil
  then show ?case by simp
next
  case (Cons p items)
  obtain k e where p: "p = (k, e)" by (cases p)
  have k: "k \<in> set INDEX_PROVIDER_KEYS" and items: "fst ` set items \<subseteq> set INDEX_PROVIDER_KEYS"
    using Cons.prems p by auto
  show ?case
  proof (rule find_op_cases [OF assms(1) k, of e])
    assume "holders s k e = {}" and f: "find_op D s k e = Inr None"
    then show ?thesis using Cons.IH [OF items Cons.prems(2)] p by auto
  next
    fix i assume h: "holders s k e = {i}" and f: "find_op D s k e = Inr (Some i)"
    have "distinct (List.insert i found)" using Cons.prems(2) by simp
    from Cons.IH [OF items this] show ?thesis using h f p by auto
  qed
qed

lemma merge_found_ok:
  assumes "inv s" and "canon \<notin> set merged" and "distinct ds" and "set ds \<inter> set merged = {}"
  shows "\<exists>s'. merge_found D s canon ds merged = Inr (merged @ filter (\<lambda>d. d \<noteq> canon) ds, s')
     \<and> inv s' \<and> rows s' = rows s - (set ds - {canon})
     \<and> (\<forall>k e. holders s' k e - {canon} = holders s k e - insert canon (set ds))
     \<and> (\<forall>k e. canon \<in> holders s k e \<longrightarrow> canon \<in> holders s' k e)"
  using assms
proof (induction ds arbitrary: s merged)
  case Nil
  then show ?case by simp
next
  case (Cons d ds)
  show ?case
  proof (cases "d = canon")
    case True
    then show ?thesis using Cons.IH [OF Cons.prems(1,2)] Cons.prems(3,4) by auto
  next
    case False
    obtain s1 where s1: "merge_op D s d canon = Inr (canon, s1)" "inv s1" "rows s1 = rows s - {d}"
        "\<forall>k e. holders s1 k e - {canon} = holders s k e - {canon, d}"
        "\<forall>k e. canon \<in> holders s k e \<longrightarrow> canon \<in> holders s1 k e"
      using merge_ok [OF Cons.prems(1) False] by blast
    obtain s' where s': "merge_found D s1 canon ds (merged @ [d]) =
          Inr ((merged @ [d]) @ filter (\<lambda>d. d \<noteq> canon) ds, s')"
        "inv s'" "rows s' = rows s1 - (set ds - {canon})"
        "\<forall>k e. holders s' k e - {canon} = holders s1 k e - insert canon (set ds)"
        "\<forall>k e. canon \<in> holders s1 k e \<longrightarrow> canon \<in> holders s' k e"
      using Cons.IH [OF s1(2), of "merged @ [d]"] Cons.prems False by auto
    have "holders s' k e - {canon} = holders s k e - insert canon (set (d # ds))" for k e
    proof -
      have "holders s' k e - {canon} = (holders s1 k e - {canon}) - set ds"
        using s'(4) by blast
      also have "\<dots> = (holders s k e - {canon, d}) - set ds" using s1(4) by simp
      finally show ?thesis by auto
    qed
    moreover have "rows s' = rows s - (set (d # ds) - {canon})"
      using s'(3) s1(3) False by auto
    ultimately show ?thesis using s' s1 False by auto
  qed
qed

text \<open>Backfilling the chosen id after its rivals are gone completes a resolution.\<close>

lemma backfill_resolved:
  assumes inv: "inv s1" and c: "c \<in> rows s1"
    and keys: "fst ` set items \<subseteq> set INDEX_PROVIDER_KEYS"
    and only: "\<forall>(k, e) \<in> set items. holders s1 k e \<subseteq> {c}"
    and some: "\<exists>(k, e) \<in> set items. c \<in> holders s1 k e"
    and rows: "rows s1 = insert c (rows s - set merged)" "c \<notin> set merged"
    and others: "\<forall>k e. holders s1 k e - {c} = holders s k e - {c} - set merged"
  shows "\<exists>s'. backfill_op D s1 c items = Inr s' \<and>
     resolved inv rows holders s items \<lparr>rc_catalog_id = c, rc_external_ids = items, rc_merged_from = merged\<rparr> s'"
proof -
  obtain s' where s': "backfill_op D s1 c items = Inr s'" "inv s'" "rows s' = rows s1"
      "\<forall>k e. holders s' k e - {c} = holders s1 k e - {c}"
      "\<forall>k e. c \<in> holders s1 k e \<longrightarrow> c \<in> holders s' k e"
      "\<forall>k \<in> fst ` set items. \<exists>e. c \<in> holders s' k e"
    using backfill_ok [OF inv c keys only] by blast
  have "\<forall>(k, e) \<in> set items. holders s' k e \<subseteq> {c}" using s'(4) only by fast
  moreover have "\<exists>(k, e) \<in> set items. c \<in> holders s' k e" using s'(5) some by blast
  ultimately show ?thesis using s' rows others c unfolding resolved_def by auto
qed

lemma resolve_found_ok:
  assumes inv: "inv s" and ne: "items \<noteq> []"
    and keys: "fst ` set items \<subseteq> set INDEX_PROVIDER_KEYS" "distinct (map fst items)"
    and found: "distinct found" "set found = (\<Union>(k, e) \<in> set items. holders s k e)"
  shows "\<exists>entry s'. resolve_found D s items found = Inr (entry, s') \<and> resolved inv rows holders s items entry s'"
proof -
  have in_rows: "set found \<subseteq> rows s" using found(2) holders_rows [OF inv] by fast
  consider (many) "length found > 1" | (one) "length found = 1" | (none) "found = []"
    by (cases found) (auto simp: Suc_lessI)
  then show ?thesis
  proof cases
    case many
    then have "found \<noteq> []" by auto
    then obtain c where c: "preferred_catalog_id found = Inr c" "c \<in> set found"
      using preferred_catalog_id_total preferred_catalog_id_mem by blast
    define merged where "merged = filter (\<lambda>d. d \<noteq> c) (sort found)"
    have sm: "set merged = set found - {c}" by (auto simp: merged_def)
    have "distinct (sort found)" using found(1) by simp
    then obtain s1 where s1: "merge_found D s c (sort found) [] = Inr (merged, s1)" "inv s1"
        "rows s1 = rows s - (set found - {c})"
        "\<forall>k e. holders s1 k e - {c} = holders s k e - insert c (set found)"
        "\<forall>k e. c \<in> holders s k e \<longrightarrow> c \<in> holders s1 k e"
      using merge_found_ok [OF inv, of c "[]" "sort found"] by (auto simp: merged_def)
    have only: "\<forall>(k, e) \<in> set items. holders s1 k e \<subseteq> {c}" using s1(4) found(2) by fastforce
    have some: "\<exists>(k, e) \<in> set items. c \<in> holders s1 k e" using c(2) found(2) s1(5) by fast
    have cr: "c \<in> rows s" using c(2) in_rows by blast
    have r1: "rows s1 = insert c (rows s - set merged)" using s1(3) sm cr by auto
    have c1: "c \<in> rows s1" using r1 by simp
    have cm: "c \<notin> set merged" using sm by simp
    have others: "\<forall>k e. holders s1 k e - {c} = holders s k e - {c} - set merged"
      using s1(4) sm by auto
    show ?thesis
      using backfill_resolved [OF s1(2) c1 keys(1) only some r1 cm others] many c(1) s1(1)
      by (auto simp: resolve_found_def Let_def)
  next
    case one
    then obtain c where c: "found = [c]" by (auto simp: length_Suc_conv)
    have only: "\<forall>(k, e) \<in> set items. holders s k e \<subseteq> {c}" using found(2) c by fastforce
    have some: "\<exists>(k, e) \<in> set items. c \<in> holders s k e" using found(2) c by force
    have cr: "c \<in> rows s" using in_rows c by simp
    have rw: "rows s = insert c (rows s - set [])" "c \<notin> set []" using cr by auto
    have others: "\<forall>k e. holders s k e - {c} = holders s k e - {c} - set []" by simp
    show ?thesis
      using backfill_resolved [OF inv cr keys(1) only some rw others] c
      by (auto simp: resolve_found_def Let_def)
  next
    case none
    then have empty: "\<forall>(k, e) \<in> set items. holders s k e = {}" using found(2) by force
    obtain i s' where a: "allocate_op D s items = Inr (i, s')" "inv s'" "i \<notin> rows s"
        "rows s' = insert i (rows s)" "\<forall>k e. holders s' k e - {i} = holders s k e"
        "\<forall>(k, e) \<in> set items. i \<in> holders s' k e"
      using allocate_ok [OF inv ne keys empty] by blast
    have only: "\<forall>(k, e) \<in> set items. holders s' k e \<subseteq> {i}" using a(5) empty by fast
    have some: "\<exists>(k, e) \<in> set items. i \<in> holders s' k e" using a(6) ne
      by (cases items) auto
    have each: "\<forall>k \<in> fst ` set items. \<exists>e. i \<in> holders s' k e" using a(6) by fastforce
    have "i \<notin> holders s k e" for k e using a(3) holders_rows [OF inv] by blast
    then have others: "holders s' k e - {i} = holders s k e - {i} - set []" for k e
      using a(5) by auto
    have "resolved inv rows holders s items \<lparr>rc_catalog_id = i, rc_external_ids = items, rc_merged_from = []\<rparr> s'"
      using a only some each others unfolding resolved_def by simp
    then show ?thesis using none a(1) by (simp add: resolve_found_def)
  qed
qed

text \<open>Resolving never fails for usable ids, and keeps its promise.\<close>

lemma resolve_ok:
  assumes "inv s" and "normalize_external_ids ids \<noteq> []"
  shows "\<exists>entry s'. resolve_external_ids D s ids = Inr (entry, s') \<and>
           resolved inv rows holders s (normalize_external_ids ids) entry s'"
proof -
  let ?items = "normalize_external_ids ids"
  obtain found where f: "find_all D s ?items [] = Inr found" "distinct found"
      "set found = (\<Union>(k, e) \<in> set ?items. holders s k e)"
    using find_all_ok [OF assms(1) normalized_keys(2), of "[]" ids] by auto
  show ?thesis
    using resolve_found_ok [OF assms normalized_keys(2,1) f(2,3)] f(1) assms(2)
    by (simp add: resolve_external_ids_def Let_def)
qed

text \<open>Resolving the same ids again finds the same row and changes nothing.\<close>

lemma resolve_again:
  assumes "resolved inv rows holders s (normalize_external_ids ids) entry s'"
    and "normalize_external_ids ids \<noteq> []"
  shows "resolve_external_ids D s' ids = Inr (entry\<lparr>rc_merged_from := []\<rparr>, s')"
proof -
  let ?items = "normalize_external_ids ids"
  let ?c = "rc_catalog_id entry"
  have r: "inv s'" "rc_external_ids entry = ?items"
      "\<forall>(k, e) \<in> set ?items. holders s' k e \<subseteq> {?c}"
      "\<exists>(k, e) \<in> set ?items. ?c \<in> holders s' k e"
      "\<forall>k \<in> fst ` set ?items. \<exists>e. ?c \<in> holders s' k e"
    using assms(1) unfolding resolved_def by - (elim conjE, assumption)+
  obtain found where f: "find_all D s' ?items [] = Inr found" "distinct found"
      "set found = (\<Union>(k, e) \<in> set ?items. holders s' k e)"
    using find_all_ok [OF r(1) normalized_keys(2), of "[]" ids] by auto
  have "set found = {?c}" using f(3) r(3,4) by fast
  then have found: "found = [?c]" by (rule distinct_singleton [OF f(2)])
  have "backfill_op D s' ?c ?items = Inr s'" by (rule backfill_idle [OF r(1,5)])
  then have rf: "resolve_found D s' ?items [?c] =
      Inr (\<lparr>rc_catalog_id = ?c, rc_external_ids = ?items, rc_merged_from = []\<rparr>, s')"
    by (simp add: resolve_found_def)
  have e: "entry\<lparr>rc_merged_from := []\<rparr> =
      \<lparr>rc_catalog_id = ?c, rc_external_ids = ?items, rc_merged_from = []\<rparr>"
    using r(2) by (cases entry) simp
  show ?thesis
    unfolding resolve_external_ids_def Let_def f(1) found e
    by (simp only: assms(2) if_False sum.case rf)
qed

end


section \<open>The repositories satisfy the contract\<close>

definition catalog_deps :: "(catdb \<Rightarrow> int) \<Rightarrow> catdb identity_deps" where
  "catalog_deps fresh_id = \<lparr>
     find_op = find_by_external,
     find_batch_op = find_by_external_batch,
     backfill_op = backfill_external_ids,
     allocate_op = allocate fresh_id,
     merge_op = merge\<rparr>"

definition catalog_ok :: "catdb \<Rightarrow> bool" where
  "catalog_ok db \<longleftrightarrow> healthy db \<and> index_wf (indexList db)"

definition catalog_rows :: "catdb \<Rightarrow> int set" where
  "catalog_rows db = ix_id ` set (indexList db)"

definition index_holders :: "index_row list \<Rightarrow> string \<Rightarrow> int \<Rightarrow> int set" where
  "index_holders rows k e = {i. \<exists>r \<in> set rows. ix_id r = i \<and> ix_ext r k = Some e}"

definition catalog_holders :: "catdb \<Rightarrow> string \<Rightarrow> int \<Rightarrow> int set" where
  "catalog_holders db = index_holders (indexList db)"

text \<open>The id the engine gives a new row: one above the largest, from 1.\<close>

definition next_rowid :: "catdb \<Rightarrow> int" where
  "next_rowid db = foldr max (map ix_id (indexList db)) 0 + 1"

lemma foldr_max_ge: "i \<in> set xs \<Longrightarrow> i \<le> foldr max xs (m :: int)"
  by (induction xs) auto

lemma next_rowid_fresh: "next_rowid db \<notin> catalog_rows db"
proof
  assume "next_rowid db \<in> catalog_rows db"
  then have "next_rowid db \<in> set (map ix_id (indexList db))" by (simp add: catalog_rows_def)
  then have "next_rowid db \<le> foldr max (map ix_id (indexList db)) 0" by (rule foldr_max_ge)
  then show False by (simp add: next_rowid_def)
qed

lemma holders_backfill:
  "index_holders (backfill_items i items rows) k e - {i} = index_holders rows k e - {i}"
  "i \<in> index_holders rows k e \<Longrightarrow> i \<in> index_holders (backfill_items i items rows) k e"
proof -
  show "index_holders (backfill_items i items rows) k e - {i} = index_holders rows k e - {i}"
    by (auto simp: index_holders_def backfill_items_map ix_ext_backfilled split: if_splits)
  assume "i \<in> index_holders rows k e"
  then obtain r where r: "r \<in> set rows" "ix_id r = i" "ix_ext r k = Some e"
    by (auto simp: index_holders_def)
  then have "ix_ext (backfilled i items r) k = Some e" by (simp add: ix_ext_backfilled)
  then show "i \<in> index_holders (backfill_items i items rows) k e"
    using r unfolding index_holders_def backfill_items_map by fastforce
qed

lemma holders_delete:
  "index_holders (filter (\<lambda>r. ix_id r \<noteq> d) rows) k e = index_holders rows k e - {d}"
  by (auto simp: index_holders_def)

lemma index_holders_only:
  "(\<forall>(k, e) \<in> set items. index_holders rows k e \<subseteq> {i}) =
   (\<forall>(k, v) \<in> set items. \<forall>r \<in> set rows. ix_ext r k = Some v \<longrightarrow> ix_id r = i)"
  unfolding index_holders_def by fast

lemma holders_catalog:
  assumes "catalog_ok db" and "k \<in> set INDEX_PROVIDER_KEYS"
  shows "catalog_holders db k e = {} \<Longrightarrow> find_by_external db k e = Inr None"
    and "i \<in> catalog_holders db k e \<Longrightarrow> find_by_external db k e = Inr (Some i)"
proof -
  have h: "healthy db" and w: "index_wf (indexList db)" using assms(1) by (simp_all add: catalog_ok_def)
  note nr = healthy_raises [OF h, of "''indexList''"]
  show "catalog_holders db k e = {} \<Longrightarrow> find_by_external db k e = Inr None"
    unfolding find_by_external_None [OF assms(2) nr] catalog_holders_def index_holders_def by blast
  show "i \<in> catalog_holders db k e \<Longrightarrow> find_by_external db k e = Inr (Some i)"
    unfolding find_by_external_wf [OF w assms(2) nr] catalog_holders_def index_holders_def by blast
qed

lemma catalog_merge_ok:
  assumes "catalog_ok db" and "d \<noteq> c"
  shows "\<exists>db'. merge db d c = Inr (c, db') \<and> catalog_ok db'
     \<and> catalog_rows db' = catalog_rows db - {d}
     \<and> (\<forall>k e. catalog_holders db' k e - {c} = catalog_holders db k e - {c, d})
     \<and> (\<forall>k e. c \<in> catalog_holders db k e \<longrightarrow> c \<in> catalog_holders db' k e)"
proof -
  have h: "healthy db" and w: "index_wf (indexList db)" using assms(1) by (simp_all add: catalog_ok_def)
  obtain exts where m: "merge db d c = Inr (c, merged_db d c exts db)"
    by (rule merge_healthy [OF h assms(2)])
  obtain db' where s: "merge db d c = Inr (c, db')" "healthy db'"
      "map ix_id (indexList db') = filter (\<lambda>i. i \<noteq> d) (map ix_id (indexList db))"
    and u: "\<And>k. k \<in> set INDEX_PROVIDER_KEYS \<Longrightarrow> col_unique k (indexList db) \<Longrightarrow>
           col_unique k (indexList db')"
    by (rule merge_step [OF h index_wf_ids [OF w] assms(2)]) blast
  have db': "db' = merged_db d c exts db" using m s(1) by simp
  then have ix: "indexList db' = filter (\<lambda>r. ix_id r \<noteq> d) (backfill_items c exts (indexList db))"
    using merged_tables(1) [OF h] by simp
  have "index_wf (indexList db')"
    using w u s(3) unfolding index_wf_cols by simp
  moreover have "catalog_rows db' = catalog_rows db - {d}"
  proof -
    have "catalog_rows db' = set (map ix_id (indexList db'))" by (simp add: catalog_rows_def)
    also have "\<dots> = catalog_rows db - {d}" unfolding s(3) by (auto simp: catalog_rows_def)
    finally show ?thesis .
  qed
  moreover have "catalog_holders db' k e - {c} = catalog_holders db k e - {c, d}" for k e
  proof -
    have "catalog_holders db' k e - {c} =
        (index_holders (backfill_items c exts (indexList db)) k e - {c}) - {d}"
      unfolding catalog_holders_def ix holders_delete by blast
    then show ?thesis unfolding holders_backfill catalog_holders_def by blast
  qed
  moreover have "c \<in> catalog_holders db' k e" if "c \<in> catalog_holders db k e" for k e
    using holders_backfill(2) that assms(2) unfolding catalog_holders_def ix holders_delete by fast
  ultimately show ?thesis using s(1,2) unfolding catalog_ok_def by blast
qed

lemma catalog_backfill_ok:
  assumes "catalog_ok db" and "i \<in> catalog_rows db"
    and "fst ` set items \<subseteq> set INDEX_PROVIDER_KEYS"
    and "\<forall>(k, e) \<in> set items. catalog_holders db k e \<subseteq> {i}"
  shows "\<exists>db'. backfill_external_ids db i items = Inr db' \<and> catalog_ok db'
     \<and> catalog_rows db' = catalog_rows db
     \<and> (\<forall>k e. catalog_holders db' k e - {i} = catalog_holders db k e - {i})
     \<and> (\<forall>k e. i \<in> catalog_holders db k e \<longrightarrow> i \<in> catalog_holders db' k e)
     \<and> (\<forall>k \<in> fst ` set items. \<exists>e. i \<in> catalog_holders db' k e)"
proof -
  have h: "healthy db" and w: "index_wf (indexList db)" using assms(1) by (simp_all add: catalog_ok_def)
  let ?db' = "db\<lparr>indexList := backfill_items i items (indexList db)\<rparr>"
  have b: "backfill_external_ids db i items = Inr ?db'"
    using healthy_raises [OF h] by (simp add: backfill_external_ids_def)
  have "index_wf (backfill_items i items (indexList db))"
    by (rule backfill_fresh_wf [OF w]) (use assms(4) index_holders_only in \<open>simp add: catalog_holders_def\<close>)
  then have ok: "catalog_ok ?db'" using h by (simp add: catalog_ok_def healthy_def)
  have ix: "indexList ?db' = backfill_items i items (indexList db)" by simp
  have rows: "catalog_rows ?db' = catalog_rows db"
    using ids_backfill [of i items "indexList db"] unfolding catalog_rows_def ix
    by (metis image_set)
  have filled: "\<exists>e. i \<in> catalog_holders ?db' k e" if k: "k \<in> fst ` set items" for k
  proof -
    obtain r where r: "r \<in> set (indexList db)" "ix_id r = i" using assms(2) by (auto simp: catalog_rows_def)
    obtain v where v: "map_of items k = Some v" using k
      by (metis domD dom_map_of_conv_image_fst)
    have "k \<in> set INDEX_PROVIDER_KEYS" using k assms(3) by blast
    then have "\<exists>e. ix_ext (backfilled i items r) k = Some e"
      using v r(2) by (cases "ix_ext r k") (simp_all add: ix_ext_backfilled)
    then show ?thesis using r
      unfolding catalog_holders_def ix index_holders_def backfill_items_map by fastforce
  qed
  have "catalog_holders ?db' k e - {i} = catalog_holders db k e - {i}"
    "i \<in> catalog_holders db k e \<Longrightarrow> i \<in> catalog_holders ?db' k e" for k e
    unfolding catalog_holders_def ix using holders_backfill by blast+
  then show ?thesis using b ok rows filled by blast
qed

lemma catalog_backfill_idle:
  assumes "catalog_ok db" and "\<forall>k \<in> fst ` set items. \<exists>e. i \<in> catalog_holders db k e"
  shows "backfill_external_ids db i items = Inr db"
proof -
  have h: "healthy db" and w: "index_wf (indexList db)" using assms(1) by (simp_all add: catalog_ok_def)
  have "backfilled i items r = r" if r: "r \<in> set (indexList db)" for r
  proof -
    have "ix_ext (backfilled i items r) k = ix_ext r k" for k
    proof (cases "ix_id r = i \<and> ix_ext r k = None \<and> map_of items k \<noteq> None")
      case True
      then have "k \<in> fst ` set items" by (auto simp: map_of_eq_None_iff)
      then obtain e s where "s \<in> set (indexList db)" "ix_id s = i" "ix_ext s k = Some e"
        using assms(2) by (auto simp: catalog_holders_def index_holders_def)
      then have "ix_ext r k = Some e"
        using distinct_ids_eq [OF index_wf_ids [OF w] r, of s] True by simp
      then show ?thesis using True by simp
    next
      case False
      then show ?thesis by (auto simp: ix_ext_backfilled)
    qed
    then show ?thesis by (intro index_row.equality) (simp_all add: fun_eq_iff backfilled_def)
  qed
  then have "backfill_items i items (indexList db) = indexList db"
    by (simp add: backfill_items_map map_idI)
  then show ?thesis using healthy_raises [OF h] by (simp add: backfill_external_ids_def)
qed


lemma first_existing_None:
  assumes "catalog_ok db" and "fst ` set items \<subseteq> set INDEX_PROVIDER_KEYS"
    and "\<forall>(k, e) \<in> set items. catalog_holders db k e = {}"
  shows "first_existing db items = Inr None"
  using assms(2,3)
proof (induction items)
  case (Cons p items)
  obtain k e where p: "p = (k, e)" by (cases p)
  have "find_by_external db k e = Inr None"
    by (rule holders_catalog(1) [OF assms(1)]) (use Cons.prems p in auto)
  then show ?case using Cons p by simp
qed simp

lemma catalog_allocate_ok:
  assumes ok: "catalog_ok db" and ne: "items \<noteq> []"
    and keys: "fst ` set items \<subseteq> set INDEX_PROVIDER_KEYS" "distinct (map fst items)"
    and none: "\<forall>(k, e) \<in> set items. catalog_holders db k e = {}"
    and fresh: "fresh_id db \<notin> catalog_rows db"
  shows "\<exists>i db'. allocate fresh_id db items = Inr (i, db') \<and> catalog_ok db' \<and> i \<notin> catalog_rows db
     \<and> catalog_rows db' = insert i (catalog_rows db)
     \<and> (\<forall>k e. catalog_holders db' k e - {i} = catalog_holders db k e)
     \<and> (\<forall>(k, e) \<in> set items. i \<in> catalog_holders db' k e)"
proof -
  have h: "healthy db" and w: "index_wf (indexList db)" using ok by (simp_all add: catalog_ok_def)
  let ?i = "fresh_id db"
  have filt: "filter (\<lambda>(k, v). k \<in> set INDEX_PROVIDER_KEYS) items = items"
    using keys(1) by (auto simp: filter_id_conv)
  obtain k0 e0 where p: "hd (sort_key fst items) = (k0, e0)" by (cases "hd (sort_key fst items)")
  have "set (sort_key fst items) = set items" by simp
  then have p_in: "(k0, e0) \<in> set items"
    using ne p by (metis hd_in_set list.set_sel(1) set_empty)
  then have k0: "k0 \<in> set INDEX_PROVIDER_KEYS" using keys(1) by force
  let ?row = "\<lparr>ix_id = ?i, ix_ext = [k0 \<mapsto> e0]\<rparr>"
  let ?db1 = "db\<lparr>indexList := indexList db @ [?row]\<rparr>"
  have empty: "\<forall>r \<in> set (indexList db). ix_ext r k \<noteq> Some e" if "(k, e) \<in> set items" for k e
    using none that by (fastforce simp: catalog_holders_def index_holders_def)
  have h1: "healthy ?db1" using h by (simp add: healthy_def)
  have w1: "index_wf (indexList ?db1)"
  proof (rule index_wfI)
    have "?i \<notin> set (map ix_id (indexList db))" using fresh by (auto simp: catalog_rows_def)
    then show "distinct (map ix_id (indexList ?db1))" using index_wf_ids [OF w] by simp
  next
    fix k r s
    assume k: "k \<in> set INDEX_PROVIDER_KEYS" and r: "r \<in> set (indexList ?db1)"
      and s: "s \<in> set (indexList ?db1)" and ne: "ix_ext r k \<noteq> None" "ix_ext r k = ix_ext s k"
    have no: "ix_ext t k \<noteq> ix_ext ?row k" if "t \<in> set (indexList db)" "ix_ext t k \<noteq> None" for t
      using empty [OF p_in] that by auto
    show "ix_id r = ix_id s"
    proof (cases "r = ?row"; cases "s = ?row")
      assume "r \<noteq> ?row" "s \<noteq> ?row"
      then show ?thesis using index_wfD [OF w k, of r s] r s ne by simp
    next
      assume "r = ?row" "s \<noteq> ?row"
      then show ?thesis using no [of s] s ne by simp
    next
      assume "r \<noteq> ?row" "s = ?row"
      then show ?thesis using no [of r] r ne by simp
    qed simp
  qed
  have ok1: "catalog_ok ?db1" using h1 w1 by (simp add: catalog_ok_def)
  have rows1: "catalog_rows ?db1 = insert ?i (catalog_rows db)" by (auto simp: catalog_rows_def)
  have hold1: "catalog_holders ?db1 k e = catalog_holders db k e \<union> (if k = k0 \<and> e = e0 then {?i} else {})"
    for k e by (auto simp: catalog_holders_def index_holders_def split: if_splits)
  have "find_by_external db k0 e0 = Inr None"
    by (rule holders_catalog(1) [OF ok k0]) (use none p_in in auto)
  moreover have "find_by_external ?db1 k0 e0 = Inr (Some ?i)"
    by (rule holders_catalog(2) [OF ok1 k0]) (simp add: hold1)
  ultimately have get: "getId fresh_id db k0 e0 = Inr (Some ?i, ?db1)"
    by (simp add: getId_def Let_def)
  have mem1: "?i \<in> catalog_rows ?db1" using rows1 by simp
  have only1: "\<forall>(k, e) \<in> set items. catalog_holders ?db1 k e \<subseteq> {?i}" 
    using none unfolding hold1 by auto
  obtain db' where b: "backfill_external_ids ?db1 ?i items = Inr db'" "catalog_ok db'"
      "catalog_rows db' = catalog_rows ?db1"
      "\<forall>k e. catalog_holders db' k e - {?i} = catalog_holders ?db1 k e - {?i}"
    using catalog_backfill_ok [OF ok1 mem1 keys(1) only1] by blast
  have alloc: "allocate fresh_id db items = Inr (?i, db')"
    unfolding allocate_def Let_def filt using ne first_existing_None [OF ok keys(1) none]
    by (simp add: p get b(1))
  have "?i \<notin> catalog_holders db k e" for k e
    using fresh unfolding catalog_holders_def index_holders_def catalog_rows_def by force
  then have hold: "catalog_holders db' k e - {?i} = catalog_holders db k e" for k e
    using b(4) hold1 by (auto split: if_splits)
  have "indexList db' = backfill_items ?i items (indexList ?db1)"
    using b(1) healthy_raises [OF h1] by (auto simp: backfill_external_ids_def split: if_splits)
  moreover have "ix_ext (backfilled ?i items ?row) k = Some e" if "(k, e) \<in> set items" for k e
  proof -
    have "map_of items k = Some e" using that keys(2) by simp
    moreover have "map_of items k0 = Some e0" using p_in keys(2) by simp
    moreover have "k \<in> set INDEX_PROVIDER_KEYS" using that keys(1) by force
    ultimately show ?thesis by (auto simp: ix_ext_backfilled)
  qed
  ultimately have "?i \<in> catalog_holders db' k e" if "(k, e) \<in> set items" for k e
    using that unfolding catalog_holders_def index_holders_def backfill_items_map
    by (fastforce intro!: bexI [of _ "backfilled ?i items ?row"])
  then show ?thesis using alloc b(2,3) rows1 hold fresh by blast
qed


lemma catalog_services_model:
  assumes "\<And>db. fresh_id db \<notin> catalog_rows db"
  shows "catalog_services (catalog_deps fresh_id) catalog_ok catalog_rows catalog_holders"
proof (unfold_locales, goal_cases)
  case (1 s k e)
  then show ?case by (auto simp: catalog_holders_def index_holders_def catalog_rows_def)
next
  case (2 s k e)
  then show ?case by (simp add: catalog_deps_def holders_catalog(1))
next
  case (3 s k i e)
  then show ?case by (simp add: catalog_deps_def holders_catalog(2))
next
  case (4 s d c)
  then show ?case unfolding catalog_deps_def identity_deps.select_convs by (rule catalog_merge_ok)
next
  case (5 s i items)
  then show ?case unfolding catalog_deps_def identity_deps.select_convs by (rule catalog_backfill_ok)
next
  case (6 s items i)
  then show ?case unfolding catalog_deps_def identity_deps.select_convs by (rule catalog_backfill_idle)
next
  case (7 s items)
  then show ?case unfolding catalog_deps_def identity_deps.select_convs
    by (rule catalog_allocate_ok) (rule assms)
qed

interpretation catalog: catalog_services "catalog_deps next_rowid" catalog_ok catalog_rows
    catalog_holders
  by (rule catalog_services_model) (rule next_rowid_fresh)

section \<open>Properties\<close>

text \<open>
  C1. Whatever ids a payload brings, resolving it on a healthy catalogue succeeds as soon as
  one id is usable, and afterwards a single row stands for it: no other row carries any of
  its external ids, the row carries at least one of them and has every provider column of
  the payload filled, the rows it replaced are exactly those reported as merged, every other
  row keeps its external ids, and the index is still well-formed.
\<close>

theorem resolve_gives_one_identity:
  assumes "\<And>db. fresh_id db \<notin> catalog_rows db"
    and "catalog_ok db" and "normalize_external_ids ids \<noteq> []"
  shows "\<exists>entry db'. resolve_external_ids (catalog_deps fresh_id) db ids = Inr (entry, db')
     \<and> catalog_ok db'
     \<and> rc_catalog_id entry \<in> catalog_rows db'
     \<and> (\<forall>(k, e) \<in> set (normalize_external_ids ids).
          catalog_holders db' k e \<subseteq> {rc_catalog_id entry})
     \<and> (\<exists>(k, e) \<in> set (normalize_external_ids ids).
          rc_catalog_id entry \<in> catalog_holders db' k e)
     \<and> (\<forall>k \<in> fst ` set (normalize_external_ids ids).
          \<exists>e. rc_catalog_id entry \<in> catalog_holders db' k e)
     \<and> catalog_rows db' = insert (rc_catalog_id entry) (catalog_rows db - set (rc_merged_from entry))
     \<and> (\<forall>k e. catalog_holders db' k e - {rc_catalog_id entry} =
          catalog_holders db k e - {rc_catalog_id entry} - set (rc_merged_from entry))"
proof -
  obtain entry db' where r: "resolve_external_ids (catalog_deps fresh_id) db ids = Inr (entry, db')"
      "resolved catalog_ok catalog_rows catalog_holders db (normalize_external_ids ids) entry db'"
    using catalog_services.resolve_ok [OF catalog_services_model [of fresh_id, OF assms(1)] assms(2,3)]
    by blast
  show ?thesis
  proof (intro exI [of _ entry] exI [of _ db'] conjI)
    show "resolve_external_ids (catalog_deps fresh_id) db ids = Inr (entry, db')" by (rule r(1))
  qed (insert r(2) [unfolded resolved_def], (elim conjE, assumption)+)
qed

definition identity_example :: catdb where
  "identity_example = \<lparr>
     indexList = [\<lparr>ix_id = 1, ix_ext = [''mal_id'' \<mapsto> 10]\<rparr>,
                  \<lparr>ix_id = 2, ix_ext = [''kitsu_id'' \<mapsto> 20, ''anidb_id'' \<mapsto> 30]\<rparr>],
     anime_tbl = [], title_synonyms = [], genres_tbl = [], torrentsIndex = [], pictures = [],
     broadcasts = [], animeRelations = [], characterRelations = [], user_tags_tbl = [],
     rel_column = ''rel_id'', broken = []\<rparr>"

lemma identity_example_ok: "catalog_ok identity_example"
  by (auto simp: catalog_ok_def identity_example_def healthy_def index_wf_def INDEX_PROVIDER_KEYS_def)

lemma identity_example_ids:
  "normalize_external_ids [(''mal_id'', PStr ''10''), (''kitsu_id'', PInt 20)] \<noteq> []"
  by (simp add: normalize_external_ids_def INDEX_PROVIDER_KEYS_def parse_int_def py_strip_def
      py_lstrip_def py_rstrip_def py_isspace_def py_isdigit_def)

theorem resolve_gives_one_identity_witness:
  "\<exists>entry db'. resolve_external_ids (catalog_deps next_rowid) identity_example
       [(''mal_id'', PStr ''10''), (''kitsu_id'', PInt 20)] = Inr (entry, db') \<and> catalog_ok db'"
  using resolve_gives_one_identity [OF next_rowid_fresh identity_example_ok identity_example_ids]
  by blast

text \<open>
  C7. Resolution is idempotent: resolving the same ids again on the resulting catalogue
  returns the same id, merges nothing and leaves the database as it is.
\<close>

theorem resolve_idempotent:
  assumes "\<And>db. fresh_id db \<notin> catalog_rows db"
    and "catalog_ok db" and "normalize_external_ids ids \<noteq> []"
    and "resolve_external_ids (catalog_deps fresh_id) db ids = Inr (entry, db')"
  shows "resolve_external_ids (catalog_deps fresh_id) db' ids =
           Inr (entry\<lparr>rc_merged_from := []\<rparr>, db')"
proof -
  note m = catalog_services_model [of fresh_id, OF assms(1)]
  have "resolved catalog_ok catalog_rows catalog_holders db (normalize_external_ids ids) entry db'"
    using catalog_services.resolve_ok [OF m assms(2,3)] assms(4) by auto
  then show ?thesis by (rule catalog_services.resolve_again [OF m _ assms(3)])
qed

theorem resolve_idempotent_witness:
  "\<exists>entry db'. resolve_external_ids (catalog_deps next_rowid) identity_example
       [(''mal_id'', PStr ''10''), (''kitsu_id'', PInt 20)] = Inr (entry, db')
     \<and> resolve_external_ids (catalog_deps next_rowid) db'
       [(''mal_id'', PStr ''10''), (''kitsu_id'', PInt 20)] = Inr (entry\<lparr>rc_merged_from := []\<rparr>, db')"
  using catalog.resolve_ok [OF identity_example_ok identity_example_ids]
    resolve_idempotent [OF next_rowid_fresh identity_example_ok identity_example_ids]
  by blast


text \<open>
  The batch variant looks all ids up once, before it starts merging.  An id that an
  earlier entry of the batch merged away is therefore still found for a later entry: on the
  example the second entry is answered with internal id 2, whose row is gone, although the
  same entries resolved one by one both lead to row 1.
\<close>

lemma batch_lookup_goes_stale:
  "(case resolve_external_ids_batch (catalog_deps next_rowid) identity_example
       [[(''mal_id'', PInt 10), (''kitsu_id'', PInt 20)], [(''anidb_id'', PInt 30)]] of
      Inl e \<Rightarrow> False
    | Inr (es, db') \<Rightarrow>
        map rc_catalog_id es = [1, 2] \<and> map ix_id (indexList db') = [1]
        \<and> map_sum id (rc_catalog_id \<circ> fst)
            (resolve_external_ids (catalog_deps next_rowid) db' [(''anidb_id'', PInt 30)]) = Inr 1)"
  by code_simp

end
