(* ===== verification/Ingestion.thy ===== *)
theory Ingestion
  imports Contracts
begin

text \<open>
  The ingestion pipeline (\<open>application/services/ingestion_pipeline.py\<close>): provider workers,
  collection of their payloads in completion order, removal of duplicates, the sink and the
  status of the run; and \<open>deduplicate_records\<close>, the union-find that collapses records which
  share an external id.

  A provider is its name, its search and its adapter, both arguments of the model (network
  code).  A search answers the items its iterator yields and the name of the exception it
  raises at the end, if any; an adapter answers a payload, nothing, or the name of its
  exception.  The clock is the predicate \<open>late\<close> (does the n-th look at the clock lie past the
  deadline), the thread pool is a \<open>schedule\<close>: the order in which futures complete, whether
  \<open>as_completed\<close> timed out, and which futures were not done then.
\<close>

section \<open>Removing duplicates\<close>

fun dedupe_payloads_acc :: "fingerprint list \<Rightarrow> ProviderAnimePayload list \<Rightarrow> ProviderAnimePayload list"
  where
  "dedupe_payloads_acc seen [] = []"
| "dedupe_payloads_acc seen (payload # payloads) =
     (let fp = payload_fingerprint payload
      in if fp \<in> set seen then dedupe_payloads_acc seen payloads
         else payload # dedupe_payloads_acc (fp # seen) payloads)"

definition deduplicate_payloads :: "ProviderAnimePayload list \<Rightarrow> ProviderAnimePayload list" where
  "deduplicate_payloads payloads = dedupe_payloads_acc [] payloads"

fun dedupe_records_acc :: "int list \<Rightarrow> AnimeRecord list \<Rightarrow> AnimeRecord list" where
  "dedupe_records_acc seen [] = []"
| "dedupe_records_acc seen (record # records) =
     (let rid = ar_id record
      in if rid \<in> set seen then dedupe_records_acc seen records
         else record # dedupe_records_acc (rid # seen) records)"

definition deduplicate :: "AnimeRecord list \<Rightarrow> AnimeRecord list" where
  "deduplicate records = dedupe_records_acc [] records"

interpretation payload_dedupe: first_seen_filter dedupe_payloads_acc payload_fingerprint
  by unfold_locales (simp_all add: Let_def)

interpretation record_dedupe: first_seen_filter dedupe_records_acc ar_id
  by unfold_locales (simp_all add: Let_def)

section \<open>One provider\<close>

record 'raw ProviderSpec =
  ps_name :: string
  ps_search :: "string \<Rightarrow> int \<Rightarrow> 'raw option list \<times> string option"
  ps_adapter :: "'raw \<Rightarrow> string + ProviderAnimePayload option"

fun run_items ::
  "(nat \<Rightarrow> bool) \<Rightarrow> ('raw \<Rightarrow> string + ProviderAnimePayload option) \<Rightarrow> int \<Rightarrow> nat \<Rightarrow>
   ProviderAnimePayload list \<Rightarrow> 'raw option list \<Rightarrow> string option \<Rightarrow>
   string + ProviderAnimePayload list" where
  "run_items late adapter limit idx out [] err =
     (case err of None \<Rightarrow> Inr out | Some e \<Rightarrow> Inl e)"
| "run_items late adapter limit idx out (item # items) err =
     (if late (Suc idx) then Inr out
      else case item of
        None \<Rightarrow> run_items late adapter limit (Suc idx) out items err
      | Some raw \<Rightarrow>
          (case adapter raw of
             Inl e \<Rightarrow> Inl e
           | Inr None \<Rightarrow> run_items late adapter limit (Suc idx) out items err
           | Inr (Some normalized) \<Rightarrow>
               let out' = out @ [normalized]
               in if int idx + 1 \<ge> limit then Inr out'
                  else run_items late adapter limit (Suc idx) out' items err))"

definition run_one ::
  "(nat \<Rightarrow> bool) \<Rightarrow> 'raw ProviderSpec \<Rightarrow> string \<Rightarrow> int \<Rightarrow> string + ProviderAnimePayload list" where
  "run_one late spec terms limit =
     (if late 0 then Inr []
      else case ps_search spec terms limit of
        (items, err) \<Rightarrow> run_items late (ps_adapter spec) limit 0 [] items err)"

text \<open>A worker never hands over more payloads than its limit.\<close>

lemma run_items_bound:
  assumes "run_items late adapter limit idx out items err = Inr res" and "limit \<ge> 1"
    and "length out \<le> idx" and "int (length out) < limit"
  shows "int (length res) \<le> limit"
  using assms
proof (induction late adapter limit idx out items err rule: run_items.induct)
  case (1 late adapter limit idx out err)
  then show ?case by (simp split: option.splits)
next
  case (2 late adapter limit idx out item items err)
  show ?case
  proof (cases "late (Suc idx)")
    case True
    then show ?thesis using 2 by simp
  next
    case late: False
    show ?thesis
    proof (cases item)
      case None
      then show ?thesis using 2 late by simp
    next
      case (Some raw)
      show ?thesis
      proof (cases "adapter raw")
        case (Inl e)
        then show ?thesis using 2 late Some by simp
      next
        case (Inr p)
        show ?thesis
        proof (cases p)
          case None
          then show ?thesis using 2 late Some Inr by simp
        next
          case p: (Some normalized)
          show ?thesis
          proof (cases "int idx + 1 \<ge> limit")
            case True
            then show ?thesis using 2 late Some Inr p by auto
          next
            case False
            then have "int (length (out @ [normalized])) < limit"
                "length (out @ [normalized]) \<le> Suc idx"
              using 2(5,6) by auto
            then show ?thesis using 2(3) [OF late Some Inr p refl False] 2(4,5) late Some Inr p False
              by simp
          qed
        qed
      qed
    qed
  qed
qed

section \<open>A run over all providers\<close>

record schedule =
  completed :: "nat list"
  timed_out :: bool
  undone :: "nat list"

type_synonym outcomes = "nat \<Rightarrow> string + ProviderAnimePayload list"

record collection =
  co_payloads :: "ProviderAnimePayload list"
  co_errors :: "string list"
  co_failed :: nat
  co_partial :: bool

definition empty_collection :: collection where
  "empty_collection = \<lparr>co_payloads = [], co_errors = [], co_failed = 0, co_partial = False\<rparr>"

text \<open>
  \<open>concurrent.futures.TimeoutError\<close> is the built-in \<open>TimeoutError\<close>: a worker raising it is
  recorded as a timeout.
\<close>

fun collect_parallel :: "(nat \<Rightarrow> string) \<Rightarrow> outcomes \<Rightarrow> nat list \<Rightarrow> collection \<Rightarrow> collection" where
  "collect_parallel name outcome [] c = c"
| "collect_parallel name outcome (i # is) c =
     collect_parallel name outcome is
       (case outcome i of
          Inr payloads \<Rightarrow> c\<lparr>co_payloads := co_payloads c @ payloads\<rparr>
        | Inl e \<Rightarrow>
            if e = ''TimeoutError''
            then c\<lparr>co_failed := co_failed c + 1, co_partial := True,
                   co_errors := co_errors c @ [name i @ '':timeout'']\<rparr>
            else c\<lparr>co_failed := co_failed c + 1,
                   co_errors := co_errors c @ [name i @ '':'' @ e]\<rparr>)"

definition after_deadline :: "(nat \<Rightarrow> string) \<Rightarrow> schedule \<Rightarrow> collection \<Rightarrow> collection" where
  "after_deadline name sch c =
     (if timed_out sch
      then c\<lparr>co_partial := True,
             co_failed := co_failed c + length (undone sch),
             co_errors := co_errors c @ map (\<lambda>i. name i @ '':deadline'') (undone sch)\<rparr>
      else c)"

fun collect_sequential :: "(nat \<Rightarrow> string) \<Rightarrow> outcomes \<Rightarrow> nat list \<Rightarrow> collection \<Rightarrow> collection" where
  "collect_sequential name outcome [] c = c"
| "collect_sequential name outcome (i # is) c =
     collect_sequential name outcome is
       (case outcome i of
          Inr payloads \<Rightarrow> c\<lparr>co_payloads := co_payloads c @ payloads\<rparr>
        | Inl e \<Rightarrow> c\<lparr>co_failed := co_failed c + 1, co_partial := True,
                     co_errors := co_errors c @ [name i @ '':'' @ e]\<rparr>)"

text \<open>The tail of \<open>run\<close>: dedupe, sink, status.\<close>

definition finish_run ::
  "nat \<Rightarrow> (ProviderAnimePayload list \<Rightarrow> string + int) option \<Rightarrow> collection \<Rightarrow> IngestionResult" where
  "finish_run n sink c =
     (let deduped = deduplicate_payloads (co_payloads c);
          (persisted, errors, partial) =
            (case sink of
               None \<Rightarrow> (0, co_errors c, co_partial c)
             | Some f \<Rightarrow>
                 if deduped = [] then (0, co_errors c, co_partial c)
                 else (case f deduped of
                         Inr count \<Rightarrow> (count, co_errors c, co_partial c)
                       | Inl e \<Rightarrow> (0, co_errors c @ [''sink:'' @ e], True)));
          status = (if deduped = [] \<and> co_failed c = n then FAILED
                    else if partial \<or> co_failed c > 0 then PARTIAL else COMPLETE)
      in \<lparr>ir_status = status, ir_payloads = deduped, ir_failed_providers = co_failed c,
          ir_total_providers = n, ir_errors = errors, ir_persisted_count = persisted\<rparr>)"

definition per_provider_limit :: "bool \<Rightarrow> int \<Rightarrow> nat \<Rightarrow> int" where
  "per_provider_limit limit_per_provider limit n =
     (if limit_per_provider then max 1 limit else max 1 (limit div max 1 (int n)))"

definition run ::
  "schedule \<Rightarrow> (nat \<Rightarrow> nat \<Rightarrow> bool) \<Rightarrow> 'raw ProviderSpec list \<Rightarrow> string \<Rightarrow> int \<Rightarrow>
   (ProviderAnimePayload list \<Rightarrow> string + int) option \<Rightarrow> bool \<Rightarrow> bool \<Rightarrow> IngestionResult" where
  "run sch late providers terms limit sink limit_per_provider parallel =
     (let n = length providers;
          lim = per_provider_limit limit_per_provider limit n;
          name = (\<lambda>i. ps_name (providers ! i));
          outcome = (\<lambda>i. run_one (late i) (providers ! i) terms lim)
      in if providers = []
         then \<lparr>ir_status = COMPLETE, ir_payloads = [], ir_failed_providers = 0,
               ir_total_providers = 0, ir_errors = [], ir_persisted_count = 0\<rparr>
         else finish_run n sink
           (if parallel
            then after_deadline name sch
                   (collect_parallel name outcome (completed sch) empty_collection)
            else collect_sequential name outcome [0..<n] empty_collection))"

text \<open>
  The streaming variant: a batch of fresh payloads per completed provider, workers that
  raise are skipped, and what was collected goes to the sink at the end.
\<close>

fun stream_loop ::
  "(nat \<Rightarrow> string) \<Rightarrow> outcomes \<Rightarrow> nat list \<Rightarrow> fingerprint list \<Rightarrow>
   (string \<times> ProviderAnimePayload list) list" where
  "stream_loop name outcome [] seen = []"
| "stream_loop name outcome (i # is) seen =
     (case outcome i of
        Inl e \<Rightarrow> stream_loop name outcome is seen
      | Inr batch \<Rightarrow>
          let fresh = dedupe_payloads_acc seen batch;
              seen' = rev (map payload_fingerprint fresh) @ seen;
              rest = stream_loop name outcome is seen'
          in if fresh = [] then rest else (name i, fresh) # rest)"

definition stream ::
  "schedule \<Rightarrow> (nat \<Rightarrow> nat \<Rightarrow> bool) \<Rightarrow> 'raw ProviderSpec list \<Rightarrow> string \<Rightarrow> int \<Rightarrow>
   (string \<times> ProviderAnimePayload list) list \<times> ProviderAnimePayload list option" where
  "stream sch late providers terms limit =
     (if providers = [] then ([], None)
      else let lim = max 1 (limit div max 1 (int (length providers)));
               batches = stream_loop (\<lambda>i. ps_name (providers ! i))
                 (\<lambda>i. run_one (late i) (providers ! i) terms lim) (completed sch) [];
               collected = concat (map snd batches)
           in (batches, if collected = [] then None else Some collected))"

section \<open>What a run returns\<close>

definition ok_payloads :: "outcomes \<Rightarrow> nat \<Rightarrow> ProviderAnimePayload list" where
  "ok_payloads outcome i = (case outcome i of Inr ps \<Rightarrow> ps | Inl e \<Rightarrow> [])"

definition raised :: "outcomes \<Rightarrow> nat \<Rightarrow> bool" where
  "raised outcome i = (case outcome i of Inr ps \<Rightarrow> False | Inl e \<Rightarrow> True)"

lemma collect_parallel_fields:
  "co_payloads (collect_parallel name outcome is c) =
     co_payloads c @ concat (map (ok_payloads outcome) is)"
  "co_failed (collect_parallel name outcome is c) =
     co_failed c + length (filter (raised outcome) is)"
  "length (co_errors (collect_parallel name outcome is c)) =
     length (co_errors c) + length (filter (raised outcome) is)"
  "co_partial (collect_parallel name outcome is c) \<longrightarrow>
     co_partial c \<or> (\<exists>i \<in> set is. raised outcome i)"
  by (induction name outcome "is" c rule: collect_parallel.induct)
     (auto simp: ok_payloads_def raised_def split: sum.splits if_splits)

lemma collect_sequential_fields:
  "co_payloads (collect_sequential name outcome is c) =
     co_payloads c @ concat (map (ok_payloads outcome) is)"
  "co_failed (collect_sequential name outcome is c) =
     co_failed c + length (filter (raised outcome) is)"
  "length (co_errors (collect_sequential name outcome is c)) =
     length (co_errors c) + length (filter (raised outcome) is)"
  "co_partial (collect_sequential name outcome is c) \<longrightarrow>
     co_partial c \<or> (\<exists>i \<in> set is. raised outcome i)"
  by (induction name outcome "is" c rule: collect_sequential.induct)
     (auto simp: ok_payloads_def raised_def split: sum.splits if_splits)

lemma after_deadline_fields:
  "co_payloads (after_deadline name sch c) = co_payloads c"
  "co_failed (after_deadline name sch c) = co_failed c + (if timed_out sch then length (undone sch) else 0)"
  "length (co_errors (after_deadline name sch c)) =
     length (co_errors c) + (if timed_out sch then length (undone sch) else 0)"
  "co_partial (after_deadline name sch c) \<longleftrightarrow> co_partial c \<or> timed_out sch"
  by (simp_all add: after_deadline_def)

lemma empty_collection_fields [simp]:
  "co_payloads empty_collection = []" "co_failed empty_collection = 0"
  "co_errors empty_collection = []" "\<not> co_partial empty_collection"
  by (simp_all add: empty_collection_def)

text \<open>The futures of one run: every future completes or is left undone by a timeout.\<close>

definition valid_schedule :: "nat \<Rightarrow> schedule \<Rightarrow> bool" where
  "valid_schedule n sch \<longleftrightarrow>
     distinct (completed sch @ undone sch)
     \<and> set (completed sch) \<union> set (undone sch) \<subseteq> {..<n}
     \<and> (\<not> timed_out sch \<longrightarrow> set (completed sch) = {..<n})"

lemma finish_run_fields:
  "ir_payloads (finish_run n sink c) = deduplicate_payloads (co_payloads c)"
  "ir_failed_providers (finish_run n sink c) = co_failed c"
  "ir_total_providers (finish_run n sink c) = n"
  "ir_status (finish_run n sink c) = FAILED \<longleftrightarrow>
     deduplicate_payloads (co_payloads c) = [] \<and> co_failed c = n"
  by (auto simp: finish_run_def Let_def split: option.splits sum.splits)

lemma finish_run_errors:
  "length (ir_errors (finish_run n sink c)) = length (co_errors c) \<or>
   length (ir_errors (finish_run n sink c)) = Suc (length (co_errors c))"
  by (auto simp: finish_run_def Let_def split: option.splits sum.splits)

lemma finish_run_complete:
  assumes "co_failed c = length (co_errors c)" and "0 < n"
    and "co_partial c \<longrightarrow> p \<or> co_failed c > 0" and "p \<longrightarrow> co_partial c"
  shows "ir_status (finish_run n sink c) = COMPLETE \<longleftrightarrow>
     ir_errors (finish_run n sink c) = [] \<and> \<not> p"
  using assms
  by (auto simp: finish_run_def Let_def split: option.splits sum.splits)

lemma filter_length_distinct_bound:
  assumes "distinct xs" and "set xs \<subseteq> {..<n}"
  shows "length xs \<le> n"
  using assms by (metis card_lessThan card_mono distinct_card finite_lessThan)


definition provider_outcome ::
  "(nat \<Rightarrow> nat \<Rightarrow> bool) \<Rightarrow> 'raw ProviderSpec list \<Rightarrow> string \<Rightarrow> int \<Rightarrow> outcomes" where
  "provider_outcome late providers terms n i = run_one (late i) (providers ! i) terms n"

lemma run_parallel:
  assumes "providers \<noteq> []"
  shows "run sch late providers terms limit sink lpp True =
     finish_run (length providers) sink (after_deadline (\<lambda>i. ps_name (providers ! i)) sch
       (collect_parallel (\<lambda>i. ps_name (providers ! i))
          (provider_outcome late providers terms (per_provider_limit lpp limit (length providers)))
          (completed sch) empty_collection))"
proof -
  have "(\<lambda>i. run_one (late i) (providers ! i) terms (per_provider_limit lpp limit (length providers)))
      = provider_outcome late providers terms (per_provider_limit lpp limit (length providers))"
    by (simp add: fun_eq_iff provider_outcome_def)
  then show ?thesis using assms by (simp add: run_def Let_def)
qed

lemma failed_bound:
  assumes "valid_schedule n sch"
  shows "length (filter P (completed sch)) + (if timed_out sch then length (undone sch) else 0) \<le> n"
proof -
  have "length (completed sch @ undone sch) \<le> n"
    using assms by (intro filter_length_distinct_bound) (auto simp: valid_schedule_def)
  then have all: "length (completed sch) + length (undone sch) \<le> n" by simp
  have "(if timed_out sch then length (undone sch) else 0) \<le> length (undone sch)" by simp
  with all length_filter_le [of P "completed sch"] show ?thesis by linarith
qed

section \<open>Properties\<close>


definition sample_payload :: "string \<Rightarrow> (string \<times> int) list \<Rightarrow> ProviderAnimePayload" where
  "sample_payload title ext = \<lparr>pp_title = title, pp_external_ids = ext, pp_title_synonyms = [],
     pp_synopsis = None, pp_episodes = None, pp_duration = None, pp_status = None,
     pp_rating = None, pp_date_from = None, pp_date_to = None, pp_picture = None,
     pp_trailer = None, pp_broadcast = None, pp_genres = [], pp_source_provider = JIKAN,
     pp_picture_variants = []\<rparr>"

definition sample_provider :: "string \<Rightarrow> nat option list \<Rightarrow> string option \<Rightarrow> nat ProviderSpec" where
  "sample_provider name items err =
     \<lparr>ps_name = name, ps_search = (\<lambda>terms limit. (items, err)),
      ps_adapter = (\<lambda>n. Inr (Some (sample_payload ''T'' [(''mal_id'', int n)])))\<rparr>"

definition sample_schedule :: schedule where
  "sample_schedule = \<lparr>completed = [1], timed_out = True, undone = [0]\<rparr>"




end
