(* ===== verification/RecordUnion.thy ===== *)
theory RecordUnion
  imports Ingestion
begin

text \<open>
  \<open>deduplicate_records\<close> of \<open>application/services/ingestion_pipeline.py\<close>: records that share an
  external id, directly or through other records, are collapsed by a union-find with path
  halving.  The order in which one catalogue id is preferred to another
  (\<open>preferred_catalog_id\<close>) is the linear order of \<open>catalog_rank\<close>; it is what makes the
  parent chains finite.
\<close>

section \<open>The order of preference\<close>

datatype catalog_rank = Rank int

instantiation catalog_rank :: linorder
begin

fun less_eq_catalog_rank :: "catalog_rank \<Rightarrow> catalog_rank \<Rightarrow> bool" where
  "Rank a \<le> Rank b \<longleftrightarrow> (if a > 0 then b \<le> 0 \<or> a \<le> b else b \<le> 0 \<and> a \<le> b)"

definition less_catalog_rank :: "catalog_rank \<Rightarrow> catalog_rank \<Rightarrow> bool" where
  "x < y \<longleftrightarrow> x \<le> y \<and> \<not> y \<le> (x :: catalog_rank)"

instance
proof
  fix x y z :: catalog_rank
  show "(x < y) = (x \<le> y \<and> \<not> y \<le> x)" by (simp add: less_catalog_rank_def)
  show "x \<le> x" by (cases x) simp
  show "x \<le> y \<Longrightarrow> y \<le> z \<Longrightarrow> x \<le> z" by (cases x; cases y; cases z) (auto split: if_splits)
  show "x \<le> y \<Longrightarrow> y \<le> x \<Longrightarrow> x = y" by (cases x; cases y) (auto split: if_splits)
  show "x \<le> y \<or> y \<le> x" by (cases x; cases y) auto
qed

end

lemma preferred_pair:
  "preferred_catalog_id [a, b] = Inr (if Rank a \<le> Rank b then a else b)"
  by (simp add: preferred_catalog_id_def)

declare less_eq_catalog_rank.simps [simp del]

section \<open>The routine\<close>

text \<open>
  The parent map is the dictionary \<open>parent\<close>.  The loop of \<open>find\<close> need not end on an arbitrary
  map, hence \<open>partial_function\<close>: \<open>None\<close> stands for a run that does not return (or for the
  \<open>KeyError\<close> of a node without parent).
\<close>

type_synonym parents = "(int \<times> int) list"

partial_function (option) uf_find :: "parents \<Rightarrow> int \<Rightarrow> (int \<times> parents) option" where
  "uf_find parent node =
     (case map_of parent node of
        None \<Rightarrow> None
      | Some p \<Rightarrow>
          if p = node then Some (node, parent)
          else (case map_of parent p of
                  None \<Rightarrow> None
                | Some g \<Rightarrow> uf_find (AList.update node g parent) g))"

definition uf_union :: "parents \<Rightarrow> int \<Rightarrow> int \<Rightarrow> parents option" where
  "uf_union parent a b =
     (case uf_find parent a of
        None \<Rightarrow> None
      | Some (root_a, parent1) \<Rightarrow>
          (case uf_find parent1 b of
             None \<Rightarrow> None
           | Some (root_b, parent2) \<Rightarrow>
               if root_a = root_b then Some parent2
               else (case preferred_catalog_id [root_a, root_b] of
                       Inl e \<Rightarrow> None
                     | Inr winner \<Rightarrow>
                         let loser = (if winner = root_a then root_b else root_a)
                         in Some (AList.update loser winner parent2))))"

type_synonym ext_index = "((string \<times> int) \<times> int) list"

text \<open>\<open>int(value)\<close> raises on a value that is no integer.\<close>

fun link_items ::
  "int \<Rightarrow> pydict \<Rightarrow> parents \<Rightarrow> ext_index \<Rightarrow> (parents \<times> ext_index) res option" where
  "link_items rid [] parent ext = Some (Inr (parent, ext))"
| "link_items rid ((key, value) # items) parent ext =
     (case py_int value of
        None \<Rightarrow> Some (Inl (ValueError ''invalid literal for int()''))
      | Some v \<Rightarrow>
          (case map_of ext (key, v) of
             Some other \<Rightarrow>
               (case uf_union parent rid other of
                  None \<Rightarrow> None
                | Some parent' \<Rightarrow> link_items rid items parent' ext)
           | None \<Rightarrow> link_items rid items parent (AList.update (key, v) rid ext)))"

fun link_records ::
  "AnimeRecord list \<Rightarrow> parents \<Rightarrow> ext_index \<Rightarrow> (parents \<times> ext_index) res option" where
  "link_records [] parent ext = Some (Inr (parent, ext))"
| "link_records (r # rs) parent ext =
     (case link_items (ar_id r) (ar_external_ids r) parent ext of
        None \<Rightarrow> None
      | Some (Inl e) \<Rightarrow> Some (Inl e)
      | Some (Inr (parent', ext')) \<Rightarrow> link_records rs parent' ext')"

fun pick_winners ::
  "AnimeRecord list \<Rightarrow> parents \<Rightarrow> (int \<times> AnimeRecord) list \<Rightarrow> int list \<Rightarrow>
   ((int \<times> AnimeRecord) list \<times> int list) option" where
  "pick_winners [] parent winners order = Some (winners, order)"
| "pick_winners (r # rs) parent winners order =
     (case uf_find parent (ar_id r) of
        None \<Rightarrow> None
      | Some (rt, parent') \<Rightarrow>
          let candidate = (if ar_id r = rt then r else r\<lparr>ar_id := rt\<rparr>);
              chosen =
                (case map_of winners rt of
                   None \<Rightarrow> candidate
                 | Some existing \<Rightarrow>
                     (case preferred_catalog_id [ar_id existing, ar_id candidate] of
                        Inl e \<Rightarrow> existing
                      | Inr keep_id \<Rightarrow> if ar_id candidate = keep_id then candidate else existing));
              order' = (if rt \<in> set order then order else order @ [rt])
          in pick_winners rs parent' (AList.update rt chosen winners) order')"

definition deduplicate_records :: "AnimeRecord list \<Rightarrow> AnimeRecord list res option" where
  "deduplicate_records records =
     (let by_id = deduplicate records
      in if length by_id \<le> 1 then Some (Inr by_id)
         else case link_records by_id (map (\<lambda>r. (ar_id r, ar_id r)) by_id) [] of
           None \<Rightarrow> None
         | Some (Inl e) \<Rightarrow> Some (Inl e)
         | Some (Inr (parent, ext)) \<Rightarrow>
             (case pick_winners by_id parent [] [] of
                None \<Rightarrow> None
              | Some (winners, order) \<Rightarrow>
                  Some (Inr (map (\<lambda>rt. the (map_of winners rt)) order))))"

section \<open>Parent chains\<close>

text \<open>Every parent is a node and preferred to its child.\<close>

definition uf_ok :: "(int \<rightharpoonup> int) \<Rightarrow> bool" where
  "uf_ok p \<longleftrightarrow> finite (dom p) \<and> (\<forall>x y. p x = Some y \<longrightarrow> y \<in> dom p \<and> Rank y \<le> Rank x)"

inductive leads :: "(int \<rightharpoonup> int) \<Rightarrow> int \<Rightarrow> int \<Rightarrow> bool" for p where
  leads_root: "p r = Some r \<Longrightarrow> leads p r r"
| leads_step: "p x = Some y \<Longrightarrow> y \<noteq> x \<Longrightarrow> leads p y r \<Longrightarrow> leads p x r"

inductive_cases leadsE: "leads p x r"

lemma uf_parent:
  assumes "uf_ok p" and "p x = Some y"
  shows "y \<in> dom p" and "y \<noteq> x \<Longrightarrow> Rank y < Rank x"
proof -
  have le: "y \<in> dom p" "Rank y \<le> Rank x" using assms unfolding uf_ok_def by blast+
  show "y \<in> dom p" by (rule le)
  show "y \<noteq> x \<Longrightarrow> Rank y < Rank x" using le(2) by (simp add: order_le_less)
qed

lemma better_smaller:
  assumes "uf_ok p" and "y \<in> dom p" and "Rank y < Rank x"
  shows "card {z \<in> dom p. Rank z < Rank y} < card {z \<in> dom p. Rank z < Rank x}"
proof (rule psubset_card_mono)
  show "finite {z \<in> dom p. Rank z < Rank x}" using assms(1) by (simp add: uf_ok_def)
  have "y \<in> {z \<in> dom p. Rank z < Rank x} - {z \<in> dom p. Rank z < Rank y}" using assms by simp
  moreover have "{z \<in> dom p. Rank z < Rank y} \<subseteq> {z \<in> dom p. Rank z < Rank x}"
    using assms(3) by (auto intro: order_less_trans)
  ultimately show "{z \<in> dom p. Rank z < Rank y} \<subset> {z \<in> dom p. Rank z < Rank x}" by blast
qed

lemma leads_total:
  assumes "uf_ok p" and "x \<in> dom p"
  shows "\<exists>r. leads p x r"
  using assms(2)
proof (induction "card {z \<in> dom p. Rank z < Rank x}" arbitrary: x rule: less_induct)
  case less
  obtain y where y: "p x = Some y" using less.prems by auto
  show ?case
  proof (cases "y = x")
    case True
    then show ?thesis using y leads_root [of p x] by auto
  next
    case False
    note yy = uf_parent [OF assms(1) y]
    have "\<exists>r. leads p y r"
      by (rule less.hyps [OF better_smaller [OF assms(1) yy(1) yy(2) [OF False]] yy(1)])
    then show ?thesis using leads.leads_step [of p x y] y False by blast
  qed
qed

lemma leads_fun: "leads p x r \<Longrightarrow> leads p x s \<Longrightarrow> r = s"
proof (induction arbitrary: s rule: leads.induct)
  case (leads_root r)
  show ?case
  proof (rule leadsE [OF leads_root(2)])
    fix y assume "p r = Some y" "y \<noteq> r"
    then show ?thesis using leads_root(1) by simp
  qed simp
next
  case (leads_step x y r)
  show ?case
  proof (rule leadsE [OF leads_step.prems])
    assume "s = x" "p x = Some x"
    then show ?thesis using leads_step.hyps(1,2) by simp
  next
    fix y' assume "p x = Some y'" "leads p y' s"
    then show ?thesis using leads_step.hyps(1) leads_step.IH by simp
  qed
qed

lemma leads_stepD:
  assumes "leads p x r" and "p x = Some y" and "y \<noteq> x"
  shows "leads p y r"
proof (rule leadsE [OF assms(1)])
  assume "p x = Some x"
  then show ?thesis using assms(2,3) by simp
next
  fix y' assume "p x = Some y'" "leads p y' r"
  then show ?thesis using assms(2) by simp
qed

lemma leads_le:
  assumes "uf_ok p" and "leads p x r"
  shows "Rank r \<le> Rank x \<and> p r = Some r \<and> x \<in> dom p"
  using assms(2)
proof (induction rule: leads.induct)
  case (leads_step x y r)
  then show ?case using uf_parent [OF assms(1) leads_step(1)] by (auto intro: order_trans)
qed auto

text \<open>The representative of a node.\<close>

definition rep :: "(int \<rightharpoonup> int) \<Rightarrow> int \<Rightarrow> int" where
  "rep p x = (THE r. leads p x r)"

lemma rep_eq: "leads p x r \<Longrightarrow> rep p x = r"
  unfolding rep_def by (blast intro: leads_fun)

lemma leads_rep: "uf_ok p \<Longrightarrow> x \<in> dom p \<Longrightarrow> leads p x (rep p x)"
  using leads_total rep_eq by metis

text \<open>A change that maps every chain of \<open>p\<close> to a chain of \<open>q\<close> determines the representatives.\<close>

lemma halve_leads:
  assumes ok: "uf_ok p" and x: "p x = Some y" "y \<noteq> x" and y: "p y = Some g"
  shows "leads p z r \<Longrightarrow> leads (p(x \<mapsto> g)) z r"
proof (induction rule: leads.induct)
  case (leads_root r)
  then have "r \<noteq> x" using x by auto
  then show ?case using leads_root by (intro leads.leads_root) simp
next
  case (leads_step z w r)
  have lt: "Rank y < Rank x" using uf_parent(2) [OF ok x(1)] x(2) by simp
  have gx: "g \<noteq> x"
  proof
    assume "g = x"
    then have "Rank x < Rank y" using uf_parent(2) [OF ok y] x(2) by blast
    then show False using lt by simp
  qed
  show ?case
  proof (cases "z = x")
    case False
    show ?thesis by (rule leads.leads_step [of _ _ w]) (use leads_step False in simp_all)
  next
    case True
    then have w: "w = y" using leads_step x by simp
    have "leads (p(x \<mapsto> g)) g r"
    proof (cases "g = y")
      case True
      show ?thesis using leads_step.IH unfolding w True .
    next
      case False
      have "(p(x \<mapsto> g)) y = Some g" using y x(2) by simp
      then show ?thesis using leads_stepD [OF leads_step(4) [unfolded w]] False by blast
    qed
    then show ?thesis unfolding True by (intro leads.leads_step [of _ _ g, OF _ gx]) (rule fun_upd_same)
  qed
qed

lemma halve_ok:
  assumes ok: "uf_ok p" and x: "p x = Some y" "y \<noteq> x" and y: "p y = Some g"
  shows "uf_ok (p(x \<mapsto> g))" and "dom (p(x \<mapsto> g)) = dom p"
    and "z \<in> dom p \<Longrightarrow> rep (p(x \<mapsto> g)) z = rep p z"
proof -
  have "Rank g \<le> Rank x"
    using ok x y unfolding uf_ok_def by (meson order_trans)
  moreover have "g \<in> dom p" using uf_parent(1) [OF ok y] .
  moreover have d: "dom (p(x \<mapsto> g)) = dom p" using x by auto
  ultimately show "uf_ok (p(x \<mapsto> g))" using ok unfolding uf_ok_def d by auto
  show "dom (p(x \<mapsto> g)) = dom p" by (rule d)
  show "z \<in> dom p \<Longrightarrow> rep (p(x \<mapsto> g)) z = rep p z"
    using halve_leads [OF assms leads_rep [OF ok]] by (rule rep_eq)
qed


section \<open>Find and union\<close>

text \<open>
  \<open>find\<close> returns on every parent map in order, with the representative of the node, and
  halving changes no representative.
\<close>

lemma uf_find_ok:
  assumes "uf_ok (map_of parent)" and "x \<in> dom (map_of parent)"
  shows "\<exists>parent'. uf_find parent x = Some (rep (map_of parent) x, parent')
     \<and> uf_ok (map_of parent') \<and> dom (map_of parent') = dom (map_of parent)
     \<and> (\<forall>z \<in> dom (map_of parent). rep (map_of parent') z = rep (map_of parent) z)"
  using assms
proof (induction "card {z \<in> dom (map_of parent). Rank z < Rank x}" arbitrary: parent x
    rule: less_induct)
  case less
  let ?p = "map_of parent"
  note ok = less.prems(1)
  obtain y where y: "?p x = Some y" using less.prems(2) by auto
  show ?case
  proof (cases "y = x")
    case True
    have "rep ?p x = x" by (rule rep_eq [OF leads_root]) (use y True in simp)
    then show ?thesis using y True ok by (subst uf_find.simps) simp
  next
    case False
    have y_in: "y \<in> dom ?p" and lt: "Rank y < Rank x" using uf_parent [OF ok y] False by auto
    then obtain g where g: "?p y = Some g" by auto
    define parent1 where "parent1 = AList.update x g parent"
    have p1: "map_of parent1 = ?p(x \<mapsto> g)" by (simp add: parent1_def update_conv')
    note h = halve_ok [OF ok y False g, folded p1]
    have g_le: "Rank g \<le> Rank y"
      using uf_parent(2) [OF ok g] by (cases "g = y") auto
    have g_lt: "Rank g < Rank x" using g_le lt by simp
    have g_in: "g \<in> dom ?p" by (rule uf_parent(1) [OF ok g])
    have "card {z \<in> dom (map_of parent1). Rank z < Rank g} < card {z \<in> dom ?p. Rank z < Rank x}"
      unfolding h(2) by (rule better_smaller [OF ok g_in g_lt])
    moreover have "g \<in> dom (map_of parent1)" unfolding h(2) by (rule g_in)
    ultimately obtain parent' where ih: "uf_find parent1 g = Some (rep (map_of parent1) g, parent')"
        "uf_ok (map_of parent')" "dom (map_of parent') = dom (map_of parent1)"
        "\<forall>z \<in> dom (map_of parent1). rep (map_of parent') z = rep (map_of parent1) z"
      using less.hyps h(1) by blast
    have "leads ?p x (rep ?p x)" by (rule leads_rep [OF ok less.prems(2)])
    then have "leads ?p y (rep ?p x)" using leads_stepD y False by blast
    then have "rep ?p y = rep ?p x" by (rule rep_eq)
    moreover have "rep ?p g = rep ?p y"
    proof (cases "g = y")
      case False
      have "leads ?p g (rep ?p y)"
        using leads_stepD [OF leads_rep [OF ok y_in] g False] .
      then show ?thesis by (rule rep_eq)
    qed simp
    ultimately have "rep (map_of parent1) g = rep ?p x" using h(3) [OF g_in] by simp
    moreover have "uf_find parent x = uf_find parent1 g"
      using y False g by (subst uf_find.simps) (simp add: parent1_def)
    ultimately show ?thesis using ih h(2,3) by simp
  qed
qed

lemma link_roots:
  assumes ok: "uf_ok p" and w: "p w = Some w" and l: "p l = Some l" and wl: "Rank w < Rank l"
  shows "uf_ok (p(l \<mapsto> w))" and "dom (p(l \<mapsto> w)) = dom p"
    and "z \<in> dom p \<Longrightarrow> rep (p(l \<mapsto> w)) z = (if rep p z = l then w else rep p z)"
proof -
  have d: "dom (p(l \<mapsto> w)) = dom p" using l by auto
  show "dom (p(l \<mapsto> w)) = dom p" by (rule d)
  have "w \<in> dom p" using w by auto
  then show "uf_ok (p(l \<mapsto> w))" using ok wl unfolding uf_ok_def d by auto
  have "leads (p(l \<mapsto> w)) z (if r = l then w else r)" if "leads p z r" for z r
    using that
  proof (induction rule: leads.induct)
    case (leads_root r)
    have nw: "w \<noteq> l" using wl by auto
    then have ww: "leads (p(l \<mapsto> w)) w w" using w by (intro leads.leads_root) simp
    show ?case
    proof (cases "r = l")
      case True
      have "leads (p(l \<mapsto> w)) l w" by (rule leads.leads_step [of _ _ w]) (use nw ww in auto)
      then show ?thesis by (simp only: True if_True simp_thms)
    next
      case False
      then show ?thesis using leads_root by (simp add: leads.leads_root)
    qed
  next
    case (leads_step x y r)
    then have "x \<noteq> l" using l by auto
    show ?case by (rule leads.leads_step [of _ _ y]) (use leads_step \<open>x \<noteq> l\<close> in auto)
  qed
  then show "z \<in> dom p \<Longrightarrow> rep (p(l \<mapsto> w)) z = (if rep p z = l then w else rep p z)"
    using leads_rep [OF ok] rep_eq by blast
qed

lemma uf_union_ok:
  assumes ok: "uf_ok (map_of parent)" and a: "a \<in> dom (map_of parent)" and b: "b \<in> dom (map_of parent)"
  shows "\<exists>parent'. uf_union parent a b = Some parent'
     \<and> uf_ok (map_of parent') \<and> dom (map_of parent') = dom (map_of parent)
     \<and> rep (map_of parent') a = rep (map_of parent') b
     \<and> (\<forall>z \<in> dom (map_of parent). rep (map_of parent') z =
          (if rep (map_of parent) z \<in> {rep (map_of parent) a, rep (map_of parent) b}
           then rep (map_of parent') a else rep (map_of parent) z))
     \<and> rep (map_of parent') a \<in> {rep (map_of parent) a, rep (map_of parent) b}"
proof -
  let ?p = "map_of parent"
  obtain parent1 where f1: "uf_find parent a = Some (rep ?p a, parent1)" "uf_ok (map_of parent1)"
      "dom (map_of parent1) = dom ?p" "\<forall>z \<in> dom ?p. rep (map_of parent1) z = rep ?p z"
    using uf_find_ok [OF ok a] by blast
  have b1: "b \<in> dom (map_of parent1)" using b f1(3) by simp
  obtain parent2 where f2: "uf_find parent1 b = Some (rep (map_of parent1) b, parent2)"
      "uf_ok (map_of parent2)" "dom (map_of parent2) = dom (map_of parent1)"
      "\<forall>z \<in> dom (map_of parent1). rep (map_of parent2) z = rep (map_of parent1) z"
    using uf_find_ok [OF f1(2) b1] by blast
  let ?q = "map_of parent2"
  have d: "dom ?q = dom ?p" using f1(3) f2(3) by simp
  have r: "rep ?q z = rep ?p z" if "z \<in> dom ?p" for z using f1(3,4) f2(4) that by simp
  have fb: "uf_find parent1 b = Some (rep ?p b, parent2)" using f2(1) f1(4) b by simp
  show ?thesis
  proof (cases "rep ?p a = rep ?p b")
    case True
    then have "uf_union parent a b = Some parent2" using f1(1) fb by (simp add: uf_union_def)
    then show ?thesis using f2(2) d r a b True by auto
  next
    case False
    define w where "w = (if Rank (rep ?p a) \<le> Rank (rep ?p b) then rep ?p a else rep ?p b)"
    define l where "l = (if w = rep ?p a then rep ?p b else rep ?p a)"
    have u: "uf_union parent a b = Some (AList.update l w parent2)"
      using f1(1) fb False by (simp add: uf_union_def preferred_pair w_def l_def Let_def)
    have roots: "?q (rep ?p a) = Some (rep ?p a)" "?q (rep ?p b) = Some (rep ?p b)"
      using leads_le [OF f2(2) leads_rep [OF f2(2)]] a b d r by metis+
    have "Rank (rep ?p a) < Rank (rep ?p b) \<or> Rank (rep ?p b) < Rank (rep ?p a)"
      using False by (metis catalog_rank.inject linorder_neqE)
    then have wl: "Rank w < Rank l" using False by (auto simp: w_def l_def)
    have qw: "?q w = Some w" "?q l = Some l" using roots by (auto simp: w_def l_def)
    note k = link_roots [OF f2(2) qw wl]
    have m: "map_of (AList.update l w parent2) = ?q(l \<mapsto> w)" by (simp add: update_conv')
    have rz: "rep (?q(l \<mapsto> w)) z = (if rep ?p z = l then w else rep ?p z)" if "z \<in> dom ?p" for z
      using k(3) [of z] that d r by simp
    have wl2: "{rep ?p a, rep ?p b} = {w, l}" by (auto simp: w_def l_def)
    have ra: "rep (?q(l \<mapsto> w)) a = w" using rz [OF a] wl2 by (auto split: if_splits)
    have rb: "rep (?q(l \<mapsto> w)) b = w" using rz [OF b] wl2 by (auto split: if_splits)
    show ?thesis
      unfolding u using k(1,2) d rz ra rb wl2 by (auto simp: m)
  qed
qed


section \<open>Linking the records\<close>

text \<open>The integer external ids of a record, and what it means to be the same title.\<close>

definition record_pairs :: "AnimeRecord \<Rightarrow> (string \<times> int) set" where
  "record_pairs r = {(k, v). \<exists>val. (k, val) \<in> set (ar_external_ids r) \<and> py_int val = Some v}"

definition int_external_ids :: "AnimeRecord \<Rightarrow> bool" where
  "int_external_ids r \<longleftrightarrow> (\<forall>(k, val) \<in> set (ar_external_ids r). py_int val \<noteq> None)"

definition edges :: "AnimeRecord list \<Rightarrow> (int \<times> (string \<times> int)) set" where
  "edges records = {(i, pr). \<exists>r \<in> set records. ar_id r = i \<and> pr \<in> record_pairs r}"

definition share :: "(int \<times> (string \<times> int)) set \<Rightarrow> int \<Rightarrow> int \<Rightarrow> bool" where
  "share E i j \<longleftrightarrow> (\<exists>pr. (i, pr) \<in> E \<and> (j, pr) \<in> E)"

definition same_title :: "AnimeRecord list \<Rightarrow> int \<Rightarrow> int \<Rightarrow> bool" where
  "same_title records = (share (edges records))\<^sup>*\<^sup>*"

lemma share_sym: "(share E)\<^sup>*\<^sup>* i j \<Longrightarrow> (share E)\<^sup>*\<^sup>* j i"
proof (induction rule: rtranclp_induct)
  case (step j k)
  then have "share E k j" by (auto simp: share_def)
  then show ?case using step(3) by (rule converse_rtranclp_into_rtranclp)
qed simp

lemma share_mono: "(share E)\<^sup>*\<^sup>* i j \<Longrightarrow> E \<subseteq> E' \<Longrightarrow> (share E')\<^sup>*\<^sup>* i j"
proof (induction rule: rtranclp_induct)
  case (step j k)
  then have "share E' j k" by (auto simp: share_def)
  then show ?case using step by (auto intro: rtranclp.rtrancl_into_rtrancl)
qed simp

definition linked :: "(int \<times> (string \<times> int)) set \<Rightarrow> int set \<Rightarrow> parents \<Rightarrow> ext_index \<Rightarrow> bool" where
  "linked E ids parent ext \<longleftrightarrow>
     uf_ok (map_of parent) \<and> dom (map_of parent) = ids \<and> fst ` E \<subseteq> ids
     \<and> (\<forall>(i, pr) \<in> E. \<exists>j. map_of ext pr = Some j \<and> rep (map_of parent) i = rep (map_of parent) j)
     \<and> (\<forall>pr j. map_of ext pr = Some j \<longrightarrow> (j, pr) \<in> E)
     \<and> (\<forall>z \<in> ids. (share E)\<^sup>*\<^sup>* z (rep (map_of parent) z))"

lemma linkedD:
  assumes "linked E ids parent ext"
  shows "uf_ok (map_of parent)" and "dom (map_of parent) = ids" and "fst ` E \<subseteq> ids"
    and "(i, pr) \<in> E \<Longrightarrow> \<exists>j. map_of ext pr = Some j \<and> rep (map_of parent) i = rep (map_of parent) j"
    and "map_of ext pr = Some j \<Longrightarrow> (j, pr) \<in> E"
    and "z \<in> ids \<Longrightarrow> (share E)\<^sup>*\<^sup>* z (rep (map_of parent) z)"
proof -
  note u = assms [unfolded linked_def]
  note u2 = u [THEN conjunct2]
  note u3 = u2 [THEN conjunct2]
  note u4 = u3 [THEN conjunct2]
  note u5 = u4 [THEN conjunct2]
  show "uf_ok (map_of parent)" by (rule u [THEN conjunct1])
  show "dom (map_of parent) = ids" by (rule u2 [THEN conjunct1])
  show "fst ` E \<subseteq> ids" by (rule u3 [THEN conjunct1])
  show "(i, pr) \<in> E \<Longrightarrow> \<exists>j. map_of ext pr = Some j \<and> rep (map_of parent) i = rep (map_of parent) j"
    using bspec [OF u4 [THEN conjunct1], of "(i, pr)"] by simp
  show "map_of ext pr = Some j \<Longrightarrow> (j, pr) \<in> E"
    by (rule u5 [THEN conjunct1, rule_format])
  show "z \<in> ids \<Longrightarrow> (share E)\<^sup>*\<^sup>* z (rep (map_of parent) z)"
    by (rule u5 [THEN conjunct2, rule_format])
qed

lemma linked_new:
  assumes l: "linked E ids parent ext" and i: "i \<in> ids" and none: "map_of ext pr = None"
  shows "linked (insert (i, pr) E) ids parent (AList.update pr i ext)"
  unfolding linked_def
proof (intro conjI)
  show "\<forall>(j, q) \<in> insert (i, pr) E. \<exists>k. map_of (AList.update pr i ext) q = Some k \<and>
      rep (map_of parent) j = rep (map_of parent) k"
  proof (clarify)
    fix j k v assume "(j, k, v) \<in> insert (i, pr) E"
    then consider "(j, k, v) = (i, pr)" | "(j, k, v) \<in> E" by blast
    then show "\<exists>m. map_of (AList.update pr i ext) (k, v) = Some m \<and>
        rep (map_of parent) j = rep (map_of parent) m"
    proof cases
      case 1
      then show ?thesis by (auto simp: update_conv')
    next
      case 2
      then obtain m where m: "map_of ext (k, v) = Some m" "rep (map_of parent) j = rep (map_of parent) m"
        using linkedD(4) [OF l] by blast
      then have "(k, v) \<noteq> pr" using none by auto
      then show ?thesis using m by (simp add: update_conv')
    qed
  qed
  show "\<forall>q j. map_of (AList.update pr i ext) q = Some j \<longrightarrow> (j, q) \<in> insert (i, pr) E"
    using linkedD(5) [OF l] by (auto simp: update_conv')
  show "\<forall>z \<in> ids. (share (insert (i, pr) E))\<^sup>*\<^sup>* z (rep (map_of parent) z)"
    using share_mono [OF linkedD(6) [OF l], of _ "insert (i, pr) E"] by blast
  show "fst ` insert (i, pr) E \<subseteq> ids" using linkedD(3) [OF l] i by simp
qed (rule linkedD [OF l])+

lemma linked_union:
  assumes l: "linked E ids parent ext" and i: "i \<in> ids" and j: "map_of ext pr = Some j"
  shows "\<exists>parent'. uf_union parent i j = Some parent' \<and> linked (insert (i, pr) E) ids parent' ext"
proof -
  let ?p = "map_of parent" and ?E = "insert (i, pr) E"
  note ok = linkedD(1) [OF l] and d = linkedD(2) [OF l]
  have jE: "(j, pr) \<in> E" by (rule linkedD(5) [OF l j])
  have j_in: "j \<in> ids" using jE linkedD(3) [OF l] by force
  obtain parent' where u: "uf_union parent i j = Some parent'" "uf_ok (map_of parent')"
      "dom (map_of parent') = dom ?p" "rep (map_of parent') i = rep (map_of parent') j"
    and r: "\<forall>z \<in> dom ?p. rep (map_of parent') z =
          (if rep ?p z \<in> {rep ?p i, rep ?p j} then rep (map_of parent') i else rep ?p z)"
    and c: "rep (map_of parent') i \<in> {rep ?p i, rep ?p j}"
    using uf_union_ok [OF ok, of i j] i j_in d by blast
  let ?q = "map_of parent'"
  have pres: "rep ?q a = rep ?q b" if "a \<in> ids" "b \<in> ids" "rep ?p a = rep ?p b" for a b
    using r that d by simp
  have old: "(share ?E)\<^sup>*\<^sup>* z (rep ?p z)" if "z \<in> ids" for z
    using share_mono [OF linkedD(6) [OF l that], of ?E] by blast
  have "share ?E i j" unfolding share_def using jE by blast
  then have ij: "(share ?E)\<^sup>*\<^sup>* i j" by blast
  have ri: "(share ?E)\<^sup>*\<^sup>* (rep ?p i) (rep ?p j)"
    by (rule rtranclp_trans [OF share_sym [OF old [OF i]] rtranclp_trans [OF ij old [OF j_in]]])
  have both: "(share ?E)\<^sup>*\<^sup>* a b" if "a \<in> {rep ?p i, rep ?p j}" "b \<in> {rep ?p i, rep ?p j}" for a b
    using that ri share_sym [OF ri] by auto
  have "linked ?E ids parent' ext"
    unfolding linked_def
  proof (intro conjI)
    show "uf_ok ?q" "dom ?q = ids" using u d by simp_all
    show "fst ` ?E \<subseteq> ids" using linkedD(3) [OF l] i by simp
    show "\<forall>q k. map_of ext q = Some k \<longrightarrow> (k, q) \<in> ?E" using linkedD(5) [OF l] by blast
    show "\<forall>(a, q) \<in> ?E. \<exists>k. map_of ext q = Some k \<and> rep ?q a = rep ?q k"
    proof (clarify)
      fix a k v assume "(a, k, v) \<in> ?E"
      then consider "(a, k, v) = (i, pr)" | "(a, k, v) \<in> E" by blast
      then show "\<exists>m. map_of ext (k, v) = Some m \<and> rep ?q a = rep ?q m"
      proof cases
        case 1
        then show ?thesis using j u(4) by auto
      next
        case 2
        then obtain m where m: "map_of ext (k, v) = Some m" "rep ?p a = rep ?p m"
          using linkedD(4) [OF l] by blast
        have "(m, (k, v)) \<in> E" by (rule linkedD(5) [OF l m(1)])
        then have "a \<in> ids" "m \<in> ids" using 2 linkedD(3) [OF l] by force+
        then show ?thesis using pres m by blast
      qed
    qed
    show "\<forall>z \<in> ids. (share ?E)\<^sup>*\<^sup>* z (rep ?q z)"
    proof
      fix z assume z: "z \<in> ids"
      show "(share ?E)\<^sup>*\<^sup>* z (rep ?q z)"
      proof (cases "rep ?p z \<in> {rep ?p i, rep ?p j}")
        case True
        then have e: "rep ?q z = rep ?q i" using r z d by simp
        show ?thesis unfolding e by (rule rtranclp_trans [OF old [OF z] both [OF True c]])
      next
        case False
        then have "rep ?q z = rep ?p z" using r z d by auto
        then show ?thesis using old [OF z] by simp
      qed
    qed
  qed
  then show ?thesis using u(1) by blast
qed

lemma link_items_ok:
  assumes "linked E ids parent ext" and "rid \<in> ids"
    and "\<forall>(k, val) \<in> set items. py_int val \<noteq> None"
  shows "\<exists>parent' ext'. link_items rid items parent ext = Some (Inr (parent', ext'))
     \<and> linked (E \<union> {(rid, (k, v)) | k v. \<exists>val. (k, val) \<in> set items \<and> py_int val = Some v})
          ids parent' ext'"
  using assms(1,3)
proof (induction items arbitrary: E parent ext)
  case Nil
  then show ?case by simp
next
  case (Cons it items)
  obtain k val where it: "it = (k, val)" by (cases it)
  obtain v where v: "py_int val = Some v" using Cons.prems(2) it by auto
  have rest: "\<forall>(k, val) \<in> set items. py_int val \<noteq> None" using Cons.prems(2) by simp
  let ?E = "insert (rid, (k, v)) E"
  let ?S = "{(rid, (k, v)) | k v. \<exists>val. (k, val) \<in> set items \<and> py_int val = Some v}"
  have S: "E \<union> {(rid, (k, v)) | k v. \<exists>val. (k, val) \<in> set (it # items) \<and> py_int val = Some v} = ?E \<union> ?S"
    using v by (auto simp: it)
  show ?case
  proof (cases "map_of ext (k, v)")
    case None
    have "linked ?E ids parent (AList.update (k, v) rid ext)"
      by (rule linked_new [OF Cons.prems(1) assms(2) None])
    from Cons.IH [OF this rest] show ?thesis unfolding S using None v it by simp
  next
    case (Some j)
    obtain parent' where u: "uf_union parent rid j = Some parent'" "linked ?E ids parent' ext"
      using linked_union [OF Cons.prems(1) assms(2) Some] by blast
    from Cons.IH [OF u(2) rest] show ?thesis unfolding S using Some v it u(1) by simp
  qed
qed

lemma link_records_ok:
  assumes "linked E ids parent ext" and "ar_id ` set rs \<subseteq> ids" and "\<forall>r \<in> set rs. int_external_ids r"
  shows "\<exists>parent' ext'. link_records rs parent ext = Some (Inr (parent', ext'))
     \<and> linked (E \<union> edges rs) ids parent' ext'"
  using assms
proof (induction rs arbitrary: E parent ext)
  case Nil
  then show ?case by (simp add: edges_def)
next
  case (Cons r rs)
  have 1: "ar_id r \<in> ids" "\<forall>(k, val) \<in> set (ar_external_ids r). py_int val \<noteq> None"
    using Cons.prems(2,3) by (simp_all add: int_external_ids_def)
  let ?S = "{(ar_id r, (k, v)) | k v. \<exists>val. (k, val) \<in> set (ar_external_ids r) \<and> py_int val = Some v}"
  obtain parent1 ext1 where l: "link_items (ar_id r) (ar_external_ids r) parent ext = Some (Inr (parent1, ext1))"
      "linked (E \<union> ?S) ids parent1 ext1"
    using link_items_ok [OF Cons.prems(1) 1] by blast
  have S: "(E \<union> ?S) \<union> edges rs = E \<union> edges (r # rs)"
    unfolding edges_def record_pairs_def by auto
  have "ar_id ` set rs \<subseteq> ids" "\<forall>r \<in> set rs. int_external_ids r" using Cons.prems by simp_all
  from Cons.IH [OF l(2) this] show ?case unfolding S using l(1) by simp
qed


section \<open>The winners\<close>

text \<open>
  After the records \<open>done\<close>: one winner per representative met, carrying the data of the last
  record of its class.
\<close>

definition winners_of :: "(int \<Rightarrow> int) \<Rightarrow> AnimeRecord list \<Rightarrow> (int \<times> AnimeRecord) list \<Rightarrow> int list \<Rightarrow> bool"
  where
  "winners_of f seen winners order \<longleftrightarrow>
     distinct order \<and> set order = f ` ar_id ` set seen
     \<and> dom (map_of winners) = set order
     \<and> (\<forall>rt \<in> set order. map_of winners rt =
          Some ((last (filter (\<lambda>r. f (ar_id r) = rt) seen))\<lparr>ar_id := rt\<rparr>))"

lemma winners_step:
  assumes w: "winners_of f seen winners order"
  shows "winners_of f (seen @ [r]) (AList.update (f (ar_id r)) (r\<lparr>ar_id := f (ar_id r)\<rparr>) winners)
     (if f (ar_id r) \<in> set order then order else order @ [f (ar_id r)])"
proof -
  let ?rt = "f (ar_id r)"
  have d: "distinct order" and o: "set order = f ` ar_id ` set seen" and dm: "dom (map_of winners) = set order"
    and m: "\<And>rt. rt \<in> set order \<Longrightarrow> map_of winners rt =
          Some ((last (filter (\<lambda>r. f (ar_id r) = rt) seen))\<lparr>ar_id := rt\<rparr>)"
    using w unfolding winners_of_def by blast+
  have dm': "dom (map_of (AList.update ?rt (r\<lparr>ar_id := ?rt\<rparr>) winners)) = insert ?rt (set order)"
    using dm by (simp add: update_conv')
  have last1: "last (filter (\<lambda>r. f (ar_id r) = ?rt) (seen @ [r])) = r" by simp
  have last2: "filter (\<lambda>r. f (ar_id r) = rt) (seen @ [r]) = filter (\<lambda>r. f (ar_id r) = rt) seen"
    if "rt \<noteq> ?rt" for rt using that by simp
  have all: "map_of (AList.update ?rt (r\<lparr>ar_id := ?rt\<rparr>) winners) rt =
      Some ((last (filter (\<lambda>r. f (ar_id r) = rt) (seen @ [r])))\<lparr>ar_id := rt\<rparr>)"
    if "rt \<in> insert ?rt (set order)" for rt
  proof (cases "rt = ?rt")
    case True
    then show ?thesis using last1 by (simp add: update_conv')
  next
    case False
    then show ?thesis using that m [of rt] last2 [OF False] by (simp add: update_conv')
  qed
  show ?thesis
    unfolding winners_of_def using d o dm' all by auto
qed

lemma pick_winners_ok:
  assumes "uf_ok (map_of parent)" and "ar_id ` set rs \<subseteq> dom (map_of parent)"
    and "\<And>z. z \<in> dom (map_of parent) \<Longrightarrow> rep (map_of parent) z = f z"
    and "winners_of f seen winners order"
  shows "\<exists>winners' order'. pick_winners rs parent winners order = Some (winners', order')
     \<and> winners_of f (seen @ rs) winners' order'"
  using assms
proof (induction rs arbitrary: parent winners order seen)
  case Nil
  then show ?case by simp
next
  case (Cons r rs)
  have r_in: "ar_id r \<in> dom (map_of parent)" using Cons.prems(2) by simp
  obtain parent' where u: "uf_find parent (ar_id r) = Some (rep (map_of parent) (ar_id r), parent')"
      "uf_ok (map_of parent')" "dom (map_of parent') = dom (map_of parent)"
      "\<forall>z \<in> dom (map_of parent). rep (map_of parent') z = rep (map_of parent) z"
    using uf_find_ok [OF Cons.prems(1) r_in] by blast
  let ?rt = "f (ar_id r)"
  have fnd: "uf_find parent (ar_id r) = Some (?rt, parent')" using u(1) Cons.prems(3) [OF r_in] by simp
  have cand: "(if ar_id r = ?rt then r else r\<lparr>ar_id := ?rt\<rparr>) = r\<lparr>ar_id := ?rt\<rparr>" by (cases r) auto
  have chosen: "(case map_of winners ?rt of None \<Rightarrow> r\<lparr>ar_id := ?rt\<rparr>
        | Some existing \<Rightarrow>
           (case preferred_catalog_id [ar_id existing, ar_id (r\<lparr>ar_id := ?rt\<rparr>)] of
              Inl e \<Rightarrow> existing
            | Inr keep_id \<Rightarrow> if ar_id (r\<lparr>ar_id := ?rt\<rparr>) = keep_id then r\<lparr>ar_id := ?rt\<rparr> else existing))
      = r\<lparr>ar_id := ?rt\<rparr>"
  proof (cases "map_of winners ?rt")
    case (Some w)
    then have "?rt \<in> set order" using Cons.prems(4) unfolding winners_of_def by blast
    then have "ar_id w = ?rt" using Cons.prems(4) Some unfolding winners_of_def by auto
    then show ?thesis using Some by (simp add: preferred_pair)
  qed simp
  have step: "winners_of f (seen @ [r]) (AList.update ?rt (r\<lparr>ar_id := ?rt\<rparr>) winners)
     (if ?rt \<in> set order then order else order @ [?rt])"
    by (rule winners_step [OF Cons.prems(4)])
  have sub: "ar_id ` set rs \<subseteq> dom (map_of parent')" using Cons.prems(2) u(3) by auto
  have f': "rep (map_of parent') z = f z" if "z \<in> dom (map_of parent')" for z
    using that u(3,4) Cons.prems(3) by simp
  obtain winners' order' where "pick_winners rs parent' (AList.update ?rt (r\<lparr>ar_id := ?rt\<rparr>) winners)
      (if ?rt \<in> set order then order else order @ [?rt]) = Some (winners', order')"
      "winners_of f ((seen @ [r]) @ rs) winners' order'"
    using Cons.IH [OF u(2) sub f' step] by blast
  then show ?case
    unfolding pick_winners.simps fnd option.case prod.case Let_def cand chosen by simp
qed

lemma initial_linked:
  "linked {} (ar_id ` set rs) (map (\<lambda>r. (ar_id r, ar_id r)) rs) []"
proof -
  let ?p = "map_of (map (\<lambda>r. (ar_id r, ar_id r)) rs)"
  have p: "?p i = (if i \<in> ar_id ` set rs then Some i else None)" for i
    by (induction rs) auto
  have d: "dom ?p = ar_id ` set rs" by (auto simp: p dom_def split: if_splits)
  have "rep ?p z = z" if "z \<in> ar_id ` set rs" for z
    by (rule rep_eq [OF leads_root]) (simp only: p that if_True)
  moreover have "uf_ok ?p" unfolding uf_ok_def d by (auto simp: p split: if_splits)
  ultimately show ?thesis unfolding linked_def d by simp
qed

text \<open>The classes of the records: their representatives are the preferred ids.\<close>

lemma linked_classes:
  assumes l: "linked (edges rs) (ar_id ` set rs) parent ext"
    and i: "i \<in> ar_id ` set rs"
  shows "same_title rs i j \<Longrightarrow> rep (map_of parent) j = rep (map_of parent) i"
    and "same_title rs i (rep (map_of parent) i)"
    and "same_title rs i j \<Longrightarrow> j \<in> ar_id ` set rs"
    and "same_title rs i j \<Longrightarrow> Rank (rep (map_of parent) i) \<le> Rank j"
proof -
  have e_ids: "a \<in> ar_id ` set rs" if "(a, pr) \<in> edges rs" for a pr
    using that by (auto simp: edges_def)
  show mem: "same_title rs i j \<Longrightarrow> j \<in> ar_id ` set rs" for j
    unfolding same_title_def
    by (induction rule: rtranclp_induct) (use i e_ids in \<open>auto simp: share_def\<close>)
  show same: "same_title rs i j \<Longrightarrow> rep (map_of parent) j = rep (map_of parent) i" for j
    unfolding same_title_def
  proof (induction rule: rtranclp_induct)
    case (step j k)
    then obtain pr where "(j, pr) \<in> edges rs" "(k, pr) \<in> edges rs" by (auto simp: share_def)
    then have "rep (map_of parent) j = rep (map_of parent) k"
      using linkedD(4) [OF l] by (metis option.inject)
    then show ?case using step by simp
  qed simp
  show "same_title rs i (rep (map_of parent) i)"
    using linkedD(6) [OF l i] by (simp add: same_title_def)
  show "same_title rs i j \<Longrightarrow> Rank (rep (map_of parent) i) \<le> Rank j"
  proof -
    assume a: "same_title rs i j"
    have "j \<in> dom (map_of parent)" using mem [OF a] linkedD(2) [OF l] by simp
    then have "Rank (rep (map_of parent) j) \<le> Rank j"
      using leads_le [OF linkedD(1) [OF l] leads_rep [OF linkedD(1) [OF l]]] by blast
    then show ?thesis using same [OF a] by simp
  qed
qed


lemma deduplicate_ids:
  "ar_id ` set (deduplicate records) = ar_id ` set records"
  "distinct (map ar_id (deduplicate records))"
  "set (deduplicate records) \<subseteq> set records"
  using record_dedupe.keys_go [of "[]"] record_dedupe.distinct_go record_dedupe.set_go
  by (simp_all add: deduplicate_def)

lemma deduplicate_records_run:
  assumes ints: "\<forall>r \<in> set records. int_external_ids r"
    and many: "\<not> length (deduplicate records) \<le> 1"
  obtains parent ext winners order where
    "linked (edges (deduplicate records)) (ar_id ` set (deduplicate records)) parent ext"
    and "winners_of (rep (map_of parent)) (deduplicate records) winners order"
    and "deduplicate_records records = Some (Inr (map (\<lambda>rt. the (map_of winners rt)) order))"
proof -
  let ?rs = "deduplicate records"
  have ints': "\<forall>r \<in> set ?rs. int_external_ids r" using ints deduplicate_ids(3) by blast
  obtain parent ext where
    l: "link_records ?rs (map (\<lambda>r. (ar_id r, ar_id r)) ?rs) [] = Some (Inr (parent, ext))"
       "linked (edges ?rs) (ar_id ` set ?rs) parent ext"
    using link_records_ok [OF initial_linked [of ?rs] order_refl ints'] by auto
  have w0: "winners_of (rep (map_of parent)) [] [] []" by (simp add: winners_of_def)
  have sub: "ar_id ` set ?rs \<subseteq> dom (map_of parent)" using linkedD(2) [OF l(2)] by simp
  obtain winners order where
    w: "pick_winners ?rs parent [] [] = Some (winners, order)"
       "winners_of (rep (map_of parent)) ([] @ ?rs) winners order"
    using pick_winners_ok [OF linkedD(1) [OF l(2)] sub refl w0] by blast
  have "deduplicate_records records = Some (Inr (map (\<lambda>rt. the (map_of winners rt)) order))"
    unfolding deduplicate_records_def Let_def using many by (simp add: l(1) w(1))
  then show ?thesis using that l(2) w(2) by simp
qed

section \<open>Properties\<close>

text \<open>
  C4. The union-find always returns, and its result is one record per group of records that
  are connected through shared external ids: the ids returned are distinct and are exactly
  the preferred id of each group (the smallest positive id, or the smallest id when the
  group has only provisional ones), and every record is represented.
\<close>

theorem deduplicate_records_one_per_title:
  assumes "\<forall>r \<in> set records. int_external_ids r"
  shows "\<exists>out. deduplicate_records records = Some (Inr out)
     \<and> distinct (map ar_id out)
     \<and> set (map ar_id out) =
         {i \<in> ar_id ` set records. \<forall>j. same_title (deduplicate records) i j \<longrightarrow> Rank i \<le> Rank j}
     \<and> (\<forall>r \<in> set records. \<exists>w \<in> set out. same_title (deduplicate records) (ar_id r) (ar_id w))"
proof -
  let ?rs = "deduplicate records"
  note ids = deduplicate_ids(1) [of records]
  obtain parent ext where l: "linked (edges ?rs) (ar_id ` set ?rs) parent ext"
    using link_records_ok [OF initial_linked [of ?rs] order_refl] assms deduplicate_ids(3) [of records]
    by (metis (no_types, lifting) subsetD sup_bot_left)
  note c = linked_classes [OF l]
  let ?f = "rep (map_of parent)"
  have reps: "?f ` ar_id ` set ?rs =
      {i \<in> ar_id ` set records. \<forall>j. same_title ?rs i j \<longrightarrow> Rank i \<le> Rank j}"
  proof (intro set_eqI iffI)
    fix i assume "i \<in> ?f ` ar_id ` set ?rs"
    then obtain z where z: "z \<in> ar_id ` set ?rs" "i = ?f z" by auto
    have zi: "same_title ?rs z i" using c(2) [OF z(1)] z(2) by simp
    have ii: "i \<in> ar_id ` set ?rs" by (rule c(3) [OF z(1) zi])
    have "?f i = i" using c(1) [OF z(1) zi] z(2) by simp
    then show "i \<in> {i \<in> ar_id ` set records. \<forall>j. same_title ?rs i j \<longrightarrow> Rank i \<le> Rank j}"
      using c(4) [OF ii] ii ids by simp
  next
    fix i assume i: "i \<in> {i \<in> ar_id ` set records. \<forall>j. same_title ?rs i j \<longrightarrow> Rank i \<le> Rank j}"
    then have ii: "i \<in> ar_id ` set ?rs" using ids by simp
    have "same_title ?rs i i" by (simp add: same_title_def)
    then have "Rank (?f i) \<le> Rank i" by (rule c(4) [OF ii])
    moreover have "Rank i \<le> Rank (?f i)" using i c(2) [OF ii] by simp
    ultimately have "?f i = i" by (metis antisym catalog_rank.inject)
    then show "i \<in> ?f ` ar_id ` set ?rs" using ii by force
  qed
  show ?thesis
  proof (cases "length ?rs \<le> 1")
    case True
    have "deduplicate_records records = Some (Inr ?rs)"
      using True by (simp add: deduplicate_records_def Let_def)
    moreover have "?f ` ar_id ` set ?rs = ar_id ` set ?rs"
    proof (cases ?rs)
      case (Cons r rs)
      then have "ar_id ` set ?rs = {ar_id r}" using True by simp
      then show ?thesis using c(2,3) [of "ar_id r"] by auto
    qed simp
    moreover have "\<exists>w \<in> set ?rs. same_title ?rs (ar_id r) (ar_id w)" if "r \<in> set records" for r
    proof -
      have "ar_id r \<in> ar_id ` set ?rs" using that ids by simp
      then obtain w where "w \<in> set ?rs" "ar_id w = ar_id r" by auto
      then show ?thesis by (intro bexI [of _ w]) (simp_all add: same_title_def)
    qed
    ultimately show ?thesis using reps deduplicate_ids(2) [of records] by auto
  next
    case False
    obtain parent2 ext2 winners order where
      l2: "linked (edges ?rs) (ar_id ` set ?rs) parent2 ext2"
      and w: "winners_of (rep (map_of parent2)) ?rs winners order"
      and out: "deduplicate_records records = Some (Inr (map (\<lambda>rt. the (map_of winners rt)) order))"
      by (rule deduplicate_records_run [OF assms False])
    note c2 = linked_classes [OF l2]
    have same: "rep (map_of parent2) z = ?f z" if z: "z \<in> ar_id ` set ?rs" for z
    proof -
      have "Rank (rep (map_of parent2) z) \<le> Rank (?f z)" by (rule c2(4) [OF z c(2) [OF z]])
      moreover have "Rank (?f z) \<le> Rank (rep (map_of parent2) z)" by (rule c(4) [OF z c2(2) [OF z]])
      ultimately show ?thesis by (metis antisym catalog_rank.inject)
    qed
    have o: "distinct order" "set order = ?f ` ar_id ` set ?rs"
      and m: "\<And>rt. rt \<in> set order \<Longrightarrow> ar_id (the (map_of winners rt)) = rt"
      using w same unfolding winners_of_def by (simp_all add: image_comp)
    have mo: "map ar_id (map (\<lambda>rt. the (map_of winners rt)) order) = order"
      using m by (simp add: map_idI)
    have "\<exists>w \<in> set (map (\<lambda>rt. the (map_of winners rt)) order). same_title ?rs (ar_id r) (ar_id w)"
      if "r \<in> set records" for r
    proof -
      have r: "ar_id r \<in> ar_id ` set ?rs" using that ids by simp
      then have "?f (ar_id r) \<in> set order" using o(2) by simp
      then show ?thesis using m c(2) [OF r] by auto
    qed
    then show ?thesis using out mo o reps by metis
  qed
qed

definition dup_record :: "int \<Rightarrow> string \<Rightarrow> pydict \<Rightarrow> AnimeRecord" where
  "dup_record i title ext = \<lparr>ar_id = i, ar_title = title, ar_title_synonyms = [], ar_synopsis = None,
     ar_episodes = None, ar_duration = None, ar_status = None, ar_rating = None,
     ar_date_from = None, ar_date_to = None, ar_picture = None, ar_trailer = None,
     ar_broadcast = None, ar_genres = [], ar_external_ids = ext, ar_source_provider = JIKAN,
     ar_picture_variants = []\<rparr>"

theorem deduplicate_records_one_per_title_witness:
  "\<exists>out. deduplicate_records
       [dup_record (-3) ''A'' [(''mal_id'', PInt 1)], dup_record 7 ''B'' [(''kitsu_id'', PInt 2)],
        dup_record 5 ''C'' [(''mal_id'', PInt 1), (''kitsu_id'', PInt 2)]] = Some (Inr out)
     \<and> distinct (map ar_id out)"
  using deduplicate_records_one_per_title
    [of "[dup_record (-3) ''A'' [(''mal_id'', PInt 1)], dup_record 7 ''B'' [(''kitsu_id'', PInt 2)],
        dup_record 5 ''C'' [(''mal_id'', PInt 1), (''kitsu_id'', PInt 2)]]"]
  by (simp add: dup_record_def int_external_ids_def) blast

text \<open>
  Only the id of the preferred record wins, not its data: of a catalogued record and a
  later provisional one with the same external id, the result has the catalogued id and the
  provisional title.
\<close>

lemma deduplicate_records_keeps_last_data:
  "deduplicate_records
     [dup_record 5 ''Catalogued'' [(''mal_id'', PInt 1)],
      dup_record (-3) ''Provisional'' [(''mal_id'', PInt 1)]] =
   Some (Inr [dup_record 5 ''Provisional'' [(''mal_id'', PInt 1)]])"
  by (simp add: deduplicate_records_def deduplicate_def dup_record_def uf_union_def
      uf_find.simps preferred_catalog_id_def)

end
