(* ===== verification/TorrentNames.thy ===== *)
theory TorrentNames
  imports Values "HOL-Library.Char_ord" "HOL-Library.List_Lexorder" "HOL-Library.Product_Lexorder"
begin

text \<open>
  The names by which downloads are recognised: infohashes (\<open>canonicalize_infohash\<close> of
  \<open>adapters/persistence/models.py\<close>, magnet links, library folders in
  \<open>application/services/download_manager.py\<close>) and the library folder names of
  \<open>shared/utils/folder_names.py\<close>.  Paths are POSIX paths; \<open>realpath\<close> and the walk for video
  files are arguments.
\<close>

section \<open>Base 32 and hexadecimal\<close>

text \<open>Big-endian digits of a number, a fixed count of them.\<close>

fun digits :: "nat \<Rightarrow> nat \<Rightarrow> nat \<Rightarrow> nat list" where
  "digits b 0 n = []"
| "digits b (Suc k) n = digits b k (n div b) @ [n mod b]"

definition from_digits :: "nat \<Rightarrow> nat list \<Rightarrow> nat" where
  "from_digits b ds = foldl (\<lambda>acc d. acc * b + d) 0 ds"

lemma length_digits [simp]: "length (digits b k n) = k"
  by (induction k arbitrary: n) auto

lemma from_digits_digits: "0 < b \<Longrightarrow> from_digits b (digits b k n) = n mod b ^ k"
proof (induction k arbitrary: n)
  case 0
  then show ?case by (simp add: from_digits_def)
next
  case (Suc k)
  have "from_digits b (digits b (Suc k) n) = from_digits b (digits b k (n div b)) * b + n mod b"
    by (simp add: from_digits_def)
  also have "\<dots> = n div b mod b ^ k * b + n mod b" using Suc by simp
  also have "\<dots> = n mod (b * b ^ k)" by (simp add: mod_mult2_eq mult.commute)
  finally show ?case by simp
qed

lemma digits_bound: "0 < b \<Longrightarrow> d \<in> set (digits b k n) \<Longrightarrow> d < b"
  by (induction k arbitrary: n) auto

lemma digits_append: "digits b (j + k) n = digits b j (n div b ^ k) @ digits b k n"
proof (induction k arbitrary: n)
  case (Suc k)
  have "n div b div b ^ k = n div b ^ Suc k" by (simp add: div_mult2_eq)
  then show ?case using Suc [of "n div b"] by simp
qed simp

text \<open>Splitting every byte into two hexadecimal digits is splitting the whole number.\<close>

lemma hex_of_bytes: "concat (map (digits 16 2) (digits 256 k n)) = digits 16 (2 * k) n"
proof (induction k arbitrary: n)
  case (Suc k)
  have "digits 16 (2 * Suc k) n = digits 16 (2 * k) (n div 16 ^ 2) @ digits 16 2 n"
    using digits_append [of 16 "2 * k" 2 n] by (simp add: mult.commute)
  moreover have "digits 16 2 (n mod 256) = digits 16 2 n"
  proof -
    have "n mod 256 div 16 mod 16 = n div 16 mod 16"
      using mod_mult2_eq [of n 16 16] by simp
    moreover have "n mod 256 mod 16 = n mod 16" by (rule mod_mod_cancel) simp
    ultimately show ?thesis by (simp add: numeral_2_eq_2)
  qed
  ultimately show ?case using Suc [of "n div 256"] by simp
qed simp

section \<open>Infohashes\<close>

definition is_hexdigit :: "char \<Rightarrow> bool" where
  "is_hexdigit c =
     (let n = (of_char c :: nat)
      in (48 \<le> n \<and> n \<le> 57) \<or> (65 \<le> n \<and> n \<le> 70) \<or> (97 \<le> n \<and> n \<le> 102))"

text \<open>The value of a base-32 digit after \<open>casefold=True\<close> (letters of either case).\<close>

definition b32_value :: "char \<Rightarrow> nat option" where
  "b32_value c =
     (let n = (of_char c :: nat)
      in if 65 \<le> n \<and> n \<le> 90 then Some (n - 65)
         else if 97 \<le> n \<and> n \<le> 122 then Some (n - 97)
         else if 50 \<le> n \<and> n \<le> 55 then Some (n - 24)
         else None)"

fun all_some :: "'a option list \<Rightarrow> 'a list option" where
  "all_some [] = Some []"
| "all_some (None # xs) = None"
| "all_some (Some x # xs) = map_option (Cons x) (all_some xs)"

text \<open>The full quanta of eight digits, each five bytes; the last one may be short.\<close>

fun b32_quanta :: "nat \<Rightarrow> nat list \<Rightarrow> nat list \<times> nat" where
  "b32_quanta acc [] = ([], acc)"
| "b32_quanta acc (d # ds) =
     (let quantum = take 8 (d # ds); acc' = from_digits 32 quantum;
          (bytes, last_acc) = b32_quanta acc' (drop 7 ds)
      in (digits 256 5 acc' @ bytes, last_acc))"

definition rstrip_char :: "char \<Rightarrow> string \<Rightarrow> string" where
  "rstrip_char c s = rev (dropWhile (\<lambda>x. x = c) (rev s))"

text \<open>\<open>base64.b32decode(s, casefold=True)\<close> on ASCII text; \<open>None\<close> is \<open>binascii.Error\<close>.\<close>

definition b32decode :: "string \<Rightarrow> nat list option" where
  "b32decode s =
     (if length s mod 8 \<noteq> 0 then None
      else let t = rstrip_char CHR ''='' s; padchars = length s - length t
           in case all_some (map b32_value t) of
                None \<Rightarrow> None
              | Some ds \<Rightarrow>
                  let (decoded, acc) = b32_quanta 0 ds
                  in if padchars \<notin> {0, 1, 3, 4, 6} then None
                     else if padchars \<noteq> 0 \<and> decoded \<noteq> []
                     then let last_bytes = digits 256 5 (acc * 32 ^ padchars);
                              leftover = (43 - 5 * padchars) div 8
                          in Some (take (length decoded - 5) decoded @ take leftover last_bytes)
                     else Some decoded)"

definition hexlify :: "nat list \<Rightarrow> string" where
  "hexlify bytes = map hex_digit (concat (map (digits 16 2) bytes))"

definition is_ascii :: "string \<Rightarrow> bool" where
  "is_ascii s = list_all (\<lambda>c. (of_char c :: nat) < 128) s"

definition canonicalize_infohash :: "string option \<Rightarrow> string option" where
  "canonicalize_infohash value =
     (let text = py_lower (py_strip (or_empty value))
      in if text = [] then None
         else if list_all is_hexdigit text then Some text
         else if \<not> is_ascii text then Some text
         else case b32decode text of
                None \<Rightarrow> Some text
              | Some raw \<Rightarrow> if raw = [] then Some text else Some (hexlify raw))"

text \<open>
  \<open>_INFOHASH_RE\<close>: the first position where \<open>xt=urn:btih:\<close> stands, in any case, before at least
  one letter or digit; the group is the longest run of letters and digits there.
\<close>

definition ascii_alnum :: "char \<Rightarrow> bool" where
  "ascii_alnum c =
     (let n = (of_char c :: nat)
      in (48 \<le> n \<and> n \<le> 57) \<or> (65 \<le> n \<and> n \<le> 90) \<or> (97 \<le> n \<and> n \<le> 122))"

definition btih_prefix :: string where
  "btih_prefix = ''xt=urn:btih:''"

fun infohash_search :: "string \<Rightarrow> string option" where
  "infohash_search [] = None"
| "infohash_search (c # cs) =
     (let s = c # cs; run = takeWhile ascii_alnum (drop (length btih_prefix) s)
      in if py_startswith (py_lower s) btih_prefix \<and> run \<noteq> [] then Some run
         else infohash_search cs)"

definition hash_from_magnet :: "string option \<Rightarrow> string option" where
  "hash_from_magnet url =
     (let text = py_strip (or_empty url)
      in if or_empty url = [] then None
         else if \<not> py_startswith (py_lower text) ''magnet:'' then None
         else case infohash_search text of
                None \<Rightarrow> None
              | Some g \<Rightarrow> canonicalize_infohash (Some g))"

definition resolve_download_hash :: "string option \<Rightarrow> string option \<Rightarrow> string option" where
  "resolve_download_hash url hash_value =
     (case canonicalize_infohash hash_value of
        Some h \<Rightarrow> if h \<noteq> [] then Some h else hash_from_magnet url
      | None \<Rightarrow> hash_from_magnet url)"

section \<open>Canonical infohashes\<close>

lemma hexdigit_facts:
  assumes "is_hexdigit c"
  shows "\<not> py_isspace c" and "is_hexdigit (py_lower_char c)"
  using assms of_char_less_256 [of c]
  by (auto simp: is_hexdigit_def py_isspace_def py_lower_char_def Let_def of_char_char_of_small)

lemma hex_digit_facts:
  assumes "d < 16"
  shows "is_hexdigit (hex_digit d)" and "py_lower_char (hex_digit d) = hex_digit d"
proof -
  have *: "(of_char (hex_digit d) :: nat) = (if d < 10 then 48 + d else 87 + d)"
    using assms by (auto simp: hex_digit_def of_char_char_of_small)
  show "is_hexdigit (hex_digit d)" using assms by (auto simp: is_hexdigit_def Let_def *)
  show "py_lower_char (hex_digit d) = hex_digit d"
    using assms by (auto simp: py_lower_char_def Let_def *)
qed

lemma hexlify_fixed:
  shows "list_all is_hexdigit (hexlify bytes)"
    and "py_lower (py_strip (hexlify bytes)) = hexlify bytes"
proof -
  have d: "d < 16" if "d \<in> set (concat (map (digits 16 2) bytes))" for d
    using that digits_bound [of 16] by fastforce
  then have all: "\<forall>c \<in> set (hexlify bytes). is_hexdigit c \<and> py_lower_char c = c"
    using hex_digit_facts by (auto simp: hexlify_def)
  then show "list_all is_hexdigit (hexlify bytes)" by (simp add: list_all_iff)
  have "py_strip (hexlify bytes) = hexlify bytes"
    using all hexdigit_facts(1) by (intro py_strip_no_space) blast
  moreover have "map py_lower_char (hexlify bytes) = hexlify bytes" using all by (simp add: map_idI)
  ultimately show "py_lower (py_strip (hexlify bytes)) = hexlify bytes" by (simp add: py_lower_def)
qed

lemma hexlify_Nil: "hexlify bytes = [] \<longleftrightarrow> bytes = []"
  by (cases bytes) (simp_all add: hexlify_def numeral_2_eq_2)

lemma canonicalize_hexlify:
  "bytes \<noteq> [] \<Longrightarrow> canonicalize_infohash (Some (hexlify bytes)) = Some (hexlify bytes)"
  using hexlify_fixed [of bytes] hexlify_Nil [of bytes]
  by (simp add: canonicalize_infohash_def Let_def)

lemma canonical_cases:
  assumes "canonicalize_infohash v = Some h"
  obtains (plain) "h = py_lower (py_strip (or_empty v))" "h \<noteq> []"
  | (raw) bytes where "bytes \<noteq> []" "h = hexlify bytes"
  using assms
  by (auto simp: canonicalize_infohash_def Let_def split: if_splits option.splits)

lemma canonicalize_text:
  "canonicalize_infohash (Some (py_lower (py_strip s))) = canonicalize_infohash (Some s)"
  by (simp add: canonicalize_infohash_def py_strip_lower)

lemma canonicalize_fixed:
  assumes "canonicalize_infohash v = Some h"
  shows "canonicalize_infohash (Some h) = Some h" and "h \<noteq> []"
proof -
  have v: "canonicalize_infohash v = canonicalize_infohash (Some (or_empty v))"
    by (simp add: canonicalize_infohash_def)
  show "canonicalize_infohash (Some h) = Some h"
    by (rule canonical_cases [OF assms])
       (use assms v canonicalize_text [of "or_empty v"] canonicalize_hexlify in simp_all)
  show "h \<noteq> []" by (rule canonical_cases [OF assms]) (simp_all add: hexlify_Nil)
qed

lemma canonicalize_None: "canonicalize_infohash v = None \<longleftrightarrow> py_strip (or_empty v) = []"
  by (auto simp: canonicalize_infohash_def Let_def py_str_simps split: option.splits)


subsection \<open>Base-32 spellings\<close>

text \<open>The base-32 spelling of a number, as magnet links write a 160-bit infohash.\<close>

definition b32_char :: "nat \<Rightarrow> char" where
  "b32_char d = (if d < 26 then char_of (65 + d) else char_of (24 + d))"

definition b32_spelling :: "nat \<Rightarrow> nat \<Rightarrow> string" where
  "b32_spelling k n = map b32_char (digits 32 k n)"

lemma b32_char_facts:
  assumes "d < 32"
  shows "b32_value (py_lower_char (b32_char d)) = Some d"
    and "\<not> py_isspace (py_lower_char (b32_char d))" and "\<not> py_isspace (b32_char d)"
    and "(of_char (py_lower_char (b32_char d)) :: nat) < 128"
    and "py_lower_char (b32_char d) \<noteq> CHR ''=''"
proof -
  have *: "(of_char (py_lower_char (b32_char d)) :: nat) = (if d < 26 then 97 + d else 24 + d)"
    and **: "(of_char (b32_char d) :: nat) = (if d < 26 then 65 + d else 24 + d)"
    using assms by (auto simp: b32_char_def py_lower_char_def of_char_char_of_small Let_def)
  show "b32_value (py_lower_char (b32_char d)) = Some d"
    using assms by (auto simp: b32_value_def * Let_def)
  show "\<not> py_isspace (py_lower_char (b32_char d))"
    using assms by (auto simp: py_isspace_def * Let_def)
  show "\<not> py_isspace (b32_char d)" using assms by (auto simp: py_isspace_def ** Let_def)
  show "(of_char (py_lower_char (b32_char d)) :: nat) < 128" using assms by (auto simp: *)
  show "py_lower_char (b32_char d) \<noteq> CHR ''=''"
  proof
    assume "py_lower_char (b32_char d) = CHR ''=''"
    then have "(of_char (py_lower_char (b32_char d)) :: nat) = 61" by simp
    then show False using assms by (auto simp: * split: if_splits)
  qed
qed

lemma digits_mod: "0 < b \<Longrightarrow> digits b k (n mod b ^ k) = digits b k n"
proof (induction k arbitrary: n)
  case (Suc k)
  have "n mod (b * b ^ k) div b = n div b mod b ^ k"
    using Suc.prems by (simp add: mod_mult2_eq)
  moreover have "n mod (b * b ^ k) mod b = n mod b" by (rule mod_mod_cancel) simp
  ultimately show ?case using Suc.IH [OF Suc.prems, of "n div b"] by simp
qed simp

lemma b32_quanta_digits: "fst (b32_quanta acc (digits 32 (8 * k) n)) = digits 256 (5 * k) n"
proof (induction k arbitrary: acc)
  case (Suc k)
  let ?m = "n div 32 ^ (8 * k)"
  have ds: "digits 32 (8 * Suc k) n = digits 32 8 ?m @ digits 32 (8 * k) n"
    using digits_append [of 32 8 "8 * k" n] by (simp add: add.commute)
  obtain d ds' where d: "digits 32 8 ?m = d # ds'" by (cases "digits 32 8 ?m") (auto dest: arg_cong [of _ _ length])
  then have l: "length ds' = 7" using length_digits [of 32 8 ?m] by simp
  have acc: "from_digits 32 (digits 32 8 ?m) = ?m mod 256 ^ 5"
    using from_digits_digits [of 32 8 ?m] by simp
  have "digits 256 5 (?m mod 256 ^ 5) = digits 256 5 ?m" by (rule digits_mod) simp
  moreover have "(32::nat) ^ (8 * k) = 256 ^ (5 * k)" by (simp add: power_mult)
  ultimately have "digits 256 5 (?m mod 256 ^ 5) @ digits 256 (5 * k) n = digits 256 (5 * Suc k) n"
    using digits_append [of 256 5 "5 * k" n] by (simp add: add.commute)
  moreover have "fst (b32_quanta acc (digits 32 (8 * Suc k) n)) =
      digits 256 5 (?m mod 256 ^ 5) @ fst (b32_quanta (?m mod 256 ^ 5) (digits 32 (8 * k) n))"
    unfolding ds d using l acc d by (simp add: Let_def case_prod_unfold)
  ultimately show ?case using Suc by simp
qed simp

lemma all_some_map: "(\<And>x. x \<in> set xs \<Longrightarrow> f x = Some (g x)) \<Longrightarrow> all_some (map f xs) = Some (map g xs)"
  by (induction xs) auto

lemma rstrip_char_none: "c \<notin> set s \<Longrightarrow> rstrip_char c s = s"
proof -
  assume "c \<notin> set s"
  then have "dropWhile (\<lambda>x. x = c) (rev s) = rev s"
    by (cases "rev s") (auto simp: dropWhile_eq_Cons_conv dest: arg_cong [of _ _ set])
  then show ?thesis by (simp add: rstrip_char_def)
qed

section \<open>Library folders\<close>

text \<open>\<open>str.casefold\<close> on Latin-1: lower case, with the sharp s (223) spelled out.\<close>

definition py_casefold :: "string \<Rightarrow> string" where
  "py_casefold s =
     concat (map (\<lambda>c. if (of_char c :: nat) = 223 then ''ss'' else [py_lower_char c]) s)"

definition format_anime_folder_title :: "string option \<Rightarrow> string" where
  "format_anime_folder_title title =
     (case title of
        None \<Rightarrow> '' ''
      | Some t \<Rightarrow>
          concat (map (\<lambda>c. if py_isalnum c \<or> c = CHR '' '' then [c]
                           else if c = CHR ''-'' then '' '' else []) t))"

definition format_anime_folder_name :: "string option \<Rightarrow> int \<Rightarrow> string" where
  "format_anime_folder_name title anime_id =
     (if or_empty title = [] then ''anime_'' @ int_str anime_id
      else let cleaned = py_strip (format_anime_folder_title title)
           in if cleaned = [] then ''anime_'' @ int_str anime_id
              else py_join '' '' (py_split cleaned) @ '' - '' @ int_str anime_id)"

text \<open>\<open>s.rsplit(" ", 1)[-1]\<close>: what follows the last blank.\<close>

definition after_last :: "char \<Rightarrow> string \<Rightarrow> string" where
  "after_last c s = rev (takeWhile (\<lambda>x. x \<noteq> c) (rev s))"

definition parse_anime_id_from_folder_name :: "string \<Rightarrow> int option" where
  "parse_anime_id_from_folder_name name =
     (let token = py_strip name
      in if token = [] then None
         else if py_startswith token ''anime_'' then parse_int (drop 6 token)
         else parse_int (after_last CHR '' '' token))"

definition match_anime_folder_names :: "string list \<Rightarrow> int \<Rightarrow> string list" where
  "match_anime_folder_names entries anime_id =
     filter (\<lambda>entry. parse_anime_id_from_folder_name entry = Some anime_id) entries"

definition path_join :: "string \<Rightarrow> string \<Rightarrow> string" where
  "path_join a b =
     (if py_startswith b ''/'' then b
      else if a = [] \<or> py_endswith a ''/'' then a @ b
      else a @ ''/'' @ b)"

text \<open>\<open>npath\<close> is \<open>_normalize_folder_path\<close> (it consults the file system), \<open>None\<close> for
  \<open>has_video\<close> is the default argument.\<close>

definition folder_sort_key ::
  "(string \<Rightarrow> string) \<Rightarrow> string \<Rightarrow> string list \<Rightarrow> (string \<Rightarrow> bool) option \<Rightarrow> string \<Rightarrow>
   nat \<times> nat \<times> string" where
  "folder_sort_key npath animes_root preferred has_video name =
     (let full_path = path_join animes_root name;
          preferred_norm = map npath (filter (\<lambda>p. py_strip p \<noteq> []) preferred)
      in (if npath full_path \<in> set preferred_norm then 0 else 1,
          (case has_video of None \<Rightarrow> 1 | Some f \<Rightarrow> if f full_path then 0 else 1),
          py_casefold name))"


definition choose_canonical_anime_folder_name ::
  "(string \<Rightarrow> string) \<Rightarrow> string list \<Rightarrow> string \<Rightarrow> string list \<Rightarrow> (string \<Rightarrow> bool) option \<Rightarrow>
   string res" where
  "choose_canonical_anime_folder_name npath folder_names animes_root preferred has_video =
     (if folder_names = [] then Inl (ValueError ''folder_names must not be empty'')
      else Inr (hd (sort_key (folder_sort_key npath animes_root preferred has_video) folder_names)))"

text \<open>\<open>posixpath.normpath\<close> and \<open>basename\<close>.\<close>

fun normpath_comps :: "bool \<Rightarrow> string list \<Rightarrow> string list \<Rightarrow> string list" where
  "normpath_comps absolute kept [] = kept"
| "normpath_comps absolute kept (part # parts) =
     (if part = [] \<or> part = ''.'' then normpath_comps absolute kept parts
      else if part \<noteq> ''..'' \<or> (\<not> absolute \<and> kept = []) \<or> (kept \<noteq> [] \<and> last kept = ''..'')
      then normpath_comps absolute (kept @ [part]) parts
      else normpath_comps absolute (butlast kept) parts)"

definition posix_normpath :: "string \<Rightarrow> string" where
  "posix_normpath path =
     (if path = [] then ''.''
      else let slashes = (if \<not> py_startswith path ''/'' then 0
                          else if py_startswith path ''//'' \<and> \<not> py_startswith path ''///'' then 2
                          else 1);
               out = replicate slashes CHR ''/''
                     @ py_join ''/'' (normpath_comps (slashes > 0) [] (py_split_on CHR ''/'' path))
           in if out = [] then ''.'' else out)"

definition posix_basename :: "string \<Rightarrow> string" where
  "posix_basename path = after_last CHR ''/'' path"

text \<open>
  \<open>_ANIME_FOLDER_ID_RE\<close>, a blank, a dash, a blank and digits up to the end of the name or up
  to a final line feed.
\<close>

definition digits_to_end :: "string \<Rightarrow> string option" where
  "digits_to_end s =
     (let run = takeWhile py_isdigit s; rest = dropWhile py_isdigit s
      in if run \<noteq> [] \<and> (rest = [] \<or> rest = [char_of (10::nat)]) then Some run else None)"

fun folder_id_search :: "string \<Rightarrow> string option" where
  "folder_id_search [] = None"
| "folder_id_search (c # cs) =
     (let s = c # cs
      in case (if py_startswith s '' - '' then digits_to_end (drop 3 s) else None) of
           Some run \<Rightarrow> Some run
         | None \<Rightarrow> folder_id_search cs)"

definition anime_id_from_save_path :: "string option \<Rightarrow> int option" where
  "anime_id_from_save_path path =
     (if or_empty path = [] then None
      else case folder_id_search (posix_basename (posix_normpath (py_strip (or_empty path)))) of
        None \<Rightarrow> None
      | Some run \<Rightarrow> parse_int run)"

section \<open>Folder names and ids\<close>

lemma title_chars:
  "c \<in> set (format_anime_folder_title (Some t)) \<Longrightarrow> py_isalnum c \<or> c = CHR '' ''"
  by (auto simp: format_anime_folder_title_def split: if_splits)

lemma strip_subset: "set (py_strip s) \<subseteq> set s"
  unfolding py_strip_def py_rstrip_def py_lstrip_def by (auto dest!: set_dropWhileD)

lemma int_str_chars: "c \<in> set (int_str i) \<Longrightarrow> py_isdigit c \<or> c = CHR ''-''"
  using nat_str_digits by (auto simp: int_str_def split: if_splits)

lemma int_str_no_space: "c \<in> set (int_str i) \<Longrightarrow> \<not> py_isspace c"
  using int_str_chars digit_not_space by (fastforce simp: py_isspace_def)

lemma int_str_not_Nil [simp]: "int_str i \<noteq> []"
  by (simp add: int_str_def)

lemma after_last_tail: "c \<notin> set t \<Longrightarrow> after_last c (s @ c # t) = t"
proof -
  assume "c \<notin> set t"
  then have "takeWhile (\<lambda>x. x \<noteq> c) (rev t @ c # rev s) = rev t"
    by (subst takeWhile_append2) auto
  then show ?thesis by (simp add: after_last_def)
qed

lemma last_int_str: "\<not> py_isspace (last (int_str i))"
  using int_str_no_space [of "last (int_str i)" i] by simp

lemma py_join_chars: "c \<in> set (py_join sep ws) \<Longrightarrow> c \<in> set sep \<or> (\<exists>w \<in> set ws. c \<in> set w)"
  by (induction ws rule: induct_list012) auto

lemma parse_format_folder_name:
  "parse_anime_id_from_folder_name (format_anime_folder_name title i) = Some i"
proof -
  have generic: "parse_anime_id_from_folder_name (''anime_'' @ int_str i) = Some i"
  proof -
    have "py_strip (''anime_'' @ int_str i) = ''anime_'' @ int_str i"
      by (rule py_strip_id) (simp, simp add: py_isspace_def, use last_int_str in simp)
    then show ?thesis
      by (simp add: parse_anime_id_from_folder_name_def py_startswith_def parse_int_str Let_def)
  qed
  show ?thesis
  proof (cases "or_empty title = [] \<or> py_strip (format_anime_folder_title title) = []")
    case True
    then show ?thesis using generic by (auto simp: format_anime_folder_name_def Let_def)
  next
    case False
    then obtain t where t: "title = Some t" by (cases title) auto
    let ?cleaned = "py_strip (format_anime_folder_title (Some t))"
    let ?ws = "py_split ?cleaned"
    have ne: "?cleaned \<noteq> []" using False t by simp
    have words: "\<forall>w \<in> set ?ws. w \<noteq> [] \<and> (\<forall>c \<in> set w. \<not> py_isspace c)"
      using py_split_words by blast
    let ?name = "py_join '' '' ?ws @ '' - '' @ int_str i"
    have name: "format_anime_folder_name title i = ?name"
      using False t by (simp add: format_anime_folder_name_def Let_def)
    have chars: "py_isalnum c \<or> c = CHR '' ''" if "c \<in> set (py_join '' '' ?ws)" for c
      using py_join_chars [OF that] py_split_chars strip_subset title_chars by fastforce
    have hd_ok: "\<not> py_isspace (hd ?name)" if "?ws \<noteq> []"
    proof -
      have j: "py_join '' '' ?ws \<noteq> []" "hd (py_join '' '' ?ws) = hd (hd ?ws)"
        using py_join_last [OF that] words by blast+
      have "hd ?ws \<in> set ?ws" using that by simp
      then have "hd ?ws \<noteq> []" "\<forall>c \<in> set (hd ?ws). \<not> py_isspace c" using words by blast+
      then have "\<not> py_isspace (hd (hd ?ws))" by simp
      then show ?thesis using j by simp
    qed
    have after: "after_last CHR '' '' (s @ '' - '' @ int_str i) = int_str i" for s
    proof -
      have "CHR '' '' \<notin> set (int_str i)" using int_str_no_space [of "CHR '' ''" i] by auto
      then have "after_last CHR '' '' ((s @ '' -'') @ CHR '' '' # int_str i) = int_str i"
        by (rule after_last_tail)
      then show ?thesis by simp
    qed
    show ?thesis
    proof (cases "?ws = []")
      case True
      have "?cleaned = []"
      proof (rule ccontr)
        assume "?cleaned \<noteq> []"
        moreover have "\<not> py_isspace (hd ?cleaned)"
        proof -
          have "?cleaned = [] \<or> \<not> py_isspace (hd ?cleaned)"
            unfolding py_strip_def by (rule rstrip_hd [OF hd_lstrip])
          then show ?thesis using \<open>?cleaned \<noteq> []\<close> by blast
        qed
        moreover have "split_ws_acc acc s \<noteq> []" if "acc \<noteq> []" for acc s
          using that by (induction acc s rule: split_ws_acc.induct) auto
        ultimately show False using True by (cases ?cleaned) (auto simp: py_split_def)
      qed
      then show ?thesis using ne by contradiction
    next
      case False
      have strip: "py_strip ?name = ?name"
        by (rule py_strip_id) (use hd_ok [OF False] last_int_str [of i] in simp_all)
      have "\<not> py_startswith ?name ''anime_''"
      proof
        assume "py_startswith ?name ''anime_''"
        moreover have "length ''anime_'' = 6" by simp
        ultimately have "take 6 ?name = ''anime_''" by (simp only: py_startswith_def)
        then have "CHR ''_'' \<in> set (take 6 ?name)" by simp
        then have "CHR ''_'' \<in> set ?name" by (rule in_set_takeD)
        then show False using chars [of "CHR ''_''"] int_str_chars [of "CHR ''_''" i]
          by (auto simp: py_isalnum_def py_isdigit_def)
      qed
      then show ?thesis
        unfolding name parse_anime_id_from_folder_name_def Let_def strip after
        by (simp add: parse_int_str)
    qed
  qed
qed


section \<open>Properties\<close>

text \<open>
  Canonicalisation is idempotent: a canonical infohash is not empty, and canonicalising
  it again, in whatever letter case and with whatever surrounding blanks it comes back from
  a torrent client, returns it.
\<close>

lemma canonicalize_infohash_idempotent:
  assumes "canonicalize_infohash v = Some h" and "py_lower (py_strip s) = h"
  shows "h \<noteq> [] \<and> canonicalize_infohash (Some s) = Some h"
  using canonicalize_fixed [OF assms(1)] canonicalize_text [of s] assms(2) by simp

lemma canonicalize_infohash_idempotent_witness:
  "canonicalize_infohash (Some '' AbC1 '') = Some ''abc1''"
proof -
  have c: "canonicalize_infohash (Some ''ABC1'') = Some ''abc1''" by code_simp
  have s: "py_lower (py_strip '' AbC1 '') = ''abc1''" by code_simp
  show ?thesis using canonicalize_infohash_idempotent [OF c s] by simp
qed

text \<open>
  The base-32 spelling of a 160-bit infohash, as older magnet links carry it, is read as
  the same hash as its 40-digit hexadecimal spelling, unless all its 32 characters happen to
  be hexadecimal digits.
\<close>

lemma base32_infohash_is_hex_infohash:
  assumes "\<not> list_all is_hexdigit (py_lower (b32_spelling 32 n))"
  shows "canonicalize_infohash (Some (b32_spelling 32 n)) = Some (map hex_digit (digits 16 40 n))"
proof -
  let ?s = "b32_spelling 32 n"
  have d: "d < 32" if "d \<in> set (digits 32 32 n)" for d using digits_bound [OF _ that] by simp
  have strip: "py_strip ?s = ?s"
    by (rule py_strip_no_space) (use d b32_char_facts(3) in \<open>auto simp: b32_spelling_def\<close>)
  have folded: "py_lower (py_strip ?s) = map (\<lambda>d. py_lower_char (b32_char d)) (digits 32 32 n)"
    by (simp only: strip) (simp add: py_lower_def b32_spelling_def)
  let ?t = "map (\<lambda>d. py_lower_char (b32_char d)) (digits 32 32 n)"
  have low: "py_lower ?s = ?t" using folded strip by simp
  have ascii: "is_ascii ?t" using d b32_char_facts(4) by (auto simp: is_ascii_def list_all_iff)
  have "CHR ''='' \<notin> set ?t" using d b32_char_facts(5) by fastforce
  then have pad: "rstrip_char CHR ''='' ?t = ?t" by (rule rstrip_char_none)
  have "all_some (map (\<lambda>d. b32_value (py_lower_char (b32_char d))) (digits 32 32 n)) =
      Some (map (\<lambda>d. d) (digits 32 32 n))"
    by (rule all_some_map) (use d b32_char_facts(1) in blast)
  then have vals: "all_some (map b32_value ?t) = Some (digits 32 32 n)" by (simp add: o_def)
  have q: "fst (b32_quanta 0 (digits 32 32 n)) = digits 256 20 n"
    using b32_quanta_digits [of 0 4 n] by simp
  have raw: "b32decode ?t = Some (digits 256 20 n)"
    unfolding b32decode_def Let_def pad vals using q by (simp add: case_prod_unfold)
  have ne: "digits 256 20 n \<noteq> []" by (metis length_digits length_0_conv zero_neq_numeral)
  have "?t \<noteq> []" by (metis length_digits length_map length_0_conv zero_neq_numeral)
  moreover have "hexlify (digits 256 20 n) = map hex_digit (digits 16 40 n)"
    using hex_of_bytes [of 20 n] by (simp add: hexlify_def)
  ultimately show ?thesis
    using assms raw ne ascii unfolding canonicalize_infohash_def Let_def or_empty_simps folded low
    by simp
qed

lemma base32_infohash_is_hex_infohash_witness:
  "canonicalize_infohash (Some (b32_spelling 32 8)) = Some (map hex_digit (digits 16 40 8))"
  by (rule base32_infohash_is_hex_infohash) code_simp

text \<open>
  C32. A library folder named for a title and an anime id is always found again by that id,
  whatever the title (empty, absent, only punctuation, containing dashes or digits) and
  whatever the id.
\<close>

theorem folder_name_carries_its_id:
  "match_anime_folder_names [format_anime_folder_name title i] j =
     (if i = j then [format_anime_folder_name title i] else [])"
  by (simp add: match_anime_folder_names_def parse_format_folder_name)

text \<open>
  The canonical folder chosen among several is one of them, it is one that the database
  already uses when there is such a folder, and among folders equal in that respect one that
  contains videos when there is one.
\<close>

lemma canonical_folder_prefers_used_then_videos:
  fixes npath :: "string \<Rightarrow> string" and dir :: string
  assumes "names \<noteq> []" and "\<forall>p \<in> set preferred. py_strip p \<noteq> []"
  defines "used \<equiv> \<lambda>n. npath (path_join dir n) \<in> npath ` set preferred"
  shows "\<exists>c \<in> set names.
     choose_canonical_anime_folder_name npath names dir preferred (Some has_video) = Inr c
     \<and> ((\<exists>n \<in> set names. used n) \<longrightarrow> used c)
     \<and> ((\<exists>n \<in> set names. used n = used c \<and> has_video (path_join dir n)) \<longrightarrow>
          has_video (path_join dir c))"
proof -
  let ?k = "folder_sort_key npath dir preferred (Some has_video)"
  let ?c = "hd (sort_key ?k names)"
  have ne: "sort_key ?k names \<noteq> []" using assms(1) by (metis length_0_conv length_sort)
  then have mem: "?c \<in> set names" by (metis hd_in_set set_sort)
  have least: "?k ?c \<le> ?k n" if "n \<in> set names" for n
  proof -
    obtain a ys where ys: "sort_key ?k names = a # ys" using ne by (cases "sort_key ?k names") auto
    have "sorted (map ?k (a # ys))" unfolding ys [symmetric] by simp
    then have "\<forall>y \<in> set (a # ys). ?k a \<le> ?k y" by auto
    moreover have "set (a # ys) = set names" unfolding ys [symmetric] by simp
    moreover have c: "?c = a" using ys by simp
    ultimately have "n \<in> set (a # ys)" "\<forall>y \<in> set (a # ys). ?k a \<le> ?k y" using that by blast+
    then show ?thesis unfolding c by blast
  qed
  have pref: "filter (\<lambda>p. py_strip p \<noteq> []) preferred = preferred"
    using assms(2) by (simp add: filter_id_conv)
  have key: "?k n = (if used n then 0 else 1, if has_video (path_join dir n) then 0 else 1, py_casefold n)"
    for n by (simp add: folder_sort_key_def Let_def pref used_def)
  have "choose_canonical_anime_folder_name npath names dir preferred (Some has_video) = Inr ?c"
    using assms(1) by (simp add: choose_canonical_anime_folder_name_def)
  moreover have "used ?c" if "n \<in> set names" "used n" for n
    using least [OF that(1)] that(2) unfolding key by (auto split: if_splits)
  moreover have "has_video (path_join dir ?c)"
    if "n \<in> set names" "used n = used ?c" "has_video (path_join dir n)" for n
    using least [OF that(1)] that(2,3) unfolding key by (auto split: if_splits)
  ultimately show ?thesis using mem by blast
qed

lemma canonical_folder_prefers_used_then_videos_witness:
  "choose_canonical_anime_folder_name id [''A - 1'', ''B - 1''] ''/lib'' [''/lib/B - 1'']
      (Some (\<lambda>p. False)) = Inr ''B - 1''"
  using canonical_folder_prefers_used_then_videos
    [of "[''A - 1'', ''B - 1'']" "[''/lib/B - 1'']" id "''/lib''" "\<lambda>p. False"]
  by (auto simp: path_join_def py_startswith_def py_endswith_def py_strip_def py_lstrip_def
      py_rstrip_def py_isspace_def)

end
