(* ===== verification/TorrentStore.thy ===== *)
theory TorrentStore
  imports TorrentNames "HOL-Library.AList"
begin

text \<open>
  The torrent tables of \<open>application/services/database_manager.py\<close>: \<open>torrentsIndex\<close>, which says
  which anime a hash belongs to, and \<open>torrents\<close>, one row per hash.  Each method is one function
  over the two tables; a statement is what it does to them.  The connection, the addition of
  missing columns and failing statements are left out; text is compared as SQLite compares it (\<open>=\<close>
  by characters, \<open>LOWER\<close> on ASCII letters); a join lists the \<open>torrents\<close> rows in order, each with
  its index rows in order; the tracker list stands for its JSON text.
\<close>

section \<open>The tables\<close>

record Torrent =
  tr_hash :: "string option"
  tr_name :: "string option"
  tr_trackers :: "string list option"
  tr_size :: "rat option"
  tr_path :: "string option"

record torrent_row =
  s_hash :: string
  s_name :: "string option"
  s_trackers :: "string list"
  s_path :: "string option"
  s_status :: "string option"
  s_source :: "string option"

record store =
  st_index :: "(int \<times> string) list"
  st_torrents :: "torrent_row list"
  st_titles :: "(int \<times> string option) list"

text \<open>The dictionaries the listing methods return.\<close>

record index_row =
  i_hash :: "string option"
  i_status :: "string option"
  i_name :: "string option"
  i_save_path :: "string option"
  i_anime :: "int option"

definition sql_lower :: "string \<Rightarrow> string" where
  "sql_lower s =
     map (\<lambda>c. let n = (of_char c :: nat) in if 65 \<le> n \<and> n \<le> 90 then char_of (n + 32) else c) s"

definition same_hash :: "string \<Rightarrow> string \<Rightarrow> bool" where
  "same_hash a b = (sql_lower a = sql_lower b)"

definition indexed :: "store \<Rightarrow> int \<Rightarrow> string \<Rightarrow> bool" where
  "indexed st anime_id h = list_ex (\<lambda>(i, v). i = anime_id \<and> same_hash v h) (st_index st)"

definition known :: "store \<Rightarrow> string \<Rightarrow> bool" where
  "known st h = list_ex (\<lambda>r. same_hash (s_hash r) h) (st_torrents st)"

text \<open>\<open>UPDATE torrents SET ... WHERE LOWER(hash)=LOWER(?)\<close>.\<close>

definition update_rows :: "(torrent_row \<Rightarrow> torrent_row) \<Rightarrow> string \<Rightarrow> store \<Rightarrow> store" where
  "update_rows f h st =
     st\<lparr>st_torrents := map (\<lambda>r. if same_hash (s_hash r) h then f r else r) (st_torrents st)\<rparr>"

definition add_index :: "int \<Rightarrow> string \<Rightarrow> store \<Rightarrow> store" where
  "add_index anime_id h st =
     (if indexed st anime_id h then st else st\<lparr>st_index := st_index st @ [(anime_id, h)]\<rparr>)"

section \<open>Writing\<close>

definition clean_source :: "string option \<Rightarrow> string option" where
  "clean_source source =
     (case source of
        None \<Rightarrow> None
      | Some s \<Rightarrow> (let c = py_lower (py_strip s) in if c \<in> {''manual'', ''auto''} then Some c else None))"

definition truthy :: "string option \<Rightarrow> bool" where
  "truthy v = (or_empty v \<noteq> [])"

definition save_torrent ::
  "store \<Rightarrow> int \<Rightarrow> Torrent \<Rightarrow> string option \<Rightarrow> string option \<Rightarrow> store \<times> unit res" where
  "save_torrent st anime_id torrent save_path source =
     (case canonicalize_infohash (tr_hash torrent) of
        None \<Rightarrow> (st, Inl (ValueError ''torrent hash is required''))
      | Some h \<Rightarrow>
          let trackers = (case tr_trackers torrent of None \<Rightarrow> [] | Some ts \<Rightarrow> ts);
              path_value = (if save_path = None then tr_path torrent else save_path);
              source_value = clean_source source;
              st1 = add_index anime_id h st
          in (if \<not> known st1 h
              then st1\<lparr>st_torrents := st_torrents st1 @
                     [\<lparr>s_hash = h, s_name = tr_name torrent, s_trackers = trackers,
                       s_path = path_value, s_status = None,
                       s_source = (if source_value = None then Some ''manual'' else source_value)\<rparr>]\<rparr>
              else if truthy path_value \<and> source_value \<noteq> None
              then update_rows (\<lambda>r. r\<lparr>s_path := path_value, s_source := source_value\<rparr>) h st1
              else if truthy path_value then update_rows (\<lambda>r. r\<lparr>s_path := path_value\<rparr>) h st1
              else if source_value \<noteq> None then update_rows (\<lambda>r. r\<lparr>s_source := source_value\<rparr>) h st1
              else st1, Inr ()))"

definition update_torrent_save_path :: "store \<Rightarrow> string \<Rightarrow> string \<Rightarrow> store" where
  "update_torrent_save_path st hash_value save_path =
     (if hash_value = [] \<or> save_path = [] then st
      else if known st hash_value
      then update_rows (\<lambda>r. r\<lparr>s_path := Some save_path\<rparr>) hash_value st else st)"

text \<open>The statement compares \<open>hash=?\<close> here, without \<open>LOWER\<close>.\<close>

definition update_torrent_status :: "store \<Rightarrow> string \<Rightarrow> string option \<Rightarrow> store" where
  "update_torrent_status st hash_value status =
     (if hash_value = [] then st
      else let normalized = (case status of
                               None \<Rightarrow> None
                             | Some s \<Rightarrow> if py_strip s = [] then None else Some (py_lower (py_strip s)))
           in if list_ex (\<lambda>r. s_hash r = hash_value) (st_torrents st)
              then st\<lparr>st_torrents :=
                     map (\<lambda>r. if s_hash r = hash_value then r\<lparr>s_status := normalized\<rparr> else r)
                       (st_torrents st)\<rparr>
              else st)"

definition ensure_torrent_index ::
  "store \<Rightarrow> int \<Rightarrow> string option \<Rightarrow> string option \<Rightarrow> string option \<Rightarrow> string list option \<Rightarrow>
   store \<times> bool" where
  "ensure_torrent_index st anime_id hash_value name save_path trackers =
     (case canonicalize_infohash hash_value of
        None \<Rightarrow> (st, False)
      | Some h \<Rightarrow>
          let inserted = \<not> indexed st anime_id h;
              st1 = add_index anime_id h st
          in (if \<not> known st1 h
              then st1\<lparr>st_torrents := st_torrents st1 @
                     [\<lparr>s_hash = h, s_name = name,
                       s_trackers = (case trackers of None \<Rightarrow> [] | Some ts \<Rightarrow> ts),
                       s_path = save_path, s_status = None, s_source = Some ''manual''\<rparr>]\<rparr>
              else let st2 = (if truthy save_path
                              then update_rows (\<lambda>r. r\<lparr>s_path := save_path\<rparr>) h st1 else st1)
                   in (if truthy name then update_rows (\<lambda>r. r\<lparr>s_name := name\<rparr>) h st2 else st2),
              inserted))"

section \<open>Reading\<close>

definition get_torrent_status :: "store \<Rightarrow> string \<Rightarrow> string option" where
  "get_torrent_status st hash_value =
     (if hash_value = [] then None
      else case find (\<lambda>r. s_hash r = hash_value) (st_torrents st) of
             None \<Rightarrow> None
           | Some r \<Rightarrow> map_option (\<lambda>s. py_lower (py_strip s)) (s_status r))"

definition get_torrent_data :: "store \<Rightarrow> string \<Rightarrow> (string option \<times> string list) option" where
  "get_torrent_data st hash_value =
     map_option (\<lambda>r. (s_name r, s_trackers r)) (find (\<lambda>r. s_hash r = hash_value) (st_torrents st))"

text \<open>\<open>torrents AS t INNER JOIN torrentsIndex AS i ON LOWER(i.value) = LOWER(t.hash)\<close>.\<close>

definition joined :: "store \<Rightarrow> (torrent_row \<times> int) list" where
  "joined st =
     concat (map (\<lambda>r. map (\<lambda>(i, v). (r, i)) (filter (\<lambda>(i, v). same_hash v (s_hash r)) (st_index st)))
       (st_torrents st))"

text \<open>The first row of every hash, blank hashes left out.\<close>

fun first_rows :: "string set \<Rightarrow> (torrent_row \<times> int) list \<Rightarrow> (torrent_row \<times> int) list" where
  "first_rows seen [] = []"
| "first_rows seen ((r, i) # rows) =
     (let key = py_lower (py_strip (s_hash r))
      in if py_strip (s_hash r) = [] \<or> key \<in> seen then first_rows seen rows
         else (r, i) # first_rows (insert key seen) rows)"

definition strip_some :: "string option \<Rightarrow> string option" where
  "strip_some v = (if truthy v then Some (py_strip (or_empty v)) else None)"

definition list_torrents_for_reconcile :: "store \<Rightarrow> index_row list" where
  "list_torrents_for_reconcile st =
     map (\<lambda>(r, i). \<lparr>i_hash = Some (py_strip (s_hash r)),
                    i_status = map_option (\<lambda>s. py_lower (py_strip s)) (s_status r),
                    i_name = strip_some (s_name r), i_save_path = strip_some (s_path r),
                    i_anime = Some i\<rparr>)
       (first_rows {} (joined st))"

text \<open>Deleted rows are skipped before their hash is remembered, rows without a path after.\<close>

fun restore_rows :: "string set \<Rightarrow> (torrent_row \<times> int) list \<Rightarrow> (torrent_row \<times> int) list" where
  "restore_rows seen [] = []"
| "restore_rows seen ((r, i) # rows) =
     (let key = py_lower (py_strip (s_hash r))
      in if py_strip (s_hash r) = [] \<or> key \<in> seen then restore_rows seen rows
         else if py_lower (or_empty (s_status r)) = ''deleted'' then restore_rows seen rows
         else if py_strip (or_empty (s_path r)) = [] then restore_rows (insert key seen) rows
         else (r, i) # restore_rows (insert key seen) rows)"

definition list_torrents_for_restore :: "store \<Rightarrow> (index_row \<times> string list) list" where
  "list_torrents_for_restore st =
     map (\<lambda>(r, i). (\<lparr>i_hash = Some (py_strip (s_hash r)), i_status = None, i_name = s_name r,
                     i_save_path = Some (py_strip (or_empty (s_path r))), i_anime = Some i\<rparr>,
                    s_trackers r))
       (restore_rows {} (joined st))"

definition get_anime_ids_by_hashes :: "store \<Rightarrow> string list \<Rightarrow> (string \<times> int) list" where
  "get_anime_ids_by_hashes st hashes =
     (let normalised = map (\<lambda>h. py_lower (py_strip h)) (filter (\<lambda>h. h \<noteq> []) hashes)
      in fold (\<lambda>(i, v) out.
                 if sql_lower v \<in> set normalised \<and> py_lower (py_strip (sql_lower v)) \<noteq> []
                 then AList.update (py_lower (py_strip (sql_lower v))) i out else out)
           (st_index st) [])"

definition list_torrents_for_anime :: "store \<Rightarrow> int \<Rightarrow> index_row list" where
  "list_torrents_for_anime st anime_id =
     map (\<lambda>(r, i). \<lparr>i_hash = Some (py_strip (s_hash r)),
                    i_status = map_option (\<lambda>s. py_lower (py_strip s)) (s_status r),
                    i_name = s_name r, i_save_path = strip_some (s_path r), i_anime = None\<rparr>)
       (filter (\<lambda>(r, i). i = anime_id \<and> py_strip (s_hash r) \<noteq> []) (joined st))"

definition count_torrent_index_for_anime :: "store \<Rightarrow> int \<Rightarrow> nat" where
  "count_torrent_index_for_anime st anime_id =
     length (filter (\<lambda>(i, v). i = anime_id) (st_index st))"

definition under_folder :: "string \<Rightarrow> string \<Rightarrow> bool" where
  "under_folder folder_norm save_norm =
     (save_norm = folder_norm \<or> py_startswith save_norm (folder_norm @ ''/''))"

definition list_orphan_torrents_for_folder :: "store \<Rightarrow> int \<Rightarrow> string option \<Rightarrow> index_row list" where
  "list_orphan_torrents_for_folder st anime_id folder =
     (let folder_norm = posix_normpath (py_strip (or_empty folder))
      in map (\<lambda>r. \<lparr>i_hash = Some (py_strip (s_hash r)),
                   i_status = map_option (\<lambda>s. py_lower (py_strip s)) (s_status r),
                   i_name = s_name r, i_save_path = s_path r, i_anime = None\<rparr>)
           (filter (\<lambda>r. \<not> indexed st anime_id (s_hash r) \<and> truthy (s_path r)
                     \<and> under_folder folder_norm (posix_normpath (py_strip (or_empty (s_path r))))
                     \<and> py_strip (s_hash r) \<noteq> [])
             (st_torrents st)))"

definition get_anime_titles :: "store \<Rightarrow> int list \<Rightarrow> (int \<times> string) list" where
  "get_anime_titles st anime_ids =
     List.map_filter (\<lambda>(i, title). if i \<in> set anime_ids \<and> truthy title then Some (i, or_empty title) else None)
       (st_titles st)"

section \<open>Every torrent is indexed\<close>

definition store_wf :: "store \<Rightarrow> bool" where
  "store_wf st \<longleftrightarrow>
     distinct (map (\<lambda>r. sql_lower (s_hash r)) (st_torrents st))
     \<and> distinct (map (\<lambda>(i, v). (i, sql_lower v)) (st_index st))
     \<and> (\<forall>r \<in> set (st_torrents st). \<exists>(i, v) \<in> set (st_index st). same_hash v (s_hash r))
     \<and> (\<forall>r \<in> set (st_torrents st). canonicalize_infohash (Some (s_hash r)) = Some (s_hash r))"

named_theorems store_simps \<open>projections of the updates of the store\<close>

lemma update_rows_simps [store_simps, simp]:
  "st_index (update_rows f h st) = st_index st"
  "st_torrents (update_rows f h st) =
     map (\<lambda>r. if same_hash (s_hash r) h then f r else r) (st_torrents st)"
  "st_titles (update_rows f h st) = st_titles st"
  by (simp_all add: update_rows_def)

lemma update_rows_others:
  assumes "\<And>r. s_hash (f r) = s_hash r"
  shows "filter (\<lambda>x. \<not> same_hash (s_hash x) h) (st_torrents (update_rows f h st))
    = filter (\<lambda>x. \<not> same_hash (s_hash x) h) (st_torrents st)"
proof -
  have "filter (\<lambda>x. \<not> same_hash (s_hash x) h) (map (\<lambda>r. if same_hash (s_hash r) h then f r else r) rows)
      = filter (\<lambda>x. \<not> same_hash (s_hash x) h) rows" for rows
    by (induction rows) (simp_all add: assms)
  then show ?thesis by simp
qed

lemma add_index_simps [store_simps, simp]:
  "st_torrents (add_index a h st) = st_torrents st"
  "st_titles (add_index a h st) = st_titles st"
  "st_index (add_index a h st) = (if indexed st a h then st_index st else st_index st @ [(a, h)])"
  by (simp_all add: add_index_def)

lemma indexed_iff: "indexed st a h \<longleftrightarrow> (\<exists>v. (a, v) \<in> set (st_index st) \<and> same_hash v h)"
  by (auto simp: indexed_def list_ex_iff)

lemma known_iff: "known st h \<longleftrightarrow> (\<exists>r \<in> set (st_torrents st). same_hash (s_hash r) h)"
  by (simp add: known_def list_ex_iff)

lemma same_hash_refl [simp]: "same_hash h h"
  by (simp add: same_hash_def)

text \<open>Rewriting the columns of rows, their hashes kept.\<close>

lemma map_keeps_wf:
  assumes "store_wf st" and f: "\<And>r. s_hash (f r) = s_hash r"
    and "st_index st' = st_index st"
    and "st_torrents st' = map (\<lambda>r. if P r then f r else r) (st_torrents st)"
  shows "store_wf st'"
proof -
  have "s_hash (if P r then f r else r) = s_hash r" for r by (simp add: f)
  then have h: "map s_hash (st_torrents st') = map s_hash (st_torrents st)"
    unfolding assms(4) by (simp del: if_image_distrib)
  then have low: "map sql_lower (map s_hash (st_torrents st')) = map sql_lower (map s_hash (st_torrents st))"
    and img: "s_hash ` set (st_torrents st') = s_hash ` set (st_torrents st)"
    by (simp, metis list.set_map)
  have all: "(\<forall>r \<in> set (st_torrents st'). Q (s_hash r)) \<longleftrightarrow> (\<forall>r \<in> set (st_torrents st). Q (s_hash r))" for Q
    using img by (metis (no_types, lifting) image_iff)
  show ?thesis
    using assms(1) low unfolding store_wf_def assms(3)
      all [of "\<lambda>h. \<exists>(i, v) \<in> set (st_index st). same_hash v h"]
      all [of "\<lambda>h. canonicalize_infohash (Some h) = Some h"]
    by (simp add: comp_def)
qed

lemma update_rows_wf:
  "store_wf st \<Longrightarrow> (\<And>r. s_hash (f r) = s_hash r) \<Longrightarrow> store_wf (update_rows f h st)"
  by (rule map_keeps_wf [where f = f]) simp_all

lemma add_index_wf: "store_wf st \<Longrightarrow> store_wf (add_index a h st)"
  by (auto simp: store_wf_def indexed_iff same_hash_def)

text \<open>A new row of a canonical hash, after its index row.\<close>

lemma add_row_wf:
  assumes "store_wf st" and "\<not> known st h" and "canonicalize_infohash (Some h) = Some h"
    and "s_hash r = h"
  shows "store_wf ((add_index a h st)\<lparr>st_torrents := st_torrents st @ [r]\<rparr>)"
proof -
  have wf: "store_wf (add_index a h st)" by (rule add_index_wf [OF assms(1)])
  have "\<exists>(i, v) \<in> set (st_index (add_index a h st)). same_hash v h"
    by (auto simp: indexed_iff)
  then show ?thesis
    using wf assms(2-4) unfolding store_wf_def
    by (auto simp: known_iff same_hash_def)
qed

lemma known_add_index [simp]: "known (add_index a h st) = known st"
  by (rule ext) (simp add: known_def)

lemma save_torrent_wf:
  assumes "store_wf st" shows "store_wf (fst (save_torrent st a t path source))"
proof (cases "canonicalize_infohash (tr_hash t)")
  case (Some h)
  have h: "canonicalize_infohash (Some h) = Some h" by (rule canonicalize_fixed(1) [OF Some])
  note wf = add_index_wf [OF assms, of a h]
  show ?thesis
    using wf h assms by (auto simp: save_torrent_def Some Let_def intro!: update_rows_wf add_row_wf)
qed (simp add: save_torrent_def assms)

lemma ensure_torrent_index_wf:
  assumes "store_wf st" shows "store_wf (fst (ensure_torrent_index st a hv name path trackers))"
proof (cases "canonicalize_infohash hv")
  case (Some h)
  have h: "canonicalize_infohash (Some h) = Some h" by (rule canonicalize_fixed(1) [OF Some])
  note wf = add_index_wf [OF assms, of a h]
  show ?thesis
    using wf h assms
    by (auto simp: ensure_torrent_index_def Some Let_def intro!: update_rows_wf add_row_wf)
qed (simp add: ensure_torrent_index_def assms)

lemma update_torrent_save_path_wf: "store_wf st \<Longrightarrow> store_wf (update_torrent_save_path st h path)"
  by (auto simp: update_torrent_save_path_def intro!: update_rows_wf)

lemma update_torrent_status_wf: "store_wf st \<Longrightarrow> store_wf (update_torrent_status st h status)"
  unfolding update_torrent_status_def Let_def
  by (auto intro!: map_keeps_wf [where f = "\<lambda>r. r\<lparr>s_status := _\<rparr>" and st = st])

text \<open>The writes of the manager, and the stores they lead to.\<close>

inductive store_step :: "store \<Rightarrow> store \<Rightarrow> bool" where
  save: "store_step st (fst (save_torrent st a t path source))"
| ensure: "store_step st (fst (ensure_torrent_index st a hv name path trackers))"
| path: "store_step st (update_torrent_save_path st h path)"
| status: "store_step st (update_torrent_status st h s)"

inductive_cases store_stepE: "store_step st st'"

definition empty_store :: store where
  "empty_store = \<lparr>st_index = [], st_torrents = [], st_titles = []\<rparr>"

lemma store_step_wf: "store_step st st' \<Longrightarrow> store_wf st \<Longrightarrow> store_wf st'"
  by (erule store_stepE)
     (simp_all add: save_torrent_wf ensure_torrent_index_wf update_torrent_save_path_wf
       update_torrent_status_wf)

lemma reachable_store_wf: "store_step\<^sup>*\<^sup>* empty_store st \<Longrightarrow> store_wf st"
proof (induction rule: rtranclp_induct)
  case base
  show ?case by (simp add: empty_store_def store_wf_def)
next
  case (step y z)
  then show ?case using store_step_wf by blast
qed


text \<open>The join shows every row with each of its owners.\<close>

lemma joined_iff:
  "(r, i) \<in> set (joined st) \<longleftrightarrow> r \<in> set (st_torrents st) \<and> indexed st i (s_hash r)"
  by (auto simp: joined_def indexed_iff)

lemma first_rows_sub: "set (first_rows seen rows) \<subseteq> set rows"
  by (induction rows arbitrary: seen) (fastforce simp: Let_def split: if_splits)+

lemma first_rows_keys:
  "distinct (map (\<lambda>(r, i). py_lower (py_strip (s_hash r))) (first_rows seen rows))
   \<and> (\<forall>(r, i) \<in> set (first_rows seen rows). py_lower (py_strip (s_hash r)) \<notin> seen)"
proof (induction rows arbitrary: seen)
  case (Cons x rows)
  obtain r i where x: "x = (r, i)" by (cases x)
  show ?case using Cons.IH [of seen] Cons.IH [of "insert (py_lower (py_strip (s_hash r))) seen"]
    by (force simp: x Let_def)
qed simp

lemma first_rows_all:
  "(r, i) \<in> set rows \<Longrightarrow> py_strip (s_hash r) \<noteq> [] \<Longrightarrow> py_lower (py_strip (s_hash r)) \<notin> seen \<Longrightarrow>
   \<exists>(r', i') \<in> set (first_rows seen rows).
     py_lower (py_strip (s_hash r')) = py_lower (py_strip (s_hash r))"
proof (induction rows arbitrary: seen)
  case (Cons x rows)
  obtain r0 i0 where x: "x = (r0, i0)" by (cases x)
  show ?case
  proof (cases "py_lower (py_strip (s_hash r0)) = py_lower (py_strip (s_hash r))")
    case True
    then have "py_strip (s_hash r0) \<noteq> []" using Cons.prems(2) by (auto simp: py_lower_def)
    then show ?thesis using Cons.prems(3) True by (auto simp: x Let_def)
  next
    case False
    then show ?thesis using Cons by (fastforce simp: x Let_def)
  qed
qed simp

lemma canonical_fixed_point:
  assumes "canonicalize_infohash (Some h) = Some h"
  shows "py_strip h = h" and "py_lower h = h" and "h \<noteq> []"
proof -
  show "h \<noteq> []" by (rule canonicalize_fixed(2) [OF assms])
  show "py_strip h = h"
    by (rule canonical_cases [OF assms]) (metis or_empty_simps(2) py_strip_idem py_strip_lower, metis hexlify_fixed(2) py_lower_idem py_strip_lower py_strip_idem)
  show "py_lower h = h"
    by (rule canonical_cases [OF assms]) (metis py_lower_idem, metis hexlify_fixed(2) py_lower_idem)
qed

lemma sql_lower_canonical:
  assumes "canonicalize_infohash (Some a) = Some a" and "canonicalize_infohash (Some b) = Some b"
    and "sql_lower a = sql_lower b"
  shows "a = b"
proof -
  have id: "sql_lower s = s" if "canonicalize_infohash (Some s) = Some s" for s
  proof -
    have "map py_lower_char s = s" using canonical_fixed_point(2) [OF that] by (simp add: py_lower_def)
    then have fixed: "\<forall>c \<in> set s. py_lower_char c = c" using map_eq_conv [of py_lower_char s id] by simp
    have "(let n = (of_char c :: nat) in if 65 \<le> n \<and> n \<le> 90 then char_of (n + 32) else c) = c"
      if "c \<in> set s" for c
    proof (cases "65 \<le> (of_char c :: nat) \<and> (of_char c :: nat) \<le> 90")
      case True
      then have low: "py_lower_char c = char_of ((of_char c :: nat) + 32)" by (simp add: py_lower_char_def Let_def)
      have "char_of ((of_char c :: nat) + 32) = c" by (rule trans [OF low [symmetric] bspec [OF fixed that]])
      then show ?thesis unfolding Let_def if_P [OF True] .
    next
      case False
      then show ?thesis unfolding Let_def by (rule if_not_P)
    qed
    then show ?thesis unfolding sql_lower_def by (rule map_idI)
  qed
  show ?thesis by (rule trans [OF trans [OF id [OF assms(1), symmetric] assms(3)] id [OF assms(2)]])
qed

lemma strip_somes [simp]: "truthy None = False"
  by (simp add: truthy_def)


section \<open>Saved torrents are found\<close>

lemma find_row:
  assumes "distinct (map s_hash rows)" and "r \<in> set rows"
  shows "find (\<lambda>r'. s_hash r' = s_hash r) rows = Some r"
  using assms
proof (induction rows)
  case (Cons x rows)
  then show ?case by (cases "s_hash x = s_hash r") (auto simp: image_iff)
qed simp

lemma wf_distinct: "store_wf st \<Longrightarrow> distinct (map s_hash (st_torrents st))"
  using distinct_map [of sql_lower "map s_hash (st_torrents st)"] by (simp add: store_wf_def comp_def)

lemma list_anime_iff:
  "row \<in> set (list_torrents_for_anime st a) \<longleftrightarrow>
     (\<exists>r \<in> set (st_torrents st). indexed st a (s_hash r) \<and> py_strip (s_hash r) \<noteq> []
        \<and> row = \<lparr>i_hash = Some (py_strip (s_hash r)),
                 i_status = map_option (\<lambda>s. py_lower (py_strip s)) (s_status r),
                 i_name = s_name r, i_save_path = strip_some (s_path r), i_anime = None\<rparr>)"
  by (force simp: list_torrents_for_anime_def joined_iff)

text \<open>
  A saved torrent is found again: after \<open>save_torrent\<close> of a torrent with a hash, its canonical
  hash is listed for the anime with the folder it was given, counted for it, and no other torrent's
  row or anime is touched.
\<close>
lemma saved_torrent_is_listed:
  assumes "store_wf st" and "canonicalize_infohash (tr_hash t) = Some h" and "path \<noteq> []"
    and "save_torrent st a t (Some path) source = (st', r)"
  shows "r = Inr ()
    \<and> (\<exists>row \<in> set (list_torrents_for_anime st' a).
         i_hash row = Some h \<and> i_save_path row = Some (py_strip path))
    \<and> 0 < count_torrent_index_for_anime st' a
    \<and> filter (\<lambda>x. \<not> same_hash (s_hash x) h) (st_torrents st')
      = filter (\<lambda>x. \<not> same_hash (s_hash x) h) (st_torrents st)
    \<and> filter (\<lambda>(i, v). i \<noteq> a) (st_index st') = filter (\<lambda>(i, v). i \<noteq> a) (st_index st)"
proof -
  have canon: "canonicalize_infohash (Some h) = Some h" by (rule canonicalize_fixed(1) [OF assms(2)])
  note fixed = canonical_fixed_point [OF canon]
  have tp: "truthy (Some path)" using assms(3) by (simp add: truthy_def)
  let ?st1 = "add_index a h st"
  have ix: "indexed ?st1 a h" by (auto simp: indexed_iff)
  have st': "r = Inr ()" "st_index st' = st_index ?st1"
    using assms(4) assms(2) tp by (auto simp: save_torrent_def Let_def split: if_splits)
  have "\<exists>x \<in> set (st_torrents st'). s_hash x = h \<and> s_path x = Some path"
  proof (cases "known st h")
    case True
    then obtain x where x: "x \<in> set (st_torrents st)" "same_hash (s_hash x) h" by (auto simp: known_iff)
    let ?f = "\<lambda>r. if clean_source source = None then r\<lparr>s_path := Some path\<rparr>
      else r\<lparr>s_path := Some path, s_source := clean_source source\<rparr>"
    have f: "st_torrents st' = map (\<lambda>r. if same_hash (s_hash r) h then ?f r else r) (st_torrents st)"
      using assms(4) assms(2) True tp
      by (cases "clean_source source = None") (auto simp: save_torrent_def Let_def)
    have "canonicalize_infohash (Some (s_hash x)) = Some (s_hash x)"
      using assms(1) x(1) by (simp add: store_wf_def)
    then have "s_hash x = h" using x(2) sql_lower_canonical canon by (metis same_hash_def)
    then show ?thesis using x f by (intro bexI [of _ "?f x"]) (auto simp: image_iff intro!: bexI [of _ x])
  next
    case False
    then show ?thesis using assms(4) assms(2) by (auto simp: save_torrent_def Let_def)
  qed
  then obtain x where x: "x \<in> set (st_torrents st')" "s_hash x = h" "s_path x = Some path" by blast
  have "indexed st' a h" using ix st'(2) by (simp add: indexed_def)
  then have listed: "\<exists>row \<in> set (list_torrents_for_anime st' a).
      i_hash row = Some h \<and> i_save_path row = Some (py_strip path)"
  proof -
    let ?row = "\<lparr>i_hash = Some (py_strip (s_hash x)),
      i_status = map_option (\<lambda>s. py_lower (py_strip s)) (s_status x), i_name = s_name x,
      i_save_path = strip_some (s_path x), i_anime = None\<rparr>"
    have "?row \<in> set (list_torrents_for_anime st' a)"
      unfolding list_anime_iff using x fixed \<open>indexed st' a h\<close> by (intro bexI [OF _ x(1)]) simp
    moreover have "i_hash ?row = Some h" "i_save_path ?row = Some (py_strip path)"
      using x fixed tp by (simp_all add: strip_some_def)
    ultimately show ?thesis by blast
  qed
  have count: "0 < count_torrent_index_for_anime st' a"
    using ix st'(2) by (auto simp: count_torrent_index_for_anime_def indexed_iff filter_empty_conv)
  have others: "filter (\<lambda>x. \<not> same_hash (s_hash x) h) (st_torrents st')
      = filter (\<lambda>x. \<not> same_hash (s_hash x) h) (st_torrents st)"
    using assms(4) assms(2)
    by (auto simp: save_torrent_def Let_def update_rows_others simp del: update_rows_simps split: if_splits)
  show ?thesis using st' listed count others by simp
qed

section \<open>The status of a torrent\<close>

text \<open>What a client of the status column relies on.\<close>

locale status_store =
  fixes get_status :: "'s \<Rightarrow> string \<Rightarrow> string option"
    and set_status :: "'s \<Rightarrow> string \<Rightarrow> string option \<Rightarrow> 's"
    and has_row :: "'s \<Rightarrow> string \<Rightarrow> bool"
  assumes get_set_same: "has_row s h \<Longrightarrow> get_status (set_status s h (Some v)) h
      = (if py_strip v = [] then None else Some (py_lower (py_strip v)))"
    and get_set_none: "has_row s h \<Longrightarrow> get_status (set_status s h None) h = None"
    and get_set_other: "h \<noteq> h' \<Longrightarrow> get_status (set_status s h w) h' = get_status s h'"
    and set_absent: "\<not> has_row s h \<Longrightarrow> set_status s h w = s"
    and has_row_set: "has_row (set_status s h w) h' = has_row s h'"
begin

text \<open>Marking a finished torrent, the way the download manager does.\<close>

definition mark_complete :: "'s \<Rightarrow> string \<Rightarrow> 's" where
  "mark_complete s h =
     (if py_lower (or_empty (get_status s h)) \<in> {''complete'', ''deleted''} then s
      else set_status s h (Some ''complete''))"

lemma mark_complete_status:
  "has_row s h \<Longrightarrow> get_status (mark_complete s h) h =
     (if py_lower (or_empty (get_status s h)) = ''deleted'' then get_status s h
      else if py_lower (or_empty (get_status s h)) = ''complete'' then get_status s h
      else Some ''complete'')"
proof -
  have "py_strip ''complete'' = ''complete''" and "py_lower ''complete'' = ''complete''" by code_simp+
  then show "has_row s h \<Longrightarrow> ?thesis" by (simp add: mark_complete_def get_set_same)
qed

lemma mark_complete_other: "h \<noteq> h' \<Longrightarrow> get_status (mark_complete s h) h' = get_status s h'"
  by (simp add: mark_complete_def get_set_other)

lemma mark_complete_has_row [simp]: "has_row (mark_complete s h) h' = has_row s h'"
  by (simp add: mark_complete_def has_row_set)

lemma mark_complete_idem: "mark_complete (mark_complete s h) h = mark_complete s h"
proof (cases "has_row s h")
  case True
  have "py_lower ''complete'' = ''complete''" by code_simp
  then have "py_lower (or_empty (get_status (mark_complete s h) h)) \<in> {''complete'', ''deleted''}"
    using mark_complete_status [OF True] by simp
  then show ?thesis by (simp add: mark_complete_def [of "mark_complete s h"])
next
  case False
  then show ?thesis by (simp add: mark_complete_def set_absent)
qed

lemma mark_all_keeps_deleted:
  "has_row s h \<Longrightarrow> py_lower (or_empty (get_status s h)) = ''deleted'' \<Longrightarrow>
   get_status (fold (\<lambda>h s. mark_complete s h) hs s) h = get_status s h"
proof (induction hs arbitrary: s)
  case (Cons h0 hs)
  then have "get_status (mark_complete s h0) h = get_status s h"
    by (cases "h0 = h") (simp_all add: mark_complete_def get_set_other)
  then show ?case using Cons by simp
qed simp

end

definition has_torrent :: "store \<Rightarrow> string \<Rightarrow> bool" where
  "has_torrent st h \<longleftrightarrow> h \<noteq> [] \<and> (\<exists>r \<in> set (st_torrents st). s_hash r = h)"

lemma has_torrent_iff: "has_torrent st h \<longleftrightarrow> h \<noteq> [] \<and> h \<in> set (map s_hash (st_torrents st))"
  by (auto simp: has_torrent_def)

lemma status_hashes:
  "map s_hash (st_torrents (update_torrent_status st h w)) = map s_hash (st_torrents st)"
  by (simp add: update_torrent_status_def Let_def)

lemma find_map_same:
  "(\<exists>r \<in> set rows. s_hash r = h) \<Longrightarrow>
   find (\<lambda>r. s_hash r = h) (map (\<lambda>r. if s_hash r = h then r\<lparr>s_status := v\<rparr> else r) rows)
     = map_option (\<lambda>r. r\<lparr>s_status := v\<rparr>) (find (\<lambda>r. s_hash r = h) rows)"
  by (induction rows) auto

lemma find_map_other:
  "h \<noteq> h' \<Longrightarrow>
   find (\<lambda>r. s_hash r = h') (map (\<lambda>r. if s_hash r = h then r\<lparr>s_status := v\<rparr> else r) rows)
     = find (\<lambda>r. s_hash r = h') rows"
  by (induction rows) auto

lemma find_some: "(\<exists>r \<in> set rows. P r) \<Longrightarrow> \<exists>r. find P rows = Some r"
  by (induction rows) auto

interpretation st: status_store get_torrent_status update_torrent_status has_torrent
proof
  fix s :: store and h h' v
  show "get_torrent_status (update_torrent_status s h (Some v)) h
      = (if py_strip v = [] then None else Some (py_lower (py_strip v)))" if "has_torrent s h"
    using that find_some [of "st_torrents s" "\<lambda>r. s_hash r = h"]
    by (auto simp: has_torrent_def get_torrent_status_def update_torrent_status_def list_ex_iff
        find_map_same Let_def py_strip_lower)
  show "get_torrent_status (update_torrent_status s h None) h = None" if "has_torrent s h"
    using that find_some [of "st_torrents s" "\<lambda>r. s_hash r = h"]
    by (auto simp: has_torrent_def get_torrent_status_def update_torrent_status_def list_ex_iff
        find_map_same Let_def)
  show "get_torrent_status (update_torrent_status s h w) h' = get_torrent_status s h'" if "h \<noteq> h'" for w
    using that by (simp add: get_torrent_status_def update_torrent_status_def find_map_other Let_def)
  show "update_torrent_status s h w = s" if "\<not> has_torrent s h" for w
    using that by (auto simp: has_torrent_def update_torrent_status_def list_ex_iff Let_def)
  show "has_torrent (update_torrent_status s h w) h' = has_torrent s h'" for w
    using status_hashes [of s h w] by (simp add: has_torrent_iff)
qed

text \<open>
  Statuses are kept per torrent: writing a status of a stored hash is read back trimmed and in
  lower case (a blank one as none), writing any other hash changes nothing, no status of another
  hash changes, and marking a torrent complete twice is marking it once and never undoes a
  deletion.
\<close>
lemma status_roundtrip:
  assumes "has_torrent st h"
  shows "get_torrent_status (update_torrent_status st h (Some v)) h
      = (if py_strip v = [] then None else Some (py_lower (py_strip v)))
    \<and> (\<forall>h'. h' \<noteq> h \<longrightarrow>
         get_torrent_status (update_torrent_status st h (Some v)) h' = get_torrent_status st h')
    \<and> (\<forall>h'. \<not> has_torrent st h' \<longrightarrow> update_torrent_status st h' (Some v) = st)
    \<and> update_torrent_status (update_torrent_status st h (Some v)) h (Some v)
      = update_torrent_status st h (Some v)"
proof -
  have "update_torrent_status (update_torrent_status st h (Some v)) h (Some v)
      = update_torrent_status st h (Some v)"
  proof -
    have "map (\<lambda>r. if s_hash r = h then r\<lparr>s_status := x\<rparr> else r)
        (map (\<lambda>r. if s_hash r = h then r\<lparr>s_status := x\<rparr> else r) rows)
        = map (\<lambda>r. if s_hash r = h then r\<lparr>s_status := x\<rparr> else r) rows" for x rows
      by (induction rows) auto
    moreover have "list_ex (\<lambda>r. s_hash r = h) (map (\<lambda>r. if s_hash r = h then r\<lparr>s_status := x\<rparr> else r) rows)
        = list_ex (\<lambda>r. s_hash r = h) rows" for x rows
      by (induction rows) auto
    ultimately show ?thesis by (simp add: update_torrent_status_def Let_def)
  qed
  then show ?thesis
    using st.get_set_same [OF assms, of v] st.get_set_other [of h] st.set_absent by (auto simp del: not_None_eq)
qed

text \<open>
  Statuses are looked up by the exact spelling of the hash, unlike every other query: for a
  stored hash that differs from the given one only in case, the folder is updated but the status
  is neither found nor changed.
\<close>
lemma status_ignores_case_variants:
  assumes "known st h" and "\<not> has_torrent st h" and "h \<noteq> []" and "path \<noteq> []"
  shows "update_torrent_status st h status = st \<and> get_torrent_status st h = None
    \<and> (\<exists>r \<in> set (st_torrents (update_torrent_save_path st h path)). s_path r = Some path)"
proof -
  have "update_torrent_status st h status = st" by (rule st.set_absent [OF assms(2)])
  moreover have "get_torrent_status st h = None"
  proof -
    have "find (\<lambda>r. s_hash r = h) (st_torrents st) = None"
      unfolding find_None_iff using assms(2,3) by (auto simp: has_torrent_def)
    then show ?thesis by (simp add: get_torrent_status_def)
  qed
  moreover obtain r where "r \<in> set (st_torrents st)" "same_hash (s_hash r) h"
    using assms(1) by (auto simp: known_iff)
  then have "\<exists>r \<in> set (st_torrents (update_torrent_save_path st h path)). s_path r = Some path"
    using assms by (intro bexI [of _ "r\<lparr>s_path := Some path\<rparr>"])
      (force simp: update_torrent_save_path_def)+
  ultimately show ?thesis by blast
qed

section \<open>Examples\<close>

definition sample_torrent :: Torrent where
  "sample_torrent = \<lparr>tr_hash = Some ''AB12'', tr_name = Some ''S'', tr_trackers = None, tr_size = None,
     tr_path = None\<rparr>"

definition sample_store :: store where
  "sample_store = fst (save_torrent empty_store 7 sample_torrent (Some ''/a'') (Some ''auto''))"

lemma sample_store_simps:
  "sample_store = \<lparr>st_index = [(7, ''ab12'')],
     st_torrents = [\<lparr>s_hash = ''ab12'', s_name = Some ''S'', s_trackers = [], s_path = Some ''/a'',
                     s_status = None, s_source = Some ''auto''\<rparr>], st_titles = []\<rparr>"
  by code_simp


lemma saved_torrent_is_listed_witness:
  "0 < count_torrent_index_for_anime sample_store 7"
proof -
  have "store_wf empty_store" "canonicalize_infohash (tr_hash sample_torrent) = Some ''ab12''"
    by (simp add: store_wf_def empty_store_def, code_simp)
  moreover have "save_torrent empty_store 7 sample_torrent (Some ''/a'') (Some ''auto'') = (sample_store, Inr ())"
    by code_simp
  ultimately show ?thesis using saved_torrent_is_listed [of empty_store sample_torrent "''ab12''" "''/a''"] by blast
qed

lemma status_roundtrip_witness:
  "get_torrent_status (update_torrent_status sample_store ''ab12'' (Some '' Complete '')) ''ab12''
     = Some ''complete''"
proof -
  have "has_torrent sample_store ''ab12''" by (simp add: sample_store_simps has_torrent_def)
  moreover have "py_strip '' Complete '' = ''Complete''" "py_lower ''Complete'' = ''complete''"
    by code_simp+
  ultimately show ?thesis using status_roundtrip [of sample_store "''ab12''" "'' Complete ''"] by simp
qed

definition legacy_store :: store where
  "legacy_store = sample_store\<lparr>st_torrents := map (\<lambda>r. r\<lparr>s_hash := ''AB12''\<rparr>) (st_torrents sample_store)\<rparr>"

lemma status_ignores_case_variants_witness:
  "get_torrent_status legacy_store ''ab12'' = None"
proof -
  have "known legacy_store ''ab12''" "\<not> has_torrent legacy_store ''ab12''" by code_simp+
  then show ?thesis using status_ignores_case_variants [of legacy_store "''ab12''" "''/a''"] by simp
qed

end
