(* ===== verification/DownloadBase.thy ===== *)
theory DownloadBase
  imports TorrentStore
begin

text \<open>
  The download manager (\<open>application/services/download_manager.py\<close>), first part: the state it
  keeps, the services it calls, and enqueueing, cancelling and deleting downloads.  The torrent
  client and the database manager are records of operations over states of their own, each
  returning a result or the exception it raises; an optional operation stands for the methods the
  source looks up with \<open>getattr\<close> and skips when absent.  Numbers the client reports are
  rationals, so divisions and products are exact where the program rounds to doubles.
\<close>

section \<open>The services\<close>

text \<open>A row of the client's list; a field the adapter leaves out is \<open>None\<close>.\<close>

record live_row =
  r_hash :: "string option"
  r_name :: "string option"
  r_state :: "string option"
  r_path :: "string option"
  r_progress :: "rat option"
  r_size :: "rat option"
  r_downloaded :: "rat option"
  r_dl_speed :: "rat option"
  r_up_speed :: "rat option"
  r_upload_rate :: "rat option"
  r_eta :: "rat option"

record 'c client =
  c_list :: "'c \<Rightarrow> string list option \<Rightarrow> live_row option list res"
  c_add :: "'c \<Rightarrow> string \<Rightarrow> string \<Rightarrow> 'c \<times> live_row list res"
  c_move :: "'c \<Rightarrow> string \<Rightarrow> string list \<Rightarrow> 'c \<times> unit res"
  c_delete :: "('c \<Rightarrow> string \<Rightarrow> bool option \<Rightarrow> 'c \<times> unit res) option"
  c_pause :: "('c \<Rightarrow> string list \<Rightarrow> 'c \<times> bool option res) option"
  c_resume :: "('c \<Rightarrow> string list \<Rightarrow> 'c \<times> bool option res) option"
  c_prioritize :: "('c \<Rightarrow> string list \<Rightarrow> 'c \<times> bool option res) option"
  c_list_files :: "('c \<Rightarrow> string \<Rightarrow> string list res) option"
  c_is_restored :: "('c \<Rightarrow> bool) option"
  c_restored_flag :: "'c \<Rightarrow> bool"
  c_ensure_restored :: "('c \<Rightarrow> 'c \<times> unit res) option"

record 'd database =
  d_status :: "('d \<Rightarrow> string \<Rightarrow> string option res) option"
  d_set_status :: "('d \<Rightarrow> string \<Rightarrow> string option \<Rightarrow> 'd \<times> unit res) option"
  d_list_anime :: "('d \<Rightarrow> int \<Rightarrow> index_row list res) option"
  d_list_reconcile :: "('d \<Rightarrow> index_row list res) option"
  d_list_restore :: "('d \<Rightarrow> index_row list res) option"
  d_ids_by_hashes :: "('d \<Rightarrow> string list \<Rightarrow> (string \<times> int) list res) option"
  d_titles :: "('d \<Rightarrow> int list \<Rightarrow> (int \<times> string) list res) option"
  d_torrent_data :: "'d \<Rightarrow> string \<Rightarrow> (string option \<times> string list) option res"
  d_save :: "'d \<Rightarrow> int \<Rightarrow> Torrent \<Rightarrow> string option \<Rightarrow> string option \<Rightarrow> 'd \<times> unit res"
  d_ensure_index ::
    "('d \<Rightarrow> int \<Rightarrow> string \<Rightarrow> string option \<Rightarrow> string option \<Rightarrow> string list option \<Rightarrow> 'd \<times> unit res) option"
  d_set_path :: "'d \<Rightarrow> string \<Rightarrow> string \<Rightarrow> 'd \<times> unit res"
  d_title :: "'d \<Rightarrow> int \<Rightarrow> string option res"

section \<open>State\<close>

record DownloadTask =
  t_anime :: int
  t_url :: "string option"
  t_hash :: "string option"
  t_user :: "int option"
  t_source :: "string option"
  t_statuses :: "bool list"
  t_cancelled :: bool
  t_state :: "string option"
  t_name :: "string option"
  t_progress :: "rat option"
  t_size :: "int option"
  t_downloaded :: "int option"
  t_dl_speed :: "rat option"
  t_eta :: "int option"
  t_path :: "string option"

definition new_task ::
  "int \<Rightarrow> string option \<Rightarrow> string option \<Rightarrow> int option \<Rightarrow> string option \<Rightarrow> DownloadTask" where
  "new_task anime_id url hash_value user_id source =
     (let clean_source = py_lower (py_strip (or_empty source))
      in \<lparr>t_anime = anime_id, t_url = url, t_hash = hash_value, t_user = user_id,
          t_source = (if clean_source \<in> {''manual'', ''auto''} then Some clean_source else None),
          t_statuses = [], t_cancelled = False, t_state = None, t_name = None, t_progress = None,
          t_size = None, t_downloaded = None, t_dl_speed = None, t_eta = None, t_path = None\<rparr>)"

definition task_cancel :: "DownloadTask \<Rightarrow> DownloadTask" where
  "task_cancel t = t\<lparr>t_cancelled := True, t_state := Some ''CANCELLED''\<rparr>"

definition put_status :: "bool \<Rightarrow> DownloadTask \<Rightarrow> DownloadTask" where
  "put_status b t = t\<lparr>t_statuses := t_statuses t @ [b]\<rparr>"

text \<open>
  Tasks are shared objects: they live in \<open>dm_tasks\<close>, and the queue, the executor's backlog and
  the map of active downloads (in insertion order) hold their positions.
\<close>

record ('c, 'd) dm =
  dm_tasks :: "DownloadTask list"
  dm_active :: "(int \<times> nat) list"
  dm_queue :: "nat list"
  dm_submitted :: "nat list"
  dm_queued :: "string set"
  dm_cancelled :: "string set"
  dm_executor :: bool
  dm_stopping :: bool
  dm_last_refresh :: rat
  dm_client :: 'c
  dm_db :: 'd

text \<open>What the manager is wired to.\<close>

record ('c, 'd) wiring =
  w_client :: "'c client option"
  w_db :: "'d database option"

definition task_at :: "('c, 'd) dm \<Rightarrow> nat \<Rightarrow> DownloadTask" where
  "task_at s i = dm_tasks s ! i"

definition on_task :: "nat \<Rightarrow> (DownloadTask \<Rightarrow> DownloadTask) \<Rightarrow> ('c, 'd) dm \<Rightarrow> ('c, 'd) dm" where
  "on_task i f s = s\<lparr>dm_tasks := (dm_tasks s)[i := f (dm_tasks s ! i)]\<rparr>"

definition on_tasks :: "nat list \<Rightarrow> (DownloadTask \<Rightarrow> DownloadTask) \<Rightarrow> ('c, 'd) dm \<Rightarrow> ('c, 'd) dm" where
  "on_tasks is f s = fold (\<lambda>i. on_task i f) is s"

definition drop_key :: "'k \<Rightarrow> ('k \<times> 'v) list \<Rightarrow> ('k \<times> 'v) list" where
  "drop_key k m = filter (\<lambda>(k', v). k' \<noteq> k) m"

text \<open>\<open>d[k] = v\<close>: a new key goes last, an old one keeps its place.\<close>

definition put_key :: "'k \<Rightarrow> 'v \<Rightarrow> ('k \<times> 'v) list \<Rightarrow> ('k \<times> 'v) list" where
  "put_key k v m =
     (if k \<in> fst ` set m then map (\<lambda>(k', w). (k', if k' = k then v else w)) m else m @ [(k, v)])"

text \<open>\<open>_normalize_infohash(task.hash_value)\<close>.\<close>

definition task_key :: "DownloadTask \<Rightarrow> string option" where
  "task_key t = canonicalize_infohash (t_hash t)"

section \<open>Looking at the client and the database\<close>

definition row_hash :: "live_row option \<Rightarrow> string option" where
  "row_hash row = (case row of None \<Rightarrow> None | Some r \<Rightarrow> r_hash r)"

record live_info =
  l_state :: "string option"
  l_progress :: "rat option"
  l_path :: "string option"

definition live_info_of :: "live_row option \<Rightarrow> live_info" where
  "live_info_of row =
     (case row of
        None \<Rightarrow> \<lparr>l_state = None, l_progress = None, l_path = None\<rparr>
      | Some r \<Rightarrow> \<lparr>l_state = r_state r, l_progress = r_progress r, l_path = r_path r\<rparr>)"

definition lookup_live_torrent :: "('c, 'd) wiring \<Rightarrow> ('c, 'd) dm \<Rightarrow> string \<Rightarrow> live_info option" where
  "lookup_live_torrent w s hash_value =
     (case w_client w of
        None \<Rightarrow> None
      | Some tm \<Rightarrow>
          if hash_value = [] then None
          else let rows = (case c_list tm (dm_client s) (Some [hash_value]) of
                             Inr rows \<Rightarrow> rows
                           | Inl (TypeError _) \<Rightarrow>
                               (case c_list tm (dm_client s) None of
                                  Inl _ \<Rightarrow> []
                                | Inr rows \<Rightarrow>
                                    filter (\<lambda>row. py_lower (or_empty (row_hash row)) = py_lower hash_value)
                                      rows)
                           | Inl _ \<Rightarrow> [])
               in (case rows of [] \<Rightarrow> None | row # _ \<Rightarrow> Some (live_info_of row)))"

definition active_keys :: "('c, 'd) dm \<Rightarrow> string set" where
  "active_keys s = set (List.map_filter (\<lambda>(a, i). task_key (task_at s i)) (dm_active s))"

definition duplicate_download_reason ::
  "('c, 'd) wiring \<Rightarrow> ('c, 'd) dm \<Rightarrow> string \<Rightarrow> bool \<Rightarrow> string option" where
  "duplicate_download_reason w s hash_value ignore_index =
     (case canonicalize_infohash (Some hash_value) of
        None \<Rightarrow> None
      | Some key \<Rightarrow>
          if key \<in> dm_queued s then Some ''already queued''
          else if key \<in> active_keys s then Some ''already active''
          else if lookup_live_torrent w s key \<noteq> None then Some ''already in torrent client''
          else if ignore_index then None
          else case w_db w of
                 None \<Rightarrow> None
               | Some db \<Rightarrow>
                   let status = (case d_status db of
                                   None \<Rightarrow> None
                                 | Some getter \<Rightarrow>
                                     (case getter (dm_db s) key of
                                        Inl _ \<Rightarrow> None
                                      | Inr raw \<Rightarrow> map_option (\<lambda>r. py_lower (py_strip r)) raw))
                   in if status = Some ''deleted'' then None
                      else if status = Some ''complete'' then Some ''already complete''
                      else None)"

definition clear_deleted_status_for_redownload ::
  "('c, 'd) wiring \<Rightarrow> ('c, 'd) dm \<Rightarrow> string option \<Rightarrow> ('c, 'd) dm \<times> bool" where
  "clear_deleted_status_for_redownload w s hash_value =
     (if or_empty hash_value = [] then (s, False)
      else case w_db w of
             None \<Rightarrow> (s, False)
           | Some db \<Rightarrow>
               (case (d_status db, d_set_status db) of
                  (Some getter, Some updater) \<Rightarrow>
                    (case getter (dm_db s) (or_empty hash_value) of
                       Inl _ \<Rightarrow> (s, False)
                     | Inr status \<Rightarrow>
                         if py_lower (or_empty status) = ''deleted''
                         then let (db', r) = updater (dm_db s) (or_empty hash_value) None
                              in (s\<lparr>dm_db := db'\<rparr>, is_ok r)
                         else (s, False))
                | _ \<Rightarrow> (s, False)))"

section \<open>Enqueueing\<close>

record DownloadEnqueueResult =
  started :: bool
  skipped :: bool
  reason :: "string option"
  status_queue :: "nat option"

definition refused :: "bool \<Rightarrow> string \<Rightarrow> DownloadEnqueueResult" where
  "refused skip why = \<lparr>started = False, skipped = skip, reason = Some why, status_queue = None\<rparr>"

definition enqueue_download ::
  "('c, 'd) wiring \<Rightarrow> ('c, 'd) dm \<Rightarrow> int \<Rightarrow> string option \<Rightarrow> string option \<Rightarrow> int option \<Rightarrow>
   string option \<Rightarrow> ('c, 'd) dm \<times> DownloadEnqueueResult" where
  "enqueue_download w s anime_id url hash_value user_id source =
     (if or_empty url = [] \<and> or_empty hash_value = [] then (s, refused False ''no url or hash'')
      else
      let resolved = resolve_download_hash url hash_value;
          hash' = (case resolved of None \<Rightarrow> hash_value | Some h \<Rightarrow> Some h);
          (s1, cleared) = clear_deleted_status_for_redownload w s hash'
      in case (case resolved of None \<Rightarrow> None | Some h \<Rightarrow> duplicate_download_reason w s1 h cleared) of
           Some why \<Rightarrow> (s1, refused True why)
         | None \<Rightarrow>
             let i = length (dm_tasks s1);
                 task = new_task anime_id url hash' user_id source;
                 queue_it = (\<lambda>s. s\<lparr>dm_tasks := dm_tasks s @ [task], dm_queue := dm_queue s @ [i]\<rparr>);
                 ok = \<lparr>started = True, skipped = False, reason = None, status_queue = Some i\<rparr>
             in case resolved of
                  None \<Rightarrow> (queue_it s1, ok)
                | Some h \<Rightarrow>
                    if h \<in> dm_queued s1 then (s1, refused True ''already queued'')
                    else (queue_it (s1\<lparr>dm_cancelled := dm_cancelled s1 - {h},
                                      dm_queued := insert h (dm_queued s1)\<rparr>), ok))"

definition download_file ::
  "('c, 'd) wiring \<Rightarrow> ('c, 'd) dm \<Rightarrow> int \<Rightarrow> string option \<Rightarrow> string option \<Rightarrow> int option \<Rightarrow>
   string option \<Rightarrow> ('c, 'd) dm \<times> nat option" where
  "download_file w s anime_id url hash_value user_id source =
     (let (s', r) = enqueue_download w s anime_id url hash_value user_id source
      in (s', if started r then status_queue r else None))"

definition redownload :: "('c, 'd) dm \<Rightarrow> int \<Rightarrow> ('c, 'd) dm \<times> int" where
  "redownload s anime_id = (s, 0)"

section \<open>Cancelling and deleting\<close>

definition cancel_in_flight_hash_locked :: "('c, 'd) dm \<Rightarrow> string \<Rightarrow> ('c, 'd) dm \<times> bool" where
  "cancel_in_flight_hash_locked s key =
     (let was_queued = key \<in> dm_queued s; was_cancelled = key \<in> dm_cancelled s
      in (s\<lparr>dm_queued := dm_queued s - {key}, dm_cancelled := insert key (dm_cancelled s)\<rparr>,
          was_queued \<or> \<not> was_cancelled))"

definition cancel_in_flight_for_hash ::
  "('c, 'd) dm \<Rightarrow> string option \<Rightarrow> ('c, 'd) dm \<times> bool" where
  "cancel_in_flight_for_hash s hash_value =
     (case canonicalize_infohash hash_value of
        None \<Rightarrow> (s, False)
      | Some key \<Rightarrow>
          let (s1, cancelled) = cancel_in_flight_hash_locked s key;
              hits = filter (\<lambda>(a, i). task_key (task_at s1 i) = Some key) (dm_active s1);
              s2 = on_tasks (map snd hits) task_cancel s1
          in (s2\<lparr>dm_active := filter (\<lambda>(a, i). a \<notin> fst ` set hits) (dm_active s2)\<rparr>,
              cancelled \<or> hits \<noteq> []))"

definition remove_torrent_from_client ::
  "('c, 'd) wiring \<Rightarrow> bool \<Rightarrow> string \<Rightarrow> ('c, 'd) dm \<Rightarrow> ('c, 'd) dm" where
  "remove_torrent_from_client w delete_files hash_value s =
     (case w_client w of
        None \<Rightarrow> s
      | Some tm \<Rightarrow>
          if hash_value = [] then s
          else case c_delete tm of
                 None \<Rightarrow> s
               | Some deleter \<Rightarrow>
                   (case deleter (dm_client s) hash_value (Some delete_files) of
                      (cl, Inl (TypeError _)) \<Rightarrow>
                        s\<lparr>dm_client := fst (deleter cl hash_value None)\<rparr>
                    | (cl, _) \<Rightarrow> s\<lparr>dm_client := cl\<rparr>))"

definition remove_torrents_from_client ::
  "('c, 'd) wiring \<Rightarrow> bool \<Rightarrow> string list \<Rightarrow> ('c, 'd) dm \<Rightarrow> ('c, 'd) dm" where
  "remove_torrents_from_client w delete_files hashes s =
     fold (\<lambda>h s. if py_strip h = [] then s else remove_torrent_from_client w delete_files (py_strip h) s)
       hashes s"

definition ACTIVE_STATES :: "string list" where
  "ACTIVE_STATES =
     [''downloading'', ''downloading_metadata'', ''metadl'', ''queueddl'', ''stalleddl'', ''forceddl'',
      ''checkingdl'', ''checking'', ''checking_files'', ''checking_resume'', ''checking_resume_data'',
      ''allocating'', ''queued'', ''queued_for_checking'', ''pauseddl'']"

definition SEEDING_STATES :: "string list" where
  "SEEDING_STATES = [''seeding'', ''uploading'', ''stalledup'', ''queuedup'', ''forcedup'', ''checkingup'']"

definition COMPLETED_STATES :: "string list" where
  "COMPLETED_STATES = [''finished'', ''pausedup'', ''complete'', ''completed'']"

definition ERROR_STATES :: "string list" where
  "ERROR_STATES = [''error'', ''missingfiles'']"

datatype category = Active | Seeding | Completed | Error | Other

definition state_token :: "string option \<Rightarrow> string" where
  "state_token state =
     py_replace_char CHR '' '' CHR ''_'' (py_lower (py_strip (or_empty state)))"

definition normalise_category :: "string option \<Rightarrow> rat option \<Rightarrow> category" where
  "normalise_category state progress =
     (let token = state_token state
      in if token \<in> set ACTIVE_STATES then Active
         else if token \<in> set SEEDING_STATES then Seeding
         else if token \<in> set COMPLETED_STATES then Completed
         else if token \<in> set ERROR_STATES then Error
         else case progress of
                None \<Rightarrow> Other
              | Some p \<Rightarrow> if p \<ge> 999 / 1000 then Completed else if p > 0 then Active else Other)"

definition is_live_complete :: "string option \<Rightarrow> rat option \<Rightarrow> bool" where
  "is_live_complete state progress =
     (let token = state_token state
      in if token \<in> set COMPLETED_STATES \<or> token \<in> set SEEDING_STATES then True
         else case progress of None \<Rightarrow> False | Some p \<Rightarrow> p \<ge> 999 / 1000)"

text \<open>The rows of an anime the lister returns; nothing when it is missing or raises.\<close>

definition anime_rows :: "('c, 'd) wiring \<Rightarrow> ('c, 'd) dm \<Rightarrow> int \<Rightarrow> index_row list" where
  "anime_rows w s anime_id =
     (case w_db w of
        None \<Rightarrow> []
      | Some db \<Rightarrow>
          (case d_list_anime db of
             None \<Rightarrow> []
           | Some lister \<Rightarrow> (case lister (dm_db s) anime_id of Inl _ \<Rightarrow> [] | Inr rows \<Rightarrow> rows)))"

definition row_key :: "index_row \<Rightarrow> string" where
  "row_key row = py_strip (or_empty (i_hash row))"

definition row_deleted :: "index_row \<Rightarrow> bool" where
  "row_deleted row = (py_lower (or_empty (i_status row)) = ''deleted'')"

definition live_hashes_for_anime :: "('c, 'd) wiring \<Rightarrow> ('c, 'd) dm \<Rightarrow> int \<Rightarrow> string list" where
  "live_hashes_for_anime w s anime_id =
     map row_key
       (filter (\<lambda>row. row_key row \<noteq> [] \<and> \<not> row_deleted row
                 \<and> (case lookup_live_torrent w s (row_key row) of
                      None \<Rightarrow> False
                    | Some live \<Rightarrow>
                        normalise_category (l_state live) (l_progress live) \<in> {Active, Error, Other}))
         (anime_rows w s anime_id))"

text \<open>Append the hashes not there yet, compared in lower case.\<close>

definition add_hashes :: "string list \<Rightarrow> string list \<Rightarrow> string list" where
  "add_hashes hs news =
     fold (\<lambda>h acc. if py_lower h \<in> py_lower ` set acc then acc else acc @ [h]) news hs"

definition cancel_download ::
  "('c, 'd) wiring \<Rightarrow> ('c, 'd) dm \<Rightarrow> int \<Rightarrow> ('c, 'd) dm \<times> bool" where
  "cancel_download w s anime_id =
     (let (s1, cancelled, hashes) =
            (case map_of (dm_active s) anime_id of
               None \<Rightarrow> (s, False, [])
             | Some i \<Rightarrow>
                 let s' = on_task i task_cancel (s\<lparr>dm_active := drop_key anime_id (dm_active s)\<rparr>)
                 in (case task_key (task_at s' i) of
                       None \<Rightarrow> (s', True, [])
                     | Some key \<Rightarrow> (fst (cancel_in_flight_hash_locked s' key), True, [key])));
          hashes' = add_hashes hashes (live_hashes_for_anime w s1 anime_id);
          s2 = (if hashes' = [] then s1 else remove_torrents_from_client w False hashes' s1)
      in (s2, cancelled \<or> hashes' \<noteq> []))"

definition cancel_download_by_hash ::
  "('c, 'd) wiring \<Rightarrow> ('c, 'd) dm \<Rightarrow> string option \<Rightarrow> ('c, 'd) dm \<times> bool" where
  "cancel_download_by_hash w s hash_value =
     (case canonicalize_infohash hash_value of
        None \<Rightarrow> (s, False)
      | Some key \<Rightarrow>
          let (s1, cancelled) = cancel_in_flight_for_hash s (Some key)
          in if lookup_live_torrent w s1 key \<noteq> None
             then (remove_torrent_from_client w False key s1, True)
             else (s1, cancelled))"

definition delete_anime_torrent ::
  "('c, 'd) wiring \<Rightarrow> ('c, 'd) dm \<Rightarrow> int \<Rightarrow> string option \<Rightarrow> ('c, 'd) dm \<times> bool" where
  "delete_anime_torrent w s anime_id hash_value =
     (let key = py_strip (or_empty hash_value)
      in if key = [] then (s, False)
         else case w_db w of
                None \<Rightarrow> (s, False)
              | Some db \<Rightarrow>
                  (case (d_list_anime db, d_set_status db) of
                     (Some lister, Some updater) \<Rightarrow>
                       (case find (\<lambda>row. row_key row \<noteq> [] \<and> py_lower (row_key row) = py_lower key)
                               (anime_rows w s anime_id) of
                          None \<Rightarrow> (s, False)
                        | Some row \<Rightarrow>
                            let key' = row_key row;
                                s1 = (case map_of (dm_active s) anime_id of
                                        None \<Rightarrow> s
                                      | Some i \<Rightarrow>
                                          let task_hash = py_strip (or_empty (t_hash (task_at s i)))
                                          in if task_hash \<noteq> [] \<and> py_lower task_hash = py_lower key'
                                             then fst (cancel_in_flight_for_hash s (Some key')) else s)
                            in if row_deleted row
                               then (remove_torrents_from_client w True [key'] s1, True)
                               else let (db', r) = updater (dm_db s1) key' (Some ''deleted'');
                                        s2 = s1\<lparr>dm_db := db'\<rparr>
                                    in if is_ok r then (remove_torrents_from_client w True [key'] s2, True)
                                       else (s2, False))
                   | _ \<Rightarrow> (s, False)))"

definition owner_of_hash :: "('c, 'd) wiring \<Rightarrow> ('c, 'd) dm \<Rightarrow> string \<Rightarrow> int option" where
  "owner_of_hash w s key =
     (case w_db w of
        None \<Rightarrow> None
      | Some db \<Rightarrow>
          (case d_ids_by_hashes db of
             None \<Rightarrow> None
           | Some getter \<Rightarrow>
               (case getter (dm_db s) [py_lower key] of
                  Inl _ \<Rightarrow> None
                | Inr mapping \<Rightarrow> map_of mapping (py_lower key))))"

definition delete_torrent_by_hash ::
  "('c, 'd) wiring \<Rightarrow> ('c, 'd) dm \<Rightarrow> string option \<Rightarrow> ('c, 'd) dm \<times> bool" where
  "delete_torrent_by_hash w s hash_value =
     (let key = py_strip (or_empty hash_value)
      in if key = [] then (s, False)
         else case owner_of_hash w s key of
                Some anime_id \<Rightarrow> delete_anime_torrent w s anime_id (Some key)
              | None \<Rightarrow>
                  let (s1, _) = cancel_in_flight_for_hash s
                        (Some (case canonicalize_infohash (Some key) of None \<Rightarrow> key | Some h \<Rightarrow> h))
                  in (remove_torrent_from_client w True key s1, True))"

text \<open>\<open>pause_torrent\<close>, \<open>resume_torrent\<close> and \<open>prioritize_torrent\<close> call one method with one hash;
  a manager that answers \<open>None\<close> counts as having done it.\<close>

definition client_toggle ::
  "('c client \<Rightarrow> ('c \<Rightarrow> string list \<Rightarrow> 'c \<times> bool option res) option) \<Rightarrow> ('c, 'd) wiring \<Rightarrow>
   ('c, 'd) dm \<Rightarrow> string option \<Rightarrow> ('c, 'd) dm \<times> bool" where
  "client_toggle sel w s hash_value =
     (let key = py_strip (or_empty hash_value)
      in if key = [] then (s, False)
         else case w_client w of
                None \<Rightarrow> (s, False)
              | Some tm \<Rightarrow>
                  (case sel tm of
                     None \<Rightarrow> (s, False)
                   | Some method \<Rightarrow>
                       let (cl, r) = method (dm_client s) [key]
                       in (s\<lparr>dm_client := cl\<rparr>,
                           case r of Inl _ \<Rightarrow> False | Inr None \<Rightarrow> True | Inr (Some b) \<Rightarrow> b)))"

definition set_torrent_paused ::
  "('c, 'd) wiring \<Rightarrow> ('c, 'd) dm \<Rightarrow> string option \<Rightarrow> bool \<Rightarrow> ('c, 'd) dm \<times> bool" where
  "set_torrent_paused w s hash_value paused =
     client_toggle (if paused then c_pause else c_resume) w s hash_value"

definition pause_torrent :: "('c, 'd) wiring \<Rightarrow> ('c, 'd) dm \<Rightarrow> string option \<Rightarrow> ('c, 'd) dm \<times> bool" where
  "pause_torrent w s hash_value = set_torrent_paused w s hash_value True"

definition resume_torrent :: "('c, 'd) wiring \<Rightarrow> ('c, 'd) dm \<Rightarrow> string option \<Rightarrow> ('c, 'd) dm \<times> bool" where
  "resume_torrent w s hash_value = set_torrent_paused w s hash_value False"

definition prioritize_torrent :: "('c, 'd) wiring \<Rightarrow> ('c, 'd) dm \<Rightarrow> string option \<Rightarrow> ('c, 'd) dm \<times> bool" where
  "prioritize_torrent w s hash_value = client_toggle c_prioritize w s hash_value"

definition close :: "('c, 'd) dm \<Rightarrow> ('c, 'd) dm" where
  "close s =
     (on_tasks (map snd (dm_active s)) task_cancel s)
       \<lparr>dm_stopping := True, dm_active := [], dm_queued := {}, dm_cancelled := {},
        dm_executor := False, dm_submitted := []\<rparr>"

section \<open>A client for the examples\<close>

text \<open>A client that holds its rows in a list: adding a torrent adds nothing, deleting filters.\<close>

definition list_client :: "live_row option list client" where
  "list_client =
     \<lparr>c_list = (\<lambda>rows hs. Inr (case hs of None \<Rightarrow> rows
                              | Some hs \<Rightarrow> filter (\<lambda>row. or_empty (row_hash row) \<in> set hs) rows)),
      c_add = (\<lambda>rows m p. (rows, Inr [])), c_move = (\<lambda>rows p hs. (rows, Inr ())),
      c_delete = Some (\<lambda>rows h f. (filter (\<lambda>row. row_hash row \<noteq> Some h) rows, Inr ())),
      c_pause = None, c_resume = None, c_prioritize = None, c_list_files = None,
      c_is_restored = Some (\<lambda>rows. True), c_restored_flag = (\<lambda>rows. True), c_ensure_restored = None\<rparr>"

definition sample_row :: "string \<Rightarrow> string \<Rightarrow> live_row" where
  "sample_row h state =
     \<lparr>r_hash = Some h, r_name = Some ''n'', r_state = Some state, r_path = None, r_progress = None,
      r_size = None, r_downloaded = None, r_dl_speed = None, r_up_speed = None, r_upload_rate = None,
      r_eta = None\<rparr>"

definition start_state :: "'c \<Rightarrow> 'd \<Rightarrow> ('c, 'd) dm" where
  "start_state cl d =
     \<lparr>dm_tasks = [], dm_active = [], dm_queue = [], dm_submitted = [], dm_queued = {}, dm_cancelled = {},
      dm_executor = True, dm_stopping = False, dm_last_refresh = 0, dm_client = cl, dm_db = d\<rparr>"

end
