(* ===== verification/Regex.thy ===== *)
theory Regex
  imports Values
begin

text \<open>
  The part of Python's \<open>re\<close> the modelled modules use, on Latin-1 text: a backtracking matcher
  that returns every way a pattern can match at a position, the preferred one first, and the
  leftmost search over it.  Patterns are values of \<open>rx\<close>; the theories that use a compiled
  pattern of the source declare it as such a value.
\<close>

section \<open>Patterns and matching\<close>

datatype rx =
    Eps
  | Cls "char \<Rightarrow> bool"
  | Sequ rx rx
  | Alt rx rx
  | Rep nat "nat option" rx
  | Grp nat rx
  | NotBehind "char \<Rightarrow> bool"
  | NotAhead "char \<Rightarrow> bool"
  | WordB
  | Eol
  | Lazy "char \<Rightarrow> bool"

text \<open>Where a match stands: the text before (reversed), the text after, the groups closed.\<close>

type_synonym pos = "string \<times> string \<times> (nat \<times> string) list"

text \<open>
  Greedy repetition: at most \<open>m\<close> further items, each of which moves on; more items are
  preferred to fewer.
\<close>

primrec greedy :: "(pos \<Rightarrow> pos list) \<Rightarrow> nat \<Rightarrow> pos \<Rightarrow> pos list" where
  "greedy f 0 s = [s]"
| "greedy f (Suc m) s =
     concat (map (greedy f m) (filter (\<lambda>t. length (fst (snd t)) < length (fst (snd s))) (f s))) @ [s]"

primrec times :: "(pos \<Rightarrow> pos list) \<Rightarrow> nat \<Rightarrow> pos \<Rightarrow> pos list" where
  "times f 0 s = [s]"
| "times f (Suc k) s = concat (map (times f k) (f s))"

text \<open>Lazy repetition \<open>P+?\<close>: at least one character, fewer preferred to more.\<close>

primrec lazy_run :: "(char \<Rightarrow> bool) \<Rightarrow> string \<Rightarrow> string \<Rightarrow> (nat \<times> string) list \<Rightarrow> pos list" where
  "lazy_run P [] pre gs = []"
| "lazy_run P (c # cs) pre gs =
     (if P c then (c # pre, cs, gs) # lazy_run P cs (c # pre) gs else [])"

definition re_word :: "char \<Rightarrow> bool" where
  "re_word c = (py_isalnum c \<or> c = CHR ''_'')"

primrec rmatch :: "rx \<Rightarrow> pos \<Rightarrow> pos list" where
  "rmatch Eps s = [s]"
| "rmatch (Cls P) s =
     (case s of (pre, rest, gs) \<Rightarrow>
        (case rest of [] \<Rightarrow> [] | c # cs \<Rightarrow> if P c then [(c # pre, cs, gs)] else []))"
| "rmatch (Sequ a b) s = concat (map (rmatch b) (rmatch a s))"
| "rmatch (Alt a b) s = rmatch a s @ rmatch b s"
| "rmatch (Rep lo hi a) s =
     concat (map (\<lambda>t. greedy (rmatch a)
                        (case hi of None \<Rightarrow> length (fst (snd t)) | Some h \<Rightarrow> h - lo) t)
                 (times (rmatch a) lo s))"
| "rmatch (Grp n a) s =
     map (\<lambda>(pre, rest, gs).
            (pre, rest, (n, rev (take (length pre - length (fst s)) pre)) # gs)) (rmatch a s)"
| "rmatch (NotBehind P) s =
     (case s of (pre, rest, gs) \<Rightarrow>
        (case pre of [] \<Rightarrow> [s] | c # cs \<Rightarrow> if P c then [] else [s]))"
| "rmatch (NotAhead P) s =
     (case s of (pre, rest, gs) \<Rightarrow>
        (case rest of [] \<Rightarrow> [s] | c # cs \<Rightarrow> if P c then [] else [s]))"
| "rmatch WordB s =
     (case s of (pre, rest, gs) \<Rightarrow>
        let behind = (case pre of [] \<Rightarrow> False | c # cs \<Rightarrow> re_word c);
            ahead = (case rest of [] \<Rightarrow> False | c # cs \<Rightarrow> re_word c)
        in if behind \<noteq> ahead then [s] else [])"
| "rmatch Eol s =
     (case s of (pre, rest, gs) \<Rightarrow>
        if rest = [] \<or> rest = [char_of (10::nat)] then [s] else [])"
| "rmatch (Lazy P) s = (case s of (pre, rest, gs) \<Rightarrow> lazy_run P rest pre gs)"

declare rmatch.simps(2) [simp del] rmatch.simps(7-10) [simp del]

lemma rmatch_Cls [simp]:
  "rmatch (Cls P) (pre, [], gs) = []"
  "rmatch (Cls P) (pre, c # cs, gs) = (if P c then [(c # pre, cs, gs)] else [])"
  by (simp_all add: rmatch.simps(2))

lemma rmatch_bounds [simp]:
  "rmatch (NotBehind P) (pre, rest, gs) =
     (if pre \<noteq> [] \<and> P (hd pre) then [] else [(pre, rest, gs)])"
  "rmatch (NotAhead P) (pre, rest, gs) =
     (if rest \<noteq> [] \<and> P (hd rest) then [] else [(pre, rest, gs)])"
  "rmatch Eol (pre, rest, gs) =
     (if rest = [] \<or> rest = [char_of (10::nat)] then [(pre, rest, gs)] else [])"
  by (cases pre; cases rest; simp add: rmatch.simps(7,8,10))+

text \<open>
  \<open>pattern.search(text)\<close>: the first position with a match, and the preferred match there: the
  text before it, the text it covers, the text after it and its groups.
\<close>

record found =
  f_before :: string
  f_text :: string
  f_after :: string
  f_groups :: "(nat \<times> string) list"

fun search_at :: "rx \<Rightarrow> string \<Rightarrow> string \<Rightarrow> found option" where
  "search_at r pre rest =
     (case rmatch r (pre, rest, []) of
        (pre', rest', gs) # _ \<Rightarrow>
          Some \<lparr>f_before = rev pre, f_text = take (length rest - length rest') rest,
                f_after = rest', f_groups = gs\<rparr>
      | [] \<Rightarrow> (case rest of [] \<Rightarrow> None | c # cs \<Rightarrow> search_at r (c # pre) cs))"

declare search_at.simps [simp del]

definition rsearch :: "rx \<Rightarrow> string \<Rightarrow> found option" where
  "rsearch r text = search_at r [] text"

text \<open>\<open>m.group(n)\<close> of a group that took part in the match.\<close>

definition group :: "found \<Rightarrow> nat \<Rightarrow> string" where
  "group m n = (case map_of (f_groups m) n of None \<Rightarrow> [] | Some s \<Rightarrow> s)"

text \<open>\<open>pattern.match(text)\<close>: only at the start.\<close>

definition rmatch_start :: "rx \<Rightarrow> string \<Rightarrow> found option" where
  "rmatch_start r text =
     (case rmatch r ([], text, []) of
        [] \<Rightarrow> None
      | (pre, rest, gs) # _ \<Rightarrow>
          Some \<lparr>f_before = [], f_text = take (length text - length rest) text,
                f_after = rest, f_groups = gs\<rparr>)"

text \<open>
  \<open>pattern.sub(repl, text)\<close> for a pattern that never matches the empty text; the fuel is the
  length of the text, since every match consumes a character.
\<close>

fun sub_from :: "rx \<Rightarrow> string \<Rightarrow> nat \<Rightarrow> string \<Rightarrow> string \<Rightarrow> string" where
  "sub_from r repl 0 pre rest = rest"
| "sub_from r repl (Suc k) pre rest =
     (case search_at r pre rest of
        None \<Rightarrow> rest
      | Some m \<Rightarrow> drop (length pre) (f_before m) @ repl
                  @ sub_from r repl k (rev (f_before m @ f_text m)) (f_after m))"

definition rsub :: "rx \<Rightarrow> string \<Rightarrow> string \<Rightarrow> string" where
  "rsub r repl text = sub_from r repl (length text) [] text"

text \<open>Common pieces of patterns.\<close>

definition rx_chr :: "char \<Rightarrow> rx" where
  "rx_chr c = Cls (\<lambda>x. x = c)"

definition rx_ichr :: "char \<Rightarrow> rx" where
  "rx_ichr c = Cls (\<lambda>x. py_lower_char x = py_lower_char c)"

primrec rx_istr :: "string \<Rightarrow> rx" where
  "rx_istr [] = Eps"
| "rx_istr (c # cs) = Sequ (rx_ichr c) (rx_istr cs)"

definition rx_digits :: "nat \<Rightarrow> nat option \<Rightarrow> rx" where
  "rx_digits lo hi = Rep lo hi (Cls py_isdigit)"

definition rx_spaces :: rx where
  "rx_spaces = Rep 0 None (Cls py_isspace)"

fun rx_seq :: "rx list \<Rightarrow> rx" where
  "rx_seq [] = Eps"
| "rx_seq [r] = r"
| "rx_seq (r # rs) = Sequ r (rx_seq rs)"

fun rx_alt :: "rx list \<Rightarrow> rx" where
  "rx_alt [] = Cls (\<lambda>_. False)"
| "rx_alt [r] = r"
| "rx_alt (r # rs) = Alt r (rx_alt rs)"

section \<open>Matches are parts of the text\<close>

definition pos_text :: "pos \<Rightarrow> string" where
  "pos_text s = rev (fst s) @ fst (snd s)"

definition moves_on :: "pos \<Rightarrow> pos \<Rightarrow> bool" where
  "moves_on s t \<longleftrightarrow> pos_text t = pos_text s \<and> length (fst s) \<le> length (fst t)"

lemma moves_on_refl [simp]: "moves_on s s"
  by (simp add: moves_on_def)

lemma moves_on_trans: "moves_on s t \<Longrightarrow> moves_on t u \<Longrightarrow> moves_on s u"
  by (auto simp: moves_on_def)

lemma greedy_moves:
  assumes step: "\<And>s t. t \<in> set (f s) \<Longrightarrow> moves_on s t"
  shows "t \<in> set (greedy f m s) \<Longrightarrow> moves_on s t"
proof (induction m arbitrary: s)
  case (Suc m)
  then consider "t = s" | u where "u \<in> set (f s)" "t \<in> set (greedy f m u)" by auto
  then show ?case
  proof cases
    case (2 u)
    then show ?thesis using step [of u s] Suc.IH [of u] moves_on_trans by blast
  qed simp
qed simp

lemma times_moves:
  assumes step: "\<And>s t. t \<in> set (f s) \<Longrightarrow> moves_on s t"
  shows "t \<in> set (times f k s) \<Longrightarrow> moves_on s t"
proof (induction k arbitrary: s)
  case (Suc k)
  then obtain u where "u \<in> set (f s)" "t \<in> set (times f k u)" by auto
  then show ?case using step [of u s] Suc.IH [of u] moves_on_trans by blast
qed simp

lemma lazy_run_moves: "t \<in> set (lazy_run P rest pre gs) \<Longrightarrow> moves_on (pre, rest, gs) t"
proof (induction rest arbitrary: pre)
  case (Cons c cs)
  then consider "t = (c # pre, cs, gs)" | "t \<in> set (lazy_run P cs (c # pre) gs)"
    by (auto split: if_splits)
  then show ?case
  proof cases
    case 2
    then have "moves_on (c # pre, cs, gs) t" by (rule Cons.IH)
    then show ?thesis by (simp add: moves_on_def pos_text_def)
  qed (simp add: moves_on_def pos_text_def)
qed simp

lemma lazy_run_groups: "t \<in> set (lazy_run P rest pre gs) \<Longrightarrow> snd (snd t) = gs"
  by (induction rest arbitrary: pre) (auto split: if_splits)

lemma rmatch_moves: "t \<in> set (rmatch r s) \<Longrightarrow> moves_on s t"
proof (induction r arbitrary: s t)
  case (Cls P)
  then show ?case
    by (cases s; cases "fst (snd s)") (auto simp: moves_on_def pos_text_def split: if_splits)
next
  case (Sequ r1 r2)
  then obtain u where "u \<in> set (rmatch r1 s)" "t \<in> set (rmatch r2 u)" by auto
  then show ?case using Sequ.IH moves_on_trans by blast
next
  case (Rep lo hi r)
  then obtain u m where "u \<in> set (times (rmatch r) lo s)" and "t \<in> set (greedy (rmatch r) m u)"
    by auto
  moreover have "moves_on s u" by (rule times_moves [OF Rep.IH calculation(1)])
  moreover have "moves_on u t" by (rule greedy_moves [OF Rep.IH calculation(2)])
  ultimately show ?case using moves_on_trans by blast
next
  case (Grp n r)
  then obtain pre rest gs where "(pre, rest, gs) \<in> set (rmatch r s)" "fst t = pre" "fst (snd t) = rest"
    by auto
  then show ?case using Grp.IH [of "(pre, rest, gs)" s] by (simp add: moves_on_def pos_text_def)
next
  case (NotBehind P)
  then show ?case by (cases s) (auto split: if_splits)
next
  case (NotAhead P)
  then show ?case by (cases s) (auto split: if_splits)
next
  case WordB
  then show ?case by (cases s) (auto simp: rmatch.simps(9) Let_def split: if_splits)
next
  case Eol
  then show ?case by (cases s) (auto split: if_splits)
next
  case (Lazy P)
  then show ?case by (cases s) (auto dest: lazy_run_moves)
qed auto

text \<open>A search splits the text around what it found.\<close>

lemma search_at_splits:
  "search_at r pre rest = Some m \<Longrightarrow> f_before m @ f_text m @ f_after m = rev pre @ rest"
proof (induction rest arbitrary: pre)
  case Nil
  then obtain t ts where t: "rmatch r (pre, [], []) = t # ts"
    and m: "f_before m = rev pre" "f_text m = []" "f_after m = fst (snd t)"
    by (auto simp: search_at.simps [of r pre "[]"] split: list.splits)
  have "moves_on (pre, [], []) t" using t rmatch_moves by (metis list.set_intros(1))
  then have eq: "rev (fst t) @ fst (snd t) = rev pre" and le: "length pre \<le> length (fst t)"
    by (simp_all add: moves_on_def pos_text_def)
  have "length (fst t) + length (fst (snd t)) = length pre"
    using arg_cong [OF eq, of length] by (simp only: length_append length_rev)
  then have "length (fst (snd t)) = 0" using le by linarith
  then have "fst (snd t) = []" by simp
  then show ?case using m by simp
next
  case (Cons c cs)
  show ?case
  proof (cases "rmatch r (pre, c # cs, [])")
    case Nil
    then show ?thesis using Cons by (simp add: search_at.simps [of r pre "c # cs"])
  next
    case (Cons t ts)
    then have "moves_on (pre, c # cs, []) t" using rmatch_moves by (metis list.set_intros(1))
    moreover obtain pre' rest' gs where t: "t = (pre', rest', gs)" by (cases t)
    ultimately have split: "rev pre' @ rest' = rev pre @ c # cs" and l: "length pre \<le> length pre'"
      by (auto simp: moves_on_def pos_text_def)
    from split have len: "length (c # cs) - length rest' = length pre' - length pre"
      by (auto dest: arg_cong [of _ _ length])
    have m: "m = \<lparr>f_before = rev pre, f_text = take (length pre' - length pre) (c # cs),
                f_after = rest', f_groups = gs\<rparr>"
      using Cons.prems Cons t len by (simp add: search_at.simps [of r pre "c # cs"])
    have "drop (length pre' - length pre) (c # cs) = rest'"
      using arg_cong [OF split, of "drop (length pre')"] l by simp
    then have "take (length pre' - length pre) (c # cs) @ rest' = c # cs"
      by (metis append_take_drop_id)
    then show ?thesis by (simp add: m)
  qed
qed

lemma rsearch_splits: "rsearch r str = Some m \<Longrightarrow> f_before m @ f_text m @ f_after m = str"
  using search_at_splits [of r "[]" str m] by (simp add: rsearch_def)

section \<open>What groups hold\<close>

text \<open>A repeated class matches only its characters, as often as the bound allows.\<close>

lemma times_max:
  "t \<in> set (times (rmatch (Cls P)) k s) \<Longrightarrow>
   length (fst t) = length (fst s) + k \<and> (\<exists>run. fst t = run @ fst s \<and> list_all P run)"
proof (induction k arbitrary: s)
  case (Suc k)
  obtain pre rest gs where s: "s = (pre, rest, gs)" by (cases s)
  with Suc.prems obtain c cs where rest: "rest = c # cs" "P c"
    and t: "t \<in> set (times (rmatch (Cls P)) k (c # pre, cs, gs))"
    by (cases rest) (auto split: if_splits)
  from Suc.IH [OF t] obtain run where "fst t = run @ c # pre" "list_all P run"
    "length (fst t) = Suc (length pre) + k" by auto
  then show ?case using s rest by (intro conjI exI [of _ "run @ [c]"]) auto
qed simp

lemma greedy_max:
  "t \<in> set (greedy (rmatch (Cls P)) m s) \<Longrightarrow>
   length (fst t) \<le> length (fst s) + m \<and> (\<exists>run. fst t = run @ fst s \<and> list_all P run)"
proof (induction m arbitrary: s)
  case (Suc m)
  obtain pre rest gs where s: "s = (pre, rest, gs)" by (cases s)
  show ?case
  proof (cases "t = s")
    case False
    with Suc.prems s obtain c cs where rest: "rest = c # cs" "P c"
      and t: "t \<in> set (greedy (rmatch (Cls P)) m (c # pre, cs, gs))"
      by (cases rest) (auto split: if_splits)
    from Suc.IH [OF t] obtain run where "fst t = run @ c # pre" "list_all P run"
      "length (fst t) \<le> Suc (length pre) + m" by auto
    then show ?thesis using s rest by (intro conjI exI [of _ "run @ [c]"]) auto
  qed auto
qed auto

text \<open>What a group can hold, when the piece it wraps only matches such text.\<close>

primrec groups_hold :: "(string \<Rightarrow> bool) \<Rightarrow> rx \<Rightarrow> bool" where
  "groups_hold Q Eps = True"
| "groups_hold Q (Cls P) = True"
| "groups_hold Q (Sequ a b) = (groups_hold Q a \<and> groups_hold Q b)"
| "groups_hold Q (Alt a b) = (groups_hold Q a \<and> groups_hold Q b)"
| "groups_hold Q (Rep lo hi a) = groups_hold Q a"
| "groups_hold Q (Grp n a) =
     (groups_hold Q a
      \<and> (\<forall>s t. t \<in> set (rmatch a s) \<longrightarrow> Q (rev (take (length (fst t) - length (fst s)) (fst t)))))"
| "groups_hold Q (NotBehind P) = True"
| "groups_hold Q (NotAhead P) = True"
| "groups_hold Q WordB = True"
| "groups_hold Q Eol = True"
| "groups_hold Q (Lazy P) = True"

abbreviation holds :: "(string \<Rightarrow> bool) \<Rightarrow> pos \<Rightarrow> bool" where
  "holds Q s \<equiv> list_all (\<lambda>(n, g). Q g) (snd (snd s))"

lemma greedy_keeps:
  assumes step: "\<And>s t. holds Q s \<Longrightarrow> t \<in> set (f s) \<Longrightarrow> holds Q t"
  shows "holds Q s \<Longrightarrow> t \<in> set (greedy f m s) \<Longrightarrow> holds Q t"
proof (induction m arbitrary: s)
  case (Suc m)
  from Suc.prems(2) consider "t = s" | u where "u \<in> set (f s)" "t \<in> set (greedy f m u)" by auto
  then show ?case
  proof cases
    case (2 u)
    then show ?thesis using step [OF Suc.prems(1)] Suc.IH by blast
  qed (use Suc.prems in simp)
qed simp

lemma times_keeps:
  assumes step: "\<And>s t. holds Q s \<Longrightarrow> t \<in> set (f s) \<Longrightarrow> holds Q t"
  shows "holds Q s \<Longrightarrow> t \<in> set (times f k s) \<Longrightarrow> holds Q t"
proof (induction k arbitrary: s)
  case (Suc k)
  from Suc.prems(2) obtain u where "u \<in> set (f s)" "t \<in> set (times f k u)" by auto
  then show ?case using step [OF Suc.prems(1)] Suc.IH by blast
qed simp

lemma rmatch_groups:
  "groups_hold Q r \<Longrightarrow> holds Q s \<Longrightarrow> t \<in> set (rmatch r s) \<Longrightarrow> holds Q t"
proof (induction r arbitrary: s t)
  case (Cls P)
  then show ?case by (cases s; cases "fst (snd s)") (auto split: if_splits)
next
  case (Sequ r1 r2)
  from Sequ.prems(3) obtain u where "u \<in> set (rmatch r1 s)" "t \<in> set (rmatch r2 u)" by auto
  moreover have "holds Q u" using Sequ.IH(1) [of s u] Sequ.prems(1,2) calculation(1) by simp
  ultimately show ?case using Sequ.IH(2) [of u t] Sequ.prems(1) by simp
next
  case (Alt r1 r2)
  from Alt.prems(3) consider "t \<in> set (rmatch r1 s)" | "t \<in> set (rmatch r2 s)" by auto
  then show ?case using Alt.IH [of s t] Alt.prems(1,2) by cases simp_all
next
  case (Rep lo hi r)
  from Rep.prems(3) obtain u m where u: "u \<in> set (times (rmatch r) lo s)"
    and t: "t \<in> set (greedy (rmatch r) m u)" by auto
  have step: "holds Q s \<Longrightarrow> t \<in> set (rmatch r s) \<Longrightarrow> holds Q t" for s t
    using Rep.IH Rep.prems(1) by simp
  have hu: "holds Q u" by (rule times_keeps [OF step Rep.prems(2) u])
  show ?case by (rule greedy_keeps [OF step hu t])
next
  case (Grp n r)
  from Grp.prems(3) obtain pre rest gs where m: "(pre, rest, gs) \<in> set (rmatch r s)"
    and t: "t = (pre, rest, (n, rev (take (length pre - length (fst s)) pre)) # gs)" by auto
  have "holds Q (pre, rest, gs)" using Grp.IH [OF _ Grp.prems(2) m] Grp.prems(1) by simp
  moreover have "\<forall>s t. t \<in> set (rmatch r s) \<longrightarrow> Q (rev (take (length (fst t) - length (fst s)) (fst t)))"
    using Grp.prems(1) by simp
  then have "Q (rev (take (length pre - length (fst s)) pre))" using m by fastforce
  ultimately show ?case by (simp add: t)
next
  case (NotBehind P)
  then show ?case by (cases s) (auto split: if_splits)
next
  case (NotAhead P)
  then show ?case by (cases s) (auto split: if_splits)
next
  case WordB
  then show ?case by (cases s) (auto simp: rmatch.simps(9) Let_def split: if_splits)
next
  case Eol
  then show ?case by (cases s) (auto split: if_splits)
next
  case (Lazy P)
  then show ?case by (cases s) (auto dest: lazy_run_groups)
qed auto

lemma search_groups:
  assumes "groups_hold Q r"
  shows "search_at r pre rest = Some m \<Longrightarrow> list_all (\<lambda>(n, g). Q g) (f_groups m)"
proof (induction rest arbitrary: pre)
  case Nil
  then obtain t ts where t: "rmatch r (pre, [], []) = t # ts" and m: "f_groups m = snd (snd t)"
    by (auto simp: search_at.simps [of r pre "[]"] split: list.splits)
  have "t \<in> set (rmatch r (pre, [], []))" using t by simp
  then have "holds Q t" by (rule rmatch_groups [OF assms, rotated]) simp
  then show ?case by (simp add: m)
next
  case (Cons c cs)
  show ?case
  proof (cases "rmatch r (pre, c # cs, [])")
    case Nil
    then show ?thesis using Cons by (simp add: search_at.simps [of r pre "c # cs"])
  next
    case (Cons t ts)
    have "t \<in> set (rmatch r (pre, c # cs, []))" using Cons by simp
    then have "holds Q t" by (rule rmatch_groups [OF assms, rotated]) simp
    moreover have "f_groups m = snd (snd t)"
      using Cons.prems Cons by (cases t) (auto simp: search_at.simps [of r pre "c # cs"])
    ultimately show ?thesis by simp
  qed
qed

text \<open>Short runs of digits, the usual content of a group, and the numbers they parse to.\<close>

definition digit_run :: "nat \<Rightarrow> string \<Rightarrow> bool" where
  "digit_run k g \<longleftrightarrow> list_all py_isdigit g \<and> g \<noteq> [] \<and> length g \<le> k"

lemma rx_digits_run:
  assumes "1 \<le> k"
  shows "groups_hold (digit_run k) (Grp n (rx_digits 1 (Some k)))"
proof -
  have "digit_run k (rev (take (length (fst t) - length (fst s)) (fst t)))"
    if m: "t \<in> set (rmatch (rx_digits 1 (Some k)) s)" for s t
  proof -
    from m obtain u where u: "u \<in> set (times (rmatch (Cls py_isdigit)) 1 s)"
      and t: "t \<in> set (greedy (rmatch (Cls py_isdigit)) (k - 1) u)"
      unfolding rx_digits_def rmatch.simps by (auto simp del: greedy.simps times.simps)
    from times_max [OF u] obtain r1 where r1: "fst u = r1 @ fst s" "list_all py_isdigit r1" "length r1 = 1"
      by auto
    from greedy_max [OF t] obtain r2 where r2: "fst t = r2 @ fst u" "list_all py_isdigit r2"
      "length r2 \<le> k - 1" by auto
    have "take (length (fst t) - length (fst s)) (fst t) = r2 @ r1" using r1 r2 by simp
    then show ?thesis using r1 r2 assms by (auto simp: digit_run_def)
  qed
  then show ?thesis by (simp add: rx_digits_def)
qed

lemma int_digits_all:
  "list_all py_isdigit ds \<Longrightarrow> \<exists>v. int_digits True acc ds = Some v \<and> v < (acc + 1) * 10 ^ length ds"
proof (induction ds arbitrary: acc)
  case (Cons c ds)
  then have d: "py_isdigit c" by simp
  then have "(of_char c :: nat) - 48 < 10" by (auto simp: py_isdigit_def Let_def)
  moreover from Cons obtain v where v: "int_digits True (10 * acc + (of_char c - 48)) ds = Some v"
    "v < (10 * acc + (of_char c - 48) + 1) * 10 ^ length ds" by fastforce
  ultimately have "(10 * acc + (of_char c - 48) + 1) * 10 ^ length ds \<le> (10 * acc + 10) * 10 ^ length ds"
    by (intro mult_right_mono) auto
  with v have "v < (10 * acc + 10) * 10 ^ length ds" by linarith
  also have "\<dots> = (acc + 1) * 10 ^ length (c # ds)" by (simp add: algebra_simps)
  finally show ?case using v(1) d by simp
qed simp

lemma parse_digit_run:
  assumes "digit_run k g"
  obtains n where "parse_int g = Some (int n)" and "n < 10 ^ k"
proof -
  obtain c cs where g: "g = c # cs" "py_isdigit c" "list_all py_isdigit cs" "Suc (length cs) \<le> k"
    using assms by (cases g) (auto simp: digit_run_def)
  have "py_strip g = g"
    using assms digit_not_space by (intro py_strip_no_space) (auto simp: digit_run_def list_all_iff)
  moreover have "c \<noteq> CHR ''-''" "c \<noteq> CHR ''+''" using g(2) by auto
  ultimately have p: "parse_int g = map_option int (int_digits True (of_char c - 48) cs)"
    using g by (simp add: parse_int_def)
  obtain v where v: "int_digits True (of_char c - 48) cs = Some v"
    "v < (of_char c - 48 + 1) * 10 ^ length cs" using int_digits_all [OF g(3)] by blast
  have "of_char c - 48 + 1 \<le> (10::nat)" using g(2) by (auto simp: py_isdigit_def Let_def)
  then have "(of_char c - 48 + 1) * 10 ^ length cs \<le> (10::nat) * 10 ^ length cs"
    by (rule mult_le_mono1)
  also have "\<dots> \<le> 10 ^ k" using g(4) power_increasing [of "Suc (length cs)" k "10::nat"] by simp
  finally show ?thesis using that [of v] p v by simp
qed

text \<open>The number a group of such a pattern parses to.\<close>

lemma group_number:
  assumes "groups_hold (digit_run k) r" and "rsearch r str = Some m" and "parse_int (group m i) = Some v"
  shows "0 \<le> v \<and> v < 10 ^ k"
proof -
  have "list_all (\<lambda>(n, g). digit_run k g) (f_groups m)"
    using search_groups [OF assms(1)] assms(2) by (simp add: rsearch_def)
  then have "group m i = [] \<or> digit_run k (group m i)"
    by (auto simp: group_def list_all_iff split: option.splits dest: map_of_SomeD)
  moreover have "parse_int [] = None" by (simp add: parse_int_def)
  ultimately obtain n where "v = int n" "n < 10 ^ k"
    using assms(3) by (metis option.distinct(1) option.inject parse_digit_run)
  then show ?thesis by (metis of_nat_0_le_iff of_nat_less_iff of_nat_numeral of_nat_power)
qed

section \<open>The preferred match\<close>

definition rfirst :: "rx \<Rightarrow> pos \<Rightarrow> pos \<Rightarrow> bool" where
  "rfirst r s t \<longleftrightarrow> (\<exists>ts. rmatch r s = t # ts)"

lemma rfirst_Sequ: "rfirst a s t \<Longrightarrow> rfirst b t u \<Longrightarrow> rfirst (Sequ a b) s u"
  by (auto simp: rfirst_def)

lemma rfirst_Cls: "P c \<Longrightarrow> rfirst (Cls P) (pre, c # cs, gs) (c # pre, cs, gs)"
  by (simp add: rfirst_def)

lemma rfirst_Grp:
  "rfirst r (pre, rest, gs) (pre', rest', gs') \<Longrightarrow>
   rfirst (Grp n r) (pre, rest, gs)
     (pre', rest', (n, rev (take (length pre' - length pre) pre')) # gs')"
  by (auto simp: rfirst_def)

lemma greedy_run:
  assumes "\<forall>c \<in> set run. P c" and "length run \<le> m"
    and "m = length run \<or> rest = [] \<or> \<not> P (hd rest)"
  shows "\<exists>ts. greedy (rmatch (Cls P)) m (pre, run @ rest, gs) = (rev run @ pre, rest, gs) # ts"
  using assms
proof (induction run arbitrary: m pre)
  case Nil
  then show ?case by (cases m; cases rest) auto
next
  case (Cons c run)
  then obtain m' where m: "m = Suc m'" by (cases m) auto
  obtain ts where "greedy (rmatch (Cls P)) m' (c # pre, run @ rest, gs) =
      (rev run @ c # pre, rest, gs) # ts"
    using Cons.IH [of m' "c # pre"] Cons.prems m by auto
  then show ?case using Cons.prems m by simp
qed

lemma times_run:
  "\<forall>c \<in> set run. P c \<Longrightarrow>
   times (rmatch (Cls P)) (length run) (pre, run @ rest, gs) = [(rev run @ pre, rest, gs)]"
  by (induction run arbitrary: pre) auto

lemma rfirst_run:
  assumes "\<forall>c \<in> set run. P c" and "lo \<le> length run"
    and "case hi of None \<Rightarrow> True | Some h \<Rightarrow> length run \<le> h"
    and "rest = [] \<or> \<not> P (hd rest)"
  shows "rfirst (Rep lo hi (Cls P)) (pre, run @ rest, gs) (rev run @ pre, rest, gs)"
proof -
  let ?a = "take lo run" and ?b = "drop lo run"
  have a: "times (rmatch (Cls P)) lo (pre, run @ rest, gs) = [(rev ?a @ pre, ?b @ rest, gs)]"
  proof -
    have "\<forall>c \<in> set ?a. P c" using assms(1) by (auto dest: in_set_takeD)
    moreover have "length ?a = lo" using assms(2) by simp
    moreover have "run @ rest = ?a @ ?b @ rest" by simp
    ultimately show ?thesis using times_run [of ?a P pre "?b @ rest" gs] by metis
  qed
  let ?m = "case hi of None \<Rightarrow> length (?b @ rest) | Some h \<Rightarrow> h - lo"
  have m: "length ?b \<le> ?m" using assms(2,3) by (auto split: option.splits)
  obtain ts where "greedy (rmatch (Cls P)) ?m (rev ?a @ pre, ?b @ rest, gs) =
      (rev ?b @ rev ?a @ pre, rest, gs) # ts"
    using greedy_run [of ?b P ?m rest "rev ?a @ pre" gs] assms(1,4) m by (auto dest: in_set_dropD)
  moreover have "rev ?b @ rev ?a = rev run" by (metis append_take_drop_id rev_append)
  ultimately have "greedy (rmatch (Cls P)) ?m (rev ?a @ pre, ?b @ rest, gs) =
      (rev run @ pre, rest, gs) # ts" by (metis append_assoc)
  then show ?thesis using a by (cases hi) (simp_all add: rfirst_def)
qed

lemma rsearch_first:
  "rfirst r ([], str, []) (pre', rest', gs) \<Longrightarrow>
   rsearch r str = Some \<lparr>f_before = [], f_text = take (length str - length rest') str,
                          f_after = rest', f_groups = gs\<rparr>"
  by (auto simp: rsearch_def rfirst_def search_at.simps [of r "[]" str])

end
