(* ===== verification/TorrentPresence.thy ===== *)
theory TorrentPresence
  imports Regex TorrentNames
begin

text \<open>
  \<open>application/services/torrent_file_presence.py\<close>: whether the files of a finished torrent are
  still on disk, and what reconciliation does with its row.  The file system is an argument: a
  record of the queries the module makes, with \<open>None\<close> for an \<open>OSError\<close>; paths are POSIX paths.
\<close>

section \<open>The file system\<close>

record file_system =
  fs_isdir :: "string \<Rightarrow> bool"
  fs_listdir :: "string \<Rightarrow> string list option"
  fs_walk :: "string \<Rightarrow> (string \<times> string list) list"
  fs_realpath :: "string \<Rightarrow> string option"

text \<open>\<open>os.path.splitext(path)[1]\<close>: from the last dot of the last component, unless only dots
  stand before it.\<close>

definition splitext_ext :: "string \<Rightarrow> string" where
  "splitext_ext path =
     (let name = posix_basename path;
          stem = take (length name - length (after_last CHR ''.'' name) - 1) name
      in if CHR ''.'' \<in> set name \<and> (\<exists>c \<in> set stem. c \<noteq> CHR ''.'')
         then CHR ''.'' # after_last CHR ''.'' name else [])"

definition VIDEO_SUFFIXES :: "string list" where
  "VIDEO_SUFFIXES = [''mkv'', ''mp4'', ''avi'']"

definition is_video_file :: "string \<Rightarrow> bool" where
  "is_video_file path =
     (py_lower (dropWhile (\<lambda>c. c = CHR ''.'') (splitext_ext path)) \<in> set VIDEO_SUFFIXES)"

text \<open>A non-blank optional path.\<close>

definition given :: "string option \<Rightarrow> bool" where
  "given p \<longleftrightarrow> py_strip (or_empty p) \<noteq> []"

definition folder_has_video_files :: "file_system \<Rightarrow> string option \<Rightarrow> bool" where
  "folder_has_video_files fs path =
     (if \<not> given path then False
      else let root_path = py_strip (or_empty path)
           in if \<not> fs_isdir fs root_path then False
              else list_ex (\<lambda>(dir, files). list_ex (\<lambda>name. is_video_file (path_join dir name)) files)
                     (fs_walk fs root_path))"

definition paths_have_video_files :: "file_system \<Rightarrow> string option list \<Rightarrow> bool" where
  "paths_have_video_files fs paths = list_ex (folder_has_video_files fs) paths"

definition normalize_media_path :: "file_system \<Rightarrow> string option \<Rightarrow> string" where
  "normalize_media_path fs path =
     (if \<not> given path then []
      else case fs_realpath fs (py_strip (or_empty path)) of
             Some rp \<Rightarrow> posix_normpath rp
           | None \<Rightarrow> posix_normpath (py_strip (or_empty path)))"

definition nonempty_or :: "string \<Rightarrow> string \<Rightarrow> string" where
  "nonempty_or a b = (if a \<noteq> [] then a else b)"

definition deleted_path_matches_torrent_file ::
  "file_system \<Rightarrow> string \<Rightarrow> string \<Rightarrow> string option \<Rightarrow> bool" where
  "deleted_path_matches_torrent_file fs deleted_path candidate_path save_path =
     (let deleted_norm = normalize_media_path fs (Some deleted_path);
          candidate_norm = normalize_media_path fs (Some candidate_path)
      in if deleted_norm \<noteq> [] \<and> candidate_norm \<noteq> [] \<and> deleted_norm = candidate_norm then True
         else let deleted_base = posix_basename (nonempty_or deleted_norm deleted_path);
                  candidate_base = posix_basename (nonempty_or candidate_norm candidate_path)
         in if deleted_base \<noteq> [] \<and> candidate_base \<noteq> [] \<and> deleted_base = candidate_base
            then (if or_empty save_path \<noteq> []
                     \<and> py_startswith candidate_norm (normalize_media_path fs save_path @ ''/'')
                  then True else True)
            else if or_empty save_path \<noteq> [] \<and> candidate_path \<noteq> []
                    \<and> \<not> py_startswith candidate_path ''/''
                    \<and> normalize_media_path fs (Some (path_join (or_empty save_path) candidate_path))
                        = deleted_norm
            then True else False)"

section \<open>Episode numbers in names\<close>

definition re_dash :: rx where
  "re_dash = Cls (\<lambda>c. c = CHR ''-'' \<or> c = CHR ''~'')"

definition RE_EP_RANGE_PAREN :: rx where
  "RE_EP_RANGE_PAREN =
     rx_seq [rx_chr CHR ''('', rx_spaces, Grp 1 (rx_digits 1 (Some 3)), rx_spaces, re_dash,
             rx_spaces, Grp 2 (rx_digits 1 (Some 3)), rx_spaces, rx_chr CHR '')'']"

definition digit_or_dot :: "char \<Rightarrow> bool" where
  "digit_or_dot c = (py_isdigit c \<or> c = CHR ''.'')"

definition RE_EP_RANGE_PLAIN :: rx where
  "RE_EP_RANGE_PLAIN =
     rx_seq [NotBehind digit_or_dot, Grp 1 (rx_digits 1 (Some 3)), rx_spaces, re_dash, rx_spaces,
             Grp 2 (rx_digits 1 (Some 3)), NotAhead digit_or_dot]"

definition EPISODE_PATTERNS :: "rx list" where
  "EPISODE_PATTERNS =
     [rx_seq [rx_chr CHR ''-'', Cls py_isspace, Grp 1 (rx_digits 1 None)],
      rx_seq [rx_alt [rx_istr ''E'', rx_istr ''Episode'', rx_istr ''Ep'', rx_istr ''Eps''],
              Grp 1 (rx_digits 1 None)],
      rx_seq [rx_chr CHR '' '', Grp 1 (rx_digits 1 None), rx_chr CHR '' '']]"

text \<open>The two numbers of a match, when both groups are numbers.\<close>

definition group_pair :: "found \<Rightarrow> (int \<times> int) option" where
  "group_pair m =
     (case (parse_int (group m 1), parse_int (group m 2)) of
        (Some a, Some b) \<Rightarrow> Some (a, b)
      | _ \<Rightarrow> None)"

definition ordered :: "int \<times> int \<Rightarrow> int \<times> int" where
  "ordered p = (if fst p > snd p then (snd p, fst p) else p)"

fun range_loop :: "rx list \<Rightarrow> string \<Rightarrow> (int \<times> int) option" where
  "range_loop [] str = None"
| "range_loop (r # rs) str =
     (case rsearch r str of
        None \<Rightarrow> range_loop rs str
      | Some m \<Rightarrow>
          (case group_pair m of
             None \<Rightarrow> range_loop rs str
           | Some (a, b) \<Rightarrow>
               if a \<le> 0 \<or> b \<le> 0 then range_loop rs str else Some (ordered (a, b))))"

definition parse_episode_range_from_name :: "string option \<Rightarrow> (int \<times> int) option" where
  "parse_episode_range_from_name torrent_name =
     (let str = py_strip (or_empty torrent_name)
      in if str = [] then None else range_loop [RE_EP_RANGE_PAREN, RE_EP_RANGE_PLAIN] str)"

fun episode_loop :: "rx list \<Rightarrow> string \<Rightarrow> int option" where
  "episode_loop [] filename = None"
| "episode_loop (r # rs) filename =
     (case rsearch r filename of
        None \<Rightarrow> episode_loop rs filename
      | Some m \<Rightarrow>
          (case parse_int (group m 1) of None \<Rightarrow> episode_loop rs filename | Some n \<Rightarrow> Some n))"

definition episode_number_from_filename :: "string \<Rightarrow> int option" where
  "episode_number_from_filename filename = episode_loop EPISODE_PATTERNS filename"

definition collect_episode_numbers :: "file_system \<Rightarrow> string option \<Rightarrow> int set" where
  "collect_episode_numbers fs folder =
     (if or_empty folder = [] \<or> \<not> fs_isdir fs (or_empty folder) then {}
      else set (List.map_filter episode_number_from_filename
             (concat (map (\<lambda>(dir, files). filter (\<lambda>name. is_video_file (path_join dir name)) files)
                (fs_walk fs (or_empty folder))))))"

definition episodes_in_range_present :: "file_system \<Rightarrow> string option \<Rightarrow> int \<Rightarrow> int \<Rightarrow> bool" where
  "episodes_in_range_present fs folder episode_start episode_end =
     (let (lo, hi) = ordered (episode_start, episode_end)
      in \<exists>e \<in> collect_episode_numbers fs folder. lo \<le> e \<and> e \<le> hi)"

definition range_token :: "int \<times> int \<Rightarrow> string" where
  "range_token p = ''('' @ int_str (fst p) @ ''-'' @ int_str (snd p) @ '')''"

fun token_loop :: "rx list \<Rightarrow> string \<Rightarrow> string option" where
  "token_loop [] str = None"
| "token_loop (r # rs) str =
     (case rsearch r str of
        None \<Rightarrow> token_loop rs str
      | Some m \<Rightarrow>
          (case group_pair m of
             None \<Rightarrow> token_loop rs str
           | Some (a, b) \<Rightarrow>
               if a \<le> 0 \<or> b \<le> 0 then token_loop rs str
               else Some (range_token (ordered (a, b)))))"

definition episode_range_token :: "string option \<Rightarrow> string option" where
  "episode_range_token torrent_name =
     (let str = py_strip (or_empty torrent_name)
      in if str = [] then None else token_loop [RE_EP_RANGE_PAREN, RE_EP_RANGE_PLAIN] str)"

fun dirname_loop :: "rx list \<Rightarrow> string \<Rightarrow> int \<times> int \<Rightarrow> bool" where
  "dirname_loop [] dirname p = False"
| "dirname_loop (r # rs) dirname p =
     (case rsearch r dirname of
        None \<Rightarrow> dirname_loop rs dirname p
      | Some m \<Rightarrow>
          (case group_pair m of
             None \<Rightarrow> dirname_loop rs dirname p
           | Some q \<Rightarrow> if ordered q = p then True else dirname_loop rs dirname p))"

definition dirname_has_range_token :: "string \<Rightarrow> string \<Rightarrow> bool" where
  "dirname_has_range_token dirname token =
     (case rsearch RE_EP_RANGE_PAREN token of
        None \<Rightarrow> False
      | Some m \<Rightarrow>
          (case group_pair m of
             None \<Rightarrow> False
           | Some p \<Rightarrow> dirname_loop [RE_EP_RANGE_PAREN, RE_EP_RANGE_PLAIN] dirname p))"

definition rstrip_slashes :: "string \<Rightarrow> string" where
  "rstrip_slashes s =
     rev (dropWhile (\<lambda>c. c = CHR ''/'' \<or> (of_char c :: nat) = 92) (rev s))"

definition batch_payload_present :: "file_system \<Rightarrow> string option \<Rightarrow> string option \<Rightarrow> bool" where
  "batch_payload_present fs folder torrent_name =
     (case episode_range_token torrent_name of
        None \<Rightarrow> False
      | Some token \<Rightarrow>
          if \<not> given folder then False
          else let root_path = py_strip (or_empty folder)
          in if \<not> fs_isdir fs root_path then False
             else case fs_listdir fs root_path of
                    None \<Rightarrow> False
                  | Some entries \<Rightarrow>
                      let candidates = root_path # filter (fs_isdir fs) (map (path_join root_path) entries)
                      in list_ex (\<lambda>candidate.
                           dirname_has_range_token (posix_basename (rstrip_slashes candidate)) token
                           \<and> folder_has_video_files fs (Some candidate)) candidates)"

section \<open>Reconciliation\<close>

definition ACTIVE_DOWNLOAD_STATES :: "string list" where
  "ACTIVE_DOWNLOAD_STATES =
     [''downloading'', ''downloading_metadata'', ''metadl'', ''queueddl'', ''stalleddl'', ''forceddl'',
      ''checkingdl'', ''checking'', ''checking_files'', ''checking_resume'', ''checking_resume_data'',
      ''allocating'', ''queued'', ''queued_for_checking'']"

definition PRESENCE_ERROR_STATES :: "string list" where
  "PRESENCE_ERROR_STATES = [''error'', ''missingfiles'']"

datatype TorrentReconcileAction = SKIP | REMOVE_FROM_CLIENT | MARK_DELETED

definition normalise_live_state :: "string option \<Rightarrow> string" where
  "normalise_live_state live_state =
     py_replace_char CHR '' '' CHR ''_'' (py_lower (py_strip (or_empty live_state)))"

definition parse_single_episode_from_name :: "string option \<Rightarrow> int option" where
  "parse_single_episode_from_name torrent_name =
     (let str = py_strip (or_empty torrent_name)
      in if str = [] then None
         else if parse_episode_range_from_name (Some str) \<noteq> None then None
         else episode_number_from_filename str)"

definition should_reconcile_torrent ::
  "file_system \<Rightarrow> string option \<Rightarrow> string option \<Rightarrow> string option \<Rightarrow> string option \<Rightarrow>
   string option \<Rightarrow> TorrentReconcileAction" where
  "should_reconcile_torrent fs status save_path anime_folder torrent_name live_state =
     (let status_token = py_lower (or_empty status)
      in if status_token = ''deleted'' then REMOVE_FROM_CLIENT
         else
         let state_token = normalise_live_state live_state;
             is_active = state_token \<in> set ACTIVE_DOWNLOAD_STATES;
             protect_active = is_active \<and> status_token \<noteq> ''complete'';
             folder = (if or_empty anime_folder \<noteq> [] then anime_folder else save_path);
             episode_range = parse_episode_range_from_name torrent_name
         in if episode_range \<noteq> None \<and> \<not> batch_payload_present fs folder torrent_name
               \<and> \<not> protect_active
            then MARK_DELETED
            else if (case parse_single_episode_from_name torrent_name of
                       None \<Rightarrow> False
                     | Some e \<Rightarrow> \<not> episodes_in_range_present fs folder e e \<and> \<not> protect_active)
            then MARK_DELETED
            else if protect_active then SKIP
            else if status_token = ''complete'' \<and> \<not> paths_have_video_files fs [save_path, anime_folder]
            then MARK_DELETED
            else if state_token \<in> set PRESENCE_ERROR_STATES
                    \<and> \<not> paths_have_video_files fs [save_path, anime_folder]
            then MARK_DELETED
            else SKIP)"

definition should_mark_deleted ::
  "file_system \<Rightarrow> string option \<Rightarrow> string option \<Rightarrow> string option \<Rightarrow> bool" where
  "should_mark_deleted fs status save_path anime_folder =
     (should_reconcile_torrent fs status save_path anime_folder None None = MARK_DELETED)"

section \<open>Range tokens\<close>

lemma nat_str_length: "n < 1000 \<Longrightarrow> length (nat_str n) \<le> 3"
proof -
  assume "n < 1000"
  then have "n div 10 < 100" "n div 10 div 10 < 10" by linarith+
  then show ?thesis
    by (subst nat_str.simps, subst nat_str.simps, subst nat_str.simps) auto
qed

lemma nat_str_ge_1: "1 \<le> length (nat_str n)"
  by (simp add: Suc_le_eq)

lemma not_hd_space: "c \<noteq> [] \<Longrightarrow> \<not> py_isspace (hd c) \<Longrightarrow> c = [] \<or> \<not> py_isspace (hd c)"
  by simp

lemma paren_first:
  assumes "a < 1000" and "b < 1000"
  shows "rfirst RE_EP_RANGE_PAREN (pre, ''('' @ nat_str a @ ''-'' @ nat_str b @ '')'' @ rest, [])
           (rev (''('' @ nat_str a @ ''-'' @ nat_str b @ '')'') @ pre, rest,
            [(2, nat_str b), (1, nat_str a)])"
proof -
  let ?A = "nat_str a" and ?B = "nat_str b"
  have da: "\<forall>c \<in> set ?A. py_isdigit c" and db: "\<forall>c \<in> set ?B. py_isdigit c"
    by (rule nat_str_digits)+
  have la: "length ?A \<le> 3" "1 \<le> length ?A" and lb: "length ?B \<le> 3" "1 \<le> length ?B"
    using assms nat_str_length nat_str_ge_1 by blast+
  have ha: "\<not> py_isspace (hd ?A)" and hb: "\<not> py_isspace (hd ?B)"
    using nat_str_hd digit_not_space by blast+
  have sp: "rfirst rx_spaces (p, r, gs) (p, r, gs)" if "r \<noteq> []" "\<not> py_isspace (hd r)" for p r gs
    using rfirst_run [of "[]" py_isspace 0 None r p gs] that by (simp add: rx_spaces_def)
  have dg: "rfirst (Grp n (rx_digits 1 (Some 3))) (p, ds @ c # r, gs) (rev ds @ p, c # r, (n, ds) # gs)"
    if "\<forall>c \<in> set ds. py_isdigit c" "length ds \<le> 3" "1 \<le> length ds" "\<not> py_isdigit c" for n ds p c r gs
    using rfirst_Grp [OF rfirst_run [of ds py_isdigit 1 "Some 3" "c # r" p gs], of n] that
    by (simp add: rx_digits_def)
  let ?l = "CHR ''(''" and ?d = "CHR ''-''" and ?r = "CHR '')''"
  have nd: "\<not> py_isdigit ?d" "\<not> py_isdigit ?r" "\<not> py_isspace ?d" "\<not> py_isspace ?r"
    by (simp_all add: py_isdigit_def py_isspace_def)
  have s1: "rfirst (rx_chr ?l) (pre, ?l # ?A @ ?d # ?B @ ?r # rest, [])
              (?l # pre, ?A @ ?d # ?B @ ?r # rest, [])"
    unfolding rx_chr_def by (rule rfirst_Cls) simp
  have s2: "rfirst rx_spaces (?l # pre, ?A @ ?d # ?B @ ?r # rest, [])
              (?l # pre, ?A @ ?d # ?B @ ?r # rest, [])"
    by (rule sp) (simp_all add: ha)
  have s3: "rfirst (Grp 1 (rx_digits 1 (Some 3))) (?l # pre, ?A @ ?d # ?B @ ?r # rest, [])
              (rev ?A @ ?l # pre, ?d # ?B @ ?r # rest, [(1, ?A)])"
    by (rule dg [OF da la nd(1)])
  have s4: "rfirst rx_spaces (rev ?A @ ?l # pre, ?d # ?B @ ?r # rest, [(1, ?A)])
              (rev ?A @ ?l # pre, ?d # ?B @ ?r # rest, [(1, ?A)])"
    by (rule sp) (simp_all add: nd)
  have s5: "rfirst re_dash (rev ?A @ ?l # pre, ?d # ?B @ ?r # rest, [(1, ?A)])
              (?d # rev ?A @ ?l # pre, ?B @ ?r # rest, [(1, ?A)])"
    unfolding re_dash_def by (rule rfirst_Cls) simp
  have s6: "rfirst rx_spaces (?d # rev ?A @ ?l # pre, ?B @ ?r # rest, [(1, ?A)])
              (?d # rev ?A @ ?l # pre, ?B @ ?r # rest, [(1, ?A)])"
    by (rule sp) (simp_all add: hb)
  have s7: "rfirst (Grp 2 (rx_digits 1 (Some 3))) (?d # rev ?A @ ?l # pre, ?B @ ?r # rest, [(1, ?A)])
              (rev ?B @ ?d # rev ?A @ ?l # pre, ?r # rest, [(2, ?B), (1, ?A)])"
    by (rule dg [OF db lb nd(2)])
  have s8: "rfirst rx_spaces (rev ?B @ ?d # rev ?A @ ?l # pre, ?r # rest, [(2, ?B), (1, ?A)])
              (rev ?B @ ?d # rev ?A @ ?l # pre, ?r # rest, [(2, ?B), (1, ?A)])"
    by (rule sp) (simp_all add: nd)
  have s9: "rfirst (rx_chr ?r) (rev ?B @ ?d # rev ?A @ ?l # pre, ?r # rest, [(2, ?B), (1, ?A)])
              (?r # rev ?B @ ?d # rev ?A @ ?l # pre, rest, [(2, ?B), (1, ?A)])"
    unfolding rx_chr_def by (rule rfirst_Cls) simp
  note chain = rfirst_Sequ [OF s1 rfirst_Sequ [OF s2 rfirst_Sequ [OF s3 rfirst_Sequ [OF s4
    rfirst_Sequ [OF s5 rfirst_Sequ [OF s6 rfirst_Sequ [OF s7 rfirst_Sequ [OF s8 s9]]]]]]]]
  show ?thesis unfolding RE_EP_RANGE_PAREN_def rx_seq.simps using chain by simp
qed

text \<open>A name whose opening parenthesis starts a range is read as that range.\<close>

lemma paren_needs_open: "c \<noteq> CHR ''('' \<Longrightarrow> rmatch RE_EP_RANGE_PAREN (pre, c # cs, gs) = []"
  by (simp add: RE_EP_RANGE_PAREN_def rx_chr_def)

lemma search_at_skip:
  assumes "CHR ''('' \<notin> set skip"
  shows "search_at RE_EP_RANGE_PAREN pre (skip @ rest) = search_at RE_EP_RANGE_PAREN (rev skip @ pre) rest"
  using assms
proof (induction skip arbitrary: pre)
  case (Cons c skip)
  then have "rmatch RE_EP_RANGE_PAREN (pre, c # skip @ rest, []) = []"
    by (intro paren_needs_open) auto
  then show ?case using Cons by (simp add: search_at.simps [of _ pre "c # skip @ rest"])
qed simp

lemma paren_search:
  assumes "a < 1000" and "b < 1000" and "CHR ''('' \<notin> set skip"
  obtains m where "rsearch RE_EP_RANGE_PAREN (skip @ ''('' @ nat_str a @ ''-'' @ nat_str b @ '')'' @ rest) = Some m"
    and "group_pair m = Some (int a, int b)"
proof -
  let ?t = "''('' @ nat_str a @ ''-'' @ nat_str b @ '')'' @ rest"
  obtain ts where "rmatch RE_EP_RANGE_PAREN (rev skip, ?t, []) =
      (rev (''('' @ nat_str a @ ''-'' @ nat_str b @ '')'') @ rev skip, rest,
        [(2, nat_str b), (1, nat_str a)]) # ts"
    using paren_first [OF assms(1,2), of "rev skip" rest] by (auto simp: rfirst_def)
  then obtain m where "search_at RE_EP_RANGE_PAREN (rev skip) ?t = Some m"
    and "f_groups m = [(2, nat_str b), (1, nat_str a)]"
    using search_at.simps [of RE_EP_RANGE_PAREN "rev skip" ?t] by auto
  moreover have "rsearch RE_EP_RANGE_PAREN (skip @ ?t) = search_at RE_EP_RANGE_PAREN (rev skip) ?t"
    using search_at_skip [OF assms(3), of "[]" ?t] by (simp add: rsearch_def)
  ultimately show ?thesis using that by (simp add: group_pair_def group_def parse_nat_str)
qed

lemma token_range_loop:
  "token_loop rs str = map_option range_token (range_loop rs str)"
  by (induction rs str rule: token_loop.induct) (auto split: option.splits)

lemma episode_range_token_eq:
  "episode_range_token name = map_option range_token (parse_episode_range_from_name name)"
  by (simp add: episode_range_token_def parse_episode_range_from_name_def token_range_loop Let_def)

definition short_number :: "string \<Rightarrow> bool" where
  "short_number g = digit_run 3 g"

lemma rx_digits_short: "groups_hold short_number (Grp n (rx_digits 1 (Some 3)))"
  using rx_digits_run [of 3 n] by (simp add: short_number_def [abs_def])

lemma parse_short_number:
  assumes "short_number g"
  obtains n where "parse_int g = Some (int n)" and "n < 1000"
  using parse_digit_run [of 3 g] assms by (auto simp: short_number_def)

lemma range_groups:
  "groups_hold short_number RE_EP_RANGE_PAREN" "groups_hold short_number RE_EP_RANGE_PLAIN"
  using rx_digits_short
  by (simp_all add: RE_EP_RANGE_PAREN_def RE_EP_RANGE_PLAIN_def rx_chr_def rx_spaces_def re_dash_def)

lemma group_pair_bound:
  assumes "rsearch r str = Some m" and "groups_hold short_number r" and "group_pair m = Some (a, b)"
  shows "a < 1000 \<and> b < 1000"
proof -
  have "list_all (\<lambda>(n, g). short_number g) (f_groups m)"
    using search_groups [OF assms(2)] assms(1) by (simp add: rsearch_def)
  then have "group m n = [] \<or> short_number (group m n)" for n
    by (auto simp: group_def list_all_iff split: option.splits dest: map_of_SomeD)
  moreover have "parse_int [] = None" by (simp add: parse_int_def)
  ultimately show ?thesis
    using assms(3) by (auto simp: group_pair_def split: option.splits) (metis of_nat_less_iff option.inject option.simps(3) parse_short_number of_nat_numeral)+
qed

lemma range_loop_bounds:
  assumes "\<forall>r \<in> set rs. groups_hold short_number r" and "range_loop rs str = Some p"
  shows "0 < fst p \<and> fst p \<le> snd p \<and> snd p < 1000"
  using assms
proof (induction rs)
  case (Cons r rs)
  show ?case
  proof (cases "\<exists>m a b. rsearch r str = Some m \<and> group_pair m = Some (a, b) \<and> \<not> (a \<le> 0 \<or> b \<le> 0)")
    case True
    then obtain m a b where "rsearch r str = Some m" "group_pair m = Some (a, b)" "0 < a" "0 < b"
      by auto
    then show ?thesis
      using Cons.prems group_pair_bound [of r str m a b] by (auto simp: ordered_def)
  next
    case False
    then have "range_loop rs str = Some p"
      using Cons.prems(2) by (auto split: option.splits if_splits)
    then show ?thesis using Cons by simp
  qed
qed simp

lemma parse_range_bounds:
  "parse_episode_range_from_name name = Some p \<Longrightarrow> 0 < fst p \<and> fst p \<le> snd p \<and> snd p < 1000"
  using range_loop_bounds [of "[RE_EP_RANGE_PAREN, RE_EP_RANGE_PLAIN]"] range_groups
  by (simp add: parse_episode_range_from_name_def Let_def split: if_splits)

lemma dirname_of_token:
  assumes "parse_episode_range_from_name name = Some p" and "CHR ''('' \<notin> set title"
  shows "dirname_has_range_token (title @ range_token p @ rest) (range_token p)"
proof -
  obtain a b where p: "p = (int a, int b)" "a < 1000" "b < 1000" "a \<le> b"
  proof (rule that [of "nat (fst p)" "nat (snd p)"])
    note parse_range_bounds [OF assms(1)]
    then show "p = (int (nat (fst p)), int (nat (snd p)))" "nat (fst p) < 1000" "nat (snd p) < 1000"
      "nat (fst p) \<le> nat (snd p)" by (auto simp: prod_eq_iff nat_less_iff nat_le_eq_zle)
  qed
  have tok: "range_token p = ''('' @ nat_str a @ ''-'' @ nat_str b @ '')''"
    by (simp add: range_token_def p int_str_def)
  obtain m where m: "rsearch RE_EP_RANGE_PAREN ([] @ ''('' @ nat_str a @ ''-'' @ nat_str b @ '')'' @ []) = Some m"
    "group_pair m = Some (int a, int b)"
    by (rule paren_search [OF p(2,3), of "[]" "[]"]) simp_all
  obtain m' where m': "rsearch RE_EP_RANGE_PAREN (title @ ''('' @ nat_str a @ ''-'' @ nat_str b @ '')'' @ rest) = Some m'"
    "group_pair m' = Some (int a, int b)"
    by (rule paren_search [OF p(2,3) assms(2), of rest]) simp_all
  have "rsearch RE_EP_RANGE_PAREN (range_token p) = Some m"
    and "rsearch RE_EP_RANGE_PAREN (title @ range_token p @ rest) = Some m'"
    using m(1) m'(1) by (simp_all add: tok)
  then show ?thesis using m(2) m'(2) p(1,4) by (simp add: dirname_has_range_token_def ordered_def)
qed

lemma basename_join:
  assumes "CHR ''/'' \<notin> set entry" and "entry \<noteq> []"
  shows "posix_basename (path_join root_path entry) = entry"
proof -
  have "\<exists>pre. path_join root_path entry = pre @ CHR ''/'' # entry \<or> path_join root_path entry = entry"
    using assms by (cases root_path rule: rev_cases)
      (auto simp: path_join_def py_startswith_def py_endswith_def Let_def)
  moreover have "after_last CHR ''/'' entry = entry"
  proof -
    have "\<forall>x \<in> set (rev entry). x \<noteq> CHR ''/''" using assms(1) by auto
    then have "takeWhile (\<lambda>x. x \<noteq> CHR ''/'') (rev entry) = rev entry"
      by (simp only: takeWhile_eq_all_conv)
    then show ?thesis by (simp only: after_last_def rev_rev_ident)
  qed
  ultimately show ?thesis using assms(1) after_last_tail by (auto simp: posix_basename_def)
qed

lemma rstrip_slashes_id:
  "s \<noteq> [] \<Longrightarrow> last s \<noteq> CHR ''/'' \<Longrightarrow> (of_char (last s) :: nat) \<noteq> 92 \<Longrightarrow> rstrip_slashes s = s"
  by (cases s rule: rev_cases) (simp_all add: rstrip_slashes_def)

lemma path_join_not_Nil: "entry \<noteq> [] \<Longrightarrow> path_join root_path entry \<noteq> []"
  by (simp add: path_join_def)

lemma last_join: "entry \<noteq> [] \<Longrightarrow> last (path_join root_path entry) = last entry"
  by (auto simp: path_join_def)

text \<open>
  A batch directory is recognised: when the torrent's name carries an episode range, a
  directory of the anime folder whose name contains the normalised token of that range (no other
  parenthesis before it) and which holds a video file makes the payload present, so that
  reconciliation never marks the torrent deleted for a missing batch.
\<close>
lemma batch_directory_recognised:
  assumes "parse_episode_range_from_name name = Some p"
    and "folder = Some root_path" and "py_strip root_path = root_path" and "root_path \<noteq> []"
    and "fs_isdir fs root_path" and "fs_listdir fs root_path = Some entries"
    and "title @ range_token p @ rest \<in> set entries"
    and "CHR ''('' \<notin> set title"
    and "\<forall>c \<in> set (title @ rest). c \<noteq> CHR ''/'' \<and> (of_char c :: nat) \<noteq> 92"
    and "fs_isdir fs (path_join root_path (title @ range_token p @ rest))"
    and "folder_has_video_files fs (Some (path_join root_path (title @ range_token p @ rest)))"
  shows "batch_payload_present fs folder name"
proof -
  let ?e = "title @ range_token p @ rest"
  have tok: "c \<in> set (range_token p) \<Longrightarrow> c \<noteq> CHR ''/'' \<and> (of_char c :: nat) \<noteq> 92" for c
  proof -
    assume "c \<in> set (range_token p)"
    then consider "c = CHR ''(''" | "c = CHR ''-''" | "c = CHR '')''" | "py_isdigit c"
      using int_str_chars [of c] by (auto simp: range_token_def)
    then show ?thesis by cases (auto simp: py_isdigit_def Let_def)
  qed
  have ne: "?e \<noteq> []" by (simp add: range_token_def)
  have chars: "\<forall>c \<in> set ?e. c \<noteq> CHR ''/'' \<and> (of_char c :: nat) \<noteq> 92" using assms(9) tok unfolding set_append by blast
  have "last ?e \<in> set ?e" using ne by (rule last_in_set)
  then have lst: "last ?e \<noteq> CHR ''/''" "(of_char (last ?e) :: nat) \<noteq> 92"
    using bspec [OF chars] by simp_all
  have slash: "CHR ''/'' \<notin> set ?e" using chars by blast
  define c where "c = path_join root_path ?e"
  have c: "last c = last ?e" "c \<noteq> []"
    unfolding c_def using last_join [OF ne] path_join_not_Nil [OF ne] by auto
  have "rstrip_slashes c = c" by (rule rstrip_slashes_id) (simp_all only: c lst not_False_eq_True)
  then have base: "posix_basename (rstrip_slashes c) = ?e"
    using basename_join [OF slash ne] by (simp only: c_def)
  have tk: "episode_range_token name = Some (range_token p)"
    using assms(1) by (simp add: episode_range_token_eq)
  have "dirname_has_range_token (posix_basename (rstrip_slashes c)) (range_token p)"
    unfolding base by (rule dirname_of_token [OF assms(1,8)])
  moreover have "c \<in> set (root_path # filter (fs_isdir fs) (map (path_join root_path) entries))"
    using assms(7,10) unfolding c_def by auto
  moreover have "folder_has_video_files fs (Some c)" using assms(11) unfolding c_def .
  ultimately show ?thesis
    using assms(2-6) unfolding batch_payload_present_def tk
    by (simp add: given_def list_ex_iff del: filter.simps) blast
qed

text \<open>The ways a payload can be missing.\<close>

definition payload_missing ::
  "file_system \<Rightarrow> string option \<Rightarrow> string option \<Rightarrow> string option \<Rightarrow> string option \<Rightarrow>
   string option \<Rightarrow> bool" where
  "payload_missing fs status save_path anime_folder name state =
     (let folder = (if or_empty anime_folder \<noteq> [] then anime_folder else save_path)
      in (parse_episode_range_from_name name \<noteq> None \<and> \<not> batch_payload_present fs folder name)
       \<or> (\<exists>e. parse_single_episode_from_name name = Some e \<and> e \<notin> collect_episode_numbers fs folder)
       \<or> ((py_lower (or_empty status) = ''complete''
           \<or> normalise_live_state state \<in> set PRESENCE_ERROR_STATES)
          \<and> \<not> folder_has_video_files fs save_path \<and> \<not> folder_has_video_files fs anime_folder))"

definition first_download_running :: "string option \<Rightarrow> string option \<Rightarrow> bool" where
  "first_download_running status state \<longleftrightarrow>
     normalise_live_state state \<in> set ACTIVE_DOWNLOAD_STATES
     \<and> py_lower (or_empty status) \<noteq> ''complete''"

lemma in_range_single: "episodes_in_range_present fs folder e e \<longleftrightarrow> e \<in> collect_episode_numbers fs folder"
  by (auto simp: episodes_in_range_present_def ordered_def)

lemma active_not_error: "t \<in> set ACTIVE_DOWNLOAD_STATES \<Longrightarrow> t \<notin> set PRESENCE_ERROR_STATES"
  by (auto simp: ACTIVE_DOWNLOAD_STATES_def PRESENCE_ERROR_STATES_def)

text \<open>
  Reconciliation decides by three facts alone: a row already deleted is only removed from the
  client; any other row is marked deleted exactly when its payload is missing and no first
  download is in progress; otherwise it is left alone.
\<close>
lemma reconcile_decides:
  "should_reconcile_torrent fs status save_path anime_folder name state =
    (if py_lower (or_empty status) = ''deleted'' then REMOVE_FROM_CLIENT
     else if payload_missing fs status save_path anime_folder name state
             \<and> \<not> first_download_running status state
     then MARK_DELETED else SKIP)"
  using active_not_error [of "normalise_live_state state"]
  by (auto simp: should_reconcile_torrent_def payload_missing_def first_download_running_def Let_def
      in_range_single paths_have_video_files_def split: option.splits)

lemma mark_deleted_needs_missing:
  assumes "\<not> payload_missing fs status save_path anime_folder name state"
  shows "should_reconcile_torrent fs status save_path anime_folder name state \<noteq> MARK_DELETED"
  using assms active_not_error [of "normalise_live_state state"]
  by (auto simp: should_reconcile_torrent_def payload_missing_def Let_def in_range_single
      paths_have_video_files_def split: option.splits)

lemma present_episode_not_marked:
  assumes "parse_single_episode_from_name (Some n) = Some e" and "py_strip n = n"
    and "py_strip folder = folder" and "folder \<noteq> []" and "fs_isdir fs folder"
    and "(dir, files) \<in> set (fs_walk fs folder)" and "n \<in> set files"
    and "is_video_file (path_join dir n)"
  shows "should_reconcile_torrent fs status save_path (Some folder) (Some n) state \<noteq> MARK_DELETED"
proof (rule mark_deleted_needs_missing)
  have ep: "episode_number_from_filename n = Some e" and no: "parse_episode_range_from_name (Some n) = None"
    using assms(1,2)
    by (simp_all add: parse_single_episode_from_name_def Let_def split: if_splits del: not_None_eq)
  have "n \<in> set (concat (map (\<lambda>(dir, files). filter (\<lambda>name. is_video_file (path_join dir name)) files)
      (fs_walk fs folder)))" using assms(6-8) by auto
  then have "e \<in> collect_episode_numbers fs (Some folder)"
    using ep assms(4,5) by (force simp: collect_episode_numbers_def List.map_filter_def)
  moreover have "folder_has_video_files fs (Some folder)"
    using assms(3-8) by (force simp: folder_has_video_files_def given_def list_ex_iff Let_def)
  ultimately show "\<not> payload_missing fs status save_path (Some folder) (Some n) state"
    using no assms(1,4) by (simp add: payload_missing_def)
qed

text \<open>
  A weekly torrent whose file is where it was put is never marked deleted: when the torrent is
  named after a single video file and that file is found anywhere under the anime folder,
  reconciliation keeps the row, whatever its status and the client's state.
\<close>
lemma reconcile_keeps_present_episode:
  assumes "parse_single_episode_from_name (Some n) = Some e" and "py_strip n = n"
    and "py_strip folder = folder" and "folder \<noteq> []" and "fs_isdir fs folder"
    and "(dir, files) \<in> set (fs_walk fs folder)" and "n \<in> set files"
    and "is_video_file (path_join dir n)"
  shows "should_reconcile_torrent fs status save_path (Some folder) (Some n) state \<noteq> MARK_DELETED"
  using assms by (rule present_episode_not_marked)

text \<open>
  A deleted file is matched by its name alone: any listed file with the same last component
  matches, whatever folder it is in and whatever save path is given.
\<close>
lemma deleted_path_matches_any_folder:
  assumes "normalize_media_path fs (Some deleted) = deleted_norm" and "deleted_norm \<noteq> []"
    and "normalize_media_path fs (Some candidate) = candidate_norm" and "candidate_norm \<noteq> []"
    and "posix_basename deleted_norm = posix_basename candidate_norm"
    and "posix_basename candidate_norm \<noteq> []"
  shows "deleted_path_matches_torrent_file fs deleted candidate save_path"
  using assms by (simp add: deleted_path_matches_torrent_file_def Let_def nonempty_or_def)

section \<open>Examples\<close>

definition sample_fs :: file_system where
  "sample_fs =
     \<lparr>fs_isdir = (\<lambda>p. p \<in> {''/a'', ''/a/S (1-2)''}),
      fs_listdir = (\<lambda>p. if p = ''/a'' then Some [''S (1-2)'', ''S - 3.mkv''] else None),
      fs_walk = (\<lambda>p. if p = ''/a/S (1-2)'' then [(p, [''b.mkv''])]
                     else [(''/a'', [''S - 3.mkv'']), (''/a/S (1-2)'', [''b.mkv''])]),
      fs_realpath = Some\<rparr>"

lemma sample_fs_simps:
  "fs_isdir sample_fs ''/a''" "fs_isdir sample_fs ''/a/S (1-2)''"
  "fs_listdir sample_fs ''/a'' = Some [''S (1-2)'', ''S - 3.mkv'']"
  "fs_walk sample_fs ''/a/S (1-2)'' = [(''/a/S (1-2)'', [''b.mkv''])]"
  "fs_walk sample_fs ''/a'' = [(''/a'', [''S - 3.mkv'']), (''/a/S (1-2)'', [''b.mkv''])]"
  by (simp_all add: sample_fs_def)

lemma sample_names:
  "parse_episode_range_from_name (Some ''S (01-2)'') = Some (1, 2)"
  "''S '' @ range_token (1, 2) @ [] = ''S (1-2)''"
  "py_strip ''/a'' = ''/a''" "py_strip ''/a/S (1-2)'' = ''/a/S (1-2)''"
  "py_strip ''S - 3.mkv'' = ''S - 3.mkv''"
  "parse_single_episode_from_name (Some ''S - 3.mkv'') = Some 3"
  "is_video_file (path_join ''/a/S (1-2)'' ''b.mkv'')"
  "is_video_file (path_join ''/a'' ''S - 3.mkv'')"
  "path_join ''/a'' ''S (1-2)'' = ''/a/S (1-2)''"
  by code_simp+

lemma batch_directory_recognised_witness:
  "batch_payload_present sample_fs (Some ''/a'') (Some ''S (01-2)'')"
  by (rule batch_directory_recognised [of "Some ''S (01-2)''" "(1, 2)" _ "''/a''" sample_fs
        "[''S (1-2)'', ''S - 3.mkv'']" "''S ''" "[]"])
     (use sample_names sample_fs_simps in
       \<open>simp_all add: folder_has_video_files_def given_def Let_def\<close>)

lemma reconcile_keeps_present_episode_witness:
  "should_reconcile_torrent sample_fs (Some ''complete'') None (Some ''/a'') (Some ''S - 3.mkv'')
     (Some ''error'') \<noteq> MARK_DELETED"
  by (rule reconcile_keeps_present_episode [of _ 3 _ _ "''/a''" "[''S - 3.mkv'']"])
     (use sample_names sample_fs_simps in simp_all)

lemma deleted_path_matches_any_folder_witness:
  "deleted_path_matches_torrent_file sample_fs ''/a/x/1.mkv'' ''/a/y/1.mkv'' (Some ''/a/y'')"
proof -
  have n: "normalize_media_path sample_fs (Some ''/a/x/1.mkv'') = ''/a/x/1.mkv''"
    "normalize_media_path sample_fs (Some ''/a/y/1.mkv'') = ''/a/y/1.mkv''"
    "posix_basename ''/a/x/1.mkv'' = ''1.mkv''" "posix_basename ''/a/y/1.mkv'' = ''1.mkv''"
    by code_simp+
  show ?thesis by (rule deleted_path_matches_any_folder [OF n(1) _ n(2)]) (simp_all add: n)
qed

end
