(* ===== verification/DownloadStatus.thy ===== *)
theory DownloadStatus
  imports DownloadBase TorrentPresence "HOL-Library.Multiset"
begin

text \<open>
  The download manager, second part: what it reads from the torrent client and writes to the
  database: the status of the active tasks, the overview, reconciliation with the files on disk
  and the cleanup after a file or an anime is removed.
\<close>

section \<open>Completion\<close>

definition maybe_mark_torrent_complete ::
  "('c, 'd) wiring \<Rightarrow> string option \<Rightarrow> string option \<Rightarrow> rat option \<Rightarrow> ('c, 'd) dm \<Rightarrow> ('c, 'd) dm" where
  "maybe_mark_torrent_complete w hash_value state progress s =
     (if or_empty hash_value = [] \<or> \<not> is_live_complete state progress then s
      else case w_db w of
             None \<Rightarrow> s
           | Some db \<Rightarrow>
               (case (d_set_status db, d_status db) of
                  (Some updater, Some getter) \<Rightarrow>
                    (case getter (dm_db s) (or_empty hash_value) of
                       Inl _ \<Rightarrow> s
                     | Inr current \<Rightarrow>
                         if py_lower (or_empty current) \<in> {''complete'', ''deleted''} then s
                         else s\<lparr>dm_db := fst (updater (dm_db s) (or_empty hash_value) (Some ''complete''))\<rparr>)
                | _ \<Rightarrow> s))"

section \<open>Status of the active tasks\<close>

definition clamp01 :: "rat \<Rightarrow> rat" where
  "clamp01 x = max 0 (min 1 x)"

text \<open>The progress a row gives, derived from the byte counts when missing.\<close>

definition derived_progress :: "live_row \<Rightarrow> rat option" where
  "derived_progress r =
     (case r_progress r of
        Some p \<Rightarrow> Some p
      | None \<Rightarrow> (case (r_size r, r_downloaded r) of
                   (Some sz, Some got) \<Rightarrow> if sz > 0 then Some (got / sz) else None
                 | _ \<Rightarrow> None))"

definition nonneg_int :: "rat option \<Rightarrow> int option" where
  "nonneg_int v = (case v of None \<Rightarrow> None | Some x \<Rightarrow> if x \<ge> 0 then Some \<lfloor>x\<rfloor> else None)"

definition nonneg :: "rat option \<Rightarrow> rat option" where
  "nonneg v = (case v of None \<Rightarrow> None | Some x \<Rightarrow> if x \<ge> 0 then Some x else None)"

definition keep_old :: "'a option \<Rightarrow> 'a option \<Rightarrow> 'a option" where
  "keep_old new old = (case new of None \<Rightarrow> old | Some v \<Rightarrow> Some v)"

definition live_fields :: "live_row \<Rightarrow> DownloadTask \<Rightarrow> DownloadTask" where
  "live_fields r t =
     t\<lparr>t_name := (if truthy (r_name r) then r_name r else t_name t),
       t_size := (case r_size r of None \<Rightarrow> t_size t | Some x \<Rightarrow> if x > 0 then Some \<lfloor>x\<rfloor> else t_size t),
       t_downloaded := keep_old (nonneg_int (r_downloaded r)) (t_downloaded t),
       t_progress := keep_old (map_option clamp01 (derived_progress r)) (t_progress t),
       t_state := (if truthy (r_state r) then map_option py_upper (r_state r) else t_state t),
       t_path := (if truthy (r_path r) then r_path r else t_path t),
       t_dl_speed := keep_old (nonneg (r_dl_speed r)) (t_dl_speed t),
       t_eta := keep_old (nonneg_int (r_eta r)) (t_eta t)\<rparr>"

definition lower_hash :: "string option \<Rightarrow> string option" where
  "lower_hash h = (if truthy h then map_option py_lower h else None)"

definition apply_torrent_status_to_task ::
  "('c, 'd) wiring \<Rightarrow> nat \<Rightarrow> live_row \<Rightarrow> ('c, 'd) dm \<Rightarrow> ('c, 'd) dm" where
  "apply_torrent_status_to_task w i r s =
     (let s1 = on_task i (live_fields r) s; t = task_at s1 i
      in maybe_mark_torrent_complete w (lower_hash (t_hash t)) (r_state r) (t_progress t) s1)"

text \<open>\<open>by_hash\<close>: the last row of every hash, \<open>None\<close> entries and blank hashes left out.\<close>

definition rows_by_hash :: "live_row option list \<Rightarrow> (string \<times> live_row) list" where
  "rows_by_hash rows =
     rev (List.map_filter
            (\<lambda>row. case row of None \<Rightarrow> None
                   | Some r \<Rightarrow> map_option (\<lambda>h. (h, r)) (lower_hash (r_hash r))) rows)"

definition refresh_active_task_status ::
  "('c, 'd) wiring \<Rightarrow> rat \<Rightarrow> ('c, 'd) dm \<Rightarrow> ('c, 'd) dm" where
  "refresh_active_task_status w now s =
     (case w_client w of
        None \<Rightarrow> s
      | Some tm \<Rightarrow>
          if now - dm_last_refresh s < 1 / 2 then s
          else
          let ids = map snd (dm_active s);
              hashes = List.map_filter (\<lambda>i. if truthy (t_hash (task_at s i)) then t_hash (task_at s i) else None) ids;
              s1 = s\<lparr>dm_last_refresh := now\<rparr>
          in if hashes = [] then s1
             else
             let results = (case c_list tm (dm_client s) (Some hashes) of
                              Inr rows \<Rightarrow> rows
                            | Inl (TypeError _) \<Rightarrow>
                                (case c_list tm (dm_client s) None of Inl _ \<Rightarrow> [] | Inr rows \<Rightarrow> rows)
                            | Inl _ \<Rightarrow> [])
             in fold (\<lambda>i s. case lower_hash (t_hash (task_at s i)) of
                              None \<Rightarrow> s
                            | Some h \<Rightarrow>
                                (case map_of (rows_by_hash results) h of
                                   None \<Rightarrow> s
                                 | Some r \<Rightarrow> apply_torrent_status_to_task w i r s))
                  ids s1)"

text \<open>The dictionary a task is shown as; its elapsed time is left out.\<close>

definition get_status :: "DownloadTask \<Rightarrow> DownloadTask" where
  "get_status t = t\<lparr>t_source := (if t_source t = None then Some ''manual'' else t_source t)\<rparr>"

definition get_download_status ::
  "('c, 'd) wiring \<Rightarrow> rat \<Rightarrow> ('c, 'd) dm \<Rightarrow> int \<Rightarrow> ('c, 'd) dm \<times> DownloadTask option" where
  "get_download_status w now s anime_id =
     (let s1 = refresh_active_task_status w now s
      in (s1, map_option (\<lambda>i. get_status (task_at s1 i)) (map_of (dm_active s1) anime_id)))"

definition get_active_downloads ::
  "('c, 'd) wiring \<Rightarrow> rat \<Rightarrow> ('c, 'd) dm \<Rightarrow> ('c, 'd) dm \<times> DownloadTask list" where
  "get_active_downloads w now s =
     (let s1 = refresh_active_task_status w now s
      in (s1, map (\<lambda>(a, i). get_status (task_at s1 i)) (dm_active s1)))"

section \<open>The overview\<close>

definition maybe_ensure_torrent_session_restored ::
  "'c client \<Rightarrow> ('c, 'd) dm \<Rightarrow> ('c, 'd) dm" where
  "maybe_ensure_torrent_session_restored tm s =
     (if (case c_is_restored tm of Some f \<Rightarrow> f (dm_client s) | None \<Rightarrow> c_restored_flag tm (dm_client s))
      then s
      else case c_ensure_restored tm of
             None \<Rightarrow> s
           | Some ensure \<Rightarrow> s\<lparr>dm_client := fst (ensure (dm_client s))\<rparr>)"

definition ensure_index ::
  "('c, 'd) wiring \<Rightarrow> int \<Rightarrow> string option \<Rightarrow> string option \<Rightarrow> string option \<Rightarrow> string list option \<Rightarrow>
   ('c, 'd) dm \<Rightarrow> ('c, 'd) dm \<times> bool" where
  "ensure_index w anime_id hash_value name save_path trackers s =
     (case canonicalize_infohash hash_value of
        None \<Rightarrow> (s, False)
      | Some key \<Rightarrow>
          (case w_db w of
             None \<Rightarrow> (s, False)
           | Some db \<Rightarrow>
               (case d_ensure_index db of
                  None \<Rightarrow> (s, False)
                | Some ensure \<Rightarrow>
                    let (db', r) = ensure (dm_db s) anime_id key name save_path trackers
                    in (s\<lparr>dm_db := db'\<rparr>, is_ok r))))"

record overview_row =
  o_hash :: "string option"
  o_name :: string
  o_anime :: "int option"
  o_title :: "string option"
  o_state :: "string option"
  o_category :: category
  o_progress :: "rat option"
  o_size :: "int option"
  o_downloaded :: "int option"
  o_dl_speed :: "rat option"
  o_up_speed :: "rat option"
  o_eta :: "int option"
  o_path :: "string option"

type_synonym buckets = "category \<Rightarrow> overview_row list"

definition add_row :: "overview_row \<Rightarrow> buckets \<Rightarrow> buckets" where
  "add_row row out = out(o_category row := out (o_category row) @ [row])"

text \<open>What the loop over the client's rows carries along.\<close>

type_synonym ('c, 'd) overview_state =
  "('c, 'd) dm \<times> (string \<times> int) list \<times> (int \<times> string) list \<times> buckets"

definition titles_of :: "('c, 'd) wiring \<Rightarrow> 'd \<Rightarrow> int list \<Rightarrow> (int \<times> string) list" where
  "titles_of w d ids =
     (case w_db w of
        None \<Rightarrow> []
      | Some db \<Rightarrow>
          (case d_titles db of
             None \<Rightarrow> []
           | Some getter \<Rightarrow> (case getter d ids of Inl _ \<Rightarrow> [] | Inr ts \<Rightarrow> ts)))"

text \<open>Adopt a torrent nobody owns when its folder names an anime.\<close>

definition adopt_orphan ::
  "('c, 'd) wiring \<Rightarrow> live_row \<Rightarrow> string \<Rightarrow> string option \<Rightarrow> ('c, 'd) overview_state \<Rightarrow>
   ('c, 'd) overview_state \<times> int option" where
  "adopt_orphan w r h name st =
     (case st of (s, anime_map, title_map, out) \<Rightarrow>
        let path = (if truthy (r_path r) then r_path r else None)
        in case anime_id_from_save_path path of
             None \<Rightarrow> (st, None)
           | Some inferred \<Rightarrow>
               let (s', ok) = ensure_index w inferred (Some h) (if truthy name then name else None) path None s
               in if \<not> ok then ((s', anime_map, title_map, out), None)
                  else ((s', AList.update h inferred anime_map,
                         (if map_of title_map inferred = None
                          then titles_of w (dm_db s') [inferred] @ title_map else title_map),
                         out), Some inferred))"

definition overview_step ::
  "('c, 'd) wiring \<Rightarrow> (string \<times> DownloadTask) list \<Rightarrow> live_row \<times> string \<Rightarrow>
   ('c, 'd) overview_state \<Rightarrow> ('c, 'd) overview_state" where
  "overview_step w task_by_hash rh st =
     (let (r, h) = rh; (s, anime_map, title_map, out) = st;
          progress = map_option clamp01 (derived_progress r);
          category = normalise_category (r_state r) progress;
          task = map_of task_by_hash h;
          known_id = (case map_of anime_map h of Some a \<Rightarrow> Some a | None \<Rightarrow> map_option t_anime task);
          name = (if truthy (r_name r) then r_name r
                  else case task of None \<Rightarrow> r_name r | Some t \<Rightarrow> t_name t);
          ((s1, am1, tm1, out1), anime_id) =
            (case known_id of
               Some a \<Rightarrow> (st, Some a)
             | None \<Rightarrow> adopt_orphan w r h name st);
          shown = (if truthy name then or_empty name
                   else case anime_id of
                          Some a \<Rightarrow> (case map_of tm1 a of
                                       Some t \<Rightarrow> if t \<noteq> [] then t else ''Anime #'' @ int_str a
                                     | None \<Rightarrow> ''Anime #'' @ int_str a)
                        | None \<Rightarrow> if h \<noteq> [] then h else ''Unknown torrent'');
          row = \<lparr>o_hash = Some h, o_name = shown, o_anime = anime_id,
                 o_title = (case anime_id of None \<Rightarrow> None | Some a \<Rightarrow> map_of tm1 a),
                 o_state = (if truthy (r_state r) then map_option py_upper (r_state r) else None),
                 o_category = category, o_progress = progress,
                 o_size = nonneg_int (r_size r), o_downloaded = nonneg_int (r_downloaded r),
                 o_dl_speed = nonneg (r_dl_speed r),
                 o_up_speed = nonneg (if r_up_speed r = None then r_upload_rate r else r_up_speed r),
                 o_eta = nonneg_int (r_eta r),
                 o_path = (if truthy (r_path r) then r_path r else None)\<rparr>
      in (maybe_mark_torrent_complete w (Some h) (r_state r) progress s1, am1, tm1, add_row row out1))"

text \<open>A task the client does not show yet.\<close>

definition pending_row :: "DownloadTask \<Rightarrow> overview_row" where
  "pending_row t =
     \<lparr>o_hash = (if truthy (t_hash t) then map_option (\<lambda>h. py_lower (py_strip h)) (t_hash t) else None),
      o_name = (if truthy (t_name t) then or_empty (t_name t)
                else if t_anime t \<noteq> 0 then ''Anime #'' @ int_str (t_anime t) else ''Pending download''),
      o_anime = Some (t_anime t), o_title = None, o_state = t_state t,
      o_category = normalise_category (t_state t) (t_progress t), o_progress = t_progress t,
      o_size = t_size t, o_downloaded = t_downloaded t, o_dl_speed = t_dl_speed t,
      o_up_speed = None, o_eta = t_eta t, o_path = t_path t\<rparr>"

definition hashed_rows :: "live_row option list \<Rightarrow> (live_row \<times> string) list" where
  "hashed_rows rows =
     List.map_filter
       (\<lambda>row. case row of None \<Rightarrow> None
              | Some r \<Rightarrow> if truthy (r_hash r) then Some (r, py_lower (py_strip (or_empty (r_hash r)))) else None)
       rows"

definition no_rows :: buckets where
  "no_rows = (\<lambda>_. [])"

definition all_categories :: "category list" where
  "all_categories = [Active, Seeding, Completed, Error, Other]"

definition overview_rows :: "buckets \<Rightarrow> overview_row list" where
  "overview_rows out = concat (map out all_categories)"

definition get_torrents_overview ::
  "('c, 'd) wiring \<Rightarrow> ('c, 'd) dm \<Rightarrow> ('c, 'd) dm \<times> buckets" where
  "get_torrents_overview w s =
     (case w_client w of
        None \<Rightarrow> (s, no_rows)
      | Some tm \<Rightarrow>
          let s1 = maybe_ensure_torrent_session_restored tm s
          in (case c_list tm (dm_client s1) None of
                Inl _ \<Rightarrow> (s1, no_rows)
              | Inr entries \<Rightarrow>
                  let tasks = map (\<lambda>(a, i). task_at s1 i) (dm_active s1);
                      task_by_hash = rev (List.map_filter
                        (\<lambda>t. map_option (\<lambda>h. (h, t)) (lower_hash (t_hash t))) tasks);
                      rows = hashed_rows entries;
                      anime_map = (case w_db w of
                                     None \<Rightarrow> []
                                   | Some db \<Rightarrow>
                                       if rows = [] then []
                                       else case d_ids_by_hashes db of
                                              None \<Rightarrow> []
                                            | Some getter \<Rightarrow>
                                                (case getter (dm_db s1) (map snd rows) of
                                                   Inl _ \<Rightarrow> [] | Inr m \<Rightarrow> m));
                      title_map = (if anime_map = [] then []
                                   else titles_of w (dm_db s1) (remdups (map snd anime_map)));
                      (s2, _, _, out) = fold (overview_step w task_by_hash) rows
                                          (s1, anime_map, title_map, no_rows);
                      seen = List.map_filter (\<lambda>row. if truthy (o_hash row) then o_hash row else None)
                               (overview_rows out);
                      pending = filter (\<lambda>t. case o_hash (pending_row t) of
                                              None \<Rightarrow> True | Some h \<Rightarrow> h = [] \<or> h \<notin> set seen)
                                  (map (\<lambda>(a, i). task_at s2 i) (dm_active s2))
                  in (s2, fold (\<lambda>t. add_row (pending_row t)) pending out)))"

section \<open>Each torrent once, in its bucket\<close>

definition in_buckets :: "buckets \<Rightarrow> bool" where
  "in_buckets out \<longleftrightarrow> (\<forall>c. \<forall>row \<in> set (out c). o_category row = c)"

lemma in_buckets_add [simp]: "in_buckets out \<Longrightarrow> in_buckets (add_row row out)"
  by (auto simp: in_buckets_def add_row_def)

lemma mset_add_row: "mset (overview_rows (add_row row out)) = add_mset row (mset (overview_rows out))"
  by (cases "o_category row") (simp_all add: overview_rows_def all_categories_def add_row_def)

lemma adopt_orphan_out:
  "fst (adopt_orphan w r h name (s, am, tm, out)) = (s1, am1, tm1, out1) \<Longrightarrow>
   out1 = out \<and> dm_tasks s1 = dm_tasks s \<and> dm_active s1 = dm_active s \<and> dm_client s1 = dm_client s"
  by (auto simp: adopt_orphan_def ensure_index_def Let_def
      split: option.splits prod.splits if_splits)

lemma mark_complete_keeps [simp]:
  "dm_tasks (maybe_mark_torrent_complete w h st p s) = dm_tasks s"
  "dm_active (maybe_mark_torrent_complete w h st p s) = dm_active s"
  "dm_client (maybe_mark_torrent_complete w h st p s) = dm_client s"
  "dm_queue (maybe_mark_torrent_complete w h st p s) = dm_queue s"
  "dm_submitted (maybe_mark_torrent_complete w h st p s) = dm_submitted s"
  "dm_queued (maybe_mark_torrent_complete w h st p s) = dm_queued s"
  "dm_cancelled (maybe_mark_torrent_complete w h st p s) = dm_cancelled s"
  by (auto simp: maybe_mark_torrent_complete_def split: option.splits sum.splits)

lemma overview_step_out:
  assumes "overview_step w tbh (r, h) (s, am, tm, out) = (s', am', tm', out')"
  shows "\<exists>row. out' = add_row row out \<and> o_hash row = Some h
      \<and> o_category row = normalise_category (r_state r) (map_option clamp01 (derived_progress r))
      \<and> dm_tasks s' = dm_tasks s \<and> dm_active s' = dm_active s"
proof -
  let ?known = "case map_of am h of Some a \<Rightarrow> Some a | None \<Rightarrow> map_option t_anime (map_of tbh h)"
  let ?name = "if truthy (r_name r) then r_name r
    else case map_of tbh h of None \<Rightarrow> r_name r | Some t \<Rightarrow> t_name t"
  obtain s1 am1 tm1 out1 a where x: "(case ?known of Some a \<Rightarrow> ((s, am, tm, out), Some a)
      | None \<Rightarrow> adopt_orphan w r h ?name (s, am, tm, out)) = ((s1, am1, tm1, out1), a)"
    by (metis prod_cases3 surj_pair)
  then have keep: "out1 = out \<and> dm_tasks s1 = dm_tasks s \<and> dm_active s1 = dm_active s"
    using adopt_orphan_out [of w r h ?name s am tm out s1 am1 tm1 out1] by (auto split: option.splits)
  show ?thesis
    using assms keep by (auto simp: overview_step_def Let_def x simp del: split_paired_Ex)
qed

lemma overview_fold_out:
  assumes "fold (overview_step w tbh) rows (s, am, tm, out) = (s', am', tm', out')"
    and "in_buckets out"
  shows "in_buckets out'
    \<and> image_mset o_hash (mset (overview_rows out'))
      = image_mset o_hash (mset (overview_rows out)) + mset (map (\<lambda>(r, h). Some h) rows)
    \<and> dm_tasks s' = dm_tasks s \<and> dm_active s' = dm_active s"
  using assms
proof (induction rows arbitrary: s am tm out)
  case (Cons rh rows)
  obtain r h where rh: "rh = (r, h)" by (cases rh)
  obtain s1 am1 tm1 out1 where st: "overview_step w tbh (r, h) (s, am, tm, out) = (s1, am1, tm1, out1)"
    by (metis prod_cases4)
  from overview_step_out [OF st] obtain row where row: "out1 = add_row row out" "o_hash row = Some h"
    "dm_tasks s1 = dm_tasks s" "dm_active s1 = dm_active s" by blast
  have "in_buckets out1" using Cons.prems(2) row(1) by simp
  moreover have "fold (overview_step w tbh) rows (s1, am1, tm1, out1) = (s', am', tm', out')"
    using Cons.prems(1) st rh by simp
  ultimately show ?case using Cons.IH [of s1 am1 tm1 out1] row rh by (simp add: mset_add_row)
qed simp

lemma pending_fold_out:
  "in_buckets out \<Longrightarrow>
   in_buckets (fold (\<lambda>t. add_row (pending_row t)) ts out)
   \<and> image_mset o_hash (mset (overview_rows (fold (\<lambda>t. add_row (pending_row t)) ts out)))
     = image_mset o_hash (mset (overview_rows out)) + mset (map (\<lambda>t. o_hash (pending_row t)) ts)"
  by (induction ts arbitrary: out) (simp_all add: mset_add_row)

lemma mem_map_filter: "y \<in> set (List.map_filter f xs) \<longleftrightarrow> (\<exists>x \<in> set xs. f x = Some y)"
  by (induction xs) (auto simp: List.map_filter_simps split: option.splits)

lemma empty_buckets [simp]: "in_buckets no_rows" "overview_rows no_rows = []"
  by (simp_all add: in_buckets_def no_rows_def overview_rows_def all_categories_def)

text \<open>
  C21. The overview shows every torrent once: each row of the client that has a hash appears in
  exactly one bucket, the one of its category, under its lower-case hash; the active tasks whose
  hash the client does not show follow, once each; nothing else is shown.
\<close>
theorem overview_shows_each_torrent_once:
  assumes "w_client w = Some tm"
    and "c_list tm (dm_client (maybe_ensure_torrent_session_restored tm s)) None = Inr entries"
    and "get_torrents_overview w s = (s', out)"
  shows "(\<forall>c. \<forall>row \<in> set (out c). o_category row = c)
    \<and> image_mset o_hash (mset (overview_rows out))
      = mset (map (\<lambda>(r, h). Some h) (hashed_rows entries))
        + mset (map (\<lambda>t. o_hash (pending_row t))
            (filter (\<lambda>t. case o_hash (pending_row t) of
                            None \<Rightarrow> True | Some h \<Rightarrow> h = [] \<or> h \<notin> snd ` set (hashed_rows entries))
              (map (\<lambda>(a, i). task_at s i) (dm_active s))))"
proof -
  let ?s1 = "maybe_ensure_torrent_session_restored tm s"
  have s1: "dm_tasks ?s1 = dm_tasks s" "dm_active ?s1 = dm_active s"
    by (auto simp: maybe_ensure_torrent_session_restored_def split: option.splits)
  obtain tbh am ttl where
    run: "get_torrents_overview w s =
      (let (s2, _, _, out) = fold (overview_step w tbh) (hashed_rows entries) (?s1, am, ttl, no_rows);
           seen = List.map_filter (\<lambda>row. if truthy (o_hash row) then o_hash row else None) (overview_rows out);
           pending = filter (\<lambda>t. case o_hash (pending_row t) of
                       None \<Rightarrow> True | Some h \<Rightarrow> h = [] \<or> h \<notin> set seen)
                     (map (\<lambda>(a, i). task_at s2 i) (dm_active s2))
       in (s2, fold (\<lambda>t. add_row (pending_row t)) pending out))"
    using assms(1,2) by (simp add: get_torrents_overview_def Let_def)
  obtain s2 am2 tm2 out2 where f: "fold (overview_step w tbh) (hashed_rows entries) (?s1, am, ttl, no_rows)
      = (s2, am2, tm2, out2)"
    by (metis prod_cases4)
  from overview_fold_out [OF f] have o2: "in_buckets out2"
    "image_mset o_hash (mset (overview_rows out2)) = mset (map (\<lambda>(r, h). Some h) (hashed_rows entries))"
    "dm_tasks s2 = dm_tasks s" "dm_active s2 = dm_active s"
    using s1 by simp_all
  have hashes: "o_hash ` set (overview_rows out2) = (\<lambda>(r, h). Some h) ` set (hashed_rows entries)"
    using arg_cong [OF o2(2), of set_mset] by simp
  define seen where "seen = List.map_filter (\<lambda>row. if truthy (o_hash row) then o_hash row else None) (overview_rows out2)"
  have seen: "h \<in> set seen \<longleftrightarrow> h \<in> snd ` set (hashed_rows entries)" if "h \<noteq> []" for h
  proof -
    have "h \<in> set seen \<longleftrightarrow> Some h \<in> o_hash ` set (overview_rows out2)"
    proof -
      have "(if truthy (o_hash x) then o_hash x else None) = Some h \<longleftrightarrow> Some h = o_hash x" for x
        using that by (cases "o_hash x") (auto simp: truthy_def)
      then show ?thesis unfolding seen_def mem_map_filter image_iff by blast
    qed
    then show ?thesis unfolding hashes by force
  qed
  define pending where "pending = filter (\<lambda>t. case o_hash (pending_row t) of
      None \<Rightarrow> True | Some h \<Rightarrow> h = [] \<or> h \<notin> set seen) (map (\<lambda>(a, i). task_at s2 i) (dm_active s2))"
  have p: "pending = filter (\<lambda>t. case o_hash (pending_row t) of
      None \<Rightarrow> True | Some h \<Rightarrow> h = [] \<or> h \<notin> snd ` set (hashed_rows entries))
      (map (\<lambda>(a, i). task_at s i) (dm_active s))"
    unfolding pending_def using seen o2(3,4)
    by (auto simp: task_at_def intro!: filter_cong split: option.splits)
  have "out = fold (\<lambda>t. add_row (pending_row t)) pending out2"
    unfolding pending_def seen_def using assms(3) run f by (auto simp: Let_def)
  then show ?thesis
    using pending_fold_out [OF o2(1), of pending] o2(2) p by (simp add: in_buckets_def)
qed

section \<open>Reconciliation\<close>

text \<open>\<open>folder_resolver(int(anime_id))\<close>, its exceptions caught.\<close>

definition resolve_folder :: "(int \<Rightarrow> string option res) \<Rightarrow> int option \<Rightarrow> string option" where
  "resolve_folder resolver anime_id =
     (case anime_id of
        None \<Rightarrow> None
      | Some a \<Rightarrow> (case resolver a of Inl _ \<Rightarrow> None | Inr folder \<Rightarrow> folder))"

text \<open>One row: a finished torrent is first recorded as complete, then the files decide.\<close>

definition reconcile_row ::
  "('c, 'd) wiring \<Rightarrow> file_system \<Rightarrow> (int \<Rightarrow> string option res) \<Rightarrow>
   ('d \<Rightarrow> string \<Rightarrow> string option \<Rightarrow> 'd \<times> unit res) \<Rightarrow> index_row \<Rightarrow> ('c, 'd) dm \<Rightarrow>
   ('c, 'd) dm \<times> bool res" where
  "reconcile_row w fs resolver updater row s =
     (let h = row_key row
      in if h = [] then (s, Inr False)
         else
         let anime_folder = resolve_folder resolver (i_anime row);
             live = lookup_live_torrent w s h;
             live_state = (case live of None \<Rightarrow> None | Some l \<Rightarrow> l_state l);
             finished = (case live of None \<Rightarrow> False | Some l \<Rightarrow> is_live_complete (l_state l) (l_progress l));
             (s1, r1) = (if finished
                         then let (db', r) = updater (dm_db s) h (Some ''complete'') in (s\<lparr>dm_db := db'\<rparr>, r)
                         else (s, Inr ()));
             status = (if finished then Some ''complete'' else i_status row);
             live_path = (case live of None \<Rightarrow> None | Some l \<Rightarrow> l_path l);
             save_path = (if finished \<and> truthy live_path \<and> \<not> truthy (i_save_path row)
                          then live_path else i_save_path row)
         in case r1 of
              Inl e \<Rightarrow> (s1, Inl e)
            | Inr _ \<Rightarrow>
                (case should_reconcile_torrent fs status save_path anime_folder (i_name row) live_state of
                   REMOVE_FROM_CLIENT \<Rightarrow> (remove_torrent_from_client w False h s1, Inr False)
                 | MARK_DELETED \<Rightarrow>
                     (let (db', r) = updater (dm_db s1) h (Some ''deleted''); s2 = s1\<lparr>dm_db := db'\<rparr>
                      in case r of
                           Inl e \<Rightarrow> (s2, Inl e)
                         | Inr _ \<Rightarrow> (remove_torrent_from_client w False h s2, Inr True))
                 | SKIP \<Rightarrow> (s1, Inr False)))"

fun reconcile_rows ::
  "('c, 'd) wiring \<Rightarrow> file_system \<Rightarrow> (int \<Rightarrow> string option res) \<Rightarrow>
   ('d \<Rightarrow> string \<Rightarrow> string option \<Rightarrow> 'd \<times> unit res) \<Rightarrow> index_row list \<Rightarrow> nat \<Rightarrow> ('c, 'd) dm \<Rightarrow>
   ('c, 'd) dm \<times> nat res" where
  "reconcile_rows w fs resolver updater [] marked s = (s, Inr marked)"
| "reconcile_rows w fs resolver updater (row # rows) marked s =
     (case reconcile_row w fs resolver updater row s of
        (s1, Inl e) \<Rightarrow> (s1, Inl e)
      | (s1, Inr m) \<Rightarrow>
          reconcile_rows w fs resolver updater rows (if m then marked + 1 else marked) s1)"

definition reconcile_deleted_torrents ::
  "('c, 'd) wiring \<Rightarrow> file_system \<Rightarrow> (int \<Rightarrow> string option res) \<Rightarrow> ('c, 'd) dm \<Rightarrow>
   ('c, 'd) dm \<times> nat res" where
  "reconcile_deleted_torrents w fs resolver s =
     (case w_db w of
        None \<Rightarrow> (s, Inr 0)
      | Some db \<Rightarrow>
          (case (d_list_reconcile db, d_set_status db) of
             (Some lister, Some updater) \<Rightarrow>
               (case lister (dm_db s) of
                  Inl e \<Rightarrow> (s, Inl e)
                | Inr rows \<Rightarrow> reconcile_rows w fs resolver updater rows 0 s)
           | _ \<Rightarrow> (s, Inr 0)))"

section \<open>Removed files and seen anime\<close>

definition list_files_for_torrent :: "('c, 'd) wiring \<Rightarrow> ('c, 'd) dm \<Rightarrow> string \<Rightarrow> string list" where
  "list_files_for_torrent w s h =
     (case w_client w of
        None \<Rightarrow> []
      | Some tm \<Rightarrow>
          if h = [] then []
          else case c_list_files tm of
                 None \<Rightarrow> []
               | Some lister \<Rightarrow>
                   (case lister (dm_client s) h of Inl _ \<Rightarrow> [] | Inr rows \<Rightarrow> filter (\<lambda>p. p \<noteq> []) rows))"

text \<open>Mark the rows that satisfy a test, in order; the hashes marked so far come along.\<close>

fun mark_rows ::
  "('d \<Rightarrow> string \<Rightarrow> string option \<Rightarrow> 'd \<times> unit res) \<Rightarrow> (string list \<Rightarrow> index_row \<Rightarrow> bool) \<Rightarrow>
   index_row list \<Rightarrow> string list \<Rightarrow> ('c, 'd) dm \<Rightarrow> ('c, 'd) dm \<times> string list res" where
  "mark_rows updater P [] hs s = (s, Inr hs)"
| "mark_rows updater P (row # rows) hs s =
     (if row_key row \<noteq> [] \<and> P hs row
      then case updater (dm_db s) (row_key row) (Some ''deleted'') of
             (db', Inl e) \<Rightarrow> (s\<lparr>dm_db := db'\<rparr>, Inl e)
           | (db', Inr _) \<Rightarrow> mark_rows updater P rows (hs @ [row_key row]) (s\<lparr>dm_db := db'\<rparr>)
      else mark_rows updater P rows hs s)"

definition row_owns_file ::
  "('c, 'd) wiring \<Rightarrow> file_system \<Rightarrow> ('c, 'd) dm \<Rightarrow> string \<Rightarrow> string option \<Rightarrow> index_row \<Rightarrow> bool" where
  "row_owns_file w fs s deleted_path anime_folder row =
     (let save_path = (if truthy (i_save_path row) then i_save_path row else anime_folder);
          listed = list_files_for_torrent w s (row_key row);
          name = py_strip (or_empty (i_name row));
          files = (if listed = [] \<and> name \<noteq> [] then [name] else listed)
      in list_ex (\<lambda>f. deleted_path_matches_torrent_file fs deleted_path f save_path) files)"

definition mark_torrents_deleted_for_removed_file ::
  "('c, 'd) wiring \<Rightarrow> file_system \<Rightarrow> (int \<Rightarrow> string option res) \<Rightarrow> int \<Rightarrow> string option \<Rightarrow>
   ('c, 'd) dm \<Rightarrow> ('c, 'd) dm \<times> nat res" where
  "mark_torrents_deleted_for_removed_file w fs resolver anime_id deleted_path s =
     (case w_db w of
        None \<Rightarrow> (s, Inr 0)
      | Some db \<Rightarrow>
          if py_strip (or_empty deleted_path) = [] then (s, Inr 0)
          else
          (case (d_list_anime db, d_set_status db) of
             (Some lister, Some updater) \<Rightarrow>
               let anime_folder = resolve_folder resolver (Some anime_id)
               in (case lister (dm_db s) anime_id of
                     Inl e \<Rightarrow> (s, Inl e)
                   | Inr rows \<Rightarrow>
                       (case mark_rows updater
                               (\<lambda>hs row. \<not> row_deleted row
                                  \<and> row_owns_file w fs s (or_empty deleted_path) anime_folder row) rows [] s of
                          (s1, Inl e) \<Rightarrow> (s1, Inl e)
                        | (s1, Inr hs) \<Rightarrow>
                            (case (if truthy anime_folder \<and> \<not> folder_has_video_files fs anime_folder
                                   then mark_rows updater
                                          (\<lambda>hs row. row_key row \<notin> set hs
                                             \<and> py_lower (or_empty (i_status row)) = ''complete'') rows hs s1
                                   else (s1, Inr hs)) of
                               (s2, Inl e) \<Rightarrow> (s2, Inl e)
                             | (s2, Inr hs') \<Rightarrow>
                                 (remove_torrents_from_client w False hs' s2, Inr (length hs')))))
           | _ \<Rightarrow> (s, Inr 0)))"

text \<open>
  The folder handed to the file manager for deletion.  Without an explicit root the source calls
  \<open>get\<close> on \<open>str(settings)\<close>, which no string has.  \<open>fm\<close> says whether a file manager is
  attached, \<open>exists\<close> is its answer (\<open>None\<close> when it has no such method, an error when it raises).
\<close>

definition seen_anime_folder ::
  "bool \<Rightarrow> (string \<Rightarrow> bool res) option \<Rightarrow> (int \<Rightarrow> string option res) option \<Rightarrow> string option \<Rightarrow> int \<Rightarrow>
   string option res" where
  "seen_anime_folder fm exists folder_resolver animes_root anime_id =
     (case (if fm then folder_resolver else None) of
        None \<Rightarrow> Inr None
      | Some resolver \<Rightarrow>
          let folder = py_strip (or_empty (resolve_folder resolver (Some anime_id)));
              library = py_strip (or_empty animes_root)
          in if folder = [] then Inr None
             else if library = [] then Inl (AttributeError ''get'')
             else let folder_norm = posix_normpath folder; root_norm = posix_normpath library
                  in if folder_norm \<noteq> root_norm \<and> \<not> py_startswith folder_norm (root_norm @ ''/'') then Inr None
                     else case exists of
                            None \<Rightarrow> Inr (Some folder_norm)
                          | Some f \<Rightarrow> (case f folder_norm of
                                         Inr True \<Rightarrow> Inr (Some folder_norm)
                                       | _ \<Rightarrow> Inr None))"

definition mark_torrents_deleted_for_seen_anime ::
  "('c, 'd) wiring \<Rightarrow> bool \<Rightarrow> (string \<Rightarrow> bool res) option \<Rightarrow> (int \<Rightarrow> string option res) option \<Rightarrow>
   string option \<Rightarrow> int \<Rightarrow> ('c, 'd) dm \<Rightarrow> ('c, 'd) dm \<times> (nat \<times> string option) res" where
  "mark_torrents_deleted_for_seen_anime w fm exists folder_resolver animes_root anime_id s =
     (let s0 = fst (cancel_download w s anime_id)
      in case (case w_db w of
                 None \<Rightarrow> (s0, Inr [])
               | Some db \<Rightarrow>
                   (case (d_list_anime db, d_set_status db) of
                      (Some lister, Some updater) \<Rightarrow>
                        (case lister (dm_db s0) anime_id of
                           Inl e \<Rightarrow> (s0, Inl e)
                         | Inr rows \<Rightarrow> mark_rows updater (\<lambda>hs row. \<not> row_deleted row) rows [] s0)
                    | _ \<Rightarrow> (s0, Inr []))) of
           (s1, Inl e) \<Rightarrow> (s1, Inl e)
         | (s1, Inr hs) \<Rightarrow>
             (remove_torrents_from_client w True hs s1,
              map_sum id (Pair (length hs))
                (seen_anime_folder fm exists folder_resolver animes_root anime_id)))"

section \<open>Over the torrent tables\<close>

text \<open>The database manager as the download manager uses it.\<close>

definition store_database :: "store database" where
  "store_database =
     \<lparr>d_status = Some (\<lambda>st h. Inr (get_torrent_status st h)),
      d_set_status = Some (\<lambda>st h v. (update_torrent_status st h v, Inr ())),
      d_list_anime = Some (\<lambda>st a. Inr (list_torrents_for_anime st a)),
      d_list_reconcile = Some (\<lambda>st. Inr (list_torrents_for_reconcile st)),
      d_list_restore = Some (\<lambda>st. Inr (map fst (list_torrents_for_restore st))),
      d_ids_by_hashes = Some (\<lambda>st hs. Inr (get_anime_ids_by_hashes st hs)),
      d_titles = Some (\<lambda>st ids. Inr (get_anime_titles st ids)),
      d_torrent_data = (\<lambda>st h. Inr (get_torrent_data st h)),
      d_save = save_torrent,
      d_ensure_index = Some (\<lambda>st a h n p ts.
        map_prod id (\<lambda>_. Inr ()) (ensure_torrent_index st a (Some h) n p ts)),
      d_set_path = (\<lambda>st h p. (update_torrent_save_path st h p, Inr ())),
      d_title = (\<lambda>st a. Inr (case map_of (st_titles st) a of None \<Rightarrow> None | Some t \<Rightarrow> t))\<rparr>"

lemma maybe_mark_store:
  assumes "w_db w = Some store_database"
  shows "dm_db (maybe_mark_torrent_complete w (Some h) state progress s) =
    (if h \<noteq> [] \<and> is_live_complete state progress then st.mark_complete (dm_db s) h else dm_db s)"
  by (simp add: maybe_mark_torrent_complete_def assms store_database_def st.mark_complete_def)

lemma update_rows_status:
  assumes "\<And>r. s_hash (f r) = s_hash r \<and> s_status (f r) = s_status r"
  shows "get_torrent_status (update_rows f h st) h' = get_torrent_status st h'"
    and "has_torrent (update_rows f h st) h' = has_torrent st h'"
proof -
  have "map_option s_status (find (\<lambda>r. s_hash r = h') (map (\<lambda>r. if same_hash (s_hash r) h then f r else r) rows))
      = map_option s_status (find (\<lambda>r. s_hash r = h') rows)" for rows
    by (induction rows) (simp_all add: assms)
  from this [of "st_torrents st"]
  show "get_torrent_status (update_rows f h st) h' = get_torrent_status st h'"
    by (auto simp: get_torrent_status_def split: option.splits)
  have "map s_hash (map (\<lambda>r. if same_hash (s_hash r) h then f r else r) rows) = map s_hash rows" for rows
    by (induction rows) (simp_all add: assms)
  from this [of "st_torrents st"]
  show "has_torrent (update_rows f h st) h' = has_torrent st h'" by (simp only: has_torrent_iff update_rows_simps)
qed

lemma status_cong:
  "st_torrents st = st_torrents st' \<Longrightarrow>
   get_torrent_status st h = get_torrent_status st' h \<and> has_torrent st h = has_torrent st' h"
  by (simp add: get_torrent_status_def has_torrent_def)

lemma find_append_old: "(\<exists>r \<in> set rows. P r) \<Longrightarrow> find P (rows @ rows') = find P rows"
  by (induction rows) auto

lemma ensure_index_status:
  assumes "has_torrent st h"
  shows "get_torrent_status (fst (ensure_torrent_index st a hv n p ts)) h = get_torrent_status st h
    \<and> has_torrent (fst (ensure_torrent_index st a hv n p ts)) h"
proof (cases "canonicalize_infohash hv")
  case (Some k)
  let ?st1 = "add_index a k st"
  have 1: "get_torrent_status ?st1 h = get_torrent_status st h \<and> has_torrent ?st1 h = has_torrent st h"
    by (rule status_cong) simp
  have 2: "get_torrent_status (?st1\<lparr>st_torrents := st_torrents ?st1 @ [row]\<rparr>) h = get_torrent_status st h
      \<and> has_torrent (?st1\<lparr>st_torrents := st_torrents ?st1 @ [row]\<rparr>) h" for row
    using assms by (auto simp: get_torrent_status_def has_torrent_def find_append_old)
  show ?thesis
    using 1 2 assms by (auto simp: ensure_torrent_index_def Some Let_def update_rows_status)
qed (simp add: ensure_torrent_index_def assms)

lemma adopt_orphan_state:
  assumes "fst (adopt_orphan w r h name (s, am, tm, out)) = (s1, am1, tm1, out1)"
  shows "s1 = s \<or> (\<exists>a hv n p ts. s1 = fst (ensure_index w a hv n p ts s))"
proof (cases "anime_id_from_save_path (if truthy (r_path r) then r_path r else None)")
    case None
    then show ?thesis using assms by (simp add: adopt_orphan_def Let_def)
next
    case (Some i)
    then have "s1 = fst (ensure_index w i (Some h) (if truthy name then name else None)
        (if truthy (r_path r) then r_path r else None) None s)"
      using arg_cong [OF assms, of fst] by (simp add: adopt_orphan_def Let_def case_prod_unfold split: if_splits)
    then show ?thesis by blast
qed

lemma adopt_orphan_status:
  assumes "w_db w = Some store_database" and "has_torrent (dm_db s) h'"
    and "fst (adopt_orphan w r h name (s, am, tm, out)) = (s1, am1, tm1, out1)"
  shows "get_torrent_status (dm_db s1) h' = get_torrent_status (dm_db s) h' \<and> has_torrent (dm_db s1) h'"
proof -
  have ens: "get_torrent_status (dm_db (fst (ensure_index w a hv n p ts s))) h' = get_torrent_status (dm_db s) h'
      \<and> has_torrent (dm_db (fst (ensure_index w a hv n p ts s))) h'" for a hv n p ts
    using ensure_index_status [OF assms(2)] assms(2)
    by (simp add: ensure_index_def assms(1) store_database_def case_prod_unfold map_prod_def split: option.splits)
  then show ?thesis using ens assms(2) adopt_orphan_state [OF assms(3)] by blast
qed

text \<open>One step of the overview changes no status but that of its own row, by marking it.\<close>

lemma overview_step_db:
  assumes "overview_step w tbh (r, h) (s, am, tm, out) = (s', am', tm', out')"
  shows "\<exists>s1. (s1 = s \<or> (\<exists>name am1 tm1 out1.
        fst (adopt_orphan w r h name (s, am, tm, out)) = (s1, am1, tm1, out1)))
    \<and> s' = maybe_mark_torrent_complete w (Some h) (r_state r)
            (map_option clamp01 (derived_progress r)) s1"
proof -
  let ?known = "case map_of am h of Some a \<Rightarrow> Some a | None \<Rightarrow> map_option t_anime (map_of tbh h)"
  let ?name = "if truthy (r_name r) then r_name r
    else case map_of tbh h of None \<Rightarrow> r_name r | Some t \<Rightarrow> t_name t"
  obtain s1 am1 tm1 out1 a where x: "(case ?known of Some a \<Rightarrow> ((s, am, tm, out), Some a)
      | None \<Rightarrow> adopt_orphan w r h ?name (s, am, tm, out)) = ((s1, am1, tm1, out1), a)"
    by (metis prod_cases3 surj_pair)
  have "s1 = s \<or> fst (adopt_orphan w r h ?name (s, am, tm, out)) = (s1, am1, tm1, out1)"
    using x by (cases ?known) (simp_all del: split_paired_Ex)
  moreover have "s' = maybe_mark_torrent_complete w (Some h) (r_state r)
      (map_option clamp01 (derived_progress r)) s1"
    using assms by (simp add: overview_step_def Let_def x)
  ultimately show ?thesis by blast
qed

definition row_finished :: "live_row \<Rightarrow> bool" where
  "row_finished r = is_live_complete (r_state r) (map_option clamp01 (derived_progress r))"

lemma overview_step_status:
  assumes "w_db w = Some store_database" and h': "has_torrent (dm_db s) h'"
    and "overview_step w tbh (r, h) (s, am, tm, out) = (s', am', tm', out')"
  shows "has_torrent (dm_db s') h'
    \<and> get_torrent_status (dm_db s') h' =
      (if h = h' \<and> row_finished r then get_torrent_status (st.mark_complete (dm_db s) h') h'
       else get_torrent_status (dm_db s) h')"
proof -
  from overview_step_db [OF assms(3)] obtain s1 where
    s1: "s1 = s \<or> (\<exists>name am1 tm1 out1. fst (adopt_orphan w r h name (s, am, tm, out)) = (s1, am1, tm1, out1))"
    and s': "s' = maybe_mark_torrent_complete w (Some h) (r_state r) (map_option clamp01 (derived_progress r)) s1"
    by blast
  from s1 have keep: "get_torrent_status (dm_db s1) h' = get_torrent_status (dm_db s) h' \<and> has_torrent (dm_db s1) h'"
    using adopt_orphan_status [OF assms(1) h'] h' by blast
  have db: "dm_db s' = (if h \<noteq> [] \<and> row_finished r then st.mark_complete (dm_db s1) h else dm_db s1)"
    unfolding s' row_finished_def by (rule maybe_mark_store [OF assms(1)])
  have ne: "h' \<noteq> []" using h' by (simp add: has_torrent_def)
  show ?thesis
  proof (cases "h = h'")
    case True
    then show ?thesis
      using keep db ne st.mark_complete_status [of "dm_db s1" h'] st.mark_complete_status [OF h']
      by simp
  next
    case False
    then show ?thesis using keep db st.mark_complete_other [of h h' "dm_db s1"] by simp
  qed
qed

lemma overview_fold_status:
  assumes "w_db w = Some store_database"
  shows "fold (overview_step w tbh) rows (s, am, tm, out) = (s', am', tm', out') \<Longrightarrow>
    has_torrent (dm_db s) h \<Longrightarrow>
    has_torrent (dm_db s') h
    \<and> get_torrent_status (dm_db s') h =
      (if py_lower (or_empty (get_torrent_status (dm_db s) h)) \<in> {''deleted'', ''complete''}
          \<or> \<not> (\<exists>r. (r, h) \<in> set rows \<and> row_finished r)
       then get_torrent_status (dm_db s) h else Some ''complete'')"
proof (induction rows arbitrary: s am tm out)
  case (Cons rh rows)
  obtain r k where rh: "rh = (r, k)" by (cases rh)
  obtain s1 am1 tm1 out1 where st: "overview_step w tbh (r, k) (s, am, tm, out) = (s1, am1, tm1, out1)"
    by (metis prod_cases4)
  have f: "fold (overview_step w tbh) rows (s1, am1, tm1, out1) = (s', am', tm', out')"
    using Cons.prems(1) st rh by simp
  note one = overview_step_status [OF assms Cons.prems(2) st]
  have c: "py_lower ''complete'' = ''complete''" by code_simp
  show ?case
    using one Cons.IH [OF f] st.mark_complete_status [OF Cons.prems(2)] c
    by (auto simp: rh split: if_splits)
qed simp

text \<open>
  The overview records what the client finished and never undoes a deletion: over the torrent
  tables, a stored torrent that the client shows complete or seeding has status complete
  afterwards, unless it was deleted, and every other stored torrent keeps its status.
\<close>
lemma overview_records_completion:
  assumes "w_client w = Some tm" and "w_db w = Some store_database"
    and "c_list tm (dm_client (maybe_ensure_torrent_session_restored tm s)) None = Inr entries"
    and "get_torrents_overview w s = (s', out)"
    and "has_torrent (dm_db s) h"
  shows "get_torrent_status (dm_db s') h =
    (if (\<exists>r. (r, h) \<in> set (hashed_rows entries) \<and> row_finished r)
        \<and> py_lower (or_empty (get_torrent_status (dm_db s) h)) \<notin> {''deleted'', ''complete''}
     then Some ''complete'' else get_torrent_status (dm_db s) h)"
proof -
  let ?s1 = "maybe_ensure_torrent_session_restored tm s"
  have s1: "dm_db ?s1 = dm_db s"
    by (auto simp: maybe_ensure_torrent_session_restored_def split: option.splits)
  obtain tbh am ttl s2 am2 tm2 out2 where
    f: "fold (overview_step w tbh) (hashed_rows entries) (?s1, am, ttl, no_rows) = (s2, am2, tm2, out2)"
    and "s' = s2"
    using assms(1,3,4) by (auto simp: get_torrents_overview_def Let_def split: prod.splits)
  then show ?thesis using overview_fold_status [OF assms(2) f, of h] assms(5) s1 by auto
qed

section \<open>Reconciliation keeps what is on disk\<close>

lemma remove_torrent_db [simp]:
  "dm_db (remove_torrent_from_client w f h s) = dm_db s"
  by (auto simp: remove_torrent_from_client_def split: option.splits prod.splits sum.splits pyerr.splits)

lemma store_database_simps [simp]:
  "d_set_status store_database = Some (\<lambda>st h v. (update_torrent_status st h v, Inr ()))"
  "d_list_reconcile store_database = Some (\<lambda>st. Inr (list_torrents_for_reconcile st))"
  "d_list_anime store_database = Some (\<lambda>st a. Inr (list_torrents_for_anime st a))"
  by (simp_all add: store_database_def)

text \<open>A row writes no status but that of its own hash, and deletes it only on the decision.\<close>

lemma reconcile_row_status:
  assumes "reconcile_row w fs resolver (\<lambda>st h v. (update_torrent_status st h v, Inr ())) row s = (s', res)"
    and "has_torrent (dm_db s) h"
  shows "has_torrent (dm_db s') h \<and> is_ok res
    \<and> (row_key row \<noteq> h \<longrightarrow> get_torrent_status (dm_db s') h = get_torrent_status (dm_db s) h)
    \<and> ((\<forall>status save_path state. should_reconcile_torrent fs status save_path
            (resolve_folder resolver (i_anime row)) (i_name row) state \<noteq> MARK_DELETED) \<longrightarrow>
        get_torrent_status (dm_db s') h \<in> {get_torrent_status (dm_db s) h, Some ''complete''})"
proof -
  have c: "py_strip ''complete'' = ''complete''" "py_lower ''complete'' = ''complete''" by code_simp+
  have put: "get_torrent_status (update_torrent_status st k v) h = get_torrent_status st h"
    if "k \<noteq> h" for st k v using st.get_set_other [OF that] .
  have comp: "get_torrent_status (update_torrent_status st h (Some ''complete'')) h = Some ''complete''"
    if "has_torrent st h" for st using st.get_set_same [OF that] c by simp
  have "get_torrent_status (update_torrent_status (dm_db s) (row_key row) (Some ''complete'')) h
      \<in> {get_torrent_status (dm_db s) h, Some ''complete''}"
    using put comp [OF assms(2)] by (cases "row_key row = h") auto
  then show ?thesis
    using assms(1) put assms(2) st.has_row_set
    by (auto simp: reconcile_row_def Let_def split: if_splits TorrentReconcileAction.splits option.splits)
qed

lemma reconcile_rows_status:
  fixes w :: "('c, store) wiring"
  shows "reconcile_rows w fs resolver (\<lambda>st h v. (update_torrent_status st h v, Inr ())) rows marked s = (s', res) \<Longrightarrow>
   has_torrent (dm_db s) h \<Longrightarrow>
   \<forall>row \<in> set rows. row_key row = h \<longrightarrow>
     (\<forall>status save_path state. should_reconcile_torrent fs status save_path
        (resolve_folder resolver (i_anime row)) (i_name row) state \<noteq> MARK_DELETED) \<Longrightarrow>
   is_ok res \<and> get_torrent_status (dm_db s') h \<in> {get_torrent_status (dm_db s) h, Some ''complete''}"
proof (induction rows arbitrary: marked s)
  case (Cons row rows)
  obtain s1 r1 where r: "reconcile_row w fs resolver (\<lambda>st h v. (update_torrent_status st h v, Inr ())) row s = (s1, r1)"
    by fastforce
  note one = reconcile_row_status [OF r Cons.prems(2)]
  obtain m where m: "r1 = Inr m" using one by (cases r1) auto
  have "get_torrent_status (dm_db s1) h \<in> {get_torrent_status (dm_db s) h, Some ''complete''}"
    using one Cons.prems(3) by (cases "row_key row = h") auto
  then show ?case
    using Cons.IH [of "if m then marked + 1 else marked" s1] Cons.prems one r m by (auto split: if_splits)
qed auto


lemma mark_rows_ok:
  "\<exists>s' hs'. mark_rows (\<lambda>st h v. (update_torrent_status st h v, Inr ())) P rows hs s = (s', Inr hs')"
  by (induction rows arbitrary: hs s) auto

text \<open>
  When an anime is marked seen, the only folder handed over for deletion is the configured
  anime library itself or a folder inside it.
\<close>
lemma seen_anime_folder_confined:
  assumes "mark_torrents_deleted_for_seen_anime w fm exists resolver animes_root anime_id s
      = (s', Inr (n, Some folder))"
  shows "under_folder (posix_normpath (py_strip (or_empty animes_root))) folder
    \<and> py_strip (or_empty animes_root) \<noteq> []"
proof -
  have "seen_anime_folder fm exists resolver animes_root anime_id = Inr (Some folder)"
    using assms by (auto simp: mark_torrents_deleted_for_seen_anime_def Let_def map_sum_def
        split: prod.splits sum.splits)
  then show ?thesis by (auto simp: seen_anime_folder_def under_folder_def Let_def
        split: option.splits if_splits sum.splits bool.splits)
qed

text \<open>
  With no library root given, marking an anime seen whose folder is known always ends in an
  exception.
\<close>
lemma seen_anime_without_root_fails:
  assumes "f anime_id = Inr (Some folder)" and "py_strip folder \<noteq> []" and "py_strip (or_empty animes_root) = []"
    and "w_db w = Some store_database"
    and "mark_torrents_deleted_for_seen_anime w True exists (Some f) animes_root anime_id s = (s', res)"
  shows "res = Inl (AttributeError ''get'')"
proof -
  have "seen_anime_folder True exists (Some f) animes_root anime_id = Inl (AttributeError ''get'')"
    using assms(1-3) by (simp add: seen_anime_folder_def resolve_folder_def Let_def)
  moreover obtain s1 hs where "mark_rows (\<lambda>st h v. (update_torrent_status st h v, Inr ()))
      (\<lambda>hs row. \<not> row_deleted row)
      (list_torrents_for_anime (dm_db (fst (cancel_download w s anime_id))) anime_id) []
      (fst (cancel_download w s anime_id)) = (s1, Inr hs)"
    using mark_rows_ok by blast
  ultimately show ?thesis
    using assms(4,5) by (simp add: mark_torrents_deleted_for_seen_anime_def Let_def)
qed

section \<open>Examples\<close>

definition sample_wiring :: "(live_row option list, store) wiring" where
  "sample_wiring = \<lparr>w_client = Some list_client, w_db = Some store_database\<rparr>"

definition present_store :: store where
  "present_store = fst (save_torrent empty_store 7
     (sample_torrent\<lparr>tr_name := Some ''S - 3.mkv''\<rparr>) (Some ''/a'') None)"

definition seeding_state :: "(live_row option list, store) dm" where
  "seeding_state = start_state [Some (sample_row ''AB12'' ''seeding''), None] sample_store"

lemma seeding_list:
  "w_client sample_wiring = Some list_client" "w_db sample_wiring = Some store_database"
  "c_list list_client (dm_client (maybe_ensure_torrent_session_restored list_client seeding_state)) None
     = Inr [Some (sample_row ''AB12'' ''seeding''), None]"
  by (simp_all add: sample_wiring_def seeding_state_def start_state_def list_client_def
      maybe_ensure_torrent_session_restored_def)

lemma seeding_rows:
  "hashed_rows [Some (sample_row ''AB12'' ''seeding''), None] = [(sample_row ''AB12'' ''seeding'', ''ab12'')]"
  "row_finished (sample_row ''AB12'' ''seeding'')"
  by code_simp+

theorem overview_shows_each_torrent_once_witness:
  "image_mset o_hash (mset (overview_rows (snd (get_torrents_overview sample_wiring seeding_state))))
     = {#Some ''ab12''#}"
proof -
  obtain s' out where o: "get_torrents_overview sample_wiring seeding_state = (s', out)" by fastforce
  have "dm_active seeding_state = []" by (simp add: seeding_state_def start_state_def)
  then show ?thesis
    using overview_shows_each_torrent_once [OF seeding_list(1,3) o] o seeding_rows by simp
qed

lemma overview_records_completion_witness:
  "get_torrent_status (dm_db (fst (get_torrents_overview sample_wiring seeding_state))) ''ab12''
     = Some ''complete''"
proof -
  obtain s' out where o: "get_torrents_overview sample_wiring seeding_state = (s', out)" by fastforce
  have db: "dm_db seeding_state = sample_store" by (simp add: seeding_state_def start_state_def)
  have "has_torrent (dm_db seeding_state) ''ab12''" "get_torrent_status sample_store ''ab12'' = None"
    unfolding db by (simp_all add: sample_store_simps has_torrent_def get_torrent_status_def)
  then show ?thesis
    using overview_records_completion [OF seeding_list(1,2,3) o, of "''ab12''"] o seeding_rows db
    by (simp add: py_lower_def)
qed

lemma present_store_simps:
  "present_store = \<lparr>st_index = [(7, ''ab12'')],
     st_torrents = [\<lparr>s_hash = ''ab12'', s_name = Some ''S - 3.mkv'', s_trackers = [], s_path = Some ''/a'',
                     s_status = None, s_source = Some ''manual''\<rparr>], st_titles = []\<rparr>"
  by code_simp


lemma seen_anime_folder_confined_witness:
  "\<exists>s'. mark_torrents_deleted_for_seen_anime sample_wiring True None (Some (\<lambda>a. Inr (Some ''/l/S - 7'')))
     (Some ''/l'') 7 (start_state [] empty_store) = (s', Inr (0, Some ''/l/S - 7''))
   \<and> under_folder ''/l'' ''/l/S - 7''"
proof -
  have e: "posix_normpath (py_strip (or_empty (Some ''/l''))) = ''/l''" by code_simp
  have "seen_anime_folder True None (Some (\<lambda>a. Inr (Some ''/l/S - 7''))) (Some ''/l'') 7 = Inr (Some ''/l/S - 7'')"
    by code_simp
  moreover have "list_torrents_for_anime empty_store 7 = []" by code_simp
  moreover have "dm_db (fst (cancel_download sample_wiring (start_state [] empty_store) 7)) = empty_store"
    using \<open>list_torrents_for_anime empty_store 7 = []\<close>
    by (simp add: cancel_download_def start_state_def live_hashes_for_anime_def anime_rows_def add_hashes_def
        seeding_list)
  ultimately obtain s' where m: "mark_torrents_deleted_for_seen_anime sample_wiring True None
      (Some (\<lambda>a. Inr (Some ''/l/S - 7''))) (Some ''/l'') 7 (start_state [] empty_store) = (s', Inr (0, Some ''/l/S - 7''))"
    by (simp add: mark_torrents_deleted_for_seen_anime_def seeding_list Let_def)
  then show ?thesis using seen_anime_folder_confined [OF m] e by auto
qed

lemma seen_anime_without_root_fails_witness:
  "snd (mark_torrents_deleted_for_seen_anime sample_wiring True None (Some (\<lambda>a. Inr (Some ''/l/S - 7''))) None 7
     (start_state [] empty_store)) = Inl (AttributeError ''get'')"
proof -
  obtain s' res where "mark_torrents_deleted_for_seen_anime sample_wiring True None
      (Some (\<lambda>a. Inr (Some ''/l/S - 7''))) None 7 (start_state [] empty_store) = (s', res)" by fastforce
  moreover have "py_strip ''/l/S - 7'' \<noteq> []" "py_strip (or_empty None) = []" by code_simp+
  ultimately show ?thesis
    using seen_anime_without_root_fails [of "\<lambda>a. Inr (Some ''/l/S - 7'')" 7 "''/l/S - 7''" None sample_wiring]
      seeding_list(2) by simp
qed

end
