(* ===== verification/DownloadRun.thy ===== *)
theory DownloadRun
  imports DownloadStatus
begin

text \<open>
  The download manager, third part: how a queued download is executed.  \<open>_execute_download\<close> runs on
  a worker thread and takes the lock three times, so it is split at those points into functions of
  their own; \<open>download_step\<close> interleaves them with the queue processor, new requests and
  cancellations.  Fetching and parsing a torrent, the file system and the consolidation of
  duplicate folders are arguments.
\<close>

section \<open>Where an anime is stored\<close>

record library =
  lib_data_path :: string
  lib_list :: "(string \<Rightarrow> string list res) option"
  lib_isdir :: "(string \<Rightarrow> bool res) option"
  lib_fs :: file_system
  lib_makedirs :: "string \<Rightarrow> bool"
  lib_npath :: "string \<Rightarrow> string"

definition list_anime_folder_entries :: "library \<Rightarrow> string \<Rightarrow> string list" where
  "list_anime_folder_entries lib animes_root =
     (case (case lib_list lib of None \<Rightarrow> None
            | Some f \<Rightarrow> (case f animes_root of Inl _ \<Rightarrow> None | Inr es \<Rightarrow> Some es)) of
        Some es \<Rightarrow> es
      | None \<Rightarrow>
          if fs_isdir (lib_fs lib) animes_root
          then (case fs_listdir (lib_fs lib) animes_root of None \<Rightarrow> [] | Some es \<Rightarrow> es)
          else [])"

definition path_is_directory :: "library \<Rightarrow> string \<Rightarrow> bool" where
  "path_is_directory lib path =
     (case (case lib_isdir lib of None \<Rightarrow> None
            | Some f \<Rightarrow> (case f path of Inl _ \<Rightarrow> None | Inr b \<Rightarrow> Some b)) of
        Some b \<Rightarrow> b
      | None \<Rightarrow> fs_isdir (lib_fs lib) path)"

definition known_save_paths_for_anime :: "('c, 'd) wiring \<Rightarrow> ('c, 'd) dm \<Rightarrow> int \<Rightarrow> string list" where
  "known_save_paths_for_anime w s anime_id =
     filter (\<lambda>p. p \<noteq> []) (map (\<lambda>row. py_strip (or_empty (i_save_path row))) (anime_rows w s anime_id))"

definition lookup_anime_title :: "('c, 'd) wiring \<Rightarrow> ('c, 'd) dm \<Rightarrow> int \<Rightarrow> string option" where
  "lookup_anime_title w s anime_id =
     (case w_db w of
        None \<Rightarrow> None
      | Some db \<Rightarrow>
          (case d_title db (dm_db s) anime_id of
             Inl _ \<Rightarrow> None
           | Inr title \<Rightarrow> if truthy title then title else None))"

text \<open>\<open>consolidate\<close> merges several folders of one anime, telling the client and the database where
  the files went, and answers the folder that stays.\<close>

type_synonym ('c, 'd) consolidator =
  "'c \<Rightarrow> 'd \<Rightarrow> string \<Rightarrow> int \<Rightarrow> 'c \<times> 'd \<times> string option"

definition find_existing_anime_folder ::
  "('c, 'd) wiring \<Rightarrow> library \<Rightarrow> ('c, 'd) consolidator \<Rightarrow> string \<Rightarrow> int \<Rightarrow> ('c, 'd) dm \<Rightarrow>
   ('c, 'd) dm \<times> string option" where
  "find_existing_anime_folder w lib consolidate animes_root anime_id s =
     (let matches = match_anime_folder_names (list_anime_folder_entries lib animes_root) anime_id;
          valid_names = filter (\<lambda>name. path_is_directory lib (path_join animes_root name)) matches
      in if valid_names = [] then (s, None)
         else
         let (s1, merged) = (if length valid_names > 1
                             then let (cl, db, path) = consolidate (dm_client s) (dm_db s) animes_root anime_id
                                  in (s\<lparr>dm_client := cl, dm_db := db\<rparr>, path)
                             else (s, None))
         in case merged of
              Some path \<Rightarrow> (s1, Some path)
            | None \<Rightarrow>
                (case choose_canonical_anime_folder_name (lib_npath lib) valid_names animes_root
                        (known_save_paths_for_anime w s1 anime_id)
                        (Some (\<lambda>p. folder_has_video_files (lib_fs lib) (Some p))) of
                   Inl _ \<Rightarrow> (s1, None)
                 | Inr chosen \<Rightarrow> (s1, Some (path_join animes_root chosen))))"

definition get_anime_folder ::
  "('c, 'd) wiring \<Rightarrow> library option \<Rightarrow> ('c, 'd) consolidator \<Rightarrow> int \<Rightarrow> ('c, 'd) dm \<Rightarrow>
   ('c, 'd) dm \<times> string" where
  "get_anime_folder w fm consolidate anime_id s =
     (let fallback = ''./anime_'' @ int_str anime_id
      in case fm of
           None \<Rightarrow> (s, fallback)
         | Some lib \<Rightarrow>
             let data_path = py_strip (lib_data_path lib)
             in if data_path = [] then (s, fallback)
                else
                let animes_root = path_join data_path ''Animes'';
                    (s1, existing) = find_existing_anime_folder w lib consolidate animes_root anime_id s
                in if truthy existing then (s1, or_empty existing)
                   else let folder = path_join animes_root
                                       (format_anime_folder_name (lookup_anime_title w s1 anime_id) anime_id)
                        in (s1, if lib_makedirs lib folder then folder else fallback))"

section \<open>Preparing a torrent\<close>

record http_reply =
  h_status :: int
  h_content_length :: "string option"
  h_body :: "nat list"

record fetching =
  f_from_magnet :: "string \<Rightarrow> Torrent option res"
  f_from_torrent :: "nat list \<Rightarrow> Torrent res"
  f_url_allowed :: "string \<Rightarrow> bool"
  f_get :: "string \<Rightarrow> http_reply res"

definition is_magnet_link :: "string \<Rightarrow> bool" where
  "is_magnet_link url = py_startswith url ''magnet:?''"

definition max_torrent_bytes :: int where
  "max_torrent_bytes = 10 * 1024 * 1024"

definition fetch_torrent :: "fetching \<Rightarrow> string \<Rightarrow> Torrent option" where
  "fetch_torrent net url =
     (case f_get net url of
        Inl _ \<Rightarrow> None
      | Inr req \<Rightarrow>
          if h_status req \<noteq> 200 then None
          else if truthy (h_content_length req)
                  \<and> (case parse_int (or_empty (h_content_length req)) of
                       None \<Rightarrow> True | Some n \<Rightarrow> n > max_torrent_bytes)
          then None
          else if int (length (h_body req)) > max_torrent_bytes then None
          else (case f_from_torrent net (h_body req) of Inl _ \<Rightarrow> None | Inr t \<Rightarrow> Some t))"

definition prepare_torrent ::
  "('c, 'd) wiring \<Rightarrow> fetching \<Rightarrow> DownloadTask \<Rightarrow> ('c, 'd) dm \<Rightarrow> Torrent option" where
  "prepare_torrent w net t s =
     (if truthy (t_url t)
      then let url = or_empty (t_url t)
           in if is_magnet_link url
              then (case f_from_magnet net url of Inl _ \<Rightarrow> None | Inr r \<Rightarrow> r)
              else if \<not> f_url_allowed net url then None
              else fetch_torrent net url
      else if truthy (t_hash t)
      then (case w_db w of
              None \<Rightarrow> None
            | Some db \<Rightarrow>
                (case d_torrent_data db (dm_db s) (or_empty (t_hash t)) of
                   Inr (Some (name, trackers)) \<Rightarrow>
                     Some \<lparr>tr_hash = t_hash t, tr_name = name, tr_trackers = Some trackers,
                           tr_size = None, tr_path = None\<rparr>
                 | _ \<Rightarrow> None))
      else None)"

section \<open>Saving and starting\<close>

definition dm_save_torrent ::
  "('c, 'd) wiring \<Rightarrow> int \<Rightarrow> Torrent \<Rightarrow> string option \<Rightarrow> string option \<Rightarrow> ('c, 'd) dm \<Rightarrow>
   ('c, 'd) dm \<times> Torrent \<times> bool" where
  "dm_save_torrent w anime_id torrent save_path source s =
     (case w_db w of
        None \<Rightarrow> (s, torrent, False)
      | Some db \<Rightarrow>
          (case canonicalize_infohash (tr_hash torrent) of
             None \<Rightarrow> (s, torrent, False)
           | Some h \<Rightarrow>
               let torrent' = torrent\<lparr>tr_hash := Some h\<rparr>;
                   (db', r) = d_save db (dm_db s) anime_id torrent' save_path source
               in (s\<lparr>dm_db := db'\<rparr>, torrent', is_ok r)))"

definition set_user_tag ::
  "(int \<Rightarrow> int \<Rightarrow> 'd \<Rightarrow> 'd) option \<Rightarrow> int \<Rightarrow> int \<Rightarrow> ('c, 'd) dm \<Rightarrow> ('c, 'd) dm" where
  "set_user_tag cb anime_id user_id s =
     (case cb of
        None \<Rightarrow> s
      | Some f \<Rightarrow> if user_id = 0 then s else s\<lparr>dm_db := f anime_id user_id (dm_db s)\<rparr>)"

definition set_paths :: "('c, 'd) wiring \<Rightarrow> string \<Rightarrow> string list \<Rightarrow> ('c, 'd) dm \<Rightarrow> ('c, 'd) dm" where
  "set_paths w folder_path hs s =
     (case w_db w of
        None \<Rightarrow> s
      | Some db \<Rightarrow> fold (\<lambda>h s. s\<lparr>dm_db := fst (d_set_path db (dm_db s) h folder_path)\<rparr>) hs s)"

definition move_torrents_to_folder ::
  "('c, 'd) wiring \<Rightarrow> live_row list \<Rightarrow> string \<Rightarrow> ('c, 'd) dm \<Rightarrow> ('c, 'd) dm" where
  "move_torrents_to_folder w torrents folder_path s =
     (let hs = List.map_filter (\<lambda>r. if truthy (r_hash r) then r_hash r else None) torrents
      in case w_client w of
           Some tm \<Rightarrow>
             if hs = [] then s
             else (case c_move tm (dm_client s) folder_path hs of
                     (cl, Inl _) \<Rightarrow> s\<lparr>dm_client := cl\<rparr>
                   | (cl, Inr _) \<Rightarrow> set_paths w folder_path hs (s\<lparr>dm_client := cl\<rparr>))
         | None \<Rightarrow> set_paths w folder_path hs s)"

definition start_download ::
  "('c, 'd) wiring \<Rightarrow> library option \<Rightarrow> ('c, 'd) consolidator \<Rightarrow> (Torrent \<Rightarrow> string) \<Rightarrow> int \<Rightarrow>
   Torrent \<Rightarrow> ('c, 'd) dm \<Rightarrow> ('c, 'd) dm \<times> bool" where
  "start_download w fm consolidate to_magnet anime_id torrent s =
     (case w_client w of
        None \<Rightarrow> (s, False)
      | Some tm \<Rightarrow>
          let (s1, folder_path) = get_anime_folder w fm consolidate anime_id s
          in if folder_path = [] then (s1, False)
             else
             let torrent_hash = canonicalize_infohash (tr_hash torrent)
             in if torrent_hash \<noteq> None \<and> lookup_live_torrent w s1 (or_empty torrent_hash) \<noteq> None
                then (fst (ensure_index w anime_id torrent_hash (tr_name torrent) (Some folder_path)
                             (tr_trackers torrent) s1), True)
                else
                case c_add tm (dm_client s1) (to_magnet torrent) folder_path of
                  (cl, Inl _) \<Rightarrow> (s1\<lparr>dm_client := cl\<rparr>, False)
                | (cl, Inr entries) \<Rightarrow>
                    let s2 = s1\<lparr>dm_client := cl\<rparr>
                    in if entries = [] then (s2, False)
                       else (fold (\<lambda>r s. fst (ensure_index w anime_id
                                 (if truthy (r_hash r) then r_hash r else torrent_hash)
                                 (if truthy (r_name r) then r_name r else tr_name torrent)
                                 (Some folder_path) (tr_trackers torrent) s))
                               entries (move_torrents_to_folder w entries folder_path s2), True))"

section \<open>The queue processor and the workers\<close>

definition task_dropped :: "('c, 'd) dm \<Rightarrow> nat \<Rightarrow> bool" where
  "task_dropped s i =
     (t_cancelled (task_at s i)
      \<or> (case task_key (task_at s i) of None \<Rightarrow> False | Some key \<Rightarrow> key \<in> dm_cancelled s))"

text \<open>Both lists forget the hash of a dropped task, and its caller is told.\<close>

definition drop_task :: "nat \<Rightarrow> ('c, 'd) dm \<Rightarrow> ('c, 'd) dm" where
  "drop_task i s =
     on_task i (put_status False)
       (case task_key (task_at s i) of
          None \<Rightarrow> s
        | Some key \<Rightarrow> s\<lparr>dm_queued := dm_queued s - {key}, dm_cancelled := dm_cancelled s - {key}\<rparr>)"

text \<open>One turn of \<open>_process_download_queue\<close> on a waiting task.\<close>

definition process_next :: "('c, 'd) dm \<Rightarrow> ('c, 'd) dm" where
  "process_next s =
     (case dm_queue s of
        [] \<Rightarrow> s
      | i # rest \<Rightarrow>
          let s1 = s\<lparr>dm_queue := rest\<rparr>
          in if \<not> dm_executor s1 then s1
             else if task_dropped s1 i then drop_task i s1
             else s1\<lparr>dm_submitted := dm_submitted s1 @ [i]\<rparr>)"

datatype worker =
    Registered nat
  | Preparing nat
  | Prepared nat "Torrent option"
  | Finishing nat bool

definition begin_download :: "nat \<Rightarrow> ('c, 'd) dm \<Rightarrow> ('c, 'd) dm \<times> worker option" where
  "begin_download i s =
     (if task_dropped s i then (drop_task i s, None)
      else (on_task i (\<lambda>t. t\<lparr>t_state := Some ''QUEUED''\<rparr>)
              (s\<lparr>dm_active := put_key (t_anime (task_at s i)) i (dm_active s)\<rparr>), Some (Registered i)))"

definition announce :: "nat \<Rightarrow> ('c, 'd) dm \<Rightarrow> ('c, 'd) dm \<times> worker" where
  "announce i s =
     (if task_dropped s i then (on_task i (put_status False) s, Finishing i False)
      else (on_task i (put_status True) s, Preparing i))"

definition adopt_fields :: "Torrent \<Rightarrow> DownloadTask \<Rightarrow> DownloadTask" where
  "adopt_fields torrent t =
     t\<lparr>t_name := (if truthy (tr_name torrent) then tr_name torrent else t_name t),
       t_hash := (if truthy (t_hash t) then t_hash t
                  else if truthy (tr_hash torrent) then tr_hash torrent else t_hash t),
       t_size := (if t_size t = None
                  then (case tr_size torrent of None \<Rightarrow> None | Some x \<Rightarrow> if x > 0 then Some \<lfloor>x\<rfloor> else None)
                  else t_size t)\<rparr>"

definition run_prepared ::
  "('c, 'd) wiring \<Rightarrow> library option \<Rightarrow> ('c, 'd) consolidator \<Rightarrow> (Torrent \<Rightarrow> string) \<Rightarrow>
   (int \<Rightarrow> int \<Rightarrow> 'd \<Rightarrow> 'd) option \<Rightarrow> nat \<Rightarrow> Torrent option \<Rightarrow> ('c, 'd) dm \<Rightarrow> ('c, 'd) dm \<times> worker" where
  "run_prepared w fm consolidate to_magnet cb i torrent s =
     (let give_up = (\<lambda>s. (on_task i (put_status False) s, Finishing i False))
      in if task_dropped s i then give_up s
         else case torrent of
                None \<Rightarrow> give_up s
              | Some tor \<Rightarrow>
                  let s1 = on_task i (adopt_fields tor) s;
                      anime_id = t_anime (task_at s1 i);
                      (s2, folder_path) = get_anime_folder w fm consolidate anime_id s1
                  in if folder_path = [] then give_up s2
                     else
                     let (s3, tor', saved) = dm_save_torrent w anime_id tor (Some folder_path)
                                               (t_source (task_at s2 i)) s2
                     in if \<not> saved then give_up s3
                        else
                        let s4 = (case t_user (task_at s3 i) of
                                    None \<Rightarrow> s3
                                  | Some u \<Rightarrow> if u = 0 then s3 else set_user_tag cb anime_id u s3);
                            (s5, success) = start_download w fm consolidate to_magnet anime_id tor' s4;
                            s6 = on_task i (put_status success) s5
                        in (if success
                            then on_task i (\<lambda>t. t\<lparr>t_state := Some ''DOWNLOADING'',
                                                 t_progress := Some (case t_progress t of None \<Rightarrow> 0 | Some p \<Rightarrow> p)\<rparr>) s6
                            else s6, Finishing i success))"

definition finish_download :: "nat \<Rightarrow> bool \<Rightarrow> ('c, 'd) dm \<Rightarrow> ('c, 'd) dm" where
  "finish_download i keep_visible s =
     (let t = task_at s i;
          s1 = (case task_key t of None \<Rightarrow> s | Some key \<Rightarrow> s\<lparr>dm_queued := dm_queued s - {key}\<rparr>)
      in if keep_visible then s1 else s1\<lparr>dm_active := drop_key (t_anime t) (dm_active s1)\<rparr>)"

text \<open>The whole of \<open>_execute_download\<close> when nothing interrupts it.\<close>

definition execute_download ::
  "('c, 'd) wiring \<Rightarrow> library option \<Rightarrow> ('c, 'd) consolidator \<Rightarrow> (Torrent \<Rightarrow> string) \<Rightarrow>
   (int \<Rightarrow> int \<Rightarrow> 'd \<Rightarrow> 'd) option \<Rightarrow> fetching \<Rightarrow> nat \<Rightarrow> ('c, 'd) dm \<Rightarrow> ('c, 'd) dm" where
  "execute_download w fm consolidate to_magnet cb net i s =
     (case begin_download i s of
        (s1, None) \<Rightarrow> s1
      | (s1, Some _) \<Rightarrow>
          (case announce i s1 of
             (s2, Preparing _) \<Rightarrow>
               (case run_prepared w fm consolidate to_magnet cb i
                       (prepare_torrent w net (task_at s2 i) s2) s2 of
                  (s3, Finishing _ keep) \<Rightarrow> finish_download i keep s3
                | (s3, _) \<Rightarrow> s3)
           | (s2, _) \<Rightarrow> finish_download i False s2))"

text \<open>\<open>_redirect_save_paths\<close>, called by the consolidation: rows under the old folder get the new one.\<close>

definition redirect_save_paths ::
  "('c, 'd) wiring \<Rightarrow> (string \<Rightarrow> string) \<Rightarrow> string \<Rightarrow> string \<Rightarrow> ('c, 'd) dm \<Rightarrow> ('c, 'd) dm" where
  "redirect_save_paths w npath old_path new_path s =
     (case w_db w of
        None \<Rightarrow> s
      | Some db \<Rightarrow>
          if old_path = [] \<or> new_path = [] then s
          else
          let rows = (case d_list_restore db of
                        None \<Rightarrow> []
                      | Some f \<Rightarrow> (case f (dm_db s) of Inl _ \<Rightarrow> [] | Inr rows \<Rightarrow> rows));
              hs = map (\<lambda>row. or_empty (i_hash row))
                     (filter (\<lambda>row. truthy (i_hash row) \<and> truthy (i_save_path row)
                               \<and> under_folder (npath old_path) (npath (or_empty (i_save_path row)))) rows);
              s1 = set_paths w new_path hs s
          in (case w_client w of
                None \<Rightarrow> s1
              | Some tm \<Rightarrow>
                  if hs = [] then s1 else s1\<lparr>dm_client := fst (c_move tm (dm_client s1) new_path hs)\<rparr>))"

section \<open>Interleavings\<close>

text \<open>
  A system state is the manager with its running workers.  \<open>services\<close> stands for anything that
  only changes the client or the database: polling clients, pausing, reconciliation.  Requests
  come with a hash, given or in the magnet link; cancellation is a step of its own below.
\<close>

type_synonym ('c, 'd) system = "('c, 'd) dm \<times> worker list"

fun worker_task :: "worker \<Rightarrow> nat" where
  "worker_task (Registered i) = i"
| "worker_task (Preparing i) = i"
| "worker_task (Prepared i t) = i"
| "worker_task (Finishing i k) = i"

inductive download_step :: "('c, 'd) wiring \<Rightarrow> ('c, 'd) system \<Rightarrow> ('c, 'd) system \<Rightarrow> bool" for w where
  request: "resolve_download_hash url hash_value \<noteq> None \<Longrightarrow>
    enqueue_download w s anime_id url hash_value user_id source = (s', r) \<Longrightarrow>
    download_step w (s, ws) (s', ws)"
| process: "download_step w (s, ws) (process_next s, ws)"
| start: "dm_submitted s = i # rest \<Longrightarrow>
    begin_download i (s\<lparr>dm_submitted := rest\<rparr>) = (s', wk0) \<Longrightarrow>
    download_step w (s, ws) (s', (case wk0 of None \<Rightarrow> ws | Some wk \<Rightarrow> ws @ [wk]))"
| announce: "announce i s = (s', wk) \<Longrightarrow>
    download_step w (s, ws @ Registered i # ws') (s', ws @ wk # ws')"
| prepare: "download_step w (s, ws @ Preparing i # ws')
    (s, ws @ Prepared i (prepare_torrent w net (task_at s i) s) # ws')"
| run: "run_prepared w fm consolidate to_magnet cb i torrent s = (s', wk) \<Longrightarrow>
    download_step w (s, ws @ Prepared i torrent # ws') (s', ws @ wk # ws')"
| finish: "download_step w (s, ws @ Finishing i keep # ws') (finish_download i keep s, ws @ ws')"
| refresh: "download_step w (s, ws) (refresh_active_task_status w now s, ws)"
| overview: "get_torrents_overview w s = (s', out) \<Longrightarrow> download_step w (s, ws) (s', ws)"
| services: "download_step w (s, ws) (s\<lparr>dm_client := cl, dm_db := d\<rparr>, ws)"

inductive_cases download_stepE: "download_step w x y"

definition pending :: "('c, 'd) system \<Rightarrow> nat list" where
  "pending x = dm_queue (fst x) @ dm_submitted (fst x) @ map worker_task (snd x)"

text \<open>Every pending task holds a hash of its own, and the manager remembers it.\<close>

definition pending_ok :: "('c, 'd) system \<Rightarrow> bool" where
  "pending_ok x \<longleftrightarrow>
     distinct (pending x) \<and> (\<forall>i \<in> set (pending x). i < length (dm_tasks (fst x)))
     \<and> (\<forall>i \<in> set (pending x). \<exists>k. task_key (task_at (fst x) i) = Some k \<and> k \<in> dm_queued (fst x))
     \<and> (\<forall>i \<in> set (pending x). \<forall>j \<in> set (pending x).
          task_key (task_at (fst x) i) = task_key (task_at (fst x) j) \<longrightarrow> i = j)"

text \<open>What most operations leave alone: the bookkeeping and the hashes of the tasks.\<close>

definition same_books :: "('c, 'd) dm \<Rightarrow> ('c, 'd) dm \<Rightarrow> bool" where
  "same_books s s' \<longleftrightarrow>
     dm_queue s' = dm_queue s \<and> dm_submitted s' = dm_submitted s \<and> dm_queued s' = dm_queued s
     \<and> dm_cancelled s' = dm_cancelled s
     \<and> map t_hash (dm_tasks s') = map t_hash (dm_tasks s)"

lemma same_books_refl [simp]: "same_books s s"
  by (simp add: same_books_def)

lemma same_books_trans: "same_books s t \<Longrightarrow> same_books t u \<Longrightarrow> same_books s u"
  by (simp add: same_books_def)

lemma same_books_task:
  assumes "same_books s s'" and "i < length (dm_tasks s)"
  shows "task_key (task_at s' i) = task_key (task_at s i)"
proof -
  have h: "map t_hash (dm_tasks s') = map t_hash (dm_tasks s)" using assms(1) by (simp add: same_books_def)
  then have "length (dm_tasks s') = length (dm_tasks s)" by (metis length_map)
  then have "t_hash (dm_tasks s' ! i) = t_hash (dm_tasks s ! i)"
    using arg_cong [OF h, of "\<lambda>xs. xs ! i"] assms(2) by simp
  then show ?thesis by (simp add: task_key_def task_at_def)
qed

lemma same_books_length: "same_books s s' \<Longrightarrow> length (dm_tasks s') = length (dm_tasks s)"
  by (metis same_books_def length_map)

lemma on_task_books:
  assumes "t_hash (f (task_at s i)) = t_hash (task_at s i)"
  shows "same_books s (on_task i f s)"
proof -
  have "map t_hash ((dm_tasks s)[i := f (dm_tasks s ! i)]) = map t_hash (dm_tasks s)"
  proof (cases "i < length (dm_tasks s)")
    case True
    then show ?thesis
      using assms by (simp add: map_update task_at_def list_update_same_conv)
  next
    case False
    then show ?thesis by (simp add: list_update_beyond)
  qed
  then show ?thesis by (simp add: same_books_def on_task_def)
qed

lemma same_books_pending:
  assumes "pending_ok (s, ws)" and "same_books s s'" and "map worker_task ws' = map worker_task ws"
  shows "pending_ok (s', ws')"
proof -
  have "pending (s', ws') = pending (s, ws)"
    using assms(2,3) by (simp add: pending_def same_books_def)
  moreover have "dm_queued s' = dm_queued s" using assms(2) by (simp add: same_books_def)
  ultimately show ?thesis
    using assms(1) same_books_task [OF assms(2)] same_books_length [OF assms(2)]
    by (auto simp: pending_ok_def)
qed

text \<open>The operations on the client and the database keep the books.\<close>

lemma services_books [simp]: "same_books s (s\<lparr>dm_client := cl, dm_db := d\<rparr>)"
  by (simp add: same_books_def)

lemma db_books [simp]: "same_books s (s\<lparr>dm_db := d\<rparr>)" "same_books s (s\<lparr>dm_client := cl\<rparr>)"
  "same_books s (s\<lparr>dm_active := a\<rparr>)" "same_books s (s\<lparr>dm_last_refresh := q\<rparr>)"
  by (simp_all add: same_books_def)

lemma mark_books: "same_books s (maybe_mark_torrent_complete w h state p s)"
  by (auto simp: maybe_mark_torrent_complete_def split: option.splits sum.splits)

lemma apply_books: "same_books s (apply_torrent_status_to_task w i r s)"
proof -
  have "same_books s (on_task i (live_fields r) s)" by (rule on_task_books) (simp add: live_fields_def)
  then show ?thesis
    unfolding apply_torrent_status_to_task_def Let_def by (rule same_books_trans [OF _ mark_books])
qed

lemma fold_books:
  assumes "\<And>x s. x \<in> set xs \<Longrightarrow> same_books s (f x s)"
  shows "same_books s (fold f xs s)"
  using assms
proof (induction xs arbitrary: s)
  case (Cons x xs)
  then have "same_books s (f x s)" and "same_books (f x s) (fold f xs (f x s))" by auto
  then show ?case using same_books_trans by auto
qed simp

lemma refresh_books: "same_books s (refresh_active_task_status w now s)"
proof -
  have "same_books s (s\<lparr>dm_last_refresh := now\<rparr>)" by simp
  then show ?thesis
    unfolding refresh_active_task_status_def Let_def
    by (auto split: option.split intro!: same_books_trans [OF \<open>same_books s _\<close>] fold_books apply_books)
qed

lemma ensure_index_books: "same_books s (fst (ensure_index w a h n p ts s))"
  by (auto simp: ensure_index_def Let_def case_prod_unfold split: option.splits)

lemma overview_step_books:
  "overview_step w tbh (r, h) (s, am, tm, out) = (s', am', tm', out') \<Longrightarrow> same_books s s'"
proof -
  assume "overview_step w tbh (r, h) (s, am, tm, out) = (s', am', tm', out')"
  from overview_step_db [OF this] obtain s1 where
    s1: "s1 = s \<or> (\<exists>name am1 tm1 out1. fst (adopt_orphan w r h name (s, am, tm, out)) = (s1, am1, tm1, out1))"
    and s': "s' = maybe_mark_torrent_complete w (Some h) (r_state r) (map_option clamp01 (derived_progress r)) s1"
    by blast
  have "same_books s s1"
  proof (cases "s1 = s")
    case False
    then obtain name am1 tm1 out1 where
      "fst (adopt_orphan w r h name (s, am, tm, out)) = (s1, am1, tm1, out1)" using s1 by blast
    from adopt_orphan_state [OF this] False obtain a hv n p ts where
      "s1 = fst (ensure_index w a hv n p ts s)" by blast
    then show ?thesis by (simp add: ensure_index_books)
  qed simp
  then show ?thesis unfolding s' by (rule same_books_trans [OF _ mark_books])
qed

lemma overview_fold_books:
  "fold (overview_step w tbh) rows (s, am, tm, out) = (s', am', tm', out') \<Longrightarrow> same_books s s'"
proof (induction rows arbitrary: s am tm out)
  case (Cons rh rows)
  obtain r h where rh: "rh = (r, h)" by (cases rh)
  obtain s1 am1 tm1 out1 where st: "overview_step w tbh (r, h) (s, am, tm, out) = (s1, am1, tm1, out1)"
    by (metis prod_cases4)
  have "same_books s s1" by (rule overview_step_books [OF st])
  moreover have "same_books s1 s'" by (rule Cons.IH) (use Cons.prems st rh in simp)
  ultimately show ?case by (rule same_books_trans)
qed simp

lemma restored_books: "same_books s (maybe_ensure_torrent_session_restored tm s)"
  by (auto simp: maybe_ensure_torrent_session_restored_def split: option.splits)

lemma overview_books:
  assumes "get_torrents_overview w s = (s', out)"
  shows "same_books s s'"
proof (cases "w_client w")
  case (Some tm)
  show ?thesis
  proof (cases "c_list tm (dm_client (maybe_ensure_torrent_session_restored tm s)) None")
    case (Inl e)
    then show ?thesis using assms Some restored_books by (auto simp: get_torrents_overview_def Let_def)
  next
    case (Inr entries)
    then obtain tbh am ttl am2 tm2 out2 where
      "fold (overview_step w tbh) (hashed_rows entries)
         (maybe_ensure_torrent_session_restored tm s, am, ttl, no_rows) = (s', am2, tm2, out2)"
      using assms Some by (auto simp: get_torrents_overview_def Let_def split: prod.splits)
    then show ?thesis using overview_fold_books same_books_trans [OF restored_books] by blast
  qed
qed (use assms in \<open>simp add: get_torrents_overview_def\<close>)

lemma folder_books: "get_anime_folder w fm consolidate a s = (s', f) \<Longrightarrow> same_books s s'"
  by (auto simp: get_anime_folder_def find_existing_anime_folder_def Let_def
      split: option.splits prod.splits if_splits sum.splits)

lemma save_books: "dm_save_torrent w a t p src s = (s', t', b) \<Longrightarrow> same_books s s'"
  by (auto simp: dm_save_torrent_def Let_def split: option.splits prod.splits)

lemma set_paths_books: "same_books s (set_paths w f hs s)"
  by (auto simp: set_paths_def split: option.splits intro!: fold_books)

lemma move_books: "same_books s (move_torrents_to_folder w ts f s)"
proof -
  have "same_books s (set_paths w f hs (s\<lparr>dm_client := cl\<rparr>))" for hs cl
    by (rule same_books_trans [OF _ set_paths_books]) simp
  then show ?thesis
    by (auto simp: move_torrents_to_folder_def Let_def set_paths_books split: option.splits prod.splits sum.splits)
qed

lemma start_books:
  assumes "start_download w fm consolidate to_magnet a t s = (s', b)"
  shows "same_books s s'"
proof (cases "w_client w")
  case (Some tm)
  obtain s1 f where f: "get_anime_folder w fm consolidate a s = (s1, f)" by fastforce
  have s1: "same_books s s1" by (rule folder_books [OF f])
  obtain cl r where add: "c_add tm (dm_client s1) (to_magnet t) f = (cl, r)" by fastforce
  have "same_books s1 s'"
  proof -
    have fld: "same_books s1 (fold (\<lambda>r s. fst (ensure_index w a (g r) (n r) p ts s)) es
        (move_torrents_to_folder w es f (s1\<lparr>dm_client := cl\<rparr>)))" for g n p ts es
      by (rule same_books_trans [OF same_books_trans [OF db_books(2) [of s1 cl] move_books] fold_books])
         (rule ensure_index_books)
    show ?thesis
      using assms Some f add fld ensure_index_books
      by (auto simp: start_download_def Let_def split: if_splits sum.splits)
  qed
  then show ?thesis using s1 same_books_trans by blast
qed (use assms in \<open>simp add: start_download_def\<close>)

section \<open>No two pending tasks share a hash\<close>

definition same_hashes :: "('c, 'd) dm \<Rightarrow> ('c, 'd) dm \<Rightarrow> bool" where
  "same_hashes s s' \<longleftrightarrow> map t_hash (dm_tasks s') = map t_hash (dm_tasks s)"

lemma same_hashes_key:
  assumes "same_hashes s s'" and "i < length (dm_tasks s)"
  shows "task_key (task_at s' i) = task_key (task_at s i)" and "i < length (dm_tasks s')"
proof -
  note h = assms(1) [unfolded same_hashes_def]
  then have l: "length (dm_tasks s') = length (dm_tasks s)" by (metis length_map)
  then have "t_hash (dm_tasks s' ! i) = t_hash (dm_tasks s ! i)"
    using arg_cong [OF h, of "\<lambda>xs. xs ! i"] assms(2) by simp
  then show "task_key (task_at s' i) = task_key (task_at s i)" by (simp add: task_key_def task_at_def)
  show "i < length (dm_tasks s')" using l assms(2) by simp
qed

lemma books_hashes: "same_books s s' \<Longrightarrow> same_hashes s s'"
  by (simp add: same_books_def same_hashes_def)

text \<open>Tasks may stop being pending; those that stay keep their hash in the books.\<close>

lemma pending_ok_shrink:
  assumes ok: "pending_ok x" and h: "same_hashes (fst x) (fst y)"
    and d: "distinct (pending y)" and sub: "set (pending y) \<subseteq> set (pending x)"
    and q: "\<And>i k. i \<in> set (pending y) \<Longrightarrow> task_key (task_at (fst x) i) = Some k \<Longrightarrow>
        k \<in> dm_queued (fst x) \<Longrightarrow> k \<in> dm_queued (fst y)"
  shows "pending_ok y"
proof -
  have lt: "i < length (dm_tasks (fst x))" if "i \<in> set (pending y)" for i
    using ok sub that unfolding pending_ok_def by blast
  note key = same_hashes_key(1) [OF h lt]
  have "\<forall>i \<in> set (pending y). i < length (dm_tasks (fst y))"
    using same_hashes_key(2) [OF h lt] by blast
  moreover have "\<exists>k. task_key (task_at (fst y) i) = Some k \<and> k \<in> dm_queued (fst y)"
    if i: "i \<in> set (pending y)" for i
  proof -
    obtain k where "task_key (task_at (fst x) i) = Some k" "k \<in> dm_queued (fst x)"
      using ok sub i unfolding pending_ok_def by blast
    then show ?thesis using q [OF i] key [OF i] by auto
  qed
  moreover have "i = j" if "i \<in> set (pending y)" "j \<in> set (pending y)"
    "task_key (task_at (fst y) i) = task_key (task_at (fst y) j)" for i j
    using ok sub that key [OF that(1)] key [OF that(2)] unfolding pending_ok_def by (metis subsetD)
  ultimately show ?thesis using d unfolding pending_ok_def by blast
qed

text \<open>A task that leaves the pending ones may take its hash along: it is nobody else's.\<close>

lemma pending_ok_leave:
  assumes ok: "pending_ok x" and h: "same_hashes (fst x) (fst y)"
    and d: "distinct (pending y)" and sub: "set (pending y) \<subseteq> set (pending x) - {i}"
    and i: "i \<in> set (pending x)"
    and q: "\<And>k. k \<in> dm_queued (fst x) \<Longrightarrow> task_key (task_at (fst x) i) \<noteq> Some k \<Longrightarrow> k \<in> dm_queued (fst y)"
  shows "pending_ok y"
proof (rule pending_ok_shrink [OF ok h d])
  show "set (pending y) \<subseteq> set (pending x)" using sub by blast
  fix j k assume j: "j \<in> set (pending y)" "task_key (task_at (fst x) j) = Some k" "k \<in> dm_queued (fst x)"
  have "task_key (task_at (fst x) i) \<noteq> Some k"
    using ok i j sub unfolding pending_ok_def by (metis Diff_iff singletonI subsetD)
  then show "k \<in> dm_queued (fst y)" using q j(3) by blast
qed

lemma drop_task_facts [simp]:
  "dm_queue (drop_task i s) = dm_queue s" "dm_submitted (drop_task i s) = dm_submitted s"
  "same_hashes s (drop_task i s)"
  "k \<in> dm_queued (drop_task i s) \<longleftrightarrow> k \<in> dm_queued s \<and> task_key (task_at s i) \<noteq> Some k"
proof -
  have "map t_hash (list_update ts i (put_status False (ts ! i))) = map t_hash ts" for ts
    by (cases "i < length ts") (simp_all add: map_update put_status_def list_update_same_conv list_update_beyond)
  then show "same_hashes s (drop_task i s)"
    by (simp add: same_hashes_def drop_task_def on_task_def split: option.splits)
qed (auto simp: drop_task_def on_task_def split: option.splits)

lemma process_next_ok:
  assumes "pending_ok (s, ws)" shows "pending_ok (process_next s, ws)"
proof (cases "dm_queue s")
  case (Cons i rest)
  let ?s1 = "s\<lparr>dm_queue := rest\<rparr>"
  have i: "i \<in> set (pending (s, ws))" by (simp add: pending_def Cons)
  have d: "distinct (i # rest @ dm_submitted s @ map worker_task ws)"
    using assms by (simp add: pending_ok_def pending_def Cons)
  have h: "same_hashes s ?s1" by (simp add: same_hashes_def)
  have gone: "pending_ok (?s1, ws)"
    by (rule pending_ok_leave [OF assms _ _ _ i]) (use d h in \<open>auto simp: pending_def Cons\<close>)
  have dropped: "pending_ok (drop_task i ?s1, ws)"
  proof (rule pending_ok_leave [OF assms _ _ _ i])
    show "same_hashes (fst (s, ws)) (fst (drop_task i ?s1, ws))"
      using drop_task_facts(3) [of ?s1 i] by (simp add: same_hashes_def)
  qed (use d in \<open>auto simp: pending_def Cons task_at_def\<close>)
  have moved: "pending_ok (?s1\<lparr>dm_submitted := dm_submitted ?s1 @ [i]\<rparr>, ws)"
    by (rule pending_ok_shrink [OF assms]) (use d in \<open>auto simp: pending_def Cons same_hashes_def\<close>)
  show ?thesis using gone dropped moved by (simp add: process_next_def Cons Let_def)
qed (use assms in \<open>simp add: process_next_def\<close>)

lemma begin_ok:
  assumes ok: "pending_ok (s, ws)" and sub: "dm_submitted s = i # rest"
    and b: "begin_download i (s\<lparr>dm_submitted := rest\<rparr>) = (s', wk0)"
  shows "pending_ok (s', case wk0 of None \<Rightarrow> ws | Some wk \<Rightarrow> ws @ [wk])"
proof -
  let ?s1 = "s\<lparr>dm_submitted := rest\<rparr>"
  have i: "i \<in> set (pending (s, ws))" by (simp add: pending_def sub)
  have d: "distinct (dm_queue s @ i # rest @ map worker_task ws)"
    using ok by (simp add: pending_ok_def pending_def sub)
  show ?thesis
  proof (cases "task_dropped ?s1 i")
    case True
    have "pending_ok (drop_task i ?s1, ws)"
    proof (rule pending_ok_leave [OF ok _ _ _ i])
      show "same_hashes (fst (s, ws)) (fst (drop_task i ?s1, ws))"
        using drop_task_facts(3) [of ?s1 i] by (simp add: same_hashes_def)
    qed (use d in \<open>auto simp: pending_def sub task_at_def\<close>)
    then show ?thesis using b True by (auto simp: begin_download_def)
  next
    case False
    let ?s2 = "?s1\<lparr>dm_active := put_key (t_anime (task_at ?s1 i)) i (dm_active ?s1)\<rparr>"
    let ?f = "\<lambda>t. t\<lparr>t_state := Some ''QUEUED''\<rparr>"
    have s': "s' = on_task i ?f ?s2" "wk0 = Some (Registered i)"
      using b False by (auto simp: begin_download_def)
    have books: "same_books ?s2 (on_task i ?f ?s2)" by (rule on_task_books) simp
    have "pending_ok (s', ws @ [Registered i])"
    proof (rule pending_ok_shrink [OF ok])
      show "same_hashes (fst (s, ws)) (fst (s', ws @ [Registered i]))"
        using books by (simp add: s' same_books_def same_hashes_def)
    qed (use d books in \<open>auto simp: pending_def sub s' same_books_def\<close>)
    then show ?thesis using s' by simp
  qed
qed

lemma finish_facts:
  "dm_queue (finish_download i keep s) = dm_queue s"
  "dm_submitted (finish_download i keep s) = dm_submitted s"
  "dm_tasks (finish_download i keep s) = dm_tasks s"
  "k \<in> dm_queued (finish_download i keep s) \<longleftrightarrow> k \<in> dm_queued s \<and> task_key (task_at s i) \<noteq> Some k"
  by (auto simp: finish_download_def Let_def split: option.splits)

lemma finish_ok:
  assumes ok: "pending_ok (s, ws @ Finishing i keep # ws')"
  shows "pending_ok (finish_download i keep s, ws @ ws')"
proof (rule pending_ok_leave [OF ok, where i = i])
  have d: "distinct (pending (s, ws @ Finishing i keep # ws'))" using ok by (simp add: pending_ok_def)
  then show "distinct (pending (finish_download i keep s, ws @ ws'))"
    by (auto simp: pending_def finish_facts)
  show "set (pending (finish_download i keep s, ws @ ws')) \<subseteq> set (pending (s, ws @ Finishing i keep # ws')) - {i}"
    using d by (auto simp: pending_def finish_facts)
qed (simp_all add: pending_def same_hashes_def finish_facts)

lemma put_status_books: "same_books s (on_task i (put_status b) s)"
  by (rule on_task_books) (simp add: put_status_def)

lemma tag_books: "same_books s (set_user_tag cb a u s)"
  by (simp add: set_user_tag_def split: option.splits)

lemma run_books:
  assumes run: "run_prepared w fm consolidate to_magnet cb i torrent s = (s', wk)"
    and h: "truthy (t_hash (task_at s i))"
  shows "same_books s s' \<and> worker_task wk = i"
proof -
  have up: "same_books s (on_task i (put_status False) t)" if "same_books s t" for t
    using same_books_trans [OF that put_status_books] .
  show ?thesis
  proof (cases "task_dropped s i \<or> torrent = None")
    case True
    then show ?thesis using run up [of s] by (auto simp: run_prepared_def Let_def split: if_splits)
  next
    case False
    then obtain tor where tor: "torrent = Some tor" "\<not> task_dropped s i" by auto
    let ?s1 = "on_task i (adopt_fields tor) s"
    have s1: "same_books s ?s1" by (rule on_task_books) (simp add: adopt_fields_def h)
    let ?a = "t_anime (task_at ?s1 i)"
    obtain s2 f where f: "get_anime_folder w fm consolidate ?a ?s1 = (s2, f)" by fastforce
    have s2: "same_books s s2" by (rule same_books_trans [OF s1 folder_books [OF f]])
    obtain s3 tor' saved where sv: "dm_save_torrent w ?a tor (Some f) (t_source (task_at s2 i)) s2 = (s3, tor', saved)"
      by (metis prod_cases3)
    have s3: "same_books s s3" by (rule same_books_trans [OF s2 save_books [OF sv]])
    let ?s4 = "case t_user (task_at s3 i) of None \<Rightarrow> s3 | Some u \<Rightarrow> if u = 0 then s3 else set_user_tag cb ?a u s3"
    have s4: "same_books s ?s4" using s3 same_books_trans [OF s3 tag_books] by (simp split: option.splits)
    obtain s5 ok where st: "start_download w fm consolidate to_magnet ?a tor' ?s4 = (s5, ok)" by fastforce
    have s5: "same_books s s5" by (rule same_books_trans [OF s4 start_books [OF st]])
    have s6: "same_books s (on_task i (put_status ok) s5)" by (rule same_books_trans [OF s5 put_status_books])
    have s7: "same_books s (on_task i (\<lambda>t. t\<lparr>t_state := Some ''DOWNLOADING'',
        t_progress := Some (case t_progress t of None \<Rightarrow> 0 | Some p \<Rightarrow> p)\<rparr>) (on_task i (put_status ok) s5))"
      by (rule same_books_trans [OF s6 on_task_books]) simp
    show ?thesis
      using run tor f sv st up [OF s2] up [OF s3] s6 s7
      by (auto simp: run_prepared_def Let_def split: if_splits)
  qed
qed

lemma key_truthy: "task_key t = Some k \<Longrightarrow> truthy (t_hash t)"
proof -
  assume "task_key t = Some k"
  then have "py_strip (or_empty (t_hash t)) \<noteq> []"
    using canonicalize_None [of "t_hash t"] by (auto simp: task_key_def)
  then show ?thesis by (auto simp: truthy_def)
qed

lemma resolve_canonical:
  assumes "resolve_download_hash url hash_value = Some h"
  shows "canonicalize_infohash (Some h) = Some h"
proof -
  have "\<exists>v. canonicalize_infohash v = Some h"
    using assms by (auto simp: resolve_download_hash_def hash_from_magnet_def Let_def
        split: option.splits if_splits)
  then show ?thesis using canonicalize_fixed(1) by blast
qed

lemma clear_books: "clear_deleted_status_for_redownload w s h = (s', b) \<Longrightarrow> same_books s s'"
  by (auto simp: clear_deleted_status_for_redownload_def Let_def
      split: option.splits if_splits sum.splits prod.splits)

text \<open>A request is refused, leaving the books, or queues one task under a hash that was free.\<close>

lemma enqueue_cases:
  assumes known: "resolve_download_hash url hash_value = Some h"
    and e: "enqueue_download w s anime_id url hash_value user_id source = (s', r)"
  obtains (refused) "same_books s s'" "\<not> started r"
  | (queued) s1 where "same_books s s1" "started r" "status_queue r = Some (length (dm_tasks s1))"
      "h \<notin> dm_queued s"
      "s' = s1\<lparr>dm_cancelled := dm_cancelled s1 - {h}, dm_queued := insert h (dm_queued s1),
               dm_tasks := dm_tasks s1 @ [new_task anime_id url (Some h) user_id source],
               dm_queue := dm_queue s1 @ [length (dm_tasks s1)]\<rparr>"
proof (cases "or_empty url = [] \<and> or_empty hash_value = []")
  case True
  then show thesis using refused e by (auto simp: enqueue_download_def refused_def)
next
  case False
  obtain s1 cleared where c: "clear_deleted_status_for_redownload w s (Some h) = (s1, cleared)" by fastforce
  have b: "same_books s s1" by (rule clear_books [OF c])
  then have q: "dm_queued s1 = dm_queued s" by (simp add: same_books_def)
  show thesis
  proof (cases "duplicate_download_reason w s1 h cleared")
    case (Some why)
    then have "s' = s1" "r = refused True why"
      using e False known c by (simp_all add: enqueue_download_def Let_def del: or_empty_simps)
    then show thesis using refused b by (simp add: refused_def)
  next
    case None
    have free: "h \<notin> dm_queued s1"
      using None resolve_canonical [OF known]
      by (auto simp: duplicate_download_reason_def split: if_splits)
    have "s' = s1\<lparr>dm_cancelled := dm_cancelled s1 - {h}, dm_queued := insert h (dm_queued s1),
               dm_tasks := dm_tasks s1 @ [new_task anime_id url (Some h) user_id source],
               dm_queue := dm_queue s1 @ [length (dm_tasks s1)]\<rparr>" and "started r"
      and "status_queue r = Some (length (dm_tasks s1))"
      using e False known c None free by (auto simp: enqueue_download_def Let_def)
    then show thesis using queued [OF b _ _ _ \<open>s' = _\<close>] free q by simp
  qed
qed

text \<open>A request leaves the active downloads alone, and older tasks as they are.\<close>

lemma clear_fields:
  "clear_deleted_status_for_redownload w s h = (s', b) \<Longrightarrow>
   dm_active s' = dm_active s \<and> dm_tasks s' = dm_tasks s"
  by (auto simp: clear_deleted_status_for_redownload_def Let_def
      split: option.splits if_splits sum.splits prod.splits)

lemma enqueue_active:
  assumes "enqueue_download w s a url hash_value u src = (s', r)"
  shows "dm_active s' = dm_active s"
    and "started r \<Longrightarrow> \<exists>t. dm_tasks s' = dm_tasks s @ [t]"
proof -
  let ?hash = "case resolve_download_hash url hash_value of None \<Rightarrow> hash_value | Some h \<Rightarrow> Some h"
  obtain s1 c where c: "clear_deleted_status_for_redownload w s ?hash = (s1, c)" by fastforce
  note f = clear_fields [OF c]
  show "dm_active s' = dm_active s"
    using assms c f by (auto simp: enqueue_download_def Let_def refused_def split: if_splits option.splits)
  show "\<exists>t. dm_tasks s' = dm_tasks s @ [t]" if "started r"
    using assms c f that by (auto simp: enqueue_download_def Let_def refused_def split: if_splits option.splits)
qed

lemma enqueue_ok:
  assumes ok: "pending_ok (s, ws)" and known: "resolve_download_hash url hash_value = Some h"
    and e: "enqueue_download w s anime_id url hash_value user_id source = (s', r)"
  shows "pending_ok (s', ws)"
proof (rule enqueue_cases [OF known e])
  assume "same_books s s'"
  then show ?thesis using same_books_pending [OF ok] by blast
next
  fix s1
  assume b: "same_books s s1" and free: "h \<notin> dm_queued s"
    and s': "s' = s1\<lparr>dm_cancelled := dm_cancelled s1 - {h}, dm_queued := insert h (dm_queued s1),
               dm_tasks := dm_tasks s1 @ [new_task anime_id url (Some h) user_id source],
               dm_queue := dm_queue s1 @ [length (dm_tasks s1)]\<rparr>"
  have ok1: "pending_ok (s1, ws)" using same_books_pending [OF ok b] by blast
  let ?n = "length (dm_tasks s1)"
  have q: "dm_queued s1 = dm_queued s" using b by (simp add: same_books_def)
  have pend: "set (pending (s', ws)) = insert ?n (set (pending (s1, ws)))"
    "distinct (pending (s', ws)) \<longleftrightarrow> distinct (?n # pending (s1, ws))"
    by (auto simp: pending_def s')
  have lt: "i < ?n" if "i \<in> set (pending (s1, ws))" for i
    using ok1 that by (simp add: pending_ok_def)
  have old: "task_key (task_at s' i) = task_key (task_at s1 i)" if "i \<in> set (pending (s1, ws))" for i
    using lt [OF that] by (simp add: task_at_def s' nth_append)
  have new: "task_key (task_at s' ?n) = Some h"
    using resolve_canonical [OF known] by (simp add: task_at_def s' task_key_def new_task_def Let_def)
  have keys: "\<exists>k. task_key (task_at s1 i) = Some k \<and> k \<in> dm_queued s1 \<and> k \<noteq> h"
    if "i \<in> set (pending (s1, ws))" for i
    using ok1 that free q unfolding pending_ok_def by fastforce
  have uniq: "i = j" if "i \<in> set (pending (s1, ws))" "j \<in> set (pending (s1, ws))"
    "task_key (task_at s1 i) = task_key (task_at s1 j)" for i j
    using ok1 that unfolding pending_ok_def by simp
  have "distinct (pending (s', ws))" using ok1 lt unfolding pend(2) by (fastforce simp: pending_ok_def)
  moreover have "\<forall>i \<in> set (pending (s', ws)). i < length (dm_tasks s')"
    using lt unfolding pend(1) by (auto simp: s' less_Suc_eq)
  moreover have "\<forall>i \<in> set (pending (s', ws)). \<exists>k. task_key (task_at s' i) = Some k \<and> k \<in> dm_queued s'"
    using new old keys unfolding pend(1) by (fastforce simp: s')
  moreover have "i = j" if i: "i \<in> set (pending (s', ws))" and j: "j \<in> set (pending (s', ws))"
    and eq: "task_key (task_at s' i) = task_key (task_at s' j)" for i j
    using i j eq old new keys uniq unfolding pend(1) by (metis insert_iff option.inject)
  ultimately show ?thesis unfolding pending_ok_def by simp
qed

lemma download_step_ok:
  assumes "download_step w x y" and "pending_ok x" shows "pending_ok y"
  using assms
proof (induction rule: download_step.induct)
  case (request url hash_value s anime_id user_id source s' r ws)
  then show ?case using enqueue_ok by blast
next
  case (process s ws)
  then show ?case by (rule process_next_ok)
next
  case (start s i rest s' wk0 ws)
  then show ?case using begin_ok by blast
next
  case (announce i s s' wk ws ws')
  then have "same_books s s' \<and> worker_task wk = i"
    using put_status_books by (auto simp: announce_def split: if_splits)
  then show ?case using same_books_pending [OF announce.prems] by simp
next
  case (prepare s ws i ws' net)
  then show ?case by (rule same_books_pending) simp_all
next
  case (run fm consolidate to_magnet cb i torrent s s' wk ws ws')
  have "i \<in> set (pending (s, ws @ Prepared i torrent # ws'))" by (simp add: pending_def)
  then have "truthy (t_hash (task_at s i))"
    using run.prems key_truthy unfolding pending_ok_def by fastforce
  then have "same_books s s' \<and> worker_task wk = i" by (rule run_books [OF run.hyps])
  then show ?case using same_books_pending [OF run.prems] by simp
next
  case (finish s ws i keep ws')
  then show ?case by (rule finish_ok)
next
  case (refresh s ws now)
  then show ?case using same_books_pending refresh_books by blast
next
  case (overview s s' out ws)
  then show ?case using same_books_pending overview_books by blast
next
  case (services s ws cl d)
  then show ?case by (rule same_books_pending) simp_all
qed

lemma reachable_ok: "(download_step w)\<^sup>*\<^sup>* (start_state cl d, []) x \<Longrightarrow> pending_ok x"
proof (induction rule: rtranclp_induct)
  case base
  show ?case by (simp add: pending_ok_def pending_def start_state_def)
next
  case (step y z)
  then show ?case using download_step_ok by blast
qed


section \<open>What the caller of a download is told\<close>

definition same_tasks :: "('c, 'd) dm \<Rightarrow> ('c, 'd) dm \<Rightarrow> bool" where
  "same_tasks s s' \<longleftrightarrow> dm_tasks s' = dm_tasks s \<and> dm_active s' = dm_active s
     \<and> dm_cancelled s' = dm_cancelled s"

lemma same_tasks_trans: "same_tasks s t \<Longrightarrow> same_tasks t u \<Longrightarrow> same_tasks s u"
  by (simp add: same_tasks_def)

lemma same_tasks_simps [simp]:
  "same_tasks s s" "same_tasks s (s\<lparr>dm_client := cl\<rparr>)" "same_tasks s (s\<lparr>dm_db := d\<rparr>)"
  "same_tasks s (s\<lparr>dm_client := cl, dm_db := d\<rparr>)"
  by (simp_all add: same_tasks_def)

lemma fold_tasks:
  assumes "\<And>x s. x \<in> set xs \<Longrightarrow> same_tasks s (f x s)"
  shows "same_tasks s (fold f xs s)"
  using assms
proof (induction xs arbitrary: s)
  case (Cons x xs)
  then have "same_tasks s (f x s)" and "same_tasks (f x s) (fold f xs (f x s))" by auto
  then show ?case using same_tasks_trans by auto
qed simp

lemma service_tasks:
  "get_anime_folder w fm consolidate a s = (s1, f) \<Longrightarrow> same_tasks s s1"
  "dm_save_torrent w a t p src s = (s2, t', b) \<Longrightarrow> same_tasks s s2"
  "same_tasks s (set_user_tag cb a u s)"
  "same_tasks s (fst (ensure_index w a h n p' ts s))"
  "same_tasks s (set_paths w f hs s)"
  by (auto simp: get_anime_folder_def find_existing_anime_folder_def dm_save_torrent_def set_user_tag_def
      ensure_index_def set_paths_def Let_def case_prod_unfold
      split: option.splits prod.splits if_splits sum.splits intro!: fold_tasks)

lemma move_tasks: "same_tasks s (move_torrents_to_folder w ts f s)"
proof -
  have "same_tasks s (set_paths w f hs (s\<lparr>dm_client := cl\<rparr>))" for hs cl
    by (rule same_tasks_trans [OF _ service_tasks(5)]) simp
  then show ?thesis
    by (auto simp: move_torrents_to_folder_def Let_def service_tasks(5) split: option.splits prod.splits sum.splits)
qed

lemma start_tasks:
  assumes "start_download w fm consolidate to_magnet a t s = (s', b)"
  shows "same_tasks s s'"
proof (cases "w_client w")
  case (Some tm)
  obtain s1 f where f: "get_anime_folder w fm consolidate a s = (s1, f)" by fastforce
  have s1: "same_tasks s s1" by (rule service_tasks(1) [OF f])
  obtain cl r where add: "c_add tm (dm_client s1) (to_magnet t) f = (cl, r)" by fastforce
  have "same_tasks s1 s'"
  proof -
    have fld: "same_tasks s1 (fold (\<lambda>r s. fst (ensure_index w a (g r) (n r) p ts s)) es
        (move_torrents_to_folder w es f (s1\<lparr>dm_client := cl\<rparr>)))" for g n p ts es
      by (rule same_tasks_trans [OF same_tasks_trans [OF same_tasks_simps(2) [of s1 cl] move_tasks] fold_tasks])
         (rule service_tasks(4))
    show ?thesis
      using assms Some f add fld service_tasks(4)
      by (auto simp: start_download_def Let_def split: if_splits sum.splits)
  qed
  then show ?thesis using s1 same_tasks_trans by blast
qed (use assms in \<open>simp add: start_download_def\<close>)

lemma task_at_on_task: "i < length (dm_tasks s) \<Longrightarrow> task_at (on_task i f s) i = f (task_at s i)"
  by (simp add: task_at_def on_task_def)

lemma on_task_simps [simp]:
  "dm_active (on_task i f s) = dm_active s" "dm_cancelled (on_task i f s) = dm_cancelled s"
  "dm_db (on_task i f s) = dm_db s" "dm_client (on_task i f s) = dm_client s"
  "length (dm_tasks (on_task i f s)) = length (dm_tasks s)"
  by (simp_all add: on_task_def)

text \<open>One prepared run tells the caller one more answer, and it is the answer it keeps.\<close>

lemma run_reports:
  assumes run: "run_prepared w fm consolidate to_magnet cb i torrent s = (s', wk)"
    and i: "i < length (dm_tasks s)"
  shows "\<exists>b. wk = Finishing i b \<and> t_statuses (task_at s' i) = t_statuses (task_at s i) @ [b]
    \<and> dm_active s' = dm_active s \<and> t_anime (task_at s' i) = t_anime (task_at s i)
    \<and> length (dm_tasks s') = length (dm_tasks s)
    \<and> (b \<longrightarrow> t_state (task_at s' i) = Some ''DOWNLOADING'')"
proof -
  let ?keep = "\<lambda>t. t_statuses (task_at t i) = t_statuses (task_at s i) \<and> dm_active t = dm_active s
      \<and> t_anime (task_at t i) = t_anime (task_at s i) \<and> length (dm_tasks t) = length (dm_tasks s)"
  have up: "t_statuses (task_at (on_task i (put_status b) t) i) = t_statuses (task_at s i) @ [b]
      \<and> dm_active (on_task i (put_status b) t) = dm_active s
      \<and> t_anime (task_at (on_task i (put_status b) t) i) = t_anime (task_at s i)
      \<and> length (dm_tasks (on_task i (put_status b) t)) = length (dm_tasks s)" if "?keep t" for t b
    using that i by (simp add: task_at_on_task put_status_def)
  have same: "?keep u" if "same_tasks t u" "?keep t" for t u
    using that by (simp add: same_tasks_def task_at_def)
  show ?thesis
  proof (cases "task_dropped s i \<or> torrent = None")
    case True
    then have "s' = on_task i (put_status False) s" "wk = Finishing i False"
      using run by (auto simp: run_prepared_def Let_def split: if_splits)
    then show ?thesis using up [of s False] by auto
  next
    case False
    then obtain tor where tor: "torrent = Some tor" "\<not> task_dropped s i" by auto
    let ?s1 = "on_task i (adopt_fields tor) s"
    have s1: "?keep ?s1" using i by (simp add: task_at_on_task adopt_fields_def)
    let ?a = "t_anime (task_at ?s1 i)"
    obtain s2 f where f: "get_anime_folder w fm consolidate ?a ?s1 = (s2, f)" by fastforce
    have s2: "?keep s2" by (rule same [OF service_tasks(1) [OF f] s1])
    obtain s3 tor' saved where sv: "dm_save_torrent w ?a tor (Some f) (t_source (task_at s2 i)) s2 = (s3, tor', saved)"
      by (metis prod_cases3)
    have s3: "?keep s3" by (rule same [OF service_tasks(2) [OF sv] s2])
    let ?s4 = "case t_user (task_at s3 i) of None \<Rightarrow> s3 | Some u \<Rightarrow> if u = 0 then s3 else set_user_tag cb ?a u s3"
    have s4: "?keep ?s4" by (rule same [OF _ s3]) (simp add: service_tasks(3) split: option.split)
    obtain s5 ok where st: "start_download w fm consolidate to_magnet ?a tor' ?s4 = (s5, ok)" by fastforce
    have s5: "?keep s5" by (rule same [OF start_tasks [OF st] s4])
    note s6 = up [OF s5, of ok]
    show ?thesis
    proof (cases "f \<noteq> [] \<and> saved")
      case True
      then have "wk = Finishing i ok"
        and "s' = (if ok then on_task i (\<lambda>t. t\<lparr>t_state := Some ''DOWNLOADING'',
            t_progress := Some (case t_progress t of None \<Rightarrow> 0 | Some p \<Rightarrow> p)\<rparr>) (on_task i (put_status ok) s5)
          else on_task i (put_status ok) s5)"
        using run tor f sv st by (simp_all add: run_prepared_def Let_def)
      then show ?thesis using s6 s5 i by (cases ok) (auto simp: task_at_on_task)
    next
      case False
      then have "wk = Finishing i False
        \<and> (s' = on_task i (put_status False) s2 \<or> s' = on_task i (put_status False) s3)"
        using run tor f sv by (cases "f = []") (simp_all add: run_prepared_def Let_def)
      then obtain t where t: "wk = Finishing i False" "s' = on_task i (put_status False) t" "?keep t"
        using s2 s3 by blast
      show ?thesis using up [OF t(3), of False] by (intro exI [of _ False]) (simp add: t(1,2))
    qed
  qed
qed

lemma map_of_put_key: "map_of (put_key k v m) k = Some v"
proof (cases "k \<in> fst ` set m")
  case True
  then have "map_of (map (\<lambda>(k', w). (k', if k' = k then v else w)) m) k = Some v"
    by (induction m) auto
  then show ?thesis using True by (simp add: put_key_def)
next
  case False
  then have "map_of m k = None" by (simp add: map_of_eq_None_iff)
  then show ?thesis using False by (simp add: put_key_def map_add_Some_iff)
qed

lemma map_of_drop_key: "map_of (drop_key k m) k = None"
  by (auto simp: drop_key_def map_of_eq_None_iff)


section \<open>A started download is indexed\<close>

lemma indexed_cong: "st_index st = st_index st' \<Longrightarrow> indexed st a h = indexed st' a h"
  by (simp add: indexed_def)

lemma ensure_index_indexed:
  "indexed st a h \<Longrightarrow> indexed (fst (ensure_torrent_index st b hv n p ts)) a h"
  by (auto simp: ensure_torrent_index_def Let_def indexed_iff split: option.splits)

lemma store_ensure_indexed:
  assumes "w_db w = Some store_database" and "indexed (dm_db s) a h"
  shows "indexed (dm_db (fst (ensure_index w b hv n p ts s))) a h"
  using assms(2) ensure_index_indexed
  by (simp add: ensure_index_def assms(1) store_database_def case_prod_unfold map_prod_def split: option.splits)

lemma fold_keeps: "(\<And>x s. P s \<Longrightarrow> P (f x s)) \<Longrightarrow> P s \<Longrightarrow> P (fold f xs s)"
  by (induction xs arbitrary: s) auto

lemma store_paths_indexed:
  assumes "w_db w = Some store_database" and "indexed (dm_db s) a h"
  shows "indexed (dm_db (set_paths w f hs s)) a h"
proof -
  have "indexed (dm_db s) a h \<Longrightarrow> indexed (update_torrent_save_path (dm_db s) k f) a h" for k and s :: "('c, store) dm"
    by (simp add: update_torrent_save_path_def indexed_iff)
  then show ?thesis
    using assms(2) unfolding set_paths_def assms(1)
    by (simp add: store_database_def) (rule fold_keeps, simp_all)
qed

lemma store_move_indexed:
  assumes "w_db w = Some store_database" and "indexed (dm_db s) a h"
  shows "indexed (dm_db (move_torrents_to_folder w ts f s)) a h"
  using assms(2) store_paths_indexed [OF assms(1)]
  by (auto simp: move_torrents_to_folder_def Let_def split: option.splits prod.splits sum.splits)

text \<open>The consolidation and the tag callback write other tables than the index.\<close>

definition keeps_index :: "('c, store) consolidator \<Rightarrow> (int \<Rightarrow> int \<Rightarrow> store \<Rightarrow> store) option \<Rightarrow> bool" where
  "keeps_index consolidate cb \<longleftrightarrow>
     (\<forall>cl d r a. st_index (fst (snd (consolidate cl d r a))) = st_index d)
     \<and> (case cb of None \<Rightarrow> True | Some f \<Rightarrow> \<forall>a u d. st_index (f a u d) = st_index d)"

lemma store_folder_index:
  assumes "keeps_index consolidate cb" and "get_anime_folder w fm consolidate a s = (s', f)"
  shows "st_index (dm_db s') = st_index (dm_db s)"
proof -
  have "st_index d' = st_index d" if "consolidate cl d r b = (cl', d', p)" for cl d r b cl' d' p
    using assms(1) that unfolding keeps_index_def by (metis fst_conv snd_conv)
  then show ?thesis
    using assms(2) by (auto simp: get_anime_folder_def find_existing_anime_folder_def Let_def
        split: option.splits prod.splits if_splits sum.splits)
qed

lemma store_start_indexed:
  assumes w: "w_db w = Some store_database" and k: "keeps_index consolidate cb"
    and ix: "indexed (dm_db s) a h"
    and st: "start_download w fm consolidate to_magnet b t s = (s', ok)"
  shows "indexed (dm_db s') a h"
proof (cases "w_client w")
  case (Some tm)
  obtain s1 f where f: "get_anime_folder w fm consolidate b s = (s1, f)" by fastforce
  have i1: "indexed (dm_db s1) a h"
    using ix indexed_cong [OF store_folder_index [OF k f]] by blast
  obtain cl r where add: "c_add tm (dm_client s1) (to_magnet t) f = (cl, r)" by fastforce
  have fld: "indexed (dm_db (fold (\<lambda>r s. fst (ensure_index w b (g r) (n r) p ts s)) es
      (move_torrents_to_folder w es f (s1\<lparr>dm_client := cl\<rparr>)))) a h" for g n p ts es
    by (rule fold_keeps [where P = "\<lambda>s. indexed (dm_db s) a h"])
       (use store_ensure_indexed [OF w] store_move_indexed [OF w] i1 in simp_all)
  show ?thesis
    using st Some f add i1 fld store_ensure_indexed [OF w i1]
    by (auto simp: start_download_def Let_def split: if_splits sum.splits)
qed (use st ix in \<open>simp add: start_download_def\<close>)

text \<open>
  C28. No live torrent without an owner: over the torrent tables, when a prepared download is
  reported as started, its canonical infohash is in the index under the anime it was requested
  for.
\<close>
theorem started_download_is_indexed:
  assumes "w_db w = Some store_database" and "keeps_index consolidate cb"
    and "run_prepared w fm consolidate to_magnet cb i (Some tor) s = (s', Finishing i b)"
    and "i < length (dm_tasks s)"
  shows "b \<longrightarrow> (\<exists>h. canonicalize_infohash (tr_hash tor) = Some h
      \<and> indexed (dm_db s') (t_anime (task_at s i)) h)"
proof
  assume b: b
  let ?s1 = "on_task i (adopt_fields tor) s"
  have drop: "\<not> task_dropped s i" using assms(3) b by (auto simp: run_prepared_def Let_def)
  have a: "t_anime (task_at ?s1 i) = t_anime (task_at s i)"
    using assms(4) by (simp add: task_at_on_task adopt_fields_def)
  let ?a = "t_anime (task_at ?s1 i)"
  obtain s2 f where f: "get_anime_folder w fm consolidate ?a ?s1 = (s2, f)" by fastforce
  obtain s3 tor' saved where sv: "dm_save_torrent w ?a tor (Some f) (t_source (task_at s2 i)) s2 = (s3, tor', saved)"
    by (metis prod_cases3)
  let ?s4 = "case t_user (task_at s3 i) of None \<Rightarrow> s3 | Some u \<Rightarrow> if u = 0 then s3 else set_user_tag cb ?a u s3"
  obtain s5 ok where st: "start_download w fm consolidate to_magnet ?a tor' ?s4 = (s5, ok)" by fastforce
  have go: "f \<noteq> []" "saved"
    using assms(3) b drop f sv by (auto simp: run_prepared_def Let_def split: if_splits)
  have db: "dm_db s' = dm_db s5"
    using assms(3) b drop f sv st go by (auto simp: run_prepared_def Let_def split: if_splits)
  obtain h where h: "canonicalize_infohash (tr_hash tor) = Some h" "tor' = tor\<lparr>tr_hash := Some h\<rparr>"
    "dm_db s3 = fst (save_torrent (dm_db s2) ?a tor' (Some f) (t_source (task_at s2 i)))"
    using sv go assms(1)
    by (auto simp: dm_save_torrent_def store_database_def Let_def split: option.splits prod.splits)
  have canon: "canonicalize_infohash (Some h) = Some h" by (rule canonicalize_fixed(1) [OF h(1)])
  have "indexed (add_index ?a h (dm_db s2)) ?a h" by (auto simp: indexed_iff)
  then have i3: "indexed (dm_db s3) ?a h"
    using canon unfolding h(3) by (auto simp: save_torrent_def h(2) Let_def indexed_iff)
  have "st_index (dm_db ?s4) = st_index (dm_db s3)"
    using assms(2) by (auto simp: set_user_tag_def keeps_index_def split: option.splits)
  then have "indexed (dm_db ?s4) ?a h" using i3 indexed_cong by blast
  then have "indexed (dm_db s5) ?a h" by (rule store_start_indexed [OF assms(1,2) _ st])
  then show "\<exists>h. canonicalize_infohash (tr_hash tor) = Some h
      \<and> indexed (dm_db s') (t_anime (task_at s i)) h"
    using h(1) db a by auto
qed

section \<open>Cancelling\<close>

lemma on_tasks_other:
  "i \<notin> set is \<Longrightarrow> task_at (on_tasks is f s) i = task_at s i"
  by (induction "is" arbitrary: s) (auto simp: on_tasks_def task_at_def on_task_def)

lemma on_tasks_simps [simp]:
  "dm_queue (on_tasks is f s) = dm_queue s" "dm_cancelled (on_tasks is f s) = dm_cancelled s"
  "dm_queued (on_tasks is f s) = dm_queued s" "dm_active (on_tasks is f s) = dm_active s"
  "length (dm_tasks (on_tasks is f s)) = length (dm_tasks s)"
proof -
  have "dm_queue (on_tasks is f s) = dm_queue s \<and> dm_cancelled (on_tasks is f s) = dm_cancelled s
      \<and> dm_queued (on_tasks is f s) = dm_queued s \<and> dm_active (on_tasks is f s) = dm_active s
      \<and> length (dm_tasks (on_tasks is f s)) = length (dm_tasks s)"
    by (induction "is" arbitrary: s) (auto simp: on_tasks_def on_task_def)
  then show "dm_queue (on_tasks is f s) = dm_queue s" "dm_cancelled (on_tasks is f s) = dm_cancelled s"
    "dm_queued (on_tasks is f s) = dm_queued s" "dm_active (on_tasks is f s) = dm_active s"
    "length (dm_tasks (on_tasks is f s)) = length (dm_tasks s)" by simp_all
qed

lemma task_at_updates [simp]:
  "task_at (s\<lparr>dm_active := x\<rparr>) i = task_at s i" "task_at (s\<lparr>dm_queued := q\<rparr>) i = task_at s i"
  "task_at (s\<lparr>dm_cancelled := q\<rparr>) i = task_at s i"
  "task_at (s\<lparr>dm_queued := q, dm_cancelled := q'\<rparr>) i = task_at s i"
  by (simp_all add: task_at_def)

lemma cancel_none:
  assumes "canonicalize_infohash (Some h) = Some h" and "h \<notin> active_keys s"
  shows "cancel_in_flight_for_hash s (Some h) =
    (s\<lparr>dm_queued := dm_queued s - {h}, dm_cancelled := insert h (dm_cancelled s)\<rparr>,
     h \<in> dm_queued s \<or> h \<notin> dm_cancelled s)"
proof -
  have "filter (\<lambda>(a, i). task_key (task_at s i) = Some h) (dm_active s) = []"
    using assms(2) by (force simp: active_keys_def mem_map_filter filter_empty_conv)
  moreover have "filter (\<lambda>(a, i). True) xs = xs" for xs :: "(int \<times> nat) list" by (induction xs) auto
  ultimately show ?thesis
    unfolding cancel_in_flight_for_hash_def cancel_in_flight_hash_locked_def Let_def assms(1)
    by (simp add: on_tasks_def del: set_filter)
qed

lemma remove_books: "same_books s (remove_torrent_from_client w f h s)
    \<and> dm_tasks (remove_torrent_from_client w f h s) = dm_tasks s"
  by (auto simp: remove_torrent_from_client_def same_books_def split: option.splits prod.splits sum.splits pyerr.splits)

text \<open>
  Cancelling a hash the manager has never seen reports success and is remembered: the first
  such call answers true although nothing is queued, active or in the client, the second false.
\<close>
lemma cancel_unknown_hash_reports_success:
  assumes "canonicalize_infohash v = Some h" and "h \<notin> dm_queued s" and "h \<notin> dm_cancelled s"
    and "h \<notin> active_keys s" and "\<And>s'. dm_client s' = dm_client s \<Longrightarrow> lookup_live_torrent w s' h = None"
    and "cancel_download_by_hash w s v = (s1, c1)" and "cancel_download_by_hash w s1 v = (s2, c2)"
  shows "c1 \<and> \<not> c2 \<and> h \<in> dm_cancelled s1 \<and> dm_tasks s1 = dm_tasks s \<and> dm_queue s1 = dm_queue s"
proof -
  have canon: "canonicalize_infohash (Some h) = Some h" by (rule canonicalize_fixed(1) [OF assms(1)])
  let ?t = "s\<lparr>dm_cancelled := insert h (dm_cancelled s)\<rparr>"
  have q: "dm_queued s - {h} = dm_queued s" using assms(2) by blast
  have "cancel_in_flight_for_hash s (Some h) = (?t, True)"
    using cancel_none [OF canon assms(4)] assms(3) q by simp
  moreover have "lookup_live_torrent w ?t h = None" by (rule assms(5)) simp
  ultimately have s1: "s1 = ?t" "c1" using assms(1,6) by (auto simp: cancel_download_by_hash_def)
  have "h \<notin> active_keys ?t" using assms(4) by (simp add: active_keys_def)
  from cancel_none [OF canon this] have "cancel_in_flight_for_hash ?t (Some h) = (?t, False)"
    using assms(2) q by simp
  moreover have "lookup_live_torrent w ?t h = None" by (rule assms(5)) simp
  ultimately show ?thesis using assms(1,7) s1 by (auto simp: cancel_download_by_hash_def)
qed

text \<open>
  Requesting a cancelled download again brings the cancelled one back: after a request, its
  cancellation by hash and a second request, both tasks are waiting under the same infohash and
  the processor drops neither.
\<close>
lemma cancelled_request_comes_back:
  fixes w :: "('c, 'd) wiring"
  assumes known: "resolve_download_hash url hash_value = Some h"
    and wf: "\<forall>(b, j) \<in> set (dm_active s). j < length (dm_tasks s)"
    and e1: "enqueue_download w s a url hash_value u src = (s1, r1)" and "status_queue r1 = Some i" and "started r1"
    and c: "cancel_download_by_hash w s1 (Some h) = (s2, b)"
    and e2: "enqueue_download w s2 a url hash_value u src = (s3, r2)" and "status_queue r2 = Some j" and "started r2"
  shows "i \<noteq> j \<and> i \<in> set (dm_queue s3) \<and> j \<in> set (dm_queue s3)
    \<and> task_key (task_at s3 i) = Some h \<and> task_key (task_at s3 j) = Some h
    \<and> \<not> task_dropped s3 i \<and> \<not> task_dropped s3 j"
proof -
  have canon: "canonicalize_infohash (Some h) = Some h" by (rule resolve_canonical [OF known])
  let ?new = "new_task a url (Some h) u src"
  obtain t1 where t1: "same_books s t1" "i = length (dm_tasks t1)"
    "s1 = t1\<lparr>dm_cancelled := dm_cancelled t1 - {h}, dm_queued := insert h (dm_queued t1),
             dm_tasks := dm_tasks t1 @ [?new], dm_queue := dm_queue t1 @ [length (dm_tasks t1)]\<rparr>"
    by (rule enqueue_cases [OF known e1]) (use assms(4,5) in auto)
  have act: "dm_active t1 = dm_active s"
    using e1 known assms(5) enqueue_active [of w s a url hash_value u src s1 r1] t1(3) by simp
  let ?hits = "map snd (filter (\<lambda>(a, i). task_key (task_at s1 i) = Some h) (dm_active s1))"
  have i: "i \<notin> set ?hits"
    using wf act t1 same_books_length [OF t1(1)] by auto
  have s1i: "task_at s1 i = ?new" "i < length (dm_tasks s1)" "i \<in> set (dm_queue s1)"
    using t1 by (simp_all add: task_at_def)
  obtain t2 :: "('c, 'd) dm" where t2: "dm_tasks s2 = dm_tasks t2" "dm_queue s2 = dm_queue t2"
    "task_at t2 i = task_at s1 i" "dm_queue t2 = dm_queue s1" "length (dm_tasks t2) = length (dm_tasks s1)"
  proof -
    obtain t2 d where ct: "cancel_in_flight_for_hash s1 (Some h) = (t2, d)" by fastforce
    have s2: "dm_tasks s2 = dm_tasks t2 \<and> dm_queue s2 = dm_queue t2"
      using c canon ct remove_books [of t2 w False h] same_books_def
      by (auto simp: cancel_download_by_hash_def same_books_def split: if_splits)
    let ?m = "s1\<lparr>dm_queued := dm_queued s1 - {h}, dm_cancelled := insert h (dm_cancelled s1)\<rparr>"
    obtain X where t2: "t2 = (on_tasks ?hits task_cancel ?m)\<lparr>dm_active := X\<rparr>"
      using ct canon
      by (auto simp: cancel_in_flight_for_hash_def cancel_in_flight_hash_locked_def Let_def)
    have m: "dm_queue t2 = dm_queue s1" "length (dm_tasks t2) = length (dm_tasks s1)"
      unfolding t2 by simp_all
    have "task_at t2 i = task_at s1 i"
      unfolding t2 by (simp add: on_tasks_other [OF i])
    then show thesis using that s2 m by blast
  qed
  obtain t3 where t3: "same_books s2 t3" "j = length (dm_tasks t3)"
    "s3 = t3\<lparr>dm_cancelled := dm_cancelled t3 - {h}, dm_queued := insert h (dm_queued t3),
             dm_tasks := dm_tasks t3 @ [?new], dm_queue := dm_queue t3 @ [length (dm_tasks t3)]\<rparr>"
    by (rule enqueue_cases [OF known e2]) (use assms(8,9) in auto)
  have tk: "dm_tasks t3 = dm_tasks s2" using e2 known assms(9) enqueue_active(2) t3(3) by fastforce
  have j: "task_at s3 j = ?new" "j \<in> set (dm_queue s3)" using t3 by (simp_all add: task_at_def)
  have ij: "i < j" using t3(2) tk t2 s1i by simp
  then have ti: "task_at s3 i = ?new"
    using t3(2,3) tk t2 s1i by (simp add: task_at_def nth_append)
  have qi: "i \<in> set (dm_queue s3)" using t3 t2 s1i by (auto simp: same_books_def)
  have "task_key ?new = Some h" "\<not> t_cancelled ?new"
    using canon by (simp_all add: task_key_def new_task_def Let_def)
  then show ?thesis using ij qi j ti t3(3) by (simp add: task_dropped_def)
qed

section \<open>Examples\<close>

definition no_wiring :: "(unit, unit) wiring" where
  "no_wiring = \<lparr>w_client = None, w_db = None\<rparr>"

definition no_consolidation :: "('c, 'd) consolidator" where
  "no_consolidation cl d r a = (cl, d, None)"

lemma ab_hash:
  "resolve_download_hash None (Some ''AB12'') = Some ''ab12''"
  "canonicalize_infohash (Some ''ab12'') = Some ''ab12''"
  by code_simp+

lemma no_lookup [simp]: "lookup_live_torrent no_wiring s h = None"
  by (simp add: lookup_live_torrent_def no_wiring_def)

lemma first_request:
  "enqueue_download no_wiring (start_state () ()) 7 None (Some ''AB12'') None None =
     ((start_state () ())\<lparr>dm_queued := {''ab12''},
        dm_tasks := [new_task 7 None (Some ''ab12'') None None], dm_queue := [0]\<rparr>,
      \<lparr>started = True, skipped = False, reason = None, status_queue = Some 0\<rparr>)"
  using ab_hash
  by (simp add: enqueue_download_def Let_def clear_deleted_status_for_redownload_def
      duplicate_download_reason_def active_keys_def start_state_def no_wiring_def List.map_filter_simps
      lookup_live_torrent_def)


definition no_network :: fetching where
  "no_network = \<lparr>f_from_magnet = (\<lambda>_. Inr None), f_from_torrent = (\<lambda>_. Inl (ValueError [])),
     f_url_allowed = (\<lambda>_. False), f_get = (\<lambda>_. Inl (ValueError []))\<rparr>"


definition running_state :: "(live_row option list, store) dm" where
  "running_state = (start_state [Some (sample_row ''ab12'' ''downloading'')] empty_store)
     \<lparr>dm_tasks := [new_task 7 None (Some ''ab12'') None None]\<rparr>"

theorem started_download_is_indexed_witness:
  "\<exists>s'. run_prepared sample_wiring None no_consolidation (\<lambda>_. []) None 0 (Some sample_torrent) running_state
      = (s', Finishing 0 True)
    \<and> indexed (dm_db s') 7 ''ab12''"
proof -
  let ?r = "run_prepared sample_wiring None no_consolidation (\<lambda>_. []) None 0 (Some sample_torrent) running_state"
  have "snd ?r = Finishing 0 True" by code_simp
  then obtain s' where r: "?r = (s', Finishing 0 True)" by (cases ?r) simp
  have k: "keeps_index no_consolidation None" by (simp add: keeps_index_def no_consolidation_def)
  have "0 < length (dm_tasks running_state)" "t_anime (task_at running_state 0) = 7"
    "canonicalize_infohash (tr_hash sample_torrent) = Some ''ab12''"
    by (simp_all add: running_state_def task_at_def new_task_def Let_def, code_simp)
  then show ?thesis
    using started_download_is_indexed [OF seeding_list(2) k r] r by auto
qed

lemma cancel_unknown_hash_reports_success_witness:
  "snd (cancel_download_by_hash no_wiring (start_state () ()) (Some ''ab12''))"
proof -
  obtain s1 c1 where 1: "cancel_download_by_hash no_wiring (start_state () ()) (Some ''ab12'') = (s1, c1)" by fastforce
  obtain s2 c2 where 2: "cancel_download_by_hash no_wiring s1 (Some ''ab12'') = (s2, c2)" by fastforce
  have "''ab12'' \<notin> active_keys (start_state () ())" "dm_queued (start_state () ()) = {}"
    "dm_cancelled (start_state () ()) = {}"
    by (simp_all add: active_keys_def start_state_def List.map_filter_simps)
  then show ?thesis
    using cancel_unknown_hash_reports_success [OF ab_hash(2) _ _ _ _ 1 2] 1 by simp
qed

lemma cancelled_request_comes_back_witness:
  "let s1 = fst (enqueue_download no_wiring (start_state () ()) 7 None (Some ''AB12'') None None);
       s2 = fst (cancel_download_by_hash no_wiring s1 (Some ''ab12''));
       s3 = fst (enqueue_download no_wiring s2 7 None (Some ''AB12'') None None)
   in {0, 1} \<subseteq> set (dm_queue s3) \<and> \<not> task_dropped s3 0"
proof -
  let ?s1 = "(start_state () ())\<lparr>dm_queued := {''ab12''},
        dm_tasks := [new_task 7 None (Some ''ab12'') None None], dm_queue := [0]\<rparr>"
  let ?s2 = "?s1\<lparr>dm_queued := {}, dm_cancelled := {''ab12''}\<rparr>"
  have act: "active_keys s = {}" if "dm_active s = []" for s :: "(unit, unit) dm"
    using that by (simp add: active_keys_def List.map_filter_simps)
  have c: "cancel_download_by_hash no_wiring ?s1 (Some ''ab12'') = (?s2, True)"
    using cancel_none [OF ab_hash(2), of ?s1] act [of ?s1] ab_hash(2)
    by (simp add: cancel_download_by_hash_def start_state_def)
  have "\<exists>s3. enqueue_download no_wiring ?s2 7 None (Some ''AB12'') None None =
     (s3, \<lparr>started = True, skipped = False, reason = None, status_queue = Some 1\<rparr>)"
    using ab_hash act [of ?s2]
    by (simp add: enqueue_download_def Let_def clear_deleted_status_for_redownload_def
        duplicate_download_reason_def start_state_def no_wiring_def lookup_live_torrent_def)
  then obtain s3 where e2: "enqueue_download no_wiring ?s2 7 None (Some ''AB12'') None None =
     (s3, \<lparr>started = True, skipped = False, reason = None, status_queue = Some 1\<rparr>)" by blast
  have "\<forall>(b, j) \<in> set (dm_active (start_state () ())). j < length (dm_tasks (start_state () ()))"
    by (simp add: start_state_def)
  then have f: "{0, 1} \<subseteq> set (dm_queue s3) \<and> \<not> task_dropped s3 0"
    using cancelled_request_comes_back [OF ab_hash(1) _ first_request _ _ c e2, of 0 1] by simp
  show ?thesis
    unfolding Let_def first_request fst_conv c e2 by (rule f)
qed

end
