(* ===== verification/ReleaseTitles.thy ===== *)
theory ReleaseTitles
  imports Regex
begin

text \<open>
  Season markers in titles (\<open>shared/utils/title_season.py\<close>) and the release names of SubsPlease
  with their comparison to catalogue titles (\<open>adapters/search/subsplease.py\<close>), on Latin-1 text:
  the Roman numerals and dashes the patterns list beyond code point 255 cannot occur.
\<close>

section \<open>Season markers\<close>

definition season_sep :: rx where
  "season_sep = Rep 0 None (Cls (\<lambda>c. py_isspace c \<or> c = CHR ''.'' \<or> c = CHR ''_'' \<or> c = CHR ''-''))"

definition RE_SEASON_SXX :: rx where
  "RE_SEASON_SXX = rx_seq [WordB, rx_ichr CHR ''S'', Grp 1 (rx_digits 1 (Some 2)), WordB]"

definition RE_SEASON_WORD :: rx where
  "RE_SEASON_WORD =
     rx_seq [WordB, rx_istr ''Season'', season_sep, Grp 1 (rx_digits 1 (Some 2)), WordB]"

definition RE_SEASON_NTH :: rx where
  "RE_SEASON_NTH =
     rx_seq [WordB, Grp 1 (rx_digits 1 (Some 2)),
             rx_alt [rx_istr ''st'', rx_istr ''nd'', rx_istr ''rd'', rx_istr ''th''],
             season_sep, rx_istr ''Season'', WordB]"

definition ascii_letter :: "char \<Rightarrow> bool" where
  "ascii_letter c = (let n = (of_char c :: nat) in (65 \<le> n \<and> n \<le> 90) \<or> (97 \<le> n \<and> n \<le> 122))"

definition roman_letter :: "char \<Rightarrow> bool" where
  "roman_letter c = (c \<in> set ''IVXivx'')"

definition RE_SEASON_TRAILING_ROMAN :: rx where
  "RE_SEASON_TRAILING_ROMAN =
     rx_seq [NotBehind ascii_letter, Grp 1 (Rep 1 (Some 4) (Cls roman_letter)), rx_spaces, Eol]"

definition RE_SEASON_TRAILING_DIGIT :: rx where
  "RE_SEASON_TRAILING_DIGIT =
     rx_seq [NotBehind re_word, Grp 1 (rx_digits 1 (Some 2)), rx_spaces, Eol]"

definition ROMAN :: "(string \<times> int) list" where
  "ROMAN = [(''I'', 1), (''II'', 2), (''III'', 3), (''IV'', 4), (''V'', 5), (''VI'', 6),
            (''VII'', 7), (''VIII'', 8), (''IX'', 9), (''X'', 10)]"

definition roman_to_int :: "string \<Rightarrow> int option" where
  "roman_to_int token = map_of ROMAN (py_upper (py_strip token))"

text \<open>\<open>int(m.group(1))\<close> of a group of digits.\<close>

definition group_int :: "found \<Rightarrow> int" where
  "group_int m = (case parse_int (group m 1) of None \<Rightarrow> 0 | Some n \<Rightarrow> n)"

definition extract_title_season :: "string \<Rightarrow> int option" where
  "extract_title_season text =
     (let raw = py_strip text
      in if raw = [] then None
         else case rsearch RE_SEASON_SXX raw of
           Some m \<Rightarrow> Some (group_int m)
         | None \<Rightarrow>
        (case rsearch RE_SEASON_WORD raw of
           Some m \<Rightarrow> Some (group_int m)
         | None \<Rightarrow>
        (case rsearch RE_SEASON_NTH raw of
           Some m \<Rightarrow> Some (group_int m)
         | None \<Rightarrow>
        (let roman = (case rsearch RE_SEASON_TRAILING_ROMAN raw of
                        None \<Rightarrow> None
                      | Some m \<Rightarrow> (case roman_to_int (group m 1) of
                                     Some v \<Rightarrow> if v \<ge> 2 then Some v else None
                                   | None \<Rightarrow> None))
         in if roman \<noteq> None then roman
            else case rsearch RE_SEASON_TRAILING_DIGIT raw of
                   None \<Rightarrow> None
                 | Some m \<Rightarrow> if 2 \<le> group_int m \<and> group_int m \<le> 20 then Some (group_int m) else None))))"

text \<open>\<open>s.strip(chars)\<close>.\<close>

definition strip_chars :: "string \<Rightarrow> string \<Rightarrow> string" where
  "strip_chars cs s = rev (dropWhile (\<lambda>c. c \<in> set cs) (rev (dropWhile (\<lambda>c. c \<in> set cs) s)))"

definition strip_title_season :: "string \<Rightarrow> string" where
  "strip_title_season text =
     (let raw = py_strip text
      in if raw = [] then []
         else
         let c1 = rsub RE_SEASON_SXX '' '' raw;
             c2 = rsub RE_SEASON_WORD '' '' c1;
             c3 = rsub RE_SEASON_NTH '' '' c2;
             c4 = rsub RE_SEASON_TRAILING_ROMAN '' '' c3;
             c5 = (case rsearch RE_SEASON_TRAILING_DIGIT c4 of
                     None \<Rightarrow> c4
                   | Some m \<Rightarrow> if 2 \<le> group_int m \<and> group_int m \<le> 20
                               then f_before m @ '' '' @ f_after m else c4)
         in strip_chars '' -,;:'' (py_join '' '' (py_split c5)))"

fun best_season :: "int \<Rightarrow> string list \<Rightarrow> int" where
  "best_season best [] = best"
| "best_season best (term # terms) =
     best_season (case extract_title_season term of
                    Some season \<Rightarrow> if season > best then season else best
                  | None \<Rightarrow> best) terms"

definition expected_catalog_season :: "string list \<Rightarrow> int" where
  "expected_catalog_season search_terms = best_season 1 search_terms"

section \<open>SubsPlease release names\<close>

definition not_newline :: "char \<Rightarrow> bool" where
  "not_newline c = (c \<noteq> char_of (10::nat))"

definition some_spaces :: rx where
  "some_spaces = Rep 1 None (Cls py_isspace)"

definition subsplease_head :: "rx list" where
  "subsplease_head = [rx_spaces, rx_istr ''[SubsPlease]'', some_spaces, Grp 1 (Lazy not_newline)]"

definition EPISODE_TAIL :: rx where
  "EPISODE_TAIL =
     rx_seq (subsplease_head @
       [some_spaces, rx_chr CHR ''-'', some_spaces, Grp 2 (rx_digits 1 (Some 4)), some_spaces,
        rx_chr CHR ''('' ])"

definition BATCH_TAIL :: rx where
  "BATCH_TAIL =
     rx_seq (subsplease_head @
       [some_spaces, rx_chr CHR ''('',
        Grp 2 (rx_seq [rx_digits 1 (Some 4), rx_chr CHR ''-'', rx_digits 1 (Some 4)]),
        rx_chr CHR '')'', some_spaces, rx_chr CHR ''('' ])"

record SubsPleaseRelease =
  raw_name :: string
  show_title :: string
  sp_episode :: "int option"
  batch_range :: "(int \<times> int) option"

definition digits_int :: "string \<Rightarrow> int" where
  "digits_int s = (case parse_int s of None \<Rightarrow> 0 | Some n \<Rightarrow> n)"

definition parse_subsplease_release :: "string \<Rightarrow> SubsPleaseRelease option" where
  "parse_subsplease_release name =
     (if name = [] \<or> \<not> py_contains (py_lower name) ''subsplease'' then None
      else case rmatch_start EPISODE_TAIL name of
        Some m \<Rightarrow>
          Some \<lparr>raw_name = name, show_title = py_strip (group m 1),
                sp_episode = Some (digits_int (group m 2)), batch_range = None\<rparr>
      | None \<Rightarrow>
          (case rmatch_start BATCH_TAIL name of
             Some m \<Rightarrow>
               let start_s = takeWhile (\<lambda>c. c \<noteq> CHR ''-'') (group m 2);
                   end_s = tl (dropWhile (\<lambda>c. c \<noteq> CHR ''-'') (group m 2))
               in Some \<lparr>raw_name = name, show_title = py_strip (group m 1), sp_episode = None,
                        batch_range = Some (digits_int start_s, digits_int end_s)\<rparr>
           | None \<Rightarrow> None))"

text \<open>
  What is left of a character when it is decomposed (NFKD), its combining marks are dropped, it is
  lowered and everything but ASCII letters and digits is removed.
\<close>

definition match_key_char :: "char \<Rightarrow> string" where
  "match_key_char c =
     (let n = (of_char c :: nat)
      in if (48 \<le> n \<and> n \<le> 57) \<or> (97 \<le> n \<and> n \<le> 122) then [c]
         else if 65 \<le> n \<and> n \<le> 90 then [char_of (n + 32)]
         else if n = 170 \<or> (192 \<le> n \<and> n \<le> 197) \<or> (224 \<le> n \<and> n \<le> 229) then ''a''
         else if n = 199 \<or> n = 231 then ''c''
         else if (200 \<le> n \<and> n \<le> 203) \<or> (232 \<le> n \<and> n \<le> 235) then ''e''
         else if (204 \<le> n \<and> n \<le> 207) \<or> (236 \<le> n \<and> n \<le> 239) then ''i''
         else if n = 209 \<or> n = 241 then ''n''
         else if n = 186 \<or> (210 \<le> n \<and> n \<le> 214) \<or> (242 \<le> n \<and> n \<le> 246) then ''o''
         else if (217 \<le> n \<and> n \<le> 220) \<or> (249 \<le> n \<and> n \<le> 252) then ''u''
         else if n = 221 \<or> n = 253 \<or> n = 255 then ''y''
         else if n = 185 then ''1'' else if n = 178 then ''2'' else if n = 179 then ''3''
         else if n = 188 then ''14'' else if n = 189 then ''12'' else if n = 190 then ''34''
         else [])"

definition normalize_match_key :: "string \<Rightarrow> string" where
  "normalize_match_key text = concat (map match_key_char text)"

definition release_matches_catalog :: "string \<Rightarrow> string \<Rightarrow> bool" where
  "release_matches_catalog release catalog_title =
     (let cat_season = extract_title_season catalog_title;
          rel_season = (case extract_title_season release of
                          None \<Rightarrow> 1 | Some s \<Rightarrow> if s = 0 then 1 else s)
      in if cat_season \<noteq> None \<and> cat_season \<noteq> Some rel_season then False
         else
         let rel_base = strip_title_season release;
             cat_base = strip_title_season catalog_title;
             rel = normalize_match_key rel_base;
             cat = normalize_match_key cat_base
         in if length rel < 4 \<or> length cat < 4 then False
            else if rel = cat \<or> py_contains cat rel \<or> py_contains rel cat then True
            else
            let rel_words = take 4 (filter (\<lambda>w. length w \<ge> 4) (py_split (py_lower rel_base)));
                cat_lower = py_lower cat_base
            in length rel_words \<ge> 2
               \<and> length (filter (\<lambda>w. py_contains cat_lower w) rel_words) \<ge> 2)"

section \<open>Seasons lie between 0 and 99\<close>

lemma season_groups:
  "groups_hold (digit_run 2) RE_SEASON_SXX" "groups_hold (digit_run 2) RE_SEASON_WORD"
  "groups_hold (digit_run 2) RE_SEASON_NTH" "groups_hold (digit_run 2) RE_SEASON_TRAILING_DIGIT"
  using rx_digits_run [of 2 1]
  by (simp_all add: RE_SEASON_SXX_def RE_SEASON_WORD_def RE_SEASON_NTH_def season_sep_def
      RE_SEASON_TRAILING_DIGIT_def rx_ichr_def rx_spaces_def)

lemma group_int_bounds:
  assumes "groups_hold (digit_run 2) r" and "rsearch r str = Some m"
  shows "0 \<le> group_int m \<and> group_int m < 100"
  using group_number [OF assms, of 1] by (auto simp: group_int_def split: option.splits)

lemma roman_bounds: "roman_to_int t = Some v \<Longrightarrow> 1 \<le> v \<and> v \<le> 10"
proof -
  have "\<forall>p \<in> set ROMAN. 1 \<le> snd p \<and> snd p \<le> 10" by (simp add: ROMAN_def)
  then show "roman_to_int t = Some v \<Longrightarrow> 1 \<le> v \<and> v \<le> 10"
    unfolding roman_to_int_def by (force dest: map_of_SomeD)
qed

lemma extract_bounds: "extract_title_season str = Some n \<Longrightarrow> 0 \<le> n \<and> n < 100"
  using season_groups [THEN group_int_bounds] 
  by (fastforce simp: extract_title_season_def Let_def split: if_splits option.splits dest: roman_bounds)

lemma best_season_fold:
  "best_season best terms = fold max (List.map_filter extract_title_season terms) best"
  by (induction terms arbitrary: best)
    (auto simp: List.map_filter_simps max_def split: option.splits)

lemma expected_catalog_season_Max:
  "expected_catalog_season terms = Max (set (1 # List.map_filter extract_title_season terms))"
  by (simp only: expected_catalog_season_def best_season_fold Max.set_eq_fold)

lemma expected_catalog_season_bounds:
  "1 \<le> expected_catalog_season terms \<and> expected_catalog_season terms < 100"
  using extract_bounds
  by (auto simp: expected_catalog_season_Max Max_ge_iff List.map_filter_def)

end
