(* ===== verification/AutoMatching.thy ===== *)
theory AutoMatching
  imports ReleaseTitles
begin

text \<open>
  Preferences and candidates of the automatic download
  (\<open>application/services/auto_download_matching.py\<close>, \<open>adapters/feeds/rss_match.py\<close>).  Rows are
  dictionaries; \<open>parse_title\<close>, the title parser the composition injects, is an argument that
  returns its result as the dictionary \<open>as_dict\<close> gives, or the exception it raises.
\<close>

section \<open>Fields\<close>

record ReleasePreference =
  publisher :: string
  resolution :: string

definition parsed_as_dict :: "pyval \<Rightarrow> pydict" where
  "parsed_as_dict parsed = (case parsed of PDict d \<Rightarrow> d | _ \<Rightarrow> [])"

text \<open>\<open>str(value or "").strip()\<close>, and the same in lower case.\<close>

definition clean :: "pyval \<Rightarrow> string" where
  "clean v = py_strip (str_or_empty v)"

definition clean_lower :: "pyval \<Rightarrow> string" where
  "clean_lower v = py_lower (clean v)"

definition norm_publisher :: "pyval \<Rightarrow> string option" where
  "norm_publisher value = or_none (clean_lower value)"

definition norm_resolution :: "pyval \<Rightarrow> string option" where
  "norm_resolution value = or_none (clean_lower value)"

definition episode_kind :: "pyval \<Rightarrow> string" where
  "episode_kind value =
     (if value = PNone then ''none'' else py_lower (py_strip (py_str (py_or value (PStr ''none'')))))"

definition as_int :: "pyval \<Rightarrow> int option" where
  "as_int value = (if value = PNone \<or> value = PBool False then None else py_int value)"

type_synonym title_parser = "string \<Rightarrow> pyval res"

section \<open>What the library holds\<close>

text \<open>The name of a row that is not deleted, parsed.\<close>

definition live_parsed :: "title_parser \<Rightarrow> pydict \<Rightarrow> pydict option" where
  "live_parsed parse_title row =
     (if clean_lower (dget row ''status'') = ''deleted'' then None
      else let name = clean (dget row ''name'')
           in if name = [] then None
              else case parse_title name of
                     Inl _ \<Rightarrow> None
                   | Inr parsed \<Rightarrow> Some (parsed_as_dict parsed))"

definition vote :: "title_parser \<Rightarrow> pydict \<Rightarrow> (string \<times> string) option" where
  "vote parse_title row =
     (case live_parsed parse_title row of
        None \<Rightarrow> None
      | Some parsed \<Rightarrow>
          (case (norm_publisher (dget parsed ''publisher''), norm_resolution (dget parsed ''resolution'')) of
             (Some p, Some r) \<Rightarrow> Some (p, r)
           | _ \<Rightarrow> None))"

definition tally :: "'k \<Rightarrow> ('k \<times> nat) list \<Rightarrow> ('k \<times> nat) list" where
  "tally key votes =
     AList.update key (case map_of votes key of None \<Rightarrow> 1 | Some n \<Rightarrow> n + 1) votes"

definition infer_preference :: "title_parser \<Rightarrow> pydict list \<Rightarrow> ReleasePreference option" where
  "infer_preference parse_title torrent_rows =
     (let order = List.map_filter (vote parse_title) torrent_rows;
          votes = fold tally order []
      in if votes = [] then None
         else
         let best_count = Max (set (map snd votes));
             tied = map fst (filter (\<lambda>(key, count). count = best_count) votes);
             chosen = (if length tied = 1 then Some (hd tied)
                       else case filter (\<lambda>key. key \<in> set tied) order of
                              [] \<Rightarrow> None
                            | ks \<Rightarrow> Some (last ks))
         in map_option (\<lambda>(p, r). \<lparr>publisher = p, resolution = r\<rparr>) chosen)"

definition row_episode :: "title_parser \<Rightarrow> pydict \<Rightarrow> int option" where
  "row_episode parse_title row =
     (case live_parsed parse_title row of
        None \<Rightarrow> None
      | Some parsed \<Rightarrow>
          if py_truthy (dget parsed ''is_batch'') then None
          else if episode_kind (dget parsed ''episode_kind'') \<noteq> ''single'' then None
          else case as_int (dget parsed ''episode'') of
                 Some e \<Rightarrow> if e > 0 then Some e else None
               | None \<Rightarrow> None)"

definition owned_episodes_from_torrents :: "title_parser \<Rightarrow> pydict list \<Rightarrow> int set" where
  "owned_episodes_from_torrents parse_title torrent_rows =
     set (List.map_filter (row_episode parse_title) torrent_rows)"

definition file_episode :: "pydict \<Rightarrow> int option" where
  "file_episode row =
     (case (case as_int (dget row ''episode'') of
              None \<Rightarrow> as_int (dget row ''ep'') | Some e \<Rightarrow> Some e) of
        Some e \<Rightarrow> if e > 0 then Some e else None
      | None \<Rightarrow> None)"

definition owned_episodes_from_files :: "pydict list \<Rightarrow> int set" where
  "owned_episodes_from_files episode_files = set (List.map_filter file_episode episode_files)"

definition next_episode :: "int set \<Rightarrow> int option" where
  "next_episode owned =
     (let numbers = {n \<in> owned. n > 0}
      in if numbers = {} then Some 1 else Some (Max numbers + 1))"

definition row_infohash :: "pydict \<Rightarrow> string" where
  "row_infohash row =
     (if clean_lower (dget row ''status'') = ''deleted'' then []
      else clean_lower (py_or (dget row ''hash'') (dget row ''infohash'')))"

definition indexed_hashes :: "pydict list \<Rightarrow> string set" where
  "indexed_hashes torrent_rows = set (filter (\<lambda>h. h \<noteq> []) (map row_infohash torrent_rows))"

section \<open>The best candidate of a search\<close>

definition candidate_matches ::
  "ReleasePreference \<Rightarrow> int \<Rightarrow> string set \<Rightarrow> int option \<Rightarrow> pydict \<Rightarrow> bool" where
  "candidate_matches preference episode excluded expected_season row =
     (let hash_value = clean_lower (py_or (dget row ''infohash'') (dget row ''hash''));
          parsed = parsed_as_dict (dget row ''parsed'')
      in \<not> (hash_value \<noteq> [] \<and> hash_value \<in> excluded)
         \<and> \<not> (parsed = [] \<and> py_truthy (dget row ''name''))
         \<and> \<not> py_truthy (dget parsed ''is_batch'')
         \<and> episode_kind (dget parsed ''episode_kind'') = ''single''
         \<and> as_int (dget parsed ''episode'') = Some episode
         \<and> (case expected_season of
              None \<Rightarrow> True
            | Some season \<Rightarrow>
                (case as_int (dget parsed ''season'') of
                   None \<Rightarrow> 1 | Some s \<Rightarrow> if s = 0 then 1 else s) = season)
         \<and> norm_publisher (dget parsed ''publisher'') = Some (publisher preference)
         \<and> norm_resolution (dget parsed ''resolution'') = Some (resolution preference))"

definition candidate_seeds :: "pydict \<Rightarrow> int" where
  "candidate_seeds row =
     (case py_int (py_or (dget row ''seeds'') (PInt 0)) of None \<Rightarrow> 0 | Some n \<Rightarrow> n)"

fun best_candidate :: "(pydict \<Rightarrow> bool) \<Rightarrow> pyval list \<Rightarrow> pydict option \<Rightarrow> int \<Rightarrow> pydict option" where
  "best_candidate P [] best best_seeds = best"
| "best_candidate P (PDict row # rows) best best_seeds =
     (if P row \<and> (best = None \<or> candidate_seeds row > best_seeds)
      then best_candidate P rows (Some row) (candidate_seeds row)
      else best_candidate P rows best best_seeds)"
| "best_candidate P (_ # rows) best best_seeds = best_candidate P rows best best_seeds"

definition find_matching_candidate ::
  "pyval list \<Rightarrow> ReleasePreference \<Rightarrow> int \<Rightarrow> string set \<Rightarrow> int option \<Rightarrow> pydict option" where
  "find_matching_candidate search_results preference episode exclude_hashes expected_season =
     best_candidate
       (candidate_matches preference episode (py_lower ` (exclude_hashes - {[]})) expected_season)
       search_results None (-1)"

section \<open>Feed entries\<close>

record RssFeedEntry =
  feed_id :: string
  item_key :: string
  title :: string
  link :: string
  enclosure_url :: "string option"

definition download_url :: "RssFeedEntry \<Rightarrow> string option" where
  "download_url entry =
     (let enclosure = py_strip (or_empty (enclosure_url entry))
      in if enclosure \<noteq> [] then Some enclosure else or_none (py_strip (link entry)))"

definition entry_matches_anime :: "RssFeedEntry \<Rightarrow> string list \<Rightarrow> bool" where
  "entry_matches_anime entry search_terms =
     (let name = py_strip (title entry);
          terms = filter (\<lambda>t. t \<noteq> []) (map py_strip search_terms)
      in if name = [] \<or> terms = [] then False
         else
         let show_name = (case parse_subsplease_release name of None \<Rightarrow> name | Some sp \<Rightarrow> show_title sp);
             release_season = (case extract_title_season show_name of
                                 None \<Rightarrow> 1 | Some s \<Rightarrow> if s = 0 then 1 else s)
         in release_season = expected_catalog_season terms
            \<and> list_ex (\<lambda>term. release_matches_catalog show_name term
                            \<or> release_matches_catalog name term) terms)"

definition entry_matches_preference ::
  "title_parser \<Rightarrow> RssFeedEntry \<Rightarrow> ReleasePreference \<Rightarrow> int \<Rightarrow> bool" where
  "entry_matches_preference parse_title entry preference episode =
     (let name = py_strip (title entry); sp = parse_subsplease_release name;
          sp_ep = (case sp of None \<Rightarrow> None | Some r \<Rightarrow> sp_episode r)
      in if name = [] then False
         else if (case sp of None \<Rightarrow> False | Some r \<Rightarrow> batch_range r \<noteq> None) then False
         else if sp_ep \<noteq> None \<and> sp_ep \<noteq> Some episode then False
         else
         let parsed = (case parse_title name of Inl _ \<Rightarrow> [] | Inr v \<Rightarrow> parsed_as_dict v);
             pub = (case norm_publisher (dget parsed ''publisher'') of
                      None \<Rightarrow> if sp \<noteq> None then Some ''subsplease'' else None
                    | Some p \<Rightarrow> Some p);
             ep_i = (if sp_ep \<noteq> None then sp_ep
                     else if dget parsed ''episode'' = PNone then None else py_int (dget parsed ''episode''))
         in pub = Some (publisher preference)
            \<and> norm_resolution (dget parsed ''resolution'') = Some (resolution preference)
            \<and> \<not> py_truthy (dget parsed ''is_batch'')
            \<and> ep_i = Some episode)"

definition rss_candidate :: "RssFeedEntry \<Rightarrow> string \<Rightarrow> pydict" where
  "rss_candidate entry url =
     [(''name'', PStr (title entry)), (''link'', PStr url), (''url'', PStr url),
      (''magnet'', if py_startswith (py_lower url) ''magnet:'' then PStr url else PNone),
      (''infohash'', PNone), (''feed_id'', PStr (feed_id entry)), (''item_key'', PStr (item_key entry)),
      (''source'', PStr ''rss'')]"

fun find_rss_candidate ::
  "title_parser \<Rightarrow> RssFeedEntry list \<Rightarrow> string list \<Rightarrow> ReleasePreference \<Rightarrow> int \<Rightarrow>
   (string \<times> string) set \<Rightarrow> pydict option" where
  "find_rss_candidate parse_title [] search_terms preference episode seen = None"
| "find_rss_candidate parse_title (entry # entries) search_terms preference episode seen =
     (if (feed_id entry, item_key entry) \<notin> seen
         \<and> entry_matches_anime entry search_terms
         \<and> entry_matches_preference parse_title entry preference episode
      then case download_url entry of
             Some url \<Rightarrow> Some (rss_candidate entry url)
           | None \<Rightarrow> find_rss_candidate parse_title entries search_terms preference episode seen
      else find_rss_candidate parse_title entries search_terms preference episode seen)"

section \<open>The best candidate is the first with the most seeds\<close>

definition dict_rows :: "pyval list \<Rightarrow> pydict list" where
  "dict_rows rows = List.map_filter (\<lambda>v. case v of PDict d \<Rightarrow> Some d | _ \<Rightarrow> None) rows"

abbreviation better :: "('a \<Rightarrow> int) \<Rightarrow> 'a \<Rightarrow> 'a \<Rightarrow> 'a" where
  "better f x y \<equiv> (if f y > f x then y else x)"

lemma foldl_better:
  "\<exists>before after. b # xs = before @ foldl (better f) b xs # after
     \<and> (\<forall>x \<in> set before. f x < f (foldl (better f) b xs))
     \<and> (\<forall>x \<in> set after. f x \<le> f (foldl (better f) b xs))"
proof (induction xs rule: rev_induct)
  case (snoc y xs)
  let ?r = "foldl (better f) b xs"
  from snoc obtain bef aft where s: "b # xs = bef @ ?r # aft"
    "\<forall>x \<in> set bef. f x < f ?r" "\<forall>x \<in> set aft. f x \<le> f ?r" by blast
  show ?case
  proof (cases "f y > f ?r")
    case True
    have "\<forall>x \<in> set (b # xs). f x < f y" unfolding s(1) using s(2,3) True by auto
    then show ?thesis using True by (intro exI [of _ "b # xs"] exI [of _ "[]"]) simp
  next
    case False
    then show ?thesis using s by (intro exI [of _ bef] exI [of _ "aft @ [y]"]) (auto simp flip: s(1))
  qed
next
  case Nil
  show ?case by (intro exI [of _ "[]"]) simp
qed

lemma best_candidate_some:
  "best_candidate P rows (Some b) (candidate_seeds b) =
     Some (foldl (better candidate_seeds) b (filter P (dict_rows rows)))"
proof (induction rows arbitrary: b)
  case (Cons v rows)
  then show ?case by (cases v) (simp_all add: dict_rows_def List.map_filter_simps)
qed (simp add: dict_rows_def List.map_filter_simps)

lemma best_candidate_none:
  "best_candidate P rows None n =
     (case filter P (dict_rows rows) of
        [] \<Rightarrow> None | b # xs \<Rightarrow> Some (foldl (better candidate_seeds) b xs))"
proof (induction rows)
  case (Cons v rows)
  then show ?case
    by (cases v) (simp_all add: dict_rows_def List.map_filter_simps best_candidate_some)
qed (simp add: dict_rows_def List.map_filter_simps)

section \<open>The preference is the latest of the most frequent votes\<close>

abbreviation votes_for :: "('k \<times> nat) list \<Rightarrow> 'k \<Rightarrow> nat" where
  "votes_for votes k \<equiv> (case map_of votes k of None \<Rightarrow> 0 | Some n \<Rightarrow> n)"

lemma tally_counts:
  "votes_for (fold tally order votes) k = votes_for votes k + count_list order k
   \<and> fst ` set (fold tally order votes) = fst ` set votes \<union> set order"
proof (induction order arbitrary: votes)
  case (Cons x xs)
  have "votes_for (tally x votes) k = votes_for votes k + (if x = k then 1 else 0)"
    by (simp add: tally_def update_conv' split: option.splits)
  moreover have "fst ` set (tally x votes) = insert x (fst ` set votes)"
    by (simp add: tally_def dom_update)
  ultimately show ?case using Cons.IH [of "tally x votes"] by simp
qed simp

lemma tally_distinct: "distinct (map fst votes) \<Longrightarrow> distinct (map fst (fold tally order votes))"
  by (induction order arbitrary: votes) (simp_all add: tally_def distinct_update)

lemma tally_set: "set (fold tally order []) = (\<lambda>k. (k, count_list order k)) ` set order"
proof -
  let ?v = "fold tally order []"
  have keys: "fst ` set ?v = set order" using tally_counts [of order "[]"] by simp
  have d: "distinct (map fst ?v)" by (rule tally_distinct) simp
  have val: "n = count_list order k" if "(k, n) \<in> set ?v" for k n
    using map_of_is_SomeI [OF d that] tally_counts [of order "[]" k] by simp
  show ?thesis
  proof (rule set_eqI, clarify)
    fix k n
    show "(k, n) \<in> set ?v \<longleftrightarrow> (k, n) \<in> (\<lambda>k. (k, count_list order k)) ` set order"
      using val keys by (force simp: image_iff)
  qed
qed

lemma last_filter_split:
  "filter P xs \<noteq> [] \<Longrightarrow>
   \<exists>earlier later. xs = earlier @ last (filter P xs) # later \<and> (\<forall>y \<in> set later. \<not> P y)"
proof (induction xs rule: rev_induct)
  case (snoc x xs)
  show ?case
  proof (cases "P x")
    case True
    then show ?thesis by (intro exI [of _ xs] exI [of _ "[]"]) simp
  next
    case False
    then obtain a b where "xs = a @ last (filter P xs) # b" "\<forall>y \<in> set b. \<not> P y"
      using snoc by auto
    then have "xs @ [x] = a @ last (filter P (xs @ [x])) # b @ [x] \<and> (\<forall>y \<in> set (b @ [x]). \<not> P y)"
      using False by simp
    then show ?thesis by blast
  qed
qed simp

text \<open>The choice of \<open>infer_preference\<close> without its special case for a single winner.\<close>

lemma infer_preference_alt:
  fixes parse_title :: title_parser and rows :: "pydict list"
  defines "order \<equiv> List.map_filter (vote parse_title) rows"
  defines "most \<equiv> Max (count_list order ` set order)"
  shows "infer_preference parse_title rows =
    (if order = [] then None
     else Some (let c = last (filter (\<lambda>k. count_list order k = most) order)
                in \<lparr>publisher = fst c, resolution = snd c\<rparr>))"
    and "order \<noteq> [] \<Longrightarrow> filter (\<lambda>k. count_list order k = most) order \<noteq> []"
proof -
  let ?v = "fold tally order []"
  have set_v: "set ?v = (\<lambda>k. (k, count_list order k)) ` set order" by (rule tally_set)
  have most: "Max (set (map snd ?v)) = most" by (simp add: set_v image_image most_def)
  let ?tied = "map fst (filter (\<lambda>(key, count). count = most) ?v)"
  have tied: "set ?tied = {k \<in> set order. count_list order k = most}" by (force simp: set_v image_iff)
  let ?f = "filter (\<lambda>k. count_list order k = most) order"
  have f: "filter (\<lambda>key. key \<in> set ?tied) order = ?f"
    unfolding tied by (rule filter_cong) auto
  have ne: "?f \<noteq> []" if "order \<noteq> []"
  proof -
    have "most \<in> count_list order ` set order" unfolding most_def using that by (intro Max_in) simp_all
    then show ?thesis by (auto simp: filter_empty_conv)
  qed
  then show "order \<noteq> [] \<Longrightarrow> ?f \<noteq> []" .
  have v: "?v = [] \<longleftrightarrow> order = []" 
    by (simp only: set_empty [symmetric] set_v image_is_empty)
  have one: "hd ?tied = last ?f" if n: "order \<noteq> []" and l: "length ?tied = 1"
  proof -
    obtain k where k: "?tied = [k]" using l by (cases ?tied) auto
    have "last ?f \<in> set ?f" by (rule last_in_set [OF ne [OF n]])
    then have "last ?f \<in> set ?tied" unfolding tied set_filter .
    then show ?thesis by (simp add: k)
  qed
  show "infer_preference parse_title rows =
    (if order = [] then None
     else Some (let c = last ?f in \<lparr>publisher = fst c, resolution = snd c\<rparr>))"
    unfolding infer_preference_def Let_def order_def [symmetric] most v f
    using one ne by (auto simp: case_prod_beta split: list.splits)
qed

text \<open>
  The preference inferred for an anime is the most frequent publisher and resolution among its
  torrents that are not deleted; of several equally frequent ones it is the one voted for last.
  There is none only when no torrent votes.
\<close>

lemma preference_is_latest_majority:
  "case infer_preference parse_title rows of
     None \<Rightarrow> List.map_filter (vote parse_title) rows = []
   | Some p \<Rightarrow>
       (let votes = List.map_filter (vote parse_title) rows; c = (publisher p, resolution p)
        in (\<forall>q. count_list votes q \<le> count_list votes c)
           \<and> (\<exists>earlier later. votes = earlier @ c # later
                \<and> (\<forall>q \<in> set later. count_list votes q < count_list votes c)))"
proof -
  define order where "order = List.map_filter (vote parse_title) rows"
  define most where "most = Max (count_list order ` set order)"
  note alt = infer_preference_alt [of parse_title rows, folded order_def, folded most_def]
  show ?thesis
  proof (cases "order = []")
    case False
    let ?f = "filter (\<lambda>k. count_list order k = most) order"
    let ?c = "last ?f"
    have le: "count_list order q \<le> most" if "q \<in> set order" for q
      unfolding most_def using that by (intro Max_ge) simp_all
    have "?c \<in> set ?f" by (rule last_in_set [OF alt(2) [OF False]])
    then have c: "count_list order ?c = most" by simp
    have all: "count_list order q \<le> most" for q using le [of q] by (cases "q \<in> set order") simp_all
    obtain a b where split: "order = a @ ?c # b" "\<forall>q \<in> set b. count_list order q \<noteq> most"
      using last_filter_split [OF alt(2) [OF False]] by blast
    have "\<forall>q \<in> set b. count_list order q < count_list order ?c"
      using split(2) all c by (metis le_neq_implies_less)
    then show ?thesis
      unfolding order_def [symmetric] alt(1) using False split(1) all c by (auto simp: Let_def)
  qed (simp add: alt(1) order_def [symmetric])
qed


section \<open>Feed entries are taken once\<close>

lemma find_rss_candidate_fresh:
  "find_rss_candidate parse_title entries search_terms preference episode seen = Some c \<Longrightarrow>
   \<exists>entry \<in> set entries. \<exists>url. c = rss_candidate entry url \<and> url \<noteq> []
     \<and> (feed_id entry, item_key entry) \<notin> seen
     \<and> entry_matches_anime entry search_terms
     \<and> entry_matches_preference parse_title entry preference episode"
  by (induction entries) (auto simp: download_url_def Let_def split: if_splits option.splits)

lemma rss_candidate_fields [simp]:
  "dget (rss_candidate e url) ''url'' = PStr url"
  "dget (rss_candidate e url) ''link'' = PStr url"
  "dget (rss_candidate e url) ''source'' = PStr ''rss''"
  "dget (rss_candidate e url) ''feed_id'' = PStr (feed_id e)"
  "dget (rss_candidate e url) ''item_key'' = PStr (item_key e)"
  by (simp_all add: rss_candidate_def dget_def)

section \<open>Examples\<close>

text \<open>A title parser that knows two release groups.\<close>

definition sample_parser :: title_parser where
  "sample_parser name =
     (if py_startswith name ''[A]'' then Inr (PDict [(''publisher'', PStr ''A''), (''resolution'', PStr ''720p'')])
      else if py_startswith name ''[B]'' then Inr (PDict [(''publisher'', PStr ''B''), (''resolution'', PStr ''1080p'')])
      else Inl (ValueError name))"

definition sample_library :: "pydict list" where
  "sample_library =
     [[(''name'', PStr ''[A] Show - 01'')], [(''name'', PStr ''[B] Show - 01'')],
      [(''name'', PStr ''Show - 02'')], [(''name'', PStr ''[A] Show - 02''), (''status'', PStr ''deleted'')]]"

lemma preference_is_latest_majority_witness:
  "infer_preference sample_parser sample_library = Some \<lparr>publisher = ''b'', resolution = ''1080p''\<rparr>
   \<and> (\<forall>q. count_list (List.map_filter (vote sample_parser) sample_library) q \<le> 1)"
proof -
  have i: "infer_preference sample_parser sample_library = Some \<lparr>publisher = ''b'', resolution = ''1080p''\<rparr>"
    by code_simp
  have "count_list (List.map_filter (vote sample_parser) sample_library) (''b'', ''1080p'') = 1"
    by code_simp
  then show ?thesis
    using preference_is_latest_majority [of sample_parser sample_library] i by (simp add: Let_def)
qed

definition sample_result :: "int \<Rightarrow> int \<Rightarrow> pyval" where
  "sample_result episode seeds =
     PDict [(''name'', PStr ''[A] Show''), (''seeds'', PInt seeds),
            (''parsed'', PDict [(''publisher'', PStr ''A''), (''resolution'', PStr ''720p''),
               (''episode_kind'', PStr ''single''), (''episode'', PInt episode)])]"


end
