(* ===== verification/AutoPrefs.thy ===== *)
theory AutoPrefs
  imports AutoMatching
begin

text \<open>
  The effective preferences of the automatic download and the feeds it reads
  (\<open>application/services/auto_download_prefs.py\<close>).  Settings and stored rows are dynamically
  typed values; \<open>json_loads\<close>, the standard JSON reader, is an argument.
\<close>

definition SOURCE_MODES :: "string list" where
  "SOURCE_MODES = [''search'', ''rss'']"

definition DEFAULT_SOURCE_MODE :: string where
  "DEFAULT_SOURCE_MODE = ''rss''"

definition DEFAULT_RESOLUTION :: string where
  "DEFAULT_RESOLUTION = ''720p''"

definition DEFAULT_BUILTIN_FEEDS :: "pydict list" where
  "DEFAULT_BUILTIN_FEEDS =
     [[(''id'', PStr ''subsplease-720''), (''label'', PStr ''SubsPlease 720p''),
       (''url'', PStr ''https://subsplease.org/rss/?r=720''), (''enabled'', PBool True),
       (''builtin'', PBool True)],
      [(''id'', PStr ''subsplease-1080''), (''label'', PStr ''SubsPlease 1080p''),
       (''url'', PStr ''https://subsplease.org/rss/?r=1080''), (''enabled'', PBool False),
       (''builtin'', PBool True)]]"

definition norm_text :: "pyval \<Rightarrow> string option" where
  "norm_text value = or_none (clean value)"

definition norm_mode :: "pyval \<Rightarrow> string" where
  "norm_mode value =
     (let mode = py_lower (py_strip (py_str (py_or value (PStr DEFAULT_SOURCE_MODE))))
      in if mode \<in> set SOURCE_MODES then mode else DEFAULT_SOURCE_MODE)"

definition clean_list :: "pyval list \<Rightarrow> string list" where
  "clean_list xs = filter (\<lambda>t. t \<noteq> []) (map (\<lambda>x. py_strip (py_str x)) xs)"

definition parse_feed_ids :: "(string \<Rightarrow> pyval option) \<Rightarrow> pyval \<Rightarrow> string list" where
  "parse_feed_ids json_loads raw =
     (case raw of
        PList xs \<Rightarrow> clean_list xs
      | PStr s \<Rightarrow>
          (let text = py_strip s
           in if text = [] then []
              else case json_loads text of
                     None \<Rightarrow> filter (\<lambda>t. t \<noteq> []) (map py_strip (py_split_on CHR '','' text))
                   | Some (PList xs) \<Rightarrow> clean_list xs
                   | Some _ \<Rightarrow> [])
      | _ \<Rightarrow> [])"

text \<open>\<open>d.get(key) or {}\<close> when that is a dictionary, else an empty one.\<close>

definition sub_dict :: "pyval \<Rightarrow> string \<Rightarrow> pydict" where
  "sub_dict v key = (case v of PDict d \<Rightarrow> (case dget d key of PDict e \<Rightarrow> e | _ \<Rightarrow> []) | _ \<Rightarrow> [])"

text \<open>\<open>bool(d.get(key, default))\<close>.\<close>

definition flag :: "pydict \<Rightarrow> string \<Rightarrow> bool \<Rightarrow> bool" where
  "flag d key fallback = (case map_of d key of None \<Rightarrow> fallback | Some v \<Rightarrow> py_truthy v)"

definition text_val :: "string option \<Rightarrow> pyval" where
  "text_val t = (case t of None \<Rightarrow> PNone | Some s \<Rightarrow> PStr s)"

definition prefs_dict :: "string \<Rightarrow> string option \<Rightarrow> string \<Rightarrow> string list \<Rightarrow> bool \<Rightarrow> pydict" where
  "prefs_dict mode pub res feeds inferred =
     [(''source_mode'', PStr mode), (''publisher'', text_val pub), (''resolution'', PStr res),
      (''feed_ids'', PList (map PStr feeds)), (''use_inferred'', PBool inferred)]"

definition default_mode :: "pyval \<Rightarrow> string" where
  "default_mode settings = norm_mode (dget (sub_dict settings ''auto_download'') ''default_source_mode'')"

definition default_resolution :: "pyval \<Rightarrow> string" where
  "default_resolution settings =
     (case norm_text (dget (sub_dict settings ''auto_download'') ''default_resolution'') of
        None \<Rightarrow> py_lower DEFAULT_RESOLUTION | Some r \<Rightarrow> py_lower r)"

definition default_prefs_dict :: "pyval \<Rightarrow> pydict" where
  "default_prefs_dict settings =
     prefs_dict (default_mode settings) None (default_resolution settings) [] True"

definition normalize_prefs_row :: "(string \<Rightarrow> pyval option) \<Rightarrow> pyval \<Rightarrow> pyval \<Rightarrow> pydict" where
  "normalize_prefs_row json_loads row settings =
     (case row of
        PDict d \<Rightarrow>
          prefs_dict
            (norm_mode (py_or (dget d ''source_mode'') (PStr (default_mode settings))))
            (map_option py_lower (norm_text (dget d ''publisher'')))
            (case norm_text (dget d ''resolution'') of
               None \<Rightarrow> default_resolution settings | Some r \<Rightarrow> py_lower r)
            (parse_feed_ids json_loads (dget d ''feed_ids''))
            (if dget d ''use_inferred'' = PNone then True else py_truthy (dget d ''use_inferred''))
      | _ \<Rightarrow> default_prefs_dict settings)"

text \<open>The first of the configured top publishers; a text is a sequence of its characters.\<close>

definition top_publisher :: "pyval \<Rightarrow> string option" where
  "top_publisher settings =
     (case dget (sub_dict settings ''anime'') ''topPublishers'' of
        PList (x # _) \<Rightarrow> norm_text x
      | PStr (c # _) \<Rightarrow> norm_text (PStr [c])
      | _ \<Rightarrow> None)"

definition resolve_release_preference ::
  "pydict \<Rightarrow> ReleasePreference option \<Rightarrow> pyval \<Rightarrow> ReleasePreference option" where
  "resolve_release_preference prefs inferred settings =
     (let pub = norm_text (dget prefs ''publisher'');
          res = norm_text (dget prefs ''resolution'');
          (pub1, res1) = (case inferred of
             Some i \<Rightarrow> if flag prefs ''use_inferred'' True
                       then (if pub = None then Some (publisher i) else pub,
                             if res = None then Some (resolution i) else res)
                       else (pub, res)
           | None \<Rightarrow> (pub, res));
          pub2 = (if or_empty pub1 = [] then top_publisher settings else pub1);
          res2 = (if or_empty res1 = [] then Some (default_resolution settings) else res1)
      in if or_empty pub2 = [] \<or> or_empty res2 = [] then None
         else Some \<lparr>publisher = py_lower (or_empty pub2), resolution = py_lower (or_empty res2)\<rparr>)"

definition feed_row :: "string \<Rightarrow> pyval \<Rightarrow> pydict option" where
  "feed_row key v =
     (case v of
        PDict row \<Rightarrow>
          (case (norm_text (dget row ''id''), norm_text (dget row ''url'')) of
             (Some fid, Some url) \<Rightarrow>
               Some [(''id'', PStr fid),
                     (''label'', PStr (case norm_text (dget row ''label'') of None \<Rightarrow> fid | Some l \<Rightarrow> l)),
                     (''url'', PStr url), (''enabled'', PBool (flag row ''enabled'' True)),
                     (''builtin'', PBool (key = ''builtin''))]
           | _ \<Rightarrow> None)
      | _ \<Rightarrow> None)"

definition list_configured_feeds :: "pyval \<Rightarrow> pydict list" where
  "list_configured_feeds settings =
     (let feeds_cfg = (case dget (sub_dict settings ''auto_download'') ''feeds'' of
                         PDict d \<Rightarrow> d | _ \<Rightarrow> []);
          rows = (\<lambda>key. case dget feeds_cfg key of
                          PList xs \<Rightarrow> List.map_filter (feed_row key) xs | _ \<Rightarrow> []);
          out = rows ''builtin'' @ rows ''custom'';
          builtin = (\<lambda>f. py_truthy (dget f ''builtin''))
      in if list_ex builtin out then out
         else DEFAULT_BUILTIN_FEEDS @ filter (\<lambda>f. \<not> builtin f) out)"

definition select_feeds_for_anime :: "pyval \<Rightarrow> pyval list \<Rightarrow> pydict list" where
  "select_feeds_for_anime settings feed_ids =
     (let enabled = filter (\<lambda>f. py_truthy (dget f ''enabled'')) (list_configured_feeds settings);
          wanted = clean_list feed_ids
      in if wanted = [] then enabled
         else filter (\<lambda>f. dget f ''id'' \<in> PStr ` set wanted) enabled)"

section \<open>Normalised preferences\<close>

lemma clean_list_PStr: "clean_list (map PStr xs) = filter (\<lambda>t. t \<noteq> []) (map py_strip xs)"
  by (simp add: clean_list_def py_str_def comp_def)

lemma clean_list_stripped:
  "set xs \<subseteq> {t. t \<noteq> [] \<and> py_strip t = t} \<Longrightarrow> clean_list (map PStr xs) = xs"
  by (induction xs) (auto simp: clean_list_def py_str_def)

lemma parse_feed_ids_stripped: "set (parse_feed_ids json_loads v) \<subseteq> {t. t \<noteq> [] \<and> py_strip t = t}"
  by (auto simp: parse_feed_ids_def clean_list_def Let_def split: pyval.splits option.splits)

lemma norm_mode_valid: "norm_mode v \<in> {''search'', ''rss''}"
  by (auto simp: norm_mode_def SOURCE_MODES_def DEFAULT_SOURCE_MODE_def Let_def)

lemma norm_mode_fixed: "norm_mode (py_or (PStr (norm_mode v)) w) = norm_mode v"
  using norm_mode_valid [of v] by (elim insertE; simp add: py_or_def) code_simp+

lemma py_lower_Nil: "py_lower t = [] \<longleftrightarrow> t = []"
  by (simp add: py_lower_def)

lemma norm_text_lowered:
  assumes "norm_text v = Some t"
  shows "norm_text (PStr (py_lower t)) = Some (py_lower t)"
  using assms by (auto simp: norm_text_def clean_def py_strip_lower py_lower_Nil)

lemma default_resolution_text:
  "norm_text (PStr (default_resolution settings)) = Some (default_resolution settings)
   \<and> py_lower (default_resolution settings) = default_resolution settings"
proof (cases "norm_text (dget (sub_dict settings ''auto_download'') ''default_resolution'')")
  case None
  have "norm_text (PStr (py_lower DEFAULT_RESOLUTION)) = Some (py_lower DEFAULT_RESOLUTION)" by code_simp
  then show ?thesis by (simp add: default_resolution_def None)
next
  case (Some r)
  then show ?thesis using norm_text_lowered [OF Some] by (simp add: default_resolution_def)
qed

lemma prefs_dict_simps [simp]:
  "dget (prefs_dict m p r f i) ''source_mode'' = PStr m"
  "dget (prefs_dict m p r f i) ''publisher'' = text_val p"
  "dget (prefs_dict m p r f i) ''resolution'' = PStr r"
  "dget (prefs_dict m p r f i) ''feed_ids'' = PList (map PStr f)"
  "dget (prefs_dict m p r f i) ''use_inferred'' = PBool i"
  by (simp_all add: prefs_dict_def dget_def)

text \<open>Rows in normal form, and that normalising leaves them alone.\<close>

definition lower_text :: "string \<Rightarrow> bool" where
  "lower_text t \<longleftrightarrow> norm_text (PStr t) = Some t \<and> py_lower t = t"

definition normal_prefs :: "pydict \<Rightarrow> bool" where
  "normal_prefs d \<longleftrightarrow>
     (\<exists>m p r f i. d = prefs_dict m p r f i \<and> m \<in> {''search'', ''rss''}
        \<and> (\<forall>t. p = Some t \<longrightarrow> lower_text t) \<and> lower_text r
        \<and> set f \<subseteq> {t. t \<noteq> [] \<and> py_strip t = t})"

lemma normalize_normal: "normal_prefs (normalize_prefs_row json_loads row settings)"
proof -
  have res: "lower_text (default_resolution settings)"
    using default_resolution_text by (simp add: lower_text_def)
  have low: "norm_text v = Some t \<Longrightarrow> lower_text (py_lower t)" for v t
    using norm_text_lowered by (simp add: lower_text_def)
  have "normal_prefs (default_prefs_dict settings)"
    unfolding normal_prefs_def default_prefs_dict_def default_mode_def
    by (intro exI conjI, rule refl) (use res norm_mode_valid in auto)
  moreover have "normal_prefs (prefs_dict (norm_mode m) (map_option py_lower (norm_text p))
      (case norm_text r of None \<Rightarrow> default_resolution settings | Some r \<Rightarrow> py_lower r)
      (parse_feed_ids json_loads f) i)" for m p r f i
    unfolding normal_prefs_def
    by (intro exI conjI, rule refl)
      (use norm_mode_valid res low parse_feed_ids_stripped in \<open>auto split: option.splits\<close>)
  ultimately show ?thesis by (simp add: normalize_prefs_row_def split: pyval.splits)
qed

lemma normal_mode: "m \<in> {''search'', ''rss''} \<Longrightarrow> norm_mode (py_or (PStr m) v) = m"
proof -
  have "norm_mode (PStr ''search'') = ''search''" "norm_mode (PStr ''rss'') = ''rss''" by code_simp+
  then show "m \<in> {''search'', ''rss''} \<Longrightarrow> norm_mode (py_or (PStr m) v) = m"
    by (auto simp: py_or_def)
qed

lemma normal_fixed:
  assumes "normal_prefs d"
  shows "normalize_prefs_row json_loads (PDict d) settings = d"
proof -
  obtain m p r f i where d: "d = prefs_dict m p r f i" and m: "m \<in> {''search'', ''rss''}"
    and p: "\<forall>t. p = Some t \<longrightarrow> lower_text t" and r: "lower_text r"
    and f: "set f \<subseteq> {t. t \<noteq> [] \<and> py_strip t = t}"
    using assms unfolding normal_prefs_def by blast
  have "map_option py_lower (norm_text (text_val p)) = p"
    using p by (cases p) (auto simp: text_val_def norm_text_def clean_def lower_text_def)
  then show ?thesis
    using r clean_list_stripped [OF f]
    by (simp add: d normalize_prefs_row_def normal_mode [OF m] lower_text_def parse_feed_ids_def)
qed


section \<open>Feeds\<close>

text \<open>Only enabled feeds are read, and only wanted ones when the anime names any.\<close>

lemma select_feeds_enabled:
  "f \<in> set (select_feeds_for_anime settings ids) \<Longrightarrow>
   py_truthy (dget f ''enabled'') \<and> f \<in> set (list_configured_feeds settings)
   \<and> (clean_list ids = [] \<or> dget f ''id'' \<in> PStr ` set (clean_list ids))"
  by (auto simp: select_feeds_for_anime_def Let_def split: if_splits)

lemma configured_feeds_builtin: "\<exists>f \<in> set (list_configured_feeds settings). py_truthy (dget f ''builtin'')"
  by (auto simp: list_configured_feeds_def DEFAULT_BUILTIN_FEEDS_def list_ex_iff Let_def dget_def)

end
