(* ===== verification/AutoDownload.thy ===== *)
theory AutoDownload
  imports AutoPrefs
begin

text \<open>
  The automatic download of the next episode
  (\<open>application/services/auto_download_service.py\<close>).  The injected services are a record of
  operations over a state of their own; \<open>None\<close> is a missing service or method.  Searches,
  feeds and lookups only read that state, starting a download and marking an entry seen change
  it.  The settings stay the same during a pass, and log messages are left out.
\<close>

section \<open>The service and what it is wired to\<close>

record 's ports =
  p_eligible :: "('s \<Rightarrow> int \<Rightarrow> int list res) option"
  p_tagged :: "('s \<Rightarrow> string \<Rightarrow> int list res) option"
  p_user_state :: "'s \<Rightarrow> int \<Rightarrow> int \<Rightarrow> pydict res"
  p_prefs :: "('s \<Rightarrow> int \<Rightarrow> int \<Rightarrow> pyval res) option"
  p_torrents :: "('s \<Rightarrow> int \<Rightarrow> pyval list res) option"
  p_files :: "('s \<Rightarrow> int \<Rightarrow> pyval list res) option"
  p_terms :: "('s \<Rightarrow> int \<Rightarrow> pyval list res) option"
  p_search :: "'s \<Rightarrow> bool \<Rightarrow> string list \<Rightarrow> pyval list res"
  p_fetch :: "('s \<Rightarrow> pydict list \<Rightarrow> RssFeedEntry list res) option"
  p_rss_match ::
    "(title_parser \<Rightarrow> RssFeedEntry list \<Rightarrow> string list \<Rightarrow> ReleasePreference \<Rightarrow> int \<Rightarrow>
      (string \<times> string) set \<Rightarrow> pydict option res) option"
  p_seen :: "('s \<Rightarrow> string list \<Rightarrow> (string \<times> string) set res) option"
  p_mark_seen :: "('s \<Rightarrow> string \<Rightarrow> string \<Rightarrow> 's \<times> unit res) option"
  p_subsplease :: "('s \<Rightarrow> bool \<Rightarrow> string list \<Rightarrow> int \<Rightarrow> pydict option res) option"
  p_start :: "('s \<Rightarrow> bool \<Rightarrow> int \<Rightarrow> string option \<Rightarrow> string option \<Rightarrow> int \<Rightarrow> 's \<times> pyval res) option"

record auto_config =
  a_user :: int
  a_cooldown :: rat
  a_parse :: title_parser
  a_json :: "string \<Rightarrow> pyval option"
  a_settings :: "pyval res option"

text \<open>\<open>list(f(...) or [])\<close> with its exceptions caught.\<close>

definition rows_or_none :: "('s \<Rightarrow> int \<Rightarrow> pyval list res) option \<Rightarrow> 's \<Rightarrow> int \<Rightarrow> pyval list" where
  "rows_or_none getter s anime_id =
     (case getter of
        None \<Rightarrow> []
      | Some f \<Rightarrow> (case f s anime_id of Inl _ \<Rightarrow> [] | Inr rows \<Rightarrow> rows))"

definition settings_of :: "auto_config \<Rightarrow> pyval" where
  "settings_of c =
     (case a_settings c of Some (Inr (PDict d)) \<Rightarrow> PDict d | _ \<Rightarrow> PDict [])"

definition global_enabled :: "auto_config \<Rightarrow> bool" where
  "global_enabled c = flag (sub_dict (settings_of c) ''auto_download'') ''enabled'' True"

definition eligible_by_tag :: "'s ports \<Rightarrow> auto_config \<Rightarrow> 's \<Rightarrow> int \<Rightarrow> bool" where
  "eligible_by_tag P c s anime_id =
     (case p_user_state P s anime_id (a_user c) of
        Inl _ \<Rightarrow> False
      | Inr st \<Rightarrow> py_upper (str_or_empty (dget st ''tag'')) = ''WATCHING''
                \<and> py_truthy (dget st ''auto_download''))"

definition list_eligible_anime :: "'s ports \<Rightarrow> auto_config \<Rightarrow> 's \<Rightarrow> int list" where
  "list_eligible_anime P c s =
     (case p_eligible P of
        Some lister \<Rightarrow> (case lister s (a_user c) of Inl _ \<Rightarrow> [] | Inr ids \<Rightarrow> ids)
      | None \<Rightarrow>
          (case p_tagged P of
             None \<Rightarrow> []
           | Some list_tag \<Rightarrow>
               (case list_tag s ''WATCHING'' of
                  Inl _ \<Rightarrow> []
                | Inr watching \<Rightarrow> filter (eligible_by_tag P c s) watching)))"

definition library_torrents :: "'s ports \<Rightarrow> 's \<Rightarrow> int \<Rightarrow> pydict list" where
  "library_torrents P s anime_id = dict_rows (rows_or_none (p_torrents P) s anime_id)"

definition disk_episodes :: "'s ports \<Rightarrow> 's \<Rightarrow> int \<Rightarrow> pydict list" where
  "disk_episodes P s anime_id = dict_rows (rows_or_none (p_files P) s anime_id)"

definition get_download_preferences :: "'s ports \<Rightarrow> auto_config \<Rightarrow> 's \<Rightarrow> int \<Rightarrow> pydict" where
  "get_download_preferences P c s anime_id =
     (let raw = (case p_prefs P of
                   None \<Rightarrow> []
                 | Some getter \<Rightarrow>
                     (case getter s anime_id (a_user c) of Inr (PDict d) \<Rightarrow> d | _ \<Rightarrow> []))
      in normalize_prefs_row (a_json c) (PDict raw) (settings_of c))"

definition resolve_preference :: "'s ports \<Rightarrow> auto_config \<Rightarrow> 's \<Rightarrow> int \<Rightarrow> ReleasePreference option" where
  "resolve_preference P c s anime_id =
     (let prefs = get_download_preferences P c s anime_id;
          inferred = (if py_truthy (dget prefs ''use_inferred'')
                      then infer_preference (a_parse c) (library_torrents P s anime_id) else None)
      in resolve_release_preference prefs inferred (settings_of c))"

definition owned_episodes :: "'s ports \<Rightarrow> auto_config \<Rightarrow> 's \<Rightarrow> int \<Rightarrow> int set" where
  "owned_episodes P c s anime_id =
     owned_episodes_from_torrents (a_parse c) (library_torrents P s anime_id)
     \<union> owned_episodes_from_files (disk_episodes P s anime_id)"

definition search_terms_of :: "'s ports \<Rightarrow> 's \<Rightarrow> int \<Rightarrow> string list" where
  "search_terms_of P s anime_id = clean_list (rows_or_none (p_terms P) s anime_id)"

section \<open>Candidates\<close>

text \<open>A call that is repeated in its older form when the first one raises \<open>TypeError\<close>.\<close>

definition retry_type_error :: "'a res \<Rightarrow> 'a res \<Rightarrow> 'a option" where
  "retry_type_error first second =
     (case first of
        Inr r \<Rightarrow> Some r
      | Inl (TypeError _) \<Rightarrow> (case second of Inr r \<Rightarrow> Some r | Inl _ \<Rightarrow> None)
      | Inl _ \<Rightarrow> None)"

definition find_candidate ::
  "'s ports \<Rightarrow> 's \<Rightarrow> int \<Rightarrow> ReleasePreference \<Rightarrow> int \<Rightarrow> pydict option" where
  "find_candidate P s anime_id preference episode =
     (let terms = search_terms_of P s anime_id
      in if terms = [] then None
         else case retry_type_error (p_search P s True terms) (p_search P s False terms) of
                None \<Rightarrow> None
              | Some results \<Rightarrow>
                  find_matching_candidate results preference episode
                    (indexed_hashes (library_torrents P s anime_id))
                    (Some (expected_catalog_season terms)))"

definition seen_keys :: "'s ports \<Rightarrow> 's \<Rightarrow> pydict list \<Rightarrow> (string \<times> string) set" where
  "seen_keys P s feeds =
     (case p_seen P of
        None \<Rightarrow> {}
      | Some lister \<Rightarrow>
          (case lister s (map (\<lambda>f. py_str (dget f ''id'')) feeds) of Inl _ \<Rightarrow> {} | Inr ks \<Rightarrow> ks))"

definition find_rss :: 
  "'s ports \<Rightarrow> auto_config \<Rightarrow> 's \<Rightarrow> int \<Rightarrow> ReleasePreference \<Rightarrow> int \<Rightarrow> pydict \<Rightarrow> pydict option res" where
  "find_rss P c s anime_id preference episode prefs =
     (case (p_fetch P, p_rss_match P) of
        (Some fetch, Some rss_match) \<Rightarrow>
          (let terms = search_terms_of P s anime_id;
               feeds = select_feeds_for_anime (settings_of c)
                         (case dget prefs ''feed_ids'' of PList xs \<Rightarrow> xs | _ \<Rightarrow> [])
           in if terms = [] \<or> feeds = [] then Inr None
              else case fetch s feeds of
                     Inl _ \<Rightarrow> Inr None
                   | Inr entries \<Rightarrow>
                       rss_match (a_parse c) entries terms preference episode (seen_keys P s feeds))
      | _ \<Rightarrow> Inr None)"

definition find_subsplease_api_candidate :: "'s ports \<Rightarrow> 's \<Rightarrow> int \<Rightarrow> int \<Rightarrow> pydict option" where
  "find_subsplease_api_candidate P s anime_id episode =
     (case p_subsplease P of
        None \<Rightarrow> None
      | Some searcher \<Rightarrow>
          (let terms = search_terms_of P s anime_id
           in if terms = [] then None
              else case retry_type_error (searcher s True terms episode) (searcher s False terms episode) of
                     None \<Rightarrow> None | Some r \<Rightarrow> r))"

text \<open>The first of the keys that holds a text.\<close>

fun first_text :: "string list \<Rightarrow> pydict \<Rightarrow> string option" where
  "first_text [] candidate = None"
| "first_text (key # keys) candidate =
     (let v = clean (dget candidate key) in if v \<noteq> [] then Some v else first_text keys candidate)"

definition candidate_url :: "pydict \<Rightarrow> string option" where
  "candidate_url candidate = first_text [''link'', ''magnet'', ''url'', ''desc_link''] candidate"

definition candidate_hash :: "pydict \<Rightarrow> string option" where
  "candidate_hash candidate = first_text [''infohash'', ''hash''] candidate"

definition candidate_name :: "pydict \<Rightarrow> string" where
  "candidate_name candidate =
     py_str (py_or (py_or (dget candidate ''name'') (dget candidate ''infohash'')) (PStr ''torrent''))"

section \<open>Starting downloads\<close>

definition started_download_result :: "pyval \<Rightarrow> bool" where
  "started_download_result result =
     (case result of PDict d \<Rightarrow> py_truthy (dget d ''started'') | v \<Rightarrow> py_truthy v)"

definition start_auto_download ::
  "'s ports \<Rightarrow> auto_config \<Rightarrow> 's \<Rightarrow> int \<Rightarrow> pydict \<Rightarrow> 's \<times> bool" where
  "start_auto_download P c s anime_id candidate =
     (let url = candidate_url candidate; hash_value = candidate_hash candidate
      in if url = None \<and> hash_value = None then (s, False)
         else case p_start P of
                None \<Rightarrow> (s, False)
              | Some start \<Rightarrow>
                  (case start s True anime_id url hash_value (a_user c) of
                     (s1, Inr result) \<Rightarrow> (s1, started_download_result result)
                   | (s1, Inl (TypeError _)) \<Rightarrow>
                       (case start s1 False anime_id url hash_value (a_user c) of
                          (s2, Inr result) \<Rightarrow> (s2, started_download_result result)
                        | (s2, Inl _) \<Rightarrow> (s2, False))
                   | (s1, Inl _) \<Rightarrow> (s1, False)))"

definition mark_rss_seen :: "'s ports \<Rightarrow> pydict \<Rightarrow> 's \<Rightarrow> 's" where
  "mark_rss_seen P candidate s =
     (case p_mark_seen P of
        None \<Rightarrow> s
      | Some marker \<Rightarrow>
          if py_truthy (dget candidate ''feed_id'') \<and> py_truthy (dget candidate ''item_key'')
          then fst (marker s (py_str (dget candidate ''feed_id'')) (py_str (dget candidate ''item_key'')))
          else s)"

definition cooldown_of :: "auto_config \<Rightarrow> rat" where
  "cooldown_of c =
     (case map_of (sub_dict (settings_of c) ''auto_download'') ''cooldown_minutes'' of
        None \<Rightarrow> a_cooldown c
      | Some v \<Rightarrow> (case py_float v of None \<Rightarrow> a_cooldown c | Some m \<Rightarrow> max 0 (m * 60)))"

definition under_cooldown :: "auto_config \<Rightarrow> (int \<times> rat) list \<Rightarrow> int \<Rightarrow> rat \<Rightarrow> bool" where
  "under_cooldown c last_check anime_id now =
     (case map_of last_check anime_id of
        None \<Rightarrow> False
      | Some t \<Rightarrow> now - t < cooldown_of c)"

section \<open>One anime\<close>

definition CATCH_UP_MAX :: nat where
  "CATCH_UP_MAX = 5"

text \<open>
  How the loop ends: with an answer of its own, or at its end, having queued some episodes and
  possibly found nothing for the next one.
\<close>

datatype ending = Answer string | Queued "(int \<times> string) list" "int option"

definition ep_text :: "int \<Rightarrow> string" where
  "ep_text episode = ''ep '' @ int_str episode"

fun catch_up ::
  "'s ports \<Rightarrow> auto_config \<Rightarrow> int \<Rightarrow> ReleasePreference \<Rightarrow> pydict \<Rightarrow> bool \<Rightarrow> nat \<Rightarrow> 's \<Rightarrow> int set \<Rightarrow>
   (int \<times> string) list \<Rightarrow> 's \<times> ending res" where
  "catch_up P c anime_id preference prefs rss 0 s owned queued = (s, Inr (Queued queued None))"
| "catch_up P c anime_id preference prefs rss (Suc k) s owned queued =
     (case next_episode owned of
        None \<Rightarrow> (s, Inr (Queued queued None))
      | Some episode \<Rightarrow>
          if \<not> rss
          then (case find_candidate P s anime_id preference episode of
                  None \<Rightarrow> (s, Inr (Queued queued (Some episode)))
                | Some candidate \<Rightarrow>
                    (let (s1, ok) = start_auto_download P c s anime_id candidate
                     in (s1, Inr (Answer (if ok then ''queued '' @ ep_text episode @ '': '' @ candidate_name candidate
                                          else ''failed to queue '' @ ep_text episode)))))
          else (case find_rss P c s anime_id preference episode prefs of
                  Inl e \<Rightarrow> (s, Inl e)
                | Inr first \<Rightarrow>
                    (case (case first of
                             None \<Rightarrow> find_subsplease_api_candidate P s anime_id episode
                           | Some candidate \<Rightarrow> Some candidate) of
                       None \<Rightarrow> (s, Inr (Queued queued (Some episode)))
                     | Some candidate \<Rightarrow>
                         (let (s1, ok) = start_auto_download P c s anime_id candidate
                          in if \<not> ok
                             then (s1, Inr (if queued \<noteq> [] then Queued queued None
                                            else Answer (''failed to queue '' @ ep_text episode)))
                             else catch_up P c anime_id preference prefs rss k
                                    (if str_or_empty (dget candidate ''source'') = ''rss''
                                     then mark_rss_seen P candidate s1 else s1)
                                    (insert episode owned)
                                    (queued @ [(episode, candidate_name candidate)])))))"

definition ending_text :: "ending \<Rightarrow> string" where
  "ending_text e =
     (case e of
        Answer t \<Rightarrow> t
      | Queued queued missed \<Rightarrow>
          if queued \<noteq> []
          then ''queued '' @ py_join ''; '' (map (\<lambda>(ep, name). ep_text ep @ '': '' @ name) queued)
          else case missed of
                 Some ep \<Rightarrow> ''skipped (no match for '' @ ep_text ep @ '')''
               | None \<Rightarrow> ''skipped (no match)'')"

definition process_anime :: "'s ports \<Rightarrow> auto_config \<Rightarrow> 's \<Rightarrow> int \<Rightarrow> 's \<times> string res" where
  "process_anime P c s anime_id =
     (let prefs = get_download_preferences P c s anime_id
      in case resolve_preference P c s anime_id of
           None \<Rightarrow> (s, Inr ''skipped (no preference)'')
         | Some preference \<Rightarrow>
             let owned = owned_episodes P c s anime_id
             in if next_episode owned = None then (s, Inr ''skipped (no owned episodes)'')
                else
                let mode = py_lower (py_str (py_or (dget prefs ''source_mode'') (PStr DEFAULT_SOURCE_MODE)));
                    (s', r) = catch_up P c anime_id preference prefs (mode = ''rss'') CATCH_UP_MAX s owned []
                in (s', map_sum id ending_text r))"

section \<open>One pass\<close>

record AutoDownloadOutcome =
  checked :: nat
  downloaded :: nat
  skips :: nat
  errors :: nat
  details :: "string list"

definition no_outcome :: AutoDownloadOutcome where
  "no_outcome = \<lparr>checked = 0, downloaded = 0, skips = 0, errors = 0, details = []\<rparr>"

text \<open>\<open>f"{type(exc).__name__}: {exc}"\<close>.\<close>

fun error_text :: "pyerr \<Rightarrow> string" where
  "error_text (ValidationError m) = ''ValidationError: '' @ m"
| "error_text (NotFoundError m) = ''NotFoundError: '' @ m"
| "error_text (InfrastructureError m) = ''InfrastructureError: '' @ m"
| "error_text (UnauthorizedError m) = ''UnauthorizedError: '' @ m"
| "error_text (ValueError m) = ''ValueError: '' @ m"
| "error_text (RuntimeError m) = ''RuntimeError: '' @ m"
| "error_text (TypeError m) = ''TypeError: '' @ m"
| "error_text (OverflowError m) = ''OverflowError: '' @ m"
| "error_text (KeyError m) = ''KeyError: '' @ repr_str m"
| "error_text (AttributeError m) = ''AttributeError: '' @ m"

fun run_pass ::
  "'s ports \<Rightarrow> auto_config \<Rightarrow> bool \<Rightarrow> rat \<Rightarrow> int list \<Rightarrow> 's \<times> (int \<times> rat) list \<times> AutoDownloadOutcome \<Rightarrow>
   's \<times> (int \<times> rat) list \<times> AutoDownloadOutcome" where
  "run_pass P c force now [] st = st"
| "run_pass P c force now (anime_id # ids) (s, last_check, out) =
     run_pass P c force now ids
       (let note = (\<lambda>t. int_str anime_id @ '': '' @ t);
            out1 = out\<lparr>checked := checked out + 1\<rparr>
        in if \<not> force \<and> under_cooldown c last_check anime_id now
           then (s, last_check, out1\<lparr>skips := skips out1 + 1, details := details out1 @ [note ''cooldown'']\<rparr>)
           else case process_anime P c s anime_id of
                  (s', Inr detail) \<Rightarrow>
                    (s', AList.update anime_id now last_check,
                     (if py_startswith detail ''queued'' then out1\<lparr>downloaded := downloaded out1 + 1\<rparr>
                      else out1\<lparr>skips := skips out1 + 1\<rparr>)\<lparr>details := details out1 @ [note detail]\<rparr>)
                | (s', Inl e) \<Rightarrow>
                    (s', last_check,
                     out1\<lparr>errors := errors out1 + 1,
                          details := details out1 @ [note (''error '' @ error_text e)]\<rparr>))"

definition run_once ::
  "'s ports \<Rightarrow> auto_config \<Rightarrow> bool \<Rightarrow> rat \<Rightarrow> 's \<Rightarrow> (int \<times> rat) list \<Rightarrow>
   's \<times> (int \<times> rat) list \<times> AutoDownloadOutcome" where
  "run_once P c force now s last_check =
     (if \<not> global_enabled c
      then (s, last_check, no_outcome\<lparr>details := [''global auto-download disabled'']\<rparr>)
      else run_pass P c force now (list_eligible_anime P c s) (s, last_check, no_outcome))"

section \<open>Episodes are queued in order\<close>

lemma owned_finite [simp]: "finite (owned_episodes P c s anime_id)"
  by (simp add: owned_episodes_def owned_episodes_from_torrents_def owned_episodes_from_files_def)

lemma next_episode_facts:
  assumes "finite owned"
  obtains n where "next_episode owned = Some n" and "1 \<le> n" and "\<forall>m \<in> owned. m < n"
    and "next_episode (insert n owned) = Some (n + 1)"
proof (cases "{n \<in> owned. n > 0} = {}")
  case True
  then have "{n \<in> insert 1 owned. n > 0} = {1}" by auto
  moreover have "\<forall>m \<in> owned. m < 1" using True by auto
  ultimately show ?thesis using that [of 1] True by (simp add: next_episode_def)
next
  case False
  let ?N = "{n \<in> owned. n > 0}"
  have fin: "finite ?N" using assms by simp
  have pos: "0 < Max ?N" using Max_in [OF fin False] by simp
  have "{n \<in> insert (Max ?N + 1) owned. n > 0} = insert (Max ?N + 1) ?N"
    using pos by auto
  then have "next_episode (insert (Max ?N + 1) owned) = Some (Max ?N + 1 + 1)"
    using fin False by (simp add: next_episode_def)
  moreover have "\<forall>m \<in> owned. m < Max ?N + 1"
  proof
    fix m assume "m \<in> owned"
    then have "m \<le> 0 \<or> m \<in> ?N" by auto
    then show "m < Max ?N + 1" using pos Max_ge [OF fin] by fastforce
  qed
  ultimately show ?thesis using that [of "Max ?N + 1"] False pos by (simp add: next_episode_def)
qed

text \<open>What the loop has queued: the wanted numbers, one after the other.\<close>

definition from_episode :: "int \<Rightarrow> nat \<Rightarrow> int list" where
  "from_episode n k = map (\<lambda>i. n + int i) [0..<k]"

lemma from_episode_Suc: "from_episode n (Suc k) = n # from_episode (n + 1) k"
  unfolding from_episode_def by (subst upt_rec) (simp add: map_Suc_upt [symmetric] del: upt_Suc)

lemma catch_up_queues:
  assumes "catch_up P c anime_id preference prefs True k s owned queued = (s', Inr (Queued q missed))"
    and "finite owned" and "next_episode owned = Some n"
  shows "\<exists>j \<le> k. map fst q = map fst queued @ from_episode n j
    \<and> (missed = None \<or> missed = Some (n + int j))"
  using assms
proof (induction k arbitrary: s owned queued n)
  case 0
  then show ?case by (simp add: from_episode_def)
next
  case (Suc k)
  let ?next = "case find_rss P c s anime_id preference n prefs of
      Inl e \<Rightarrow> None
    | Inr None \<Rightarrow> find_subsplease_api_candidate P s anime_id n
    | Inr (Some cand) \<Rightarrow> Some cand"
  consider (stop) "q = queued" "missed = None \<or> missed = Some n"
    | (go) s1 name where "catch_up P c anime_id preference prefs True k s1 (insert n owned) (queued @ [(n, name)])
        = (s', Inr (Queued q missed))"
    using Suc.prems(1,3)
    by (auto simp: Let_def split: sum.splits option.splits prod.splits if_splits)
  then show ?case
  proof cases
    case stop
    then show ?thesis by (intro exI [of _ 0]) (auto simp: from_episode_def)
  next
    case (go s1 name)
    obtain m where "next_episode owned = Some m" "next_episode (insert m owned) = Some (m + 1)"
      by (rule next_episode_facts [OF Suc.prems(2)])
    then have "next_episode (insert n owned) = Some (n + 1)" using Suc.prems(3) by simp
    from Suc.IH [OF go _ this] Suc.prems(2) obtain j where "j \<le> k"
      "map fst q = map fst (queued @ [(n, name)]) @ from_episode (n + 1) j"
      "missed = None \<or> missed = Some (n + 1 + int j)" by auto
    then show ?thesis by (intro exI [of _ "Suc j"]) (auto simp: from_episode_Suc)
  qed
qed

text \<open>In search mode the loop stops after its first candidate.\<close>

lemma catch_up_search:
  assumes "catch_up P c anime_id preference prefs False (Suc k) s owned [] = (s', r)"
    and "next_episode owned = Some n"
  shows "r = Inr (Queued [] (Some n))
    \<or> (\<exists>name. r = Inr (Answer (''queued '' @ ep_text n @ '': '' @ name)))
    \<or> r = Inr (Answer (''failed to queue '' @ ep_text n))"
  using assms by (auto simp: Let_def split: option.splits prod.splits if_splits)

lemma catch_up_answer:
  assumes "catch_up P c anime_id preference prefs True k s owned queued = (s', Inr (Answer t))"
    and "finite owned" and "next_episode owned = Some n"
  shows "queued = [] \<and> t = ''failed to queue '' @ ep_text n"
  using assms
proof (induction k arbitrary: s owned queued n)
  case (Suc k)
  consider (stop) "queued = []" "t = ''failed to queue '' @ ep_text n"
    | (go) s1 name where "catch_up P c anime_id preference prefs True k s1 (insert n owned) (queued @ [(n, name)])
        = (s', Inr (Answer t))"
    using Suc.prems(1,3)
    by (auto simp: Let_def split: sum.splits option.splits prod.splits if_splits)
  then show ?case
  proof cases
    case (go s1 name)
    obtain m where "next_episode (insert n owned) = Some m"
      using next_episode_facts [of "insert n owned"] Suc.prems(2) by (meson finite_insert)
    then show ?thesis using Suc.IH [OF go] Suc.prems(2) by simp
  qed simp
qed simp

lemma ending_text_Answer: "ending_text (Answer t) = t"
  by (simp add: ending_text_def)


section \<open>A pass accounts for every anime\<close>

text \<open>The counters agree with each other and with the anime looked at.\<close>

definition balanced :: "AutoDownloadOutcome \<Rightarrow> bool" where
  "balanced out \<longleftrightarrow> checked out = downloaded out + skips out + errors out
     \<and> length (details out) = checked out"

lemma run_pass_balanced:
  assumes "run_pass P c force now ids (s, last_check, out) = (s', last_check', out')" and "balanced out"
  shows "balanced out' \<and> checked out' = checked out + length ids"
  using assms
proof (induction ids arbitrary: s last_check out)
  case (Cons a ids)
  obtain s1 lc1 out1 where 1: "run_pass P c force now ids (s1, lc1, out1) = (s', last_check', out')"
    and "balanced out1" "checked out1 = checked out + 1"
    using Cons.prems by (auto simp: Let_def balanced_def split: if_splits prod.splits sum.splits)
  then show ?case using Cons.IH [OF 1] by simp
qed simp

text \<open>
  C30. A pass accounts for every anime it looks at: each is counted exactly once, as downloaded,
  skipped or failed, with one line of detail; a disabled pass looks at none and changes nothing.
\<close>

theorem pass_accounts_for_every_anime:
  assumes "run_once P c force now s last_check = (s', last_check', out)"
  shows "checked out = downloaded out + skips out + errors out
    \<and> checked out = (if global_enabled c then length (list_eligible_anime P c s) else 0)
    \<and> (global_enabled c \<longrightarrow> length (details out) = checked out)
    \<and> (\<not> global_enabled c \<longrightarrow> s' = s \<and> last_check' = last_check)"
proof (cases "global_enabled c")
  case True
  then have "run_pass P c force now (list_eligible_anime P c s) (s, last_check, no_outcome)
      = (s', last_check', out)" using assms by (simp add: run_once_def)
  moreover have "balanced no_outcome" "checked no_outcome = 0" by (simp_all add: balanced_def no_outcome_def)
  ultimately have "balanced out" "checked out = length (list_eligible_anime P c s)"
    using run_pass_balanced by fastforce+
  then show ?thesis using True by (simp add: balanced_def)
next
  case False
  then show ?thesis using assms by (auto simp: run_once_def no_outcome_def)
qed

section \<open>The cooldown\<close>

lemma run_pass_forced:
  assumes "run_pass P c True now ids (s, last_check, out) = (s', last_check', out')"
  shows "errors out \<le> errors out'
    \<and> (errors out' = errors out \<longrightarrow>
         (\<forall>a. map_of last_check a = Some now \<or> a \<in> set ids \<longrightarrow> map_of last_check' a = Some now))"
  using assms
proof (induction ids arbitrary: s last_check out)
  case (Cons a ids)
  obtain s1 lc1 out1 where 1: "run_pass P c True now ids (s1, lc1, out1) = (s', last_check', out')"
    and o1: "(errors out1 = errors out \<and> lc1 = AList.update a now last_check) \<or> errors out1 = Suc (errors out)"
    using Cons.prems by (auto simp: Let_def split: if_splits prod.splits sum.splits)
  from Cons.IH [OF 1] o1 show ?case by (auto simp: update_conv')
qed simp

lemma run_pass_cooldown:
  assumes "\<forall>a \<in> set ids. under_cooldown c last_check a now"
  shows "\<exists>out'. run_pass P c False now ids (s, last_check, out) = (s, last_check, out')
    \<and> downloaded out' = downloaded out \<and> errors out' = errors out \<and> skips out' = skips out + length ids"
  using assms
proof (induction ids arbitrary: out)
  case (Cons a ids)
  let ?o = "out\<lparr>checked := checked out + 1, skips := skips out + 1,
                 details := details out @ [int_str a @ '': '' @ ''cooldown'']\<rparr>"
  have "run_pass P c False now (a # ids) (s, last_check, out) = run_pass P c False now ids (s, last_check, ?o)"
    using Cons.prems by (simp add: Let_def)
  moreover obtain out' where "run_pass P c False now ids (s, last_check, ?o) = (s, last_check, out')"
    "downloaded out' = downloaded ?o" "errors out' = errors ?o" "skips out' = skips ?o + length ids"
    using Cons.IH [of ?o] Cons.prems by auto
  ultimately show ?case by simp
qed simp

text \<open>
  The cooldown keeps passes apart: after a forced pass without errors, an ordinary pass before
  the cooldown has elapsed looks at no anime that was eligible then: it changes nothing and
  downloads nothing.
\<close>

lemma cooldown_separates_passes:
  assumes "run_once P c True now s last_check = (s', last_check', out)"
    and "global_enabled c" and "errors out = 0"
    and "set (list_eligible_anime P c s') \<subseteq> set (list_eligible_anime P c s)"
    and "later - now < cooldown_of c"
  shows "\<exists>out2. run_once P c False later s' last_check' = (s', last_check', out2)
    \<and> downloaded out2 = 0 \<and> errors out2 = 0 \<and> skips out2 = length (list_eligible_anime P c s')"
proof -
  have "run_pass P c True now (list_eligible_anime P c s) (s, last_check, no_outcome)
      = (s', last_check', out)" using assms(1,2) by (simp add: run_once_def)
  from run_pass_forced [OF this] have "\<forall>a \<in> set (list_eligible_anime P c s). map_of last_check' a = Some now"
    using assms(3) by (simp add: no_outcome_def)
  then have "\<forall>a \<in> set (list_eligible_anime P c s'). under_cooldown c last_check' a later"
    using assms(4,5) by (auto simp: under_cooldown_def)
  then obtain out2 where "run_pass P c False later (list_eligible_anime P c s') (s', last_check', no_outcome)
      = (s', last_check', out2)" "downloaded out2 = 0" "errors out2 = 0"
    "skips out2 = length (list_eligible_anime P c s')"
    using run_pass_cooldown [of _ c last_check' later P s' no_outcome] by (auto simp: no_outcome_def)
  then show ?thesis using assms(2) by (auto simp: run_once_def)
qed

section \<open>Examples\<close>

text \<open>
  One anime, two torrents of a group in the library, and a catch-up service that knows the episodes
  up to the fourth; the state is the list of episodes started.
\<close>

definition sample_candidate :: "int \<Rightarrow> pydict" where
  "sample_candidate episode = [(''name'', PStr ''Show''), (''link'', PStr (int_str episode))]"

definition sample_ports :: "string list ports" where
  "sample_ports =
     \<lparr>p_eligible = Some (\<lambda>s u. Inr [7]), p_tagged = None, p_user_state = (\<lambda>s a u. Inr []), p_prefs = None,
      p_torrents = Some (\<lambda>s a. Inr [PDict [(''name'', PStr ''[A] Show - 01'')]]),
      p_files = Some (\<lambda>s a. Inr [PDict [(''episode'', PInt 2)]]),
      p_terms = Some (\<lambda>s a. Inr [PStr ''Show'']),
      p_search = (\<lambda>s kw terms. Inr []), p_fetch = None, p_rss_match = None, p_seen = None, p_mark_seen = None,
      p_subsplease = Some (\<lambda>s kw terms episode. Inr (if episode \<le> 4 then Some (sample_candidate episode) else None)),
      p_start = Some (\<lambda>s kw a url h u. (s @ [or_empty url], Inr (PBool True)))\<rparr>"

definition sample_config :: auto_config where
  "sample_config =
     \<lparr>a_user = 1, a_cooldown = 1800, a_parse = sample_parser, a_json = (\<lambda>_. None), a_settings = None\<rparr>"

lemma sample_pass:
  "run_once sample_ports sample_config True 1000 [] [] =
     ([''3'', ''4''], [(7, 1000)],
      \<lparr>checked = 1, downloaded = 1, skips = 0, errors = 0,
       details = [''7: queued ep 3: Show; ep 4: Show'']\<rparr>)"
  by code_simp


theorem pass_accounts_for_every_anime_witness:
  "\<exists>s' lc out. run_once sample_ports sample_config True 1000 [] [] = (s', lc, out)
     \<and> checked out = downloaded out + skips out + errors out \<and> checked out = 1"
  using pass_accounts_for_every_anime [OF sample_pass] sample_pass by auto

lemma cooldown_separates_passes_witness:
  "\<exists>out2. run_once sample_ports sample_config False 2000 [''3'', ''4''] [(7, 1000)]
       = ([''3'', ''4''], [(7, 1000)], out2) \<and> downloaded out2 = 0 \<and> skips out2 = 1"
proof -
  have "global_enabled sample_config" "cooldown_of sample_config = 1800" by code_simp+
  moreover have "list_eligible_anime sample_ports sample_config s = [7]" for s
    by (simp add: list_eligible_anime_def sample_ports_def)
  ultimately show ?thesis using cooldown_separates_passes [OF sample_pass, of 2000] by auto
qed

end
