(* ===== verification/PlaybackMath.thy ===== *)
theory PlaybackMath
  imports Values
begin

text \<open>
  The arithmetic of playback: constants (\<open>application/playback/contract.py\<close>), resume positions
  (\<open>resume.py\<close>), playlists (\<open>playlist.py\<close>), session tokens (\<open>session_store.py\<close>) and file ids
  (\<open>file_ids.py\<close>).  Seconds are rationals where the program has doubles.
\<close>

section \<open>Constants\<close>

definition SEGMENT_SECONDS :: int where "SEGMENT_SECONDS = 4"
definition PREFETCH_MARGIN :: int where "PREFETCH_MARGIN = 2"
definition MIN_RESUME_SECONDS :: rat where "MIN_RESUME_SECONDS = 10"
definition NEAR_END_RESTART_SECONDS :: rat where "NEAR_END_RESTART_SECONDS = 15"
definition EVENT_MANIFEST_LOOKAHEAD :: int where "EVENT_MANIFEST_LOOKAHEAD = 15"
definition MAX_FORWARD_JUMP_SEGMENTS :: int where "MAX_FORWARD_JUMP_SEGMENTS = 90"
definition SESSION_TTL_SECONDS :: int where "SESSION_TTL_SECONDS = 900"
definition SESSION_CREATE_WAIT_SECONDS :: rat where "SESSION_CREATE_WAIT_SECONDS = 25"
definition RESUME_SEGMENT_WAIT_SECONDS :: rat where "RESUME_SEGMENT_WAIT_SECONDS = 180"
definition SEGMENT_WAIT_SECONDS :: rat where "SEGMENT_WAIT_SECONDS = 20"
definition FORWARD_WAIT_SECONDS :: rat where "FORWARD_WAIT_SECONDS = 5 / 2"
definition RESERVED_INTERNAL_NAMES :: "string list" where "RESERVED_INTERNAL_NAMES = [''_ffmpeg.m3u8'']"

lemmas playback_constants =
  SEGMENT_SECONDS_def PREFETCH_MARGIN_def MIN_RESUME_SECONDS_def NEAR_END_RESTART_SECONDS_def
  EVENT_MANIFEST_LOOKAHEAD_def MAX_FORWARD_JUMP_SEGMENTS_def SESSION_TTL_SECONDS_def
  SESSION_CREATE_WAIT_SECONDS_def RESUME_SEGMENT_WAIT_SECONDS_def SEGMENT_WAIT_SECONDS_def
  FORWARD_WAIT_SECONDS_def

section \<open>Resume positions\<close>

definition resume_segment_index :: "rat \<Rightarrow> int \<Rightarrow> int \<Rightarrow> int" where
  "resume_segment_index playback_start_seconds total_segments segment_seconds =
     (if playback_start_seconds < MIN_RESUME_SECONDS \<or> total_segments \<le> 0 \<or> segment_seconds \<le> 0 then 0
      else max 0 (min \<lfloor>playback_start_seconds / of_int segment_seconds\<rfloor> (total_segments - 1)))"

definition anchor_segment :: "int \<Rightarrow> int" where
  "anchor_segment resume_seg = max 0 (resume_seg - PREFETCH_MARGIN)"

definition normalize_resume_seconds :: "rat option \<Rightarrow> rat" where
  "normalize_resume_seconds value =
     (case value of None \<Rightarrow> 0 | Some s \<Rightarrow> if s = 0 \<or> s < MIN_RESUME_SECONDS then 0 else s)"

definition clamp_resume_seconds :: "rat option \<Rightarrow> rat option \<Rightarrow> rat" where
  "clamp_resume_seconds value max_duration =
     (let seconds = normalize_resume_seconds value
      in if seconds \<le> 0 then 0
         else case max_duration of
                None \<Rightarrow> seconds
              | Some d \<Rightarrow>
                  if d \<le> 0 then seconds
                  else if seconds \<ge> d - NEAR_END_RESTART_SECONDS then 0
                  else min seconds (d - 1))"

section \<open>Sessions\<close>

record PlaybackSession =
  session_id :: string
  ps_anime :: int
  ps_file_id :: string
  ps_file_title :: string
  manifest_path :: string
  output_dir :: string
  token :: string
  expires_at :: rat
  created_at :: rat
  last_seen_at :: rat
  audio_track :: "int option"
  subtitle_track :: "int option"
  subtitle_tracks :: "pydict list"
  source_path :: string
  duration_seconds :: rat
  segment_seconds :: int
  total_segments :: int
  hls_anchor_segment :: int
  playback_start_seconds :: rat
  live_playhead_segment :: int
  transcode_start_segment :: int
  ttl_seconds :: int

section \<open>Segments on disk\<close>

text \<open>\<open>_SEGMENT_NAME_RE\<close> with its group read as a number; \<open>$\<close> also matches before a final line feed.\<close>

definition segment_index :: "string \<Rightarrow> int option" where
  "segment_index name =
     (let body = (if name \<noteq> [] \<and> last name = char_of (10::nat) then butlast name else name);
          digits = take (length body - 11) (drop 8 body)
      in if py_startswith body ''segment_'' \<and> py_endswith body ''.ts'' \<and> digits \<noteq> []
            \<and> list_all py_isdigit digits
         then parse_int digits else None)"

text \<open>\<open>f"segment_{index:05d}.ts"\<close>, for an index that is not negative.\<close>

definition segment_name :: "int \<Rightarrow> string" where
  "segment_name index = ''segment_'' @ nat_str_pad 5 (nat index) @ ''.ts''"

text \<open>The entries of the output directory are an argument, \<open>None\<close> when they cannot be listed.\<close>

definition latest_existing_segment :: "string list option \<Rightarrow> int" where
  "latest_existing_segment entries =
     (case entries of
        None \<Rightarrow> -1
      | Some names \<Rightarrow> fold (\<lambda>name latest. case segment_index name of
                                None \<Rightarrow> latest
                              | Some i \<Rightarrow> if i > latest then i else latest) names (-1))"

section \<open>Playlists\<close>

definition event_manifest_end_index :: "int \<Rightarrow> int \<Rightarrow> int \<Rightarrow> int" where
  "event_manifest_end_index latest n_total anchor =
     (let (encoded_head, margin) =
            (if latest < 0 then (max 0 anchor, EVENT_MANIFEST_LOOKAHEAD)
             else (max latest anchor, PREFETCH_MARGIN))
      in min (n_total - 1) (encoded_head + margin))"

record playlist =
  pl_target :: int
  pl_sequence :: int
  pl_complete :: bool
  pl_entries :: "(rat \<times> int) list"

definition manifest_total :: "PlaybackSession \<Rightarrow> int" where
  "manifest_total s = max 1 (total_segments s)"

definition manifest_anchor :: "PlaybackSession \<Rightarrow> int" where
  "manifest_anchor s =
     (let anchor = max 0 (hls_anchor_segment s) in if anchor \<ge> manifest_total s then 0 else anchor)"

definition last_segment_seconds :: "PlaybackSession \<Rightarrow> rat" where
  "last_segment_seconds s =
     (let seg_secs = of_int (max 1 (segment_seconds s));
          rest = max 0 (duration_seconds s) - of_int (manifest_total s - 1) * seg_secs
      in if rest \<le> 0 \<or> rest > seg_secs then seg_secs else rest)"

text \<open>
  What the manifest says: \<open>entries\<close> are the names in the output directory and \<open>last_exists\<close> tells
  whether the last segment is a file.
\<close>

definition plan_manifest :: "PlaybackSession \<Rightarrow> string list option \<Rightarrow> bool \<Rightarrow> playlist" where
  "plan_manifest s entries last_exists =
     (let n_total = manifest_total s; seg_secs = max 1 (segment_seconds s); anchor = manifest_anchor s;
          latest = latest_existing_segment entries;
          complete = (latest \<ge> n_total - 1 \<and> last_exists);
          end_index = (if complete then n_total - 1 else event_manifest_end_index latest n_total anchor)
      in \<lparr>pl_target = seg_secs, pl_sequence = anchor, pl_complete = complete,
          pl_entries = map (\<lambda>index. (if index = n_total - 1 then last_segment_seconds s
                                     else of_int seg_secs, index)) [anchor..end_index]\<rparr>)"

text \<open>\<open>f"{x:.3f}"\<close>, for a number that is not negative.\<close>

definition fixed3 :: "rat \<Rightarrow> string" where
  "fixed3 x =
     (let n = nat (py_round (x * 1000)) in nat_str (n div 1000) @ ''.'' @ nat_str_pad 3 (n mod 1000))"

text \<open>\<open>urllib.parse.quote(s, safe="")\<close> on Latin-1 text, encoded as UTF-8.\<close>

definition percent :: "nat \<Rightarrow> string" where
  "percent n =
     (let h = (\<lambda>d. if d < 10 then char_of (48 + d) else char_of (55 + d)) in [CHR ''%'', h (n div 16), h (n mod 16)])"

definition quote_char :: "char \<Rightarrow> string" where
  "quote_char c =
     (let n = (of_char c :: nat)
      in if (48 \<le> n \<and> n \<le> 57) \<or> (65 \<le> n \<and> n \<le> 90) \<or> (97 \<le> n \<and> n \<le> 122)
            \<or> c \<in> set ''_.-~'' then [c]
         else if n < 128 then percent n
         else percent (192 + n div 64) @ percent (128 + n mod 64))"

definition quote :: "string \<Rightarrow> string" where
  "quote s = concat (map quote_char s)"

definition token_query :: "string option \<Rightarrow> string" where
  "token_query tok =
     (let cleaned = py_strip (or_empty tok) in if cleaned = [] then [] else ''?token='' @ quote cleaned)"

definition newline :: string where
  "newline = [char_of (10::nat)]"

definition print_playlist :: "playlist \<Rightarrow> string \<Rightarrow> string" where
  "print_playlist p token_q =
     py_join newline
       ([''#EXTM3U'', ''#EXT-X-VERSION:3'',
         ''#EXT-X-TARGETDURATION:'' @ int_str (pl_target p),
         ''#EXT-X-MEDIA-SEQUENCE:'' @ int_str (pl_sequence p),
         ''#EXT-X-PLAYLIST-TYPE:'' @ (if pl_complete p then ''VOD'' else ''EVENT'')]
        @ concat (map (\<lambda>(d, i). [''#EXTINF:'' @ fixed3 d @ '','', segment_name i @ token_q]) (pl_entries p))
        @ (if pl_complete p then [''#EXT-X-ENDLIST''] else [])) @ newline"

definition render_manifest :: "PlaybackSession \<Rightarrow> string list option \<Rightarrow> bool \<Rightarrow> string option \<Rightarrow> string" where
  "render_manifest s entries last_exists tok =
     print_playlist (plan_manifest s entries last_exists) (token_query tok)"

definition initial_total :: "rat \<Rightarrow> int \<Rightarrow> int" where
  "initial_total duration segment_secs = max 1 \<lceil>duration / of_int segment_secs\<rceil>"

section \<open>Session tokens\<close>

text \<open>\<open>mac\<close> is the keyed digest of a payload in its URL-safe spelling (\<open>hmac\<close>, \<open>base64\<close>).\<close>

definition float_to_int :: "rat \<Rightarrow> int" where
  "float_to_int x = (if x < 0 then - \<lfloor>- x\<rfloor> else \<lfloor>x\<rfloor>)"

definition build_token :: "(string \<Rightarrow> string) \<Rightarrow> string \<Rightarrow> rat \<Rightarrow> string" where
  "build_token mac sid expires =
     (let ex = int_str (float_to_int expires) in ex @ ''.'' @ mac (sid @ ''.'' @ ex))"

definition before_dot :: "string \<Rightarrow> string" where
  "before_dot t = takeWhile (\<lambda>c. c \<noteq> CHR ''.'') t"

definition after_dot :: "string \<Rightarrow> string" where
  "after_dot t = tl (dropWhile (\<lambda>c. c \<noteq> CHR ''.'') t)"

definition verify_token :: "(string \<Rightarrow> string) \<Rightarrow> rat \<Rightarrow> string \<Rightarrow> string \<Rightarrow> bool" where
  "verify_token mac now sid tok =
     (if CHR ''.'' \<notin> set tok then False
      else case parse_int (before_dot tok) of
             None \<Rightarrow> False
           | Some ex \<Rightarrow>
               if now > of_int ex then False
               else after_dot tok = after_dot (build_token mac sid (of_int ex)))"

section \<open>File ids\<close>

text \<open>\<open>sha1\<close> is the first 16 hexadecimal digits of the digest of a path.\<close>

definition episode_file_id_for_path :: "(string \<Rightarrow> string) \<Rightarrow> string \<Rightarrow> string" where
  "episode_file_id_for_path sha1 path = ''ep-'' @ sha1 path"

definition hex16 :: "string \<Rightarrow> bool" where
  "hex16 s =
     (let body = (if s \<noteq> [] \<and> last s = char_of (10::nat) then butlast s else s)
      in length body = 16 \<and> list_all (\<lambda>c. py_isdigit c \<or> c \<in> set ''abcdef'') body)"

definition after_last_dash :: "string \<Rightarrow> string" where
  "after_last_dash s = rev (takeWhile (\<lambda>c. c \<noteq> CHR ''-'') (rev s))"

definition episode_file_id_digest :: "string \<Rightarrow> string option" where
  "episode_file_id_digest file_id =
     (let raw = py_lower (py_strip file_id)
      in if \<not> py_startswith raw ''ep-'' then None
         else if hex16 (after_last_dash raw) then Some (after_last_dash raw) else None)"

definition episode_file_ids_match :: "string \<Rightarrow> string \<Rightarrow> bool" where
  "episode_file_ids_match requested candidate =
     (let req = py_strip requested; cand = py_strip candidate
      in if req = [] \<or> cand = [] then False
         else if req = cand then True
         else episode_file_id_digest req \<noteq> None \<and> episode_file_id_digest req = episode_file_id_digest cand)"

definition find_episode_by_file_id :: "('e \<Rightarrow> string) \<Rightarrow> 'e list \<Rightarrow> string \<Rightarrow> 'e option" where
  "find_episode_by_file_id getter episodes file_id =
     (if py_strip file_id = [] then None
      else find (\<lambda>e. episode_file_ids_match (py_strip file_id) (getter e)) episodes)"

definition progress_for_file_id :: "pydict \<Rightarrow> string \<Rightarrow> pydict" where
  "progress_for_file_id progress file_id =
     (case dget progress file_id of
        PDict d \<Rightarrow> d
      | _ \<Rightarrow>
          (case episode_file_id_digest file_id of
             None \<Rightarrow> []
           | Some digest \<Rightarrow>
               (case find (\<lambda>(k, v). episode_file_id_digest k = Some digest
                                   \<and> (case v of PDict _ \<Rightarrow> True | _ \<Rightarrow> False)) progress of
                  Some (_, PDict d) \<Rightarrow> d
                | _ \<Rightarrow> [])))"

section \<open>The resume segment holds the playhead\<close>

lemma normalize_resume_cases:
  "normalize_resume_seconds v = 0 \<or> MIN_RESUME_SECONDS \<le> normalize_resume_seconds v"
  by (auto simp: normalize_resume_seconds_def split: option.splits)

lemma clamp_resume_bounds:
  assumes "0 < clamp_resume_seconds v (Some d)" and "0 < d"
  shows "MIN_RESUME_SECONDS \<le> clamp_resume_seconds v (Some d)
    \<and> clamp_resume_seconds v (Some d) < d - NEAR_END_RESTART_SECONDS"
  using assms normalize_resume_cases [of v]
  by (auto simp: clamp_resume_seconds_def Let_def playback_constants min_def split: if_splits)

text \<open>
  C39. A resumed playback starts in the right segment: the segment computed for a resume position
  inside an episode of known length contains that position, exists in the playlist, and the
  encoder starts at most two segments before it.
\<close>

theorem resume_segment_holds_playhead:
  assumes "clamp_resume_seconds position (Some d) = start" and "0 < start" and "0 < d" and "0 < seg"
    and "index = resume_segment_index start (initial_total d seg) seg"
  shows "of_int (index * seg) \<le> start \<and> start < of_int ((index + 1) * seg)
    \<and> 0 \<le> index \<and> index < initial_total d seg
    \<and> anchor_segment index \<le> index \<and> index \<le> anchor_segment index + 2 \<and> 0 \<le> anchor_segment index"
proof -
  have b: "MIN_RESUME_SECONDS \<le> start" "start < d"
    using clamp_resume_bounds [of position d] assms(1-3) by (auto simp: playback_constants)
  have s: "(0::rat) < of_int seg" using assms(4) by simp
  let ?q = "start / of_int seg"
  have q: "0 \<le> ?q" "?q < d / of_int seg" using assms(2) b s by (simp_all add: divide_strict_right_mono)
  have lt: "\<lfloor>?q\<rfloor> < \<lceil>d / of_int seg\<rceil>" using q(2) by linarith
  have fl: "0 \<le> \<lfloor>?q\<rfloor>" using q(1) by simp
  have "1 \<le> \<lceil>d / of_int seg\<rceil>" using lt fl by linarith
  then have t: "initial_total d seg = \<lceil>d / of_int seg\<rceil>" unfolding initial_total_def by (rule max_absorb2)
  have "\<not> d / of_int seg \<le> 0" using q by linarith
  then have i: "index = \<lfloor>?q\<rfloor>" using assms(4,5) b(1) lt fl by (simp add: resume_segment_index_def t)
  have "of_int index \<le> ?q" "?q < of_int index + 1" unfolding i by linarith+
  then have "of_int index * of_int seg \<le> start" "start < (of_int index + 1) * of_int seg"
    using s by (simp_all add: pos_le_divide_eq pos_divide_less_eq)
  then show ?thesis using lt fl by (simp add: i t anchor_segment_def PREFETCH_MARGIN_def)
qed

section \<open>What a playlist advertises\<close>

lemma manifest_anchor_bounds: "0 \<le> manifest_anchor s \<and> manifest_anchor s < manifest_total s"
  by (auto simp: manifest_anchor_def manifest_total_def Let_def)

lemma sum_list_durations:
  assumes "a \<le> n"
  shows "sum_list (map (\<lambda>i. if i = n then last_d else (d::rat)) [a..n]) = of_int (n - a) * d + last_d"
proof -
  have "map (\<lambda>i. if i = n then last_d else d) [a..n] = map (\<lambda>i. d) [a..n - 1] @ [last_d]"
    using assms by (simp add: upto_rec2)
  moreover have "sum_list (map (\<lambda>i. d) [a..n - 1]) = of_int (n - a) * d"
    using assms by (simp add: sum_list_triv)
  ultimately show ?thesis by simp
qed

text \<open>
  C34. A complete playlist covers the rest of the episode exactly: it lists every segment from the
  anchor to the last one, in order, and their lengths add up to the time from the anchor to the
  end.  An incomplete one never advertises a segment outside the stream or more than the allowed
  margin ahead of what is encoded.
\<close>

theorem playlist_covers_the_episode:
  assumes "0 < duration_seconds s" and "0 < segment_seconds s"
    and "total_segments s = initial_total (duration_seconds s) (segment_seconds s)"
    and "p = plan_manifest s entries last_exists"
  shows "(pl_complete p \<longrightarrow>
      map snd (pl_entries p) = [manifest_anchor s..total_segments s - 1]
      \<and> sum_list (map fst (pl_entries p))
        = duration_seconds s - of_int (manifest_anchor s * segment_seconds s))
    \<and> (\<not> pl_complete p \<longrightarrow>
      (\<forall>(d, i) \<in> set (pl_entries p). manifest_anchor s \<le> i \<and> i < total_segments s
         \<and> i \<le> max (latest_existing_segment entries) (manifest_anchor s)
               + (if latest_existing_segment entries < 0 then 15 else 2)))"
proof -
  let ?d = "duration_seconds s" and ?g = "segment_seconds s" and ?t = "total_segments s" and ?a = "manifest_anchor s"
  have g: "(0::rat) < of_int ?g" using assms(2) by simp
  have t: "?t = \<lceil>?d / of_int ?g\<rceil>" "1 \<le> ?t"
    using assms(1-3) g by (auto simp: initial_total_def max_def not_le)
  have mt: "manifest_total s = ?t" "max 1 ?g = ?g" using t(2) assms(2) by (simp_all add: manifest_total_def)
  have a: "0 \<le> ?a" "?a \<le> ?t - 1" using manifest_anchor_bounds [of s] mt by auto
  have "of_int (?t - 1) < ?d / of_int ?g" "?d / of_int ?g \<le> of_int ?t" unfolding t(1) by linarith+
  then have "of_int (?t - 1) * of_int ?g < ?d" "?d \<le> of_int ?t * of_int ?g"
    using g by (simp_all add: pos_less_divide_eq pos_divide_le_eq)
  then have last: "last_segment_seconds s = ?d - of_int (?t - 1) * of_int ?g"
    using assms(1) mt by (simp add: last_segment_seconds_def Let_def algebra_simps)
  show ?thesis
  proof (intro conjI impI)
    assume c: "pl_complete p"
    then have e: "pl_entries p = map (\<lambda>i. (if i = ?t - 1 then last_segment_seconds s else of_int ?g, i)) [?a..?t - 1]"
      using mt by (simp add: assms(4) plan_manifest_def Let_def)
    show "map snd (pl_entries p) = [?a..?t - 1]" by (simp add: e comp_def)
    have "sum_list (map fst (pl_entries p)) = of_int (?t - 1 - ?a) * of_int ?g + last_segment_seconds s"
      using sum_list_durations [OF a(2), of "last_segment_seconds s" "of_int ?g"] by (simp add: e comp_def)
    then show "sum_list (map fst (pl_entries p)) = ?d - of_int (?a * ?g)"
      by (simp add: last algebra_simps)
  next
    assume c: "\<not> pl_complete p"
    then have e: "pl_entries p = map (\<lambda>i. (if i = ?t - 1 then last_segment_seconds s else of_int ?g, i))
        [?a..event_manifest_end_index (latest_existing_segment entries) ?t ?a]"
      using mt by (auto simp: assms(4) plan_manifest_def Let_def)
    have "event_manifest_end_index n ?t ?a \<le> ?t - 1
        \<and> event_manifest_end_index n ?t ?a \<le> max n ?a + (if n < 0 then 15 else 2)" for n
      using a(1) by (auto simp: event_manifest_end_index_def playback_constants)
    from this [of "latest_existing_segment entries"]
    show "\<forall>(d, i) \<in> set (pl_entries p). ?a \<le> i \<and> i < ?t
         \<and> i \<le> max (latest_existing_segment entries) ?a
               + (if latest_existing_segment entries < 0 then 15 else 2)"
      by (auto simp: e)
  qed
qed

section \<open>Tokens\<close>

lemma int_str_no_dot: "CHR ''.'' \<notin> set (int_str i)"
proof -
  have "\<not> py_isdigit CHR ''.''" by (simp add: py_isdigit_def)
  then show ?thesis using nat_str_digits [of "nat i"] nat_str_digits [of "nat (- i)"]
    by (auto simp: int_str_def)
qed

lemma split_dot:
  assumes "CHR ''.'' \<notin> set e"
  shows "before_dot (e @ ''.'' @ t) = e" and "after_dot (e @ ''.'' @ t) = t"
  using assms by (induction e) (auto simp: before_dot_def after_dot_def)

lemma build_token_parts:
  "before_dot (build_token mac sid x) = int_str (float_to_int x)"
  "after_dot (build_token mac sid x) = mac (sid @ ''.'' @ int_str (float_to_int x))"
  "CHR ''.'' \<in> set (build_token mac sid x)"
  using split_dot [OF int_str_no_dot] by (simp_all add: build_token_def Let_def)

lemma float_to_int_of_int [simp]: "float_to_int (of_int i) = i"
  by (simp add: float_to_int_def)

text \<open>
  A token is accepted exactly while it lasts and only with the digest of its own session and
  expiry: the token built for a session verifies until the second it names, and whatever text
  verifies carries, after its first dot, the digest of the session it is presented for and of the
  expiry it claims, not yet passed.
\<close>

lemma token_verifies_until_expiry:
  "(verify_token mac now sid (build_token mac sid expires) \<longleftrightarrow> now \<le> of_int (float_to_int expires))
   \<and> (verify_token mac now sid tok \<longleftrightarrow>
        (\<exists>ex. CHR ''.'' \<in> set tok \<and> parse_int (before_dot tok) = Some ex \<and> now \<le> of_int ex
             \<and> after_dot tok = mac (sid @ ''.'' @ int_str ex)))"
proof -
  have v: "verify_token mac now sid tok \<longleftrightarrow>
      (\<exists>ex. CHR ''.'' \<in> set tok \<and> parse_int (before_dot tok) = Some ex \<and> now \<le> of_int ex
         \<and> after_dot tok = mac (sid @ ''.'' @ int_str ex))" for tok
    by (auto simp: verify_token_def build_token_parts split: option.splits)
  show ?thesis using v [of tok] v [of "build_token mac sid expires"]
    by (simp add: build_token_parts parse_int_str)
qed

end
