(* ===== verification/Playback.thy ===== *)
theory Playback
  imports PlaybackMath TorrentNames
begin

text \<open>
  On-demand playback: waiting for files (\<open>application/playback/resume.py\<close>), resolving segments
  (\<open>segment_resolver.py\<close>), the encoder wrapper (\<open>transcode_session.py\<close>) and the service that
  keeps the sessions (\<open>service.py\<close>).  The encoder, the file system and the clock form a world
  that the service acts on through a record of operations; one nap of a wait lets the world go
  on.  The service is sequential here: its locks are only recorded, telemetry and logs left out.
\<close>

section \<open>The world\<close>

record encode_request =
  er_session :: string
  er_source :: string
  er_output :: string
  er_audio :: "int option"
  er_subtitle :: "int option"
  er_start :: int
  er_segment_seconds :: int
  er_duration :: "rat option"

record 'w player =
  w_is_file :: "'w \<Rightarrow> string \<Rightarrow> bool"
  w_listdir :: "'w \<Rightarrow> string \<Rightarrow> string list option"
  w_read :: "'w \<Rightarrow> string \<Rightarrow> string option"
  w_write :: "'w \<Rightarrow> string \<Rightarrow> string \<Rightarrow> 'w \<times> unit res"
  w_mkdir :: "'w \<Rightarrow> string \<Rightarrow> 'w \<times> unit res"
  w_rmtree :: "'w \<Rightarrow> string \<Rightarrow> 'w"
  w_resolve :: "'w \<Rightarrow> string \<Rightarrow> string"
  w_clock :: "'w \<Rightarrow> rat"
  w_monotonic :: "'w \<Rightarrow> rat"
  w_nap :: "'w \<Rightarrow> 'w"
  w_start :: "'w \<Rightarrow> encode_request \<Rightarrow> 'w \<times> string option res"
  w_stop :: "'w \<Rightarrow> string \<Rightarrow> 'w"
  w_running :: "('w \<Rightarrow> string \<Rightarrow> bool res) option"
  w_episodes :: "'w \<Rightarrow> int \<Rightarrow> pydict list res"
  w_stream_root :: "'w \<Rightarrow> string res"
  w_delete :: "'w \<Rightarrow> int \<Rightarrow> string \<Rightarrow> 'w \<times> bool res"
  w_probe_available :: "('w \<Rightarrow> bool res) option"
  w_require_tools :: "('w \<Rightarrow> unit res) option"
  w_tracks :: "'w \<Rightarrow> string \<Rightarrow> (pydict list \<times> pydict list) res"
  w_duration :: "('w \<Rightarrow> string \<Rightarrow> rat res) option"
  w_subtitles :: "('w \<Rightarrow> string \<Rightarrow> string \<Rightarrow> 'w \<times> pyval list res) option"

text \<open>What the service keeps: its sessions, the sessions that have a restart lock, the world.\<close>

record 'w playback =
  pb_sessions :: "(string \<times> PlaybackSession) list"
  pb_locks :: "string set"
  pb_world :: 'w

record playback_config =
  pc_ttl :: int
  pc_segment :: int
  pc_mac :: "string \<Rightarrow> string"

definition new_config :: "(string \<Rightarrow> string) \<Rightarrow> int \<Rightarrow> int \<Rightarrow> playback_config" where
  "new_config mac default_ttl segment_secs =
     \<lparr>pc_ttl = max 60 default_ttl, pc_segment = max 2 segment_secs, pc_mac = mac\<rparr>"

definition new_service :: "'w \<Rightarrow> 'w playback" where
  "new_service w = \<lparr>pb_sessions = [], pb_locks = {}, pb_world = w\<rparr>"

definition session_at :: "'w playback \<Rightarrow> string \<Rightarrow> PlaybackSession" where
  "session_at st sid = the (map_of (pb_sessions st) sid)"

definition on_session ::
  "string \<Rightarrow> (PlaybackSession \<Rightarrow> PlaybackSession) \<Rightarrow> 'w playback \<Rightarrow> 'w playback" where
  "on_session sid f st = st\<lparr>pb_sessions := AList.map_entry sid f (pb_sessions st)\<rparr>"

section \<open>Waiting for a file\<close>

text \<open>
  The loop of \<open>wait_for_file\<close>; the fuel is one poll more than the tenths of a second to wait,
  which is enough when a nap takes a tenth of a second (\<open>wait_terminates\<close>).
\<close>

fun poll_file ::
  "'w player \<Rightarrow> nat \<Rightarrow> string \<Rightarrow> rat \<Rightarrow> ('w \<Rightarrow> bool) \<Rightarrow> 'w \<Rightarrow> 'w \<times> bool res" where
  "poll_file W 0 target deadline should_abort w = (w, Inr (w_is_file W w target))"
| "poll_file W (Suc k) target deadline should_abort w =
     (if w_is_file W w target then (w, Inr True)
      else if should_abort w then (w, Inl (RuntimeError ''aborted''))
      else if w_monotonic W w \<ge> deadline then (w, Inr (w_is_file W w target))
      else poll_file W k target deadline should_abort (w_nap W w))"

definition wait_fuel :: "rat \<Rightarrow> nat" where
  "wait_fuel timeout = nat \<lceil>10 * max 0 timeout\<rceil> + 1"

definition wait_for_file ::
  "'w player \<Rightarrow> string \<Rightarrow> rat \<Rightarrow> ('w \<Rightarrow> bool) \<Rightarrow> 'w \<Rightarrow> 'w \<times> bool res" where
  "wait_for_file W target timeout should_abort w =
     poll_file W (wait_fuel timeout) target (w_monotonic W w + max 0 timeout) should_abort w"

text \<open>\<open>wait_for_file(target, timeout)\<close> on the service's world.\<close>

definition wait_target :: "'w player \<Rightarrow> string \<Rightarrow> rat \<Rightarrow> 'w playback \<Rightarrow> 'w playback \<times> bool" where
  "wait_target W target timeout st =
     (let (w, r) = wait_for_file W target timeout (\<lambda>_. False) (pb_world st)
      in (st\<lparr>pb_world := w\<rparr>, r = Inr True))"

section \<open>The encoder\<close>

definition is_running :: "'w player \<Rightarrow> 'w \<Rightarrow> string \<Rightarrow> bool" where
  "is_running W w sid =
     (case w_running W of
        None \<Rightarrow> True
      | Some probe \<Rightarrow> (case probe w sid of Inl _ \<Rightarrow> True | Inr b \<Rightarrow> b))"

definition request_of :: "PlaybackSession \<Rightarrow> int \<Rightarrow> encode_request" where
  "request_of s start_index =
     \<lparr>er_session = session_id s, er_source = source_path s, er_output = output_dir s,
      er_audio = audio_track s, er_subtitle = subtitle_track s, er_start = start_index,
      er_segment_seconds = segment_seconds s,
      er_duration = (if duration_seconds s > 0 then Some (duration_seconds s) else None)\<rparr>"

definition restart_at :: "'w player \<Rightarrow> string \<Rightarrow> int \<Rightarrow> 'w playback \<Rightarrow> 'w playback" where
  "restart_at W sid i st =
     (case w_start W (pb_world st) (request_of (session_at st sid) i) of
        (w, Inl _) \<Rightarrow> st\<lparr>pb_world := w\<rparr>
      | (w, Inr _) \<Rightarrow>
          on_session sid (\<lambda>s. s\<lparr>transcode_start_segment := i,
                                live_playhead_segment := max (live_playhead_segment s) i\<rparr>)
            (st\<lparr>pb_world := w\<rparr>))"

definition restart_lock :: "string \<Rightarrow> 'w playback \<Rightarrow> 'w playback" where
  "restart_lock sid st = st\<lparr>pb_locks := insert sid (pb_locks st)\<rparr>"

section \<open>Resolving segments\<close>

definition playhead_head_segment :: "PlaybackSession \<Rightarrow> int \<Rightarrow> int" where
  "playhead_head_segment s latest = max latest (max 0 (live_playhead_segment s))"

definition note_playhead_segment :: "string \<Rightarrow> int \<Rightarrow> 'w playback \<Rightarrow> 'w playback" where
  "note_playhead_segment sid i =
     on_session sid (\<lambda>s. s\<lparr>live_playhead_segment := max (live_playhead_segment s) i\<rparr>)"

definition is_speculative_far_request ::
  "'w player \<Rightarrow> 'w \<Rightarrow> PlaybackSession \<Rightarrow> int \<Rightarrow> int \<Rightarrow> bool" where
  "is_speculative_far_request W w s i latest =
     (if \<not> is_running W w (session_id s) then False
      else let head = playhead_head_segment s latest
           in transcode_start_segment s \<le> head + PREFETCH_MARGIN
              \<and> i > head + MAX_FORWARD_JUMP_SEGMENTS)"

definition segment_wait_seconds :: "PlaybackSession \<Rightarrow> int \<Rightarrow> rat" where
  "segment_wait_seconds s i =
     (if playback_start_seconds s \<le> 0 then SEGMENT_WAIT_SECONDS
      else let playhead = resume_segment_index (playback_start_seconds s) (total_segments s) (segment_seconds s)
           in if i = playhead \<or> (hls_anchor_segment s \<le> i \<and> i \<le> playhead)
              then RESUME_SEGMENT_WAIT_SECONDS else SEGMENT_WAIT_SECONDS)"

definition too_far_error :: pyerr where
  "too_far_error = NotFoundError ''Requested segment is too far ahead of the playhead.''"

text \<open>The part of \<open>ensure_segment\<close> under the restart lock.\<close>

definition restart_and_wait ::
  "'w player \<Rightarrow> string \<Rightarrow> int \<Rightarrow> string \<Rightarrow> rat \<Rightarrow> int \<Rightarrow> 'w playback \<Rightarrow> 'w playback \<times> unit res" where
  "restart_and_wait W sid i target wait_secs latest st =
     (if w_is_file W (pb_world st) target then (note_playhead_segment sid i st, Inr ())
      else if is_speculative_far_request W (pb_world st) (session_at st sid) i latest
      then (st, Inl too_far_error)
      else let (st1, found) = wait_target W target wait_secs (restart_at W sid i st)
           in if found then (note_playhead_segment sid i st1, Inr ())
              else (st1, Inl (NotFoundError ''Requested media artifact is not available.'')))"

definition ensure_segment ::
  "'w player \<Rightarrow> string \<Rightarrow> string \<Rightarrow> string \<Rightarrow> 'w playback \<Rightarrow> 'w playback \<times> unit res" where
  "ensure_segment W sid name target st =
     (let s = session_at st sid
      in if name \<in> set RESERVED_INTERNAL_NAMES
         then (st, Inl (NotFoundError ''Internal stream artifact is not exposed.''))
         else if w_is_file W (pb_world st) target
         then (case segment_index name of
                 None \<Rightarrow> (st, Inr ())
               | Some i \<Rightarrow> (note_playhead_segment sid i st, Inr ()))
         else case segment_index name of
           None \<Rightarrow> (fst (wait_target W target FORWARD_WAIT_SECONDS st), Inr ())
         | Some i \<Rightarrow>
             if total_segments s \<le> 0 \<or> segment_seconds s \<le> 0
             then (fst (wait_target W target FORWARD_WAIT_SECONDS st), Inr ())
             else if i \<ge> total_segments s
             then (st, Inl (NotFoundError ''Requested segment is past the end of the stream.''))
             else if i < hls_anchor_segment s
             then (st, Inl (NotFoundError ''Requested segment is before the stream anchor.''))
             else
             let wait_secs = segment_wait_seconds s i;
                 latest = latest_existing_segment (w_listdir W (pb_world st) (output_dir s));
                 (st1, found) =
                   (if i \<le> latest + 3
                    then wait_target W target wait_secs
                           (if is_running W (pb_world st) (session_id s) then st else restart_at W sid i st)
                    else (st, False))
             in if found then (note_playhead_segment sid i st1, Inr ())
                else if is_speculative_far_request W (pb_world st1) (session_at st1 sid) i latest
                then (st1, Inl too_far_error)
                else restart_and_wait W sid i target wait_secs latest (restart_lock sid st1))"

section \<open>Episode files\<close>

record EpisodeFile =
  ef_id :: string
  ef_title :: string
  ef_path :: string
  ef_size :: "int option"
  ef_season :: "int option"
  ef_episode :: "int option"
  ef_audio :: "pydict list"
  ef_subtitles :: "pydict list"
  ef_duration :: "rat option"
  ef_blocker :: "string option"

definition list_local_episode_refs :: "'w player \<Rightarrow> 'w \<Rightarrow> int \<Rightarrow> (string \<times> int option) list res" where
  "list_local_episode_refs W w anime_id =
     map_sum id
       (List.map_filter
          (\<lambda>row. let file_id = py_strip (str_or_empty (dget row ''file_id''))
                 in if file_id = [] then None else Some (file_id, py_int (dget row ''episode''))))
       (w_episodes W w anime_id)"

definition probe_duration :: "'w player \<Rightarrow> 'w \<Rightarrow> string \<Rightarrow> rat" where
  "probe_duration W w path =
     (case w_duration W of
        None \<Rightarrow> 0
      | Some probe \<Rightarrow> (case probe w path of Inr d \<Rightarrow> if d > 0 then d else 0 | Inl _ \<Rightarrow> 0))"

text \<open>\<open>Path(path).name\<close> of a path that does not end in a dot.\<close>

definition path_name :: "string \<Rightarrow> string" where
  "path_name path = after_last CHR ''/'' (rstrip_char CHR ''/'' path)"

definition episode_row :: "'w player \<Rightarrow> 'w \<Rightarrow> bool \<Rightarrow> pydict \<Rightarrow> EpisodeFile option res" where
  "episode_row W w probe_ok row =
     (let file_id = py_strip (str_or_empty (dget row ''file_id''));
          path = py_strip (str_or_empty (dget row ''path''));
          title = py_strip (str_or_empty (py_or (dget row ''title'') (dget row ''name'')));
          ep = \<lparr>ef_id = file_id, ef_title = (if title = [] then path_name path else title), ef_path = path,
                ef_size = py_int (py_or (dget row ''size_bytes'') (dget row ''size'')),
                ef_season = py_int (dget row ''season''), ef_episode = py_int (dget row ''episode''),
                ef_audio = [], ef_subtitles = [], ef_duration = None, ef_blocker = None\<rparr>
      in if file_id = [] \<or> path = [] then Inr None
         else if \<not> probe_ok then Inr (Some (ep\<lparr>ef_blocker := Some ''ffmpeg_missing''\<rparr>))
         else case w_tracks W w path of
                Inl e \<Rightarrow> Inl e
              | Inr (audio, subs) \<Rightarrow>
                  let duration = probe_duration W w path
                  in Inr (Some (ep\<lparr>ef_audio := audio, ef_subtitles := subs,
                                  ef_duration := (if duration > 0 then Some duration else None)\<rparr>)))"

fun episode_rows :: "'w player \<Rightarrow> 'w \<Rightarrow> bool \<Rightarrow> pydict list \<Rightarrow> EpisodeFile list res" where
  "episode_rows W w probe_ok [] = Inr []"
| "episode_rows W w probe_ok (row # rows) =
     (case episode_row W w probe_ok row of
        Inl e \<Rightarrow> Inl e
      | Inr ep \<Rightarrow>
          (case episode_rows W w probe_ok rows of
             Inl e \<Rightarrow> Inl e
           | Inr eps \<Rightarrow> Inr (case ep of None \<Rightarrow> eps | Some x \<Rightarrow> x # eps)))"

definition list_episode_files :: "'w player \<Rightarrow> 'w \<Rightarrow> int \<Rightarrow> EpisodeFile list res" where
  "list_episode_files W w anime_id =
     (case (case w_probe_available W of None \<Rightarrow> Inr True | Some f \<Rightarrow> f w) of
        Inl e \<Rightarrow> Inl e
      | Inr probe_ok \<Rightarrow>
          (case w_episodes W w anime_id of
             Inl e \<Rightarrow> Inl e
           | Inr rows \<Rightarrow> episode_rows W w probe_ok rows))"

definition delete_episode_file :: "'w player \<Rightarrow> int \<Rightarrow> string \<Rightarrow> 'w playback \<Rightarrow> 'w playback \<times> bool res" where
  "delete_episode_file W anime_id file_id st =
     (let (w, r) = w_delete W (pb_world st) anime_id file_id in (st\<lparr>pb_world := w\<rparr>, r))"

section \<open>Ending sessions\<close>

definition teardown :: "'w player \<Rightarrow> bool \<Rightarrow> PlaybackSession \<Rightarrow> 'w \<Rightarrow> 'w" where
  "teardown W remove_output_dir s w =
     (let w1 = w_stop W w (session_id s)
      in if remove_output_dir then w_rmtree W w1 (output_dir s) else w1)"

definition cleanup_stale_sessions :: "'w player \<Rightarrow> 'w playback \<Rightarrow> 'w playback" where
  "cleanup_stale_sessions W st =
     (let now = w_clock W (pb_world st);
          stale = filter (\<lambda>(sid, s). expires_at s \<le> now) (pb_sessions st)
      in st\<lparr>pb_sessions := filter (\<lambda>(sid, s). \<not> expires_at s \<le> now) (pb_sessions st),
            pb_locks := pb_locks st - fst ` set stale,
            pb_world := fold (\<lambda>(sid, s). teardown W True s) stale (pb_world st)\<rparr>)"

definition stop_session :: "'w player \<Rightarrow> string \<Rightarrow> 'w playback \<Rightarrow> 'w playback" where
  "stop_session W sid st =
     (let st1 = st\<lparr>pb_sessions := filter (\<lambda>(k, s). k \<noteq> sid) (pb_sessions st), pb_locks := pb_locks st - {sid}\<rparr>
      in case map_of (pb_sessions st) sid of
           None \<Rightarrow> st1
         | Some s \<Rightarrow> st1\<lparr>pb_world := teardown W False s (pb_world st)\<rparr>)"

section \<open>Using sessions\<close>

definition get_session :: "'w playback \<Rightarrow> string \<Rightarrow> PlaybackSession option" where
  "get_session st sid = map_of (pb_sessions st) sid"

definition transcode_activity_timestamp :: "'w playback \<Rightarrow> string \<Rightarrow> rat" where
  "transcode_activity_timestamp st sid =
     (case map_of (pb_sessions st) sid of None \<Rightarrow> 0 | Some s \<Rightarrow> last_seen_at s)"

definition beat :: "playback_config \<Rightarrow> rat \<Rightarrow> rat option \<Rightarrow> PlaybackSession \<Rightarrow> PlaybackSession" where
  "beat c now position s =
     (let ttl = max 60 (if ttl_seconds s \<noteq> 0 then ttl_seconds s else pc_ttl c);
          s1 = s\<lparr>last_seen_at := now, expires_at := now + of_int ttl,
                 token := build_token (pc_mac c) (session_id s) (now + of_int ttl)\<rparr>
      in case position of
           None \<Rightarrow> s1
         | Some p \<Rightarrow>
             if total_segments s > 0 \<and> segment_seconds s > 0
             then let secs = clamp_resume_seconds (Some p)
                               (if duration_seconds s > 0 then Some (duration_seconds s) else None);
                      seg = resume_segment_index secs (total_segments s) (segment_seconds s)
                  in s1\<lparr>live_playhead_segment := max (live_playhead_segment s) seg\<rparr>
             else s1)"

definition heartbeat ::
  "'w player \<Rightarrow> playback_config \<Rightarrow> string \<Rightarrow> rat option \<Rightarrow> 'w playback \<Rightarrow> 'w playback \<times> PlaybackSession res" where
  "heartbeat W c sid position st =
     (case map_of (pb_sessions st) sid of
        None \<Rightarrow> (st, Inl (NotFoundError ''Playback session not found.''))
      | Some s \<Rightarrow>
          let s' = beat c (w_clock W (pb_world st)) position s
          in (on_session sid (\<lambda>_. s') st, Inr s'))"

definition segment_file :: "string \<Rightarrow> int \<Rightarrow> string" where
  "segment_file dir i = path_join dir (segment_name i)"

definition write_manifest_file :: "'w player \<Rightarrow> PlaybackSession \<Rightarrow> 'w \<Rightarrow> 'w \<times> unit res" where
  "write_manifest_file W s w =
     w_write W w (manifest_path s)
       (render_manifest s (w_listdir W w (output_dir s))
          (w_is_file W w (segment_file (output_dir s) (manifest_total s - 1))) None)"

definition validate_segment_name :: "string \<Rightarrow> bool" where
  "validate_segment_name name =
     (name \<noteq> [] \<and> CHR ''/'' \<notin> set name \<and> char_of (92::nat) \<notin> set name \<and> \<not> py_contains name ''..'')"

definition within_dir :: "string \<Rightarrow> string \<Rightarrow> bool" where
  "within_dir path dir =
     (path = dir \<or> py_startswith path (if py_endswith dir ''/'' then dir else dir @ ''/''))"

text \<open>The artifact a request names: a segment of the stream or its manifest.\<close>

definition resolve_target ::
  "'w player \<Rightarrow> string \<Rightarrow> string option \<Rightarrow> 'w playback \<Rightarrow> 'w playback \<times> string res" where
  "resolve_target W sid name st =
     (let s = session_at st sid
      in if or_empty name \<noteq> []
         then (if \<not> validate_segment_name (or_empty name)
               then (st, Inl (ValidationError ''Invalid segment name.''))
               else
               let target = w_resolve W (pb_world st) (path_join (output_dir s) (or_empty name))
               in if \<not> within_dir target (w_resolve W (pb_world st) (output_dir s))
                  then (st, Inl (ValidationError ''Segment path escapes stream directory.''))
                  else case ensure_segment W sid (or_empty name) target st of
                         (st1, Inl e) \<Rightarrow> (st1, Inl e)
                       | (st1, Inr _) \<Rightarrow> (st1, Inr target))
         else if total_segments s > 0
         then (case write_manifest_file W s (pb_world st) of
                 (w, Inl e) \<Rightarrow> (st\<lparr>pb_world := w\<rparr>, Inl e)
               | (w, Inr _) \<Rightarrow> (st\<lparr>pb_world := w\<rparr>, Inr (manifest_path s)))
         else (st, Inr (manifest_path s)))"

definition resolve_media_path ::
  "'w player \<Rightarrow> playback_config \<Rightarrow> string \<Rightarrow> string \<Rightarrow> string option \<Rightarrow> 'w playback \<Rightarrow>
   'w playback \<times> (PlaybackSession \<times> string) res" where
  "resolve_media_path W c sid tok name st =
     (let st0 = cleanup_stale_sessions W st
      in case map_of (pb_sessions st0) sid of
           None \<Rightarrow> (st0, Inl (NotFoundError ''Playback session not found.''))
         | Some s \<Rightarrow>
             if tok = [] \<or> \<not> verify_token (pc_mac c) (w_clock W (pb_world st0)) sid tok
             then (st0, Inl (UnauthorizedError ''Playback token is invalid or expired.''))
             else case resolve_target W sid name st0 of
                    (st1, Inl e) \<Rightarrow> (st1, Inl e)
                  | (st1, Inr target) \<Rightarrow>
                      if \<not> w_is_file W (pb_world st1) target
                      then (st1, Inl (NotFoundError ''Requested media artifact is not available.''))
                      else let st2 = on_session sid (\<lambda>s. s\<lparr>last_seen_at := w_clock W (pb_world st1)\<rparr>) st1
                           in (st2, Inr (session_at st2 sid, target)))"

section \<open>Starting a session\<close>

text \<open>\<open>str.splitlines\<close> on Latin-1 text; empty lines, which its caller drops, may be added.\<close>

definition line_break :: "char \<Rightarrow> bool" where
  "line_break c = ((of_char c :: nat) \<in> {10, 11, 12, 13, 28, 29, 30, 133})"

fun split_lines :: "string \<Rightarrow> string list" where
  "split_lines [] = [[]]"
| "split_lines (c # cs) =
     (if line_break c then [] # split_lines cs
      else case split_lines cs of l # ls \<Rightarrow> (c # l) # ls | [] \<Rightarrow> [[c]])"

definition take_last :: "nat \<Rightarrow> 'a list \<Rightarrow> 'a list" where
  "take_last n xs = drop (length xs - n) xs"

definition ffmpeg_log_excerpt :: "'w player \<Rightarrow> string \<Rightarrow> 'w \<Rightarrow> string" where
  "ffmpeg_log_excerpt W dir w =
     (case w_read W w (path_join dir ''_ffmpeg.log'') of
        None \<Rightarrow> []
      | Some body \<Rightarrow>
          let kept = map py_strip
                       (filter (\<lambda>line. py_strip line \<noteq> [] \<and> \<not> py_startswith line ''[AnimeManager]'')
                          (split_lines body))
          in if kept = [] then [] else take_last 280 (py_join '' | '' (take_last 3 kept)))"

definition log_detail :: "'w player \<Rightarrow> string \<Rightarrow> 'w \<Rightarrow> string" where
  "log_detail W dir w =
     (let excerpt = ffmpeg_log_excerpt W dir w
      in if excerpt = [] then [] else '' Transcoder log: '' @ excerpt)"

text \<open>\<open>f"{i:0wd}"\<close>.\<close>

definition int_str_pad :: "nat \<Rightarrow> int \<Rightarrow> string" where
  "int_str_pad width i =
     (if i < 0 then ''-'' @ nat_str_pad (width - 1) (nat (- i)) else nat_str_pad width (nat i))"

definition optional_text :: "string \<Rightarrow> pydict \<Rightarrow> string \<Rightarrow> pydict" where
  "optional_text key row name =
     (let v = py_strip (str_or_empty (dget row name)) in if v = [] then [] else [(key, PStr v)])"

definition subtitle_entry :: "pyval \<Rightarrow> pydict option" where
  "subtitle_entry row =
     (case row of
        PDict d \<Rightarrow>
          (case py_int (dget d ''id'') of
             None \<Rightarrow> None
           | Some track \<Rightarrow>
               Some ([(''id'', PInt track),
                      (''label'', PStr (py_str (py_or (dget d ''label'') (PStr (''Subtitle '' @ int_str track))))),
                      (''filename'', PStr (py_str (py_or (dget d ''filename'')
                                       (PStr (''subtitle_'' @ int_str_pad 3 track @ ''.vtt'')))))]
                     @ optional_text ''codec'' d ''codec''
                     @ optional_text ''ass_filename'' d ''ass_filename''
                     @ optional_text ''error'' d ''error''))
      | _ \<Rightarrow> None)"

definition materialize_subtitles :: "'w player \<Rightarrow> string \<Rightarrow> string \<Rightarrow> 'w \<Rightarrow> 'w \<times> pydict list" where
  "materialize_subtitles W source dir w =
     (case w_subtitles W of
        None \<Rightarrow> (w, [])
      | Some materialize \<Rightarrow>
          (case materialize w source dir of
             (w1, Inl _) \<Rightarrow> (w1, [])
           | (w1, Inr rows) \<Rightarrow> (w1, List.map_filter subtitle_entry rows)))"

record create_command =
  cc_anime :: int
  cc_file_id :: string
  cc_ttl :: int
  cc_audio :: "int option"
  cc_subtitle :: "int option"
  cc_start :: "rat option"

text \<open>The checks of \<open>create_session\<close> before anything is written: the episode and its length.\<close>

definition ffmpeg_missing_error :: pyerr where
  "ffmpeg_missing_error = InfrastructureError
     (''Playback is unavailable because ffmpeg/ffprobe was not found. '' @
      ''Run `.venv/Scripts/python.exe scripts/install_ffmpeg.py` '' @
      ''(or install ffmpeg on PATH), then restart the app.'')"

definition incomplete_error :: pyerr where
  "incomplete_error = ValidationError
     (''This episode can't be played yet -- the file looks incomplete '' @
      ''(its download may still be in progress). Wait for the torrent '' @
      ''to finish and try again.'')"

definition select_episode :: "'w player \<Rightarrow> create_command \<Rightarrow> 'w \<Rightarrow> (EpisodeFile \<times> rat) res" where
  "select_episode W cmd w =
     (case list_episode_files W w (cc_anime cmd) of
        Inl e \<Rightarrow> Inl e
      | Inr episodes \<Rightarrow>
          (case find (\<lambda>ep. ef_id ep = cc_file_id cmd) episodes of
             None \<Rightarrow> Inl (NotFoundError ''Requested episode file was not found.'')
           | Some selected \<Rightarrow>
               if \<not> w_is_file W w (ef_path selected)
               then Inl (NotFoundError ''Episode file is missing from disk.'')
               else case (case w_require_tools W of
                            Some require \<Rightarrow> require w
                          | None \<Rightarrow> if ef_blocker selected = Some ''ffmpeg_missing''
                                    then Inl ffmpeg_missing_error else Inr ()) of
                      Inl e \<Rightarrow> Inl e
                    | Inr _ \<Rightarrow>
                        let probed = probe_duration W w (ef_path selected);
                            duration = (case ef_duration selected of
                                          Some d \<Rightarrow> if probed \<le> 0 \<and> d > 0 then d else probed
                                        | None \<Rightarrow> probed)
                        in if duration \<le> 0 \<and> ef_audio selected = [] \<and> ef_subtitles selected = []
                           then Inl incomplete_error else Inr (selected, duration)))"

text \<open>
  The session \<open>create_session\<close> is about to register: identifiers, times, segments and anchor.
  \<open>now\<close> is the clock after the checks and \<open>dir\<close> the resolved output directory.
\<close>

definition planned_session ::
  "playback_config \<Rightarrow> create_command \<Rightarrow> EpisodeFile \<Rightarrow> rat \<Rightarrow> rat \<Rightarrow> string \<Rightarrow> string \<Rightarrow> PlaybackSession" where
  "planned_session c cmd selected duration now sid dir =
     (let ttl = max 60 (if cc_ttl cmd \<noteq> 0 then cc_ttl cmd else pc_ttl c);
          start = clamp_resume_seconds (cc_start cmd) (if duration > 0 then Some duration else None);
          segments = (if duration > 0 then initial_total duration (pc_segment c) else 0);
          resume_seg = (if start > 0 \<and> segments > 0
                        then resume_segment_index start segments (pc_segment c) else 0);
          start_segment = (if resume_seg > 0 then anchor_segment resume_seg else 0)
      in \<lparr>session_id = sid, ps_anime = cc_anime cmd, ps_file_id = ef_id selected,
          ps_file_title = ef_title selected, manifest_path = path_join dir ''index.m3u8'',
          output_dir = dir, token = build_token (pc_mac c) sid (now + of_int ttl),
          expires_at = now + of_int ttl, created_at = now, last_seen_at = now,
          audio_track = cc_audio cmd, subtitle_track = cc_subtitle cmd, subtitle_tracks = [],
          source_path = ef_path selected, duration_seconds = duration,
          segment_seconds = (if duration > 0 then pc_segment c else 0),
          total_segments = segments, hls_anchor_segment = start_segment,
          playback_start_seconds = start,
          live_playhead_segment = (if resume_seg > 0 then resume_seg else start_segment),
          transcode_start_segment = start_segment, ttl_seconds = ttl\<rparr>)"

text \<open>\<open>write_initial_playlist\<close>: a playlist of the whole episode, for a session of no name.\<close>

definition write_initial_playlist :: "'w player \<Rightarrow> PlaybackSession \<Rightarrow> 'w \<Rightarrow> 'w \<times> unit res" where
  "write_initial_playlist W s w =
     write_manifest_file W (s\<lparr>session_id := [], hls_anchor_segment := 0\<rparr>) w"

definition create_wait :: "PlaybackSession \<Rightarrow> rat" where
  "create_wait s =
     (if playback_start_seconds s > 0 then RESUME_SEGMENT_WAIT_SECONDS else SESSION_CREATE_WAIT_SECONDS)"

text \<open>Waiting for the segment under the playhead; a session of unknown length has none to wait for.\<close>

definition await_first_segment :: "'w player \<Rightarrow> PlaybackSession \<Rightarrow> 'w \<Rightarrow> 'w \<times> unit res" where
  "await_first_segment W s w =
     (if duration_seconds s \<le> 0 then (w, Inr ())
      else let seg = live_playhead_segment s;
               anchor = ''(anchor='' @ int_str (hls_anchor_segment s) @ '').''
           in case wait_for_file W (segment_file (output_dir s) seg) (create_wait s)
                     (\<lambda>w. \<not> is_running W w (session_id s)) w of
                (w1, Inl _) \<Rightarrow>
                  (w1, Inl (InfrastructureError
                     (''Transcoder exited before segment '' @ int_str_pad 5 seg @ '' became ready '' @ anchor
                      @ log_detail W (output_dir s) w1)))
              | (w1, Inr False) \<Rightarrow>
                  (w1, Inl (InfrastructureError
                     (''Resume segment '' @ int_str_pad 5 seg @ '' was not ready within ''
                      @ int_str (py_round (create_wait s)) @ ''s '' @ anchor @ log_detail W (output_dir s) w1)))
              | (w1, Inr True) \<Rightarrow> (w1, Inr ()))"

definition register_session :: "PlaybackSession \<Rightarrow> 'w playback \<Rightarrow> 'w playback" where
  "register_session s st =
     st\<lparr>pb_sessions := AList.update (session_id s) s (pb_sessions st),
        pb_locks := insert (session_id s) (pb_locks st)\<rparr>"

definition no_manifest_error :: pyerr where
  "no_manifest_error = InfrastructureError ''Transcoder did not produce a manifest file.''"

definition published :: "PlaybackSession \<Rightarrow> string \<Rightarrow> pydict list \<Rightarrow> PlaybackSession" where
  "published s manifest subs = s\<lparr>manifest_path := manifest, subtitle_tracks := subs\<rparr>"

text \<open>From the running encoder to the registered session.\<close>

definition publish_session ::
  "'w player \<Rightarrow> PlaybackSession \<Rightarrow> string option \<Rightarrow> 'w playback \<Rightarrow> 'w playback \<times> PlaybackSession res" where
  "publish_session W s artifact st =
     (case await_first_segment W s (pb_world st) of
        (w1, Inl e) \<Rightarrow> (st\<lparr>pb_world := w1\<rparr>, Inl e)
      | (w1, Inr _) \<Rightarrow>
          let (w2, subs) = materialize_subtitles W (source_path s) (output_dir s) w1;
              manifest = (if duration_seconds s \<le> 0 \<and> or_empty artifact \<noteq> [] then or_empty artifact
                          else manifest_path s);
              dto = published s manifest subs
          in if \<not> w_is_file W w2 manifest then (st\<lparr>pb_world := w2\<rparr>, Inl no_manifest_error)
             else let st1 = register_session dto (st\<lparr>pb_world := w2\<rparr>)
                  in if duration_seconds s > 0 \<and> (hls_anchor_segment s > 0 \<or> playback_start_seconds s > 0)
                     then (case write_manifest_file W dto w2 of
                             (w3, Inl e) \<Rightarrow> (st1\<lparr>pb_world := w3\<rparr>, Inl e)
                           | (w3, Inr _) \<Rightarrow> (st1\<lparr>pb_world := w3\<rparr>, Inr dto))
                     else (st1, Inr dto))"

text \<open>From the directory to the running encoder.\<close>

definition launch_session ::
  "'w player \<Rightarrow> playback_config \<Rightarrow> PlaybackSession \<Rightarrow> 'w playback \<Rightarrow> 'w playback \<times> PlaybackSession res" where
  "launch_session W c s st =
     (case w_mkdir W (pb_world st) (output_dir s) of
        (w1, Inl e) \<Rightarrow> (st\<lparr>pb_world := w1\<rparr>, Inl e)
      | (w1, Inr _) \<Rightarrow>
          (case (if duration_seconds s > 0 then write_initial_playlist W s w1 else (w1, Inr ())) of
             (w2, Inl e) \<Rightarrow> (st\<lparr>pb_world := w2\<rparr>, Inl e)
           | (w2, Inr _) \<Rightarrow>
               if playback_start_seconds s > 0 \<and> (duration_seconds s \<le> 0 \<or> live_playhead_segment s \<le> 0)
               then (st\<lparr>pb_world := w2\<rparr>,
                     Inl (ValidationError ''Cannot resume playback -- episode duration is unknown.''))
               else case w_start W w2 ((request_of s (hls_anchor_segment s))
                                         \<lparr>er_segment_seconds := pc_segment c\<rparr>) of
                      (w3, Inl e) \<Rightarrow> (st\<lparr>pb_world := w3\<rparr>, Inl e)
                    | (w3, Inr artifact) \<Rightarrow> publish_session W s artifact (st\<lparr>pb_world := w3\<rparr>)))"

text \<open>\<open>sid\<close> is the new \<open>uuid4().hex\<close>.\<close>

definition create_session ::
  "'w player \<Rightarrow> playback_config \<Rightarrow> string \<Rightarrow> create_command \<Rightarrow> 'w playback \<Rightarrow>
   'w playback \<times> PlaybackSession res" where
  "create_session W c sid cmd st =
     (let st0 = cleanup_stale_sessions W st; w = pb_world st0
      in case select_episode W cmd w of
           Inl e \<Rightarrow> (st0, Inl e)
         | Inr (selected, duration) \<Rightarrow>
             (case w_stream_root W w of
                Inl e \<Rightarrow> (st0, Inl e)
              | Inr stream_root \<Rightarrow>
                  let dir = w_resolve W w (path_join (w_resolve W w stream_root) sid)
                  in launch_session W c (planned_session c cmd selected duration (w_clock W w) sid dir) st0))"

end
