(* ===== verification/PlaybackLife.thy ===== *)
theory PlaybackLife
  imports Playback
begin

text \<open>
  What playback guarantees: waits end, probes far ahead change nothing, requests reach only what
  they may, and, over every sequence of calls that leads from a new service, each session stays
  well formed and its playhead never moves back.
\<close>

section \<open>Waiting ends\<close>

lemma poll_file_fuel:
  assumes "\<And>w. w_monotonic W w + 1 / 10 \<le> w_monotonic W (w_nap W w)"
    and "deadline \<le> w_monotonic W w + of_nat k / 10" and "k < n"
  shows "poll_file W n target deadline abort w = poll_file W (Suc k) target deadline abort w"
  using assms(2,3)
proof (induction k arbitrary: w n)
  case 0
  then show ?case by (cases n) auto
next
  case (Suc k)
  then obtain m where m: "n = Suc m" "k < m" by (cases n) auto
  have "deadline \<le> w_monotonic W (w_nap W w) + of_nat k / 10"
    using Suc.prems(1) assms(1) [of w] by (simp add: field_simps)
  from Suc.IH [OF this m(2)] show ?case by (simp add: m(1))
qed

lemma poll_file_result:
  "poll_file W n target deadline abort w = (w', Inr b) \<Longrightarrow> b = w_is_file W w' target"
  by (induction W n target deadline abort w rule: poll_file.induct) (auto split: if_splits)

lemma poll_file_naps:
  assumes "\<And>j. j < k \<Longrightarrow> \<not> w_is_file W ((w_nap W ^^ j) w) target
      \<and> \<not> abort ((w_nap W ^^ j) w) \<and> w_monotonic W ((w_nap W ^^ j) w) < deadline"
    and "w_is_file W ((w_nap W ^^ k) w) target" and "k \<le> n"
  shows "poll_file W n target deadline abort w = ((w_nap W ^^ k) w, Inr True)"
  using assms
proof (induction k arbitrary: w n)
  case 0
  then show ?case by (cases n) auto
next
  case (Suc k)
  then obtain m where m: "n = Suc m" "k \<le> m" by (cases n) auto
  have "poll_file W m target deadline abort (w_nap W w) = ((w_nap W ^^ k) (w_nap W w), Inr True)"
  proof (rule Suc.IH [OF _ _ m(2)])
    show "\<not> w_is_file W ((w_nap W ^^ j) (w_nap W w)) target
      \<and> \<not> abort ((w_nap W ^^ j) (w_nap W w)) \<and> w_monotonic W ((w_nap W ^^ j) (w_nap W w)) < deadline"
      if "j < k" for j
      using Suc.prems(1) [of "Suc j"] that by (simp only: funpow_Suc_right comp_apply) simp
    show "w_is_file W ((w_nap W ^^ k) (w_nap W w)) target"
      using Suc.prems(2) by (simp only: funpow_Suc_right comp_apply)
  qed
  moreover have "\<not> w_is_file W w target \<and> \<not> abort w \<and> \<not> w_monotonic W w \<ge> deadline"
    using Suc.prems(1) [of 0] by simp
  ultimately show ?case by (simp only: m(1) poll_file.simps funpow_Suc_right comp_apply if_False)
qed

lemma naps_take_time:
  assumes "\<And>w. w_monotonic W w + 1 / 10 \<le> w_monotonic W (w_nap W w)"
  shows "w_monotonic W w + of_nat k / 10 \<le> w_monotonic W ((w_nap W ^^ k) w)"
proof (induction k)
  case (Suc k)
  then show ?case using assms [of "(w_nap W ^^ k) w"] by (simp add: field_simps)
qed simp

lemma wait_fuel_enough: "max 0 timeout \<le> of_nat (wait_fuel timeout - 1) / 10"
proof -
  have c: "10 * max 0 timeout \<le> of_int \<lceil>10 * max 0 timeout\<rceil>" by (rule le_of_int_ceiling)
  have "0 \<le> 10 * max 0 timeout" by simp
  then have "0 \<le> \<lceil>10 * max 0 timeout\<rceil>" by linarith
  then have "(of_nat (nat \<lceil>10 * max 0 timeout\<rceil>) :: rat) = of_int \<lceil>10 * max 0 timeout\<rceil>" by (rule of_nat_nat)
  then show ?thesis using c by (simp only: wait_fuel_def diff_add_inverse2)
qed

text \<open>
  C31. A wait for a file ends and misses nothing: when a nap takes at least a tenth of a second, no
  further poll would change its outcome; and when the file appears after some naps, with the time
  not over and the encoder not dead at any of the earlier polls, the wait succeeds at that poll.
\<close>

theorem wait_finds_file_in_time:
  assumes "\<And>w. w_monotonic W w + 1 / 10 \<le> w_monotonic W (w_nap W w)"
    and "0 \<le> timeout"
  shows "(\<forall>n \<ge> wait_fuel timeout. poll_file W n target (w_monotonic W w + timeout) abort w
             = wait_for_file W target timeout abort w)
    \<and> (\<forall>k. w_is_file W ((w_nap W ^^ k) w) target
           \<and> (\<forall>j < k. \<not> w_is_file W ((w_nap W ^^ j) w) target \<and> \<not> abort ((w_nap W ^^ j) w)
                \<and> w_monotonic W ((w_nap W ^^ j) w) < w_monotonic W w + timeout)
         \<longrightarrow> wait_for_file W target timeout abort w = ((w_nap W ^^ k) w, Inr True))"
proof (intro conjI allI impI)
  let ?d = "w_monotonic W w + timeout"
  obtain k where k: "wait_fuel timeout = Suc k" by (simp add: wait_fuel_def)
  have d: "?d \<le> w_monotonic W w + of_nat k / 10" using wait_fuel_enough [of timeout] assms(2) k by simp
  have m: "max 0 timeout = timeout" using assms(2) by simp
  show more: "poll_file W n target ?d abort w = wait_for_file W target timeout abort w"
    if "wait_fuel timeout \<le> n" for n
    using poll_file_fuel [OF assms(1) d, of n] that by (simp add: k wait_for_file_def m)
  show "wait_for_file W target timeout abort w = ((w_nap W ^^ k) w, Inr True)"
    if h: "w_is_file W ((w_nap W ^^ k) w) target
           \<and> (\<forall>j < k. \<not> w_is_file W ((w_nap W ^^ j) w) target \<and> \<not> abort ((w_nap W ^^ j) w)
                \<and> w_monotonic W ((w_nap W ^^ j) w) < w_monotonic W w + timeout)" for k
    using more [of "max k (wait_fuel timeout)"] poll_file_naps [of k W w target abort ?d "max k (wait_fuel timeout)"] h
    by simp
qed

section \<open>Far-ahead probes\<close>

lemma restart_and_wait_result:
  "restart_and_wait W sid i target wait_secs latest st = (st', r) \<Longrightarrow>
   \<not> is_speculative_far_request W (pb_world st) (session_at st sid) i latest \<Longrightarrow> r \<noteq> Inl too_far_error"
  by (auto simp: restart_and_wait_def too_far_error_def Let_def split: if_splits prod.splits)

lemma is_speculative_far_request_iff:
  "is_speculative_far_request W w s i latest \<longleftrightarrow>
     is_running W w (session_id s)
     \<and> transcode_start_segment s \<le> max latest (max 0 (live_playhead_segment s)) + 2
     \<and> i > max latest (max 0 (live_playhead_segment s)) + 90"
  by (simp add: is_speculative_far_request_def playhead_head_segment_def Let_def playback_constants)

text \<open>
  A probe far ahead never disturbs a healthy encoder.  A request for a missing segment of the
  stream is turned down as too far ahead exactly when the encoder runs, encodes near the playhead
  and the segment lies more than ninety segments past both the playhead and the newest segment on
  disk; then nothing at all has changed: no restart, no wait, no playhead moved.
\<close>

lemma far_probe_leaves_encoder_alone:
  assumes "map_of (pb_sessions st) sid = Some s" and "name \<notin> set RESERVED_INTERNAL_NAMES"
    and "\<not> w_is_file W (pb_world st) target" and "segment_index name = Some i"
    and "0 < total_segments s" and "0 < segment_seconds s"
    and "i < total_segments s" and "hls_anchor_segment s \<le> i"
    and "latest = latest_existing_segment (w_listdir W (pb_world st) (output_dir s))"
  shows "ensure_segment W sid name target st = (st', Inl too_far_error) \<longleftrightarrow>
     st' = st \<and> is_running W (pb_world st) (session_id s)
     \<and> transcode_start_segment s \<le> max latest (max 0 (live_playhead_segment s)) + 2
     \<and> i > max latest (max 0 (live_playhead_segment s)) + 90"
proof -
  have s: "session_at st sid = s" using assms(1) by (simp add: session_at_def)
  define near where "near = (i \<le> latest + 3)"
  define far where "far = is_speculative_far_request W (pb_world st) s i latest"
  have near_far: "near \<Longrightarrow> \<not> is_speculative_far_request W w x i latest" for w x
    by (auto simp: near_def is_speculative_far_request_iff)
  have lock: "pb_world (restart_lock sid st) = pb_world st" "session_at (restart_lock sid st) sid = s"
    by (simp_all add: restart_lock_def session_at_def assms(1))
  have not_near: ?thesis if "\<not> near"
  proof -
    have e: "ensure_segment W sid name target st =
        (if far then (st, Inl too_far_error)
         else restart_and_wait W sid i target (segment_wait_seconds s i) latest (restart_lock sid st))"
      using assms that by (simp add: ensure_segment_def s Let_def far_def near_def)
    show ?thesis
      using restart_and_wait_result [of W sid i target "segment_wait_seconds s i" latest "restart_lock sid st" st']
      by (auto simp: e lock far_def is_speculative_far_request_iff)
  qed
  have is_near: ?thesis if n: near
  proof -
    obtain st1 found where st1: "wait_target W target (segment_wait_seconds s i)
        (if is_running W (pb_world st) (session_id s) then st else restart_at W sid i st) = (st1, found)"
      by fastforce
    have e: "ensure_segment W sid name target st =
        (if found then (note_playhead_segment sid i st1, Inr ())
         else restart_and_wait W sid i target (segment_wait_seconds s i) latest (restart_lock sid st1))"
      using assms n near_far [OF n] st1 by (simp add: ensure_segment_def s Let_def near_def)
    have "\<not> is_speculative_far_request W (pb_world st) s i latest" using near_far [OF n] .
    then show ?thesis
      using restart_and_wait_result [of W sid i target "segment_wait_seconds s i" latest "restart_lock sid st1" st']
        near_far [OF n]
      by (auto simp: e is_speculative_far_request_iff split: if_splits)
  qed
  show ?thesis using not_near is_near by blast
qed

section \<open>What a request may reach\<close>

lemma pb_world_on_session [simp]: "pb_world (on_session sid f st) = pb_world st"
  by (simp add: on_session_def)

lemma ensure_segment_not_internal:
  "ensure_segment W sid name target st = (st', Inr u) \<Longrightarrow> name \<notin> set RESERVED_INTERNAL_NAMES"
  by (auto simp: ensure_segment_def Let_def)

lemma resolve_target_confined:
  assumes "resolve_target W sid name st = (st', Inr target)"
  shows "if or_empty name \<noteq> []
    then validate_segment_name (or_empty name) \<and> or_empty name \<notin> set RESERVED_INTERNAL_NAMES
         \<and> within_dir target (w_resolve W (pb_world st) (output_dir (session_at st sid)))
    else target = manifest_path (session_at st sid)"
  using assms
  by (auto simp: resolve_target_def Let_def dest: ensure_segment_not_internal
      split: if_splits prod.splits sum.splits)


section \<open>A failed start\<close>

lemma wait_keeps:
  assumes "\<And>w. P w \<Longrightarrow> P (w_nap W w)" and "P w"
  shows "P (fst (poll_file W n target deadline abort w))"
  using assms(2) by (induction n arbitrary: w) (auto simp: assms(1))


text \<open>What can have happened to a world that a service without the session \<open>sid\<close> acts on.\<close>

lemma await_keeps:
  assumes "\<And>w. P w \<Longrightarrow> P (w_nap W w)" and "P w" and "await_first_segment W s w = (w1, r)"
  shows "P w1"
proof -
  let ?p = "poll_file W (wait_fuel (create_wait s)) (segment_file (output_dir s) (live_playhead_segment s))
      (w_monotonic W w + max 0 (create_wait s)) (\<lambda>w. \<not> is_running W w (session_id s)) w"
  have k: "P (fst ?p)" by (rule wait_keeps) (use assms(1,2) in auto)
  have "w1 = w \<or> w1 = fst ?p"
    using assms(3) by (auto simp: await_first_segment_def wait_for_file_def Let_def
        split: if_splits prod.splits sum.splits bool.splits)
  then show ?thesis using k assms(2) by auto
qed

lemma teardowns_keep:
  assumes "\<And>w k. k \<noteq> sid \<Longrightarrow> P w \<Longrightarrow> P (w_stop W w k)" and "\<And>w d. P w \<Longrightarrow> P (w_rmtree W w d)"
    and "\<forall>(k, x) \<in> set stale. session_id x \<noteq> sid" and "P w"
  shows "P (fold (\<lambda>(k, x). teardown W True x) stale w)"
  using assms(3,4) by (induction stale arbitrary: w) (auto simp: teardown_def Let_def assms(1,2))

lemma stop_unknown_session:
  "map_of (pb_sessions st) sid = None \<Longrightarrow> pb_world (stop_session W sid st) = pb_world st"
  by (simp add: stop_session_def Let_def)

text \<open>
  A failed start leaks its encoder.  When the first segment does not come, \<open>create_session\<close>
  fails without stopping the encoder it has started and without registering the session: whatever
  is true of the world until that encoder is stopped is still true after the failure, after the
  next cleanup and after a request to stop the session.
\<close>

lemma failed_start_leaves_encoder:
  assumes "\<And>w. P w \<Longrightarrow> P (w_nap W w)" and "\<And>w d. P w \<Longrightarrow> P (w_rmtree W w d)"
    and "\<And>w k. k \<noteq> session_id s \<Longrightarrow> P w \<Longrightarrow> P (w_stop W w k)"
    and "P (pb_world st)" and "session_id s \<notin> fst ` set (pb_sessions st)"
    and "\<forall>(k, x) \<in> set (pb_sessions st). session_id x = k"
    and "snd (await_first_segment W s (pb_world st)) = Inl e"
    and "publish_session W s artifact st = (st', r)"
  shows "r = Inl e \<and> pb_sessions st' = pb_sessions st \<and> P (pb_world st')
    \<and> P (pb_world (stop_session W (session_id s) (cleanup_stale_sessions W st')))"
proof -
  obtain w1 where a: "await_first_segment W s (pb_world st) = (w1, Inl e)"
    using assms(7) by (cases "await_first_segment W s (pb_world st)") auto
  have st': "st' = st\<lparr>pb_world := w1\<rparr>" and r: "r = Inl e"
    using assms(8) by (auto simp: publish_session_def a)
  have w1: "P w1" by (rule await_keeps [where P = P, OF assms(1,4) a])
  let ?st2 = "cleanup_stale_sessions W st'"
  let ?stale = "filter (\<lambda>(k, x). expires_at x \<le> w_clock W w1) (pb_sessions st)"
  have "session_id x \<noteq> session_id s" if "(k, x) \<in> set ?stale" for k x
  proof -
    have "(k, x) \<in> set (pb_sessions st)" using that by simp
    then show ?thesis using assms(5,6) by force
  qed
  then have "\<forall>(k, x) \<in> set ?stale. session_id x \<noteq> session_id s" by blast
  from teardowns_keep [where P = P, OF assms(3,2) this w1]
  have "P (pb_world ?st2)" by (simp add: cleanup_stale_sessions_def st' Let_def)
  moreover have "map_of (pb_sessions ?st2) (session_id s) = None"
    using assms(5) by (auto simp: st' cleanup_stale_sessions_def Let_def map_of_eq_None_iff)
  ultimately show ?thesis using w1 stop_unknown_session [of ?st2] by (simp add: st' r)
qed


section \<open>The life of a session\<close>

text \<open>
  One call of the service, or the world going on by itself.  A new session gets an identifier
  that no session has (\<open>uuid4\<close>).
\<close>

inductive playback_step :: "'w player \<Rightarrow> playback_config \<Rightarrow> 'w playback \<Rightarrow> 'w playback \<Rightarrow> bool"
  for W c where
  Create: "map_of (pb_sessions st) sid = None \<Longrightarrow> create_session W c sid cmd st = (st', r) \<Longrightarrow>
     playback_step W c st st'"
| Beat: "heartbeat W c sid position st = (st', r) \<Longrightarrow> playback_step W c st st'"
| Stop: "playback_step W c st (stop_session W sid st)"
| Serve: "resolve_media_path W c sid tok name st = (st', r) \<Longrightarrow> playback_step W c st st'"
| Cleanup: "playback_step W c st (cleanup_stale_sessions W st)"
| Delete: "delete_episode_file W anime file st = (st', r) \<Longrightarrow> playback_step W c st st'"
| World: "playback_step W c st (st\<lparr>pb_world := w\<rparr>)"

inductive playback_reachable :: "'w player \<Rightarrow> playback_config \<Rightarrow> 'w playback \<Rightarrow> bool" for W c where
  New: "playback_reachable W c (new_service w)"
| Step: "playback_reachable W c st \<Longrightarrow> playback_step W c st st' \<Longrightarrow> playback_reachable W c st'"

definition session_ok :: "playback_config \<Rightarrow> string \<Rightarrow> PlaybackSession \<Rightarrow> bool" where
  "session_ok c sid s \<longleftrightarrow>
     session_id s = sid \<and> 60 \<le> ttl_seconds s
     \<and> token s = build_token (pc_mac c) sid (expires_at s)
     \<and> 0 \<le> hls_anchor_segment s \<and> hls_anchor_segment s \<le> live_playhead_segment s
     \<and> hls_anchor_segment s \<le> transcode_start_segment s
     \<and> transcode_start_segment s \<le> max 0 (total_segments s - 1)
     \<and> (0 < total_segments s \<longrightarrow> 0 < segment_seconds s)"

text \<open>What a session keeps, and how its playhead and encoder may move.\<close>

definition session_moves :: "playback_config \<Rightarrow> PlaybackSession \<Rightarrow> PlaybackSession \<Rightarrow> bool" where
  "session_moves c s s' \<longleftrightarrow>
     session_id s' = session_id s \<and> source_path s' = source_path s \<and> output_dir s' = output_dir s
     \<and> manifest_path s' = manifest_path s \<and> duration_seconds s' = duration_seconds s
     \<and> ttl_seconds s' = ttl_seconds s \<and> total_segments s' = total_segments s
     \<and> segment_seconds s' = segment_seconds s \<and> hls_anchor_segment s' = hls_anchor_segment s
     \<and> live_playhead_segment s \<le> live_playhead_segment s'
     \<and> (transcode_start_segment s' = transcode_start_segment s
        \<or> hls_anchor_segment s \<le> transcode_start_segment s' \<and> transcode_start_segment s' < total_segments s)
     \<and> (token s' = token s \<and> expires_at s' = expires_at s
        \<or> token s' = build_token (pc_mac c) (session_id s) (expires_at s'))"

definition service_moves :: "playback_config \<Rightarrow> 'w playback \<Rightarrow> 'w playback \<Rightarrow> bool" where
  "service_moves c st st' \<longleftrightarrow>
     (\<forall>sid s'. map_of (pb_sessions st') sid = Some s' \<longrightarrow>
        (\<exists>s. map_of (pb_sessions st) sid = Some s \<and> session_moves c s s'))
     \<and> (distinct (map fst (pb_sessions st)) \<longrightarrow> distinct (map fst (pb_sessions st')))"

lemma session_moves_refl [simp]: "session_moves c s s"
  by (simp add: session_moves_def)

lemma session_moves_trans: "session_moves c s1 s2 \<Longrightarrow> session_moves c s2 s3 \<Longrightarrow> session_moves c s1 s3"
  unfolding session_moves_def by auto

lemma session_moves_ok: "session_moves c s s' \<Longrightarrow> session_ok c sid s \<Longrightarrow> session_ok c sid s'"
  unfolding session_moves_def session_ok_def by auto

lemma service_moves_refl [simp]: "service_moves c st st"
  by (simp add: service_moves_def)

lemma service_moves_trans:
  "service_moves c st1 st2 \<Longrightarrow> service_moves c st2 st3 \<Longrightarrow> service_moves c st1 st3"
  unfolding service_moves_def by (meson session_moves_trans)

lemma service_moves_same: "pb_sessions st' = pb_sessions st \<Longrightarrow> service_moves c st st'"
  by (simp add: service_moves_def)

lemma map_of_on_session:
  "map_of (pb_sessions (on_session sid f st)) k =
     (if k = sid then map_option f (map_of (pb_sessions st) k) else map_of (pb_sessions st) k)"
  by (simp add: on_session_def map_of_map_entry split: option.splits)

lemma keys_map_entry: "map fst (AList.map_entry k f xs) = map fst xs"
  by (induction xs) auto

lemma distinct_on_session:
  "distinct (map fst (pb_sessions (on_session sid f st))) = distinct (map fst (pb_sessions st))"
  by (simp add: on_session_def keys_map_entry)

lemma on_session_moves:
  assumes "\<And>s. map_of (pb_sessions st) sid = Some s \<Longrightarrow> session_moves c s (f s)"
  shows "service_moves c st (on_session sid f st)"
  using assms by (auto simp: service_moves_def map_of_on_session distinct_on_session)

lemma drop_sessions_moves:
  assumes "pb_sessions st' = filter P (pb_sessions st)" and "distinct (map fst (pb_sessions st))"
  shows "service_moves c st st'"
proof -
  have "map_of (filter P (pb_sessions st)) k = Some s \<Longrightarrow> map_of (pb_sessions st) k = Some s" for k s
    using map_of_SomeD [of "filter P (pb_sessions st)" k s] assms(2) by simp
  then show ?thesis by (auto simp: service_moves_def assms distinct_map_filter)
qed


section \<open>Every operation moves sessions\<close>

lemma wait_target_sessions [simp]: "pb_sessions (fst (wait_target W target t st)) = pb_sessions st"
  by (simp add: wait_target_def Let_def split: prod.splits)

lemma restart_lock_sessions [simp]: "pb_sessions (restart_lock sid st) = pb_sessions st"
  by (simp add: restart_lock_def)

lemma note_moves: "service_moves c st (note_playhead_segment sid i st)"
  unfolding note_playhead_segment_def by (rule on_session_moves) (simp add: session_moves_def)

lemma restart_moves:
  assumes "\<And>s. map_of (pb_sessions st) sid = Some s \<Longrightarrow> hls_anchor_segment s \<le> i \<and> i < total_segments s"
  shows "service_moves c st (restart_at W sid i st)"
proof (cases "w_start W (pb_world st) (request_of (session_at st sid) i)")
  case (Pair w r)
  show ?thesis
  proof (cases r)
    case (Inr b)
    have "service_moves c (st\<lparr>pb_world := w\<rparr>) (restart_at W sid i st)"
      by (simp add: restart_at_def Pair Inr) (rule on_session_moves, use assms in \<open>auto simp: session_moves_def\<close>)
    then show ?thesis by (simp add: service_moves_def)
  qed (simp add: restart_at_def Pair service_moves_same)
qed

lemma then_note:
  "service_moves c st st1 \<Longrightarrow> service_moves c st (note_playhead_segment sid i st1)"
  by (rule service_moves_trans [OF _ note_moves])

lemma then_wait:
  "service_moves c st st1 \<Longrightarrow> service_moves c st (fst (wait_target W target t st1))"
  by (rule service_moves_trans, assumption) (rule service_moves_same, simp)

lemma restart_and_wait_moves:
  assumes "\<And>s. map_of (pb_sessions st) sid = Some s \<Longrightarrow> hls_anchor_segment s \<le> i \<and> i < total_segments s"
  shows "service_moves c st (fst (restart_and_wait W sid i target wait_secs latest st))"
proof -
  have "service_moves c st (restart_at W sid i st)" using assms by (rule restart_moves)
  then have "service_moves c st (fst (wait_target W target wait_secs (restart_at W sid i st)))" by (rule then_wait)
  then show ?thesis by (auto simp: restart_and_wait_def Let_def note_moves intro: then_note split: prod.splits)
qed

lemma moved_bounds:
  assumes "service_moves c st st'" and "\<And>s. map_of (pb_sessions st) sid = Some s \<Longrightarrow> hls_anchor_segment s \<le> i \<and> i < total_segments s"
    and "map_of (pb_sessions st') sid = Some s'"
  shows "hls_anchor_segment s' \<le> i \<and> i < total_segments s'"
  using assms unfolding service_moves_def session_moves_def by fastforce

lemma ensure_segment_moves:
  "service_moves c st (fst (ensure_segment W sid name target st))"
proof -
  let ?s = "session_at st sid"
  have "service_moves c st (fst (ensure_segment W sid name target st))"
    if i: "segment_index name = Some i" and b: "hls_anchor_segment ?s \<le> i" "i < total_segments ?s"
    and n: "name \<notin> set RESERVED_INTERNAL_NAMES" "\<not> w_is_file W (pb_world st) target"
      "0 < total_segments ?s" "0 < segment_seconds ?s" for i
  proof -
    have bounds: "hls_anchor_segment s \<le> i \<and> i < total_segments s" if "map_of (pb_sessions st) sid = Some s" for s
      using b that by (simp add: session_at_def)
    let ?latest = "latest_existing_segment (w_listdir W (pb_world st) (output_dir ?s))"
    let ?secs = "segment_wait_seconds ?s i"
    define near where "near = (if i \<le> ?latest + 3
        then wait_target W target ?secs (if is_running W (pb_world st) (session_id ?s) then st else restart_at W sid i st)
        else (st, False))"
    have m1: "service_moves c st (fst near)"
      by (simp add: near_def then_wait restart_moves bounds)
    have bounds1: "hls_anchor_segment s \<le> i \<and> i < total_segments s"
      if "map_of (pb_sessions (fst near)) sid = Some s" for s
      using moved_bounds [OF m1 bounds that] .
    have m2: "service_moves c st (fst (restart_and_wait W sid i target ?secs ?latest (restart_lock sid (fst near))))"
      by (rule service_moves_trans [OF m1]) (use restart_and_wait_moves [of "restart_lock sid (fst near)" sid i c] bounds1
          in \<open>simp add: service_moves_def\<close>)
    have e: "ensure_segment W sid name target st =
        (if snd near then (note_playhead_segment sid i (fst near), Inr ())
         else if is_speculative_far_request W (pb_world (fst near)) (session_at (fst near) sid) i ?latest
         then (fst near, Inl too_far_error)
         else restart_and_wait W sid i target ?secs ?latest (restart_lock sid (fst near)))"
      using i b n unfolding near_def by (simp add: ensure_segment_def Let_def split: prod.splits)
    show ?thesis using m1 m2 by (simp add: e then_note)
  qed
  then show ?thesis
    by (cases "segment_index name") (auto simp: ensure_segment_def Let_def note_moves then_wait not_le not_less)
qed


lemma resolve_target_moves: "service_moves c st (fst (resolve_target W sid name st))"
proof -
  have "service_moves c st st1"
    if "ensure_segment W sid n target st = (st1, r)" for st1 r n target
    using ensure_segment_moves [of c st W sid n target] that by simp
  then show ?thesis
    by (auto simp: resolve_target_def Let_def service_moves_same split: prod.splits sum.splits)
qed

lemma cleanup_moves:
  "distinct (map fst (pb_sessions st)) \<Longrightarrow> service_moves c st (cleanup_stale_sessions W st)"
  by (rule drop_sessions_moves) (simp_all add: cleanup_stale_sessions_def Let_def)

lemma resolve_moves:
  assumes "resolve_media_path W c sid tok name st = (st', r)" and "distinct (map fst (pb_sessions st))"
  shows "service_moves c st st'"
proof -
  let ?st0 = "cleanup_stale_sessions W st"
  have 0: "service_moves c st ?st0" using assms(2) by (rule cleanup_moves)
  have 1: "service_moves c st (fst (resolve_target W sid name ?st0))"
    by (rule service_moves_trans [OF 0 resolve_target_moves])
  have seen: "service_moves c st1 (on_session sid (\<lambda>s. s\<lparr>last_seen_at := t\<rparr>) st1)" for t st1
    by (rule on_session_moves) (simp add: session_moves_def)
  have 2: "service_moves c st (on_session sid (\<lambda>s. s\<lparr>last_seen_at := t\<rparr>) (fst (resolve_target W sid name ?st0)))" for t
    by (rule service_moves_trans [OF 1 seen])
  show ?thesis using 0 1 2 assms(1)
    by (auto simp: resolve_media_path_def Let_def split: option.splits if_splits prod.splits sum.splits)
qed

lemma heartbeat_moves:
  assumes "heartbeat W c sid position st = (st', r)"
  shows "service_moves c st st'"
proof (cases "map_of (pb_sessions st) sid")
  case (Some s)
  have "session_moves c s (beat c (w_clock W (pb_world st)) position s)"
    by (auto simp: session_moves_def beat_def Let_def split: option.splits)
  then have "service_moves c st (on_session sid (\<lambda>_. beat c (w_clock W (pb_world st)) position s) st)"
    by (intro on_session_moves) (simp add: Some)
  then show ?thesis using assms by (auto simp: heartbeat_def Some Let_def)
qed (use assms in \<open>auto simp: heartbeat_def\<close>)

lemma stop_moves:
  "distinct (map fst (pb_sessions st)) \<Longrightarrow> service_moves c st (stop_session W sid st)"
  by (rule drop_sessions_moves [where P = "\<lambda>(k, s). k \<noteq> sid"])
    (simp_all add: stop_session_def Let_def split: option.splits)

section \<open>New sessions\<close>

lemma planned_session_ok:
  assumes "0 < pc_segment c" and "s = planned_session c cmd selected duration now sid dir"
  shows "session_ok c sid s"
  using assms(1) by (auto simp: assms(2) planned_session_def session_ok_def Let_def anchor_segment_def
      resume_segment_index_def PREFETCH_MARGIN_def)

definition registers :: "PlaybackSession \<Rightarrow> 'w playback \<Rightarrow> 'w playback \<Rightarrow> bool" where
  "registers s st st' \<longleftrightarrow> pb_sessions st' = pb_sessions st
    \<or> (\<exists>m subs. pb_sessions st' = AList.update (session_id s) (published s m subs) (pb_sessions st))"

lemma registers_same: "pb_sessions st' = pb_sessions st \<Longrightarrow> registers s st st'"
  by (simp add: registers_def)

lemma registers_new:
  "pb_sessions st' = AList.update (session_id s) (published s m subs) (pb_sessions st) \<Longrightarrow> registers s st st'"
  by (auto simp: registers_def)

lemma published_id [simp]: "session_id (published s m subs) = session_id s"
  by (simp add: published_def)

lemma publish_sessions:
  "publish_session W s artifact st = (st', r) \<Longrightarrow> registers s st st'"
  by (auto simp: publish_session_def register_session_def Let_def registers_same registers_new
      split: prod.splits sum.splits if_splits)

lemma launch_publishes:
  assumes "launch_session W c s st = (st', r)"
  shows "pb_sessions st' = pb_sessions st
    \<or> (\<exists>w artifact. publish_session W s artifact (st\<lparr>pb_world := w\<rparr>) = (st', r))"
  using assms by (auto simp: launch_session_def split: prod.splits sum.splits if_splits)

lemma launch_sessions:
  assumes "launch_session W c s st = (st', r)"
  shows "registers s st st'"
proof -
  have "registers s st st'" if "publish_session W s artifact (st\<lparr>pb_world := w\<rparr>) = (st', r)" for w artifact
    using publish_sessions [OF that] by (simp add: registers_def)
  then show ?thesis using launch_publishes [OF assms] registers_same by blast
qed

lemma create_sessions:
  assumes "create_session W c sid cmd st = (st', r)" and "0 < pc_segment c"
  shows "pb_sessions st' = pb_sessions (cleanup_stale_sessions W st)
    \<or> (\<exists>s. session_ok c sid s \<and> pb_sessions st' = AList.update sid s (pb_sessions (cleanup_stale_sessions W st)))"
proof -
  let ?st0 = "cleanup_stale_sessions W st"
  have "pb_sessions st' = pb_sessions ?st0
    \<or> (\<exists>s. session_ok c sid s \<and> pb_sessions st' = AList.update sid s (pb_sessions ?st0))"
    if "launch_session W c (planned_session c cmd ep d now sid dir) ?st0 = (st', r)" for ep d now dir
  proof -
    let ?s = "planned_session c cmd ep d now sid dir"
    have "session_ok c sid ?s" using assms(2) by (rule planned_session_ok) simp
    then have "session_id ?s = sid" "session_ok c sid (published ?s m subs)" for m subs
      by (simp_all add: session_ok_def published_def)
    then show ?thesis using launch_sessions [OF that] unfolding registers_def by metis
  qed
  then show ?thesis using assms(1)
    by (auto simp: create_session_def Let_def split: sum.splits prod.splits)
qed

section \<open>The invariant\<close>

definition playback_ok :: "playback_config \<Rightarrow> 'w playback \<Rightarrow> bool" where
  "playback_ok c st \<longleftrightarrow>
     distinct (map fst (pb_sessions st))
     \<and> (\<forall>sid s. map_of (pb_sessions st) sid = Some s \<longrightarrow> session_ok c sid s)"

lemma service_moves_playback_ok: "service_moves c st st' \<Longrightarrow> playback_ok c st \<Longrightarrow> playback_ok c st'"
  unfolding service_moves_def playback_ok_def by (meson session_moves_ok)

lemma create_ok:
  assumes "create_session W c sid cmd st = (st', r)" and "0 < pc_segment c" and "playback_ok c st"
  shows "playback_ok c st'"
proof -
  have "playback_ok c (cleanup_stale_sessions W st)"
    using assms(3) cleanup_moves service_moves_playback_ok unfolding playback_ok_def by meson
  then show ?thesis using create_sessions [OF assms(1,2)]
    by (auto simp: playback_ok_def update_conv' distinct_update split: if_splits)
qed

lemma playback_step_cases:
  assumes "playback_step W c st st'" and "distinct (map fst (pb_sessions st))"
  shows "service_moves c st st'
    \<or> (\<exists>new cmd r. map_of (pb_sessions st) new = None \<and> create_session W c new cmd st = (st', r))"
  using assms(1)
proof (cases rule: playback_step.cases)
  case (Create new cmd r)
  then show ?thesis by blast
next
  case (Beat sid position r)
  then show ?thesis using heartbeat_moves by blast
next
  case (Stop sid)
  then show ?thesis using stop_moves [OF assms(2)] by blast
next
  case (Serve sid tok name r)
  then show ?thesis using resolve_moves [OF _ assms(2)] by blast
next
  case Cleanup
  then show ?thesis using cleanup_moves [OF assms(2)] by blast
next
  case (Delete anime f r)
  then have "pb_sessions st' = pb_sessions st"
    by (auto simp: delete_episode_file_def Let_def split: prod.splits)
  then show ?thesis by (simp add: service_moves_same)
next
  case (World w)
  then show ?thesis by (simp add: service_moves_same)
qed

lemma service_moves_at:
  "service_moves c st st' \<Longrightarrow> map_of (pb_sessions st) sid = Some s \<Longrightarrow>
   map_of (pb_sessions st') sid = Some s' \<Longrightarrow> session_moves c s s'"
  unfolding service_moves_def by fastforce

lemma playback_step_moves:
  assumes "playback_step W c st st'" and "distinct (map fst (pb_sessions st))" and "0 < pc_segment c"
    and "map_of (pb_sessions st) sid = Some s" and "map_of (pb_sessions st') sid = Some s'"
  shows "session_moves c s s'"
  using playback_step_cases [OF assms(1,2)]
proof
  assume "\<exists>new cmd r. map_of (pb_sessions st) new = None \<and> create_session W c new cmd st = (st', r)"
  then obtain new cmd r where n: "map_of (pb_sessions st) new = None"
    and cr: "create_session W c new cmd st = (st', r)" by blast
  have "new \<noteq> sid" using n assms(4) by auto
  then have "map_of (pb_sessions (cleanup_stale_sessions W st)) sid = Some s'"
    using create_sessions [OF cr assms(3)] assms(5) by (auto simp: update_conv')
  then show ?thesis by (rule service_moves_at [OF cleanup_moves [OF assms(2)] assms(4)])
qed (rule service_moves_at [OF _ assms(4,5)])

lemma playback_step_ok:
  assumes "playback_step W c st st'" and "playback_ok c st" and "0 < pc_segment c"
  shows "playback_ok c st'"
proof -
  have "distinct (map fst (pb_sessions st))" using assms(2) by (simp add: playback_ok_def)
  from playback_step_cases [OF assms(1) this] show ?thesis
    using service_moves_playback_ok [OF _ assms(2)] create_ok [OF _ assms(3,2)] by blast
qed

lemma new_service_playback_ok: "playback_ok c (new_service w)"
  by (simp add: playback_ok_def new_service_def)

lemma playback_reachable_ok:
  "playback_reachable W c st \<Longrightarrow> 0 < pc_segment c \<Longrightarrow> playback_ok c st"
  by (induction rule: playback_reachable.induct)
    (auto simp: new_service_playback_ok intro: playback_step_ok)

text \<open>
  C8. Sessions stay well formed.  In every state that calls of the service can lead to, with the
  world doing what it likes in between, no identifier has two sessions; every session has its own
  identifier, the token for its expiry and a lifetime of at least a minute, and its encoder started
  inside the stream at or after the anchor.  Each further call leaves the source, the directory and
  the segments of a session alone and never moves its playhead back.
\<close>

theorem sessions_stay_well_formed:
  assumes "playback_reachable W (new_config mac default_ttl segment_secs) st"
    and "playback_step W (new_config mac default_ttl segment_secs) st st'"
  shows "distinct (map fst (pb_sessions st'))
    \<and> (\<forall>sid s'. map_of (pb_sessions st') sid = Some s' \<longrightarrow>
         session_id s' = sid \<and> 60 \<le> ttl_seconds s' \<and> token s' = build_token mac sid (expires_at s')
         \<and> 0 \<le> hls_anchor_segment s' \<and> hls_anchor_segment s' \<le> live_playhead_segment s'
         \<and> hls_anchor_segment s' \<le> transcode_start_segment s'
         \<and> transcode_start_segment s' \<le> max 0 (total_segments s' - 1)
         \<and> (\<forall>s. map_of (pb_sessions st) sid = Some s \<longrightarrow>
              live_playhead_segment s \<le> live_playhead_segment s'
              \<and> source_path s' = source_path s \<and> output_dir s' = output_dir s
              \<and> total_segments s' = total_segments s \<and> hls_anchor_segment s' = hls_anchor_segment s))"
proof -
  let ?c = "new_config mac default_ttl segment_secs"
  have p: "0 < pc_segment ?c" "pc_mac ?c = mac" by (simp_all add: new_config_def)
  have ok: "playback_ok ?c st" by (rule playback_reachable_ok [OF assms(1) p(1)])
  have ok': "playback_ok ?c st'" by (rule playback_step_ok [OF assms(2) ok p(1)])
  have d: "distinct (map fst (pb_sessions st))" using ok by (simp add: playback_ok_def)
  have "session_moves ?c s s'"
    if "map_of (pb_sessions st) sid = Some s" "map_of (pb_sessions st') sid = Some s'" for sid s s'
    by (rule playback_step_moves [OF assms(2) d p(1) that])
  then show ?thesis using ok' p(2) by (auto simp: playback_ok_def session_ok_def session_moves_def)
qed

section \<open>Examples\<close>

text \<open>
  A small world: one episode of 1440 seconds, ten seconds per nap; a running encoder has
  its first segment ready at the given tick.  The world is the tick and the running encoders.
\<close>

definition sample_player :: "nat \<Rightarrow> (nat \<times> string list) player" where
  "sample_player ready =
     \<lparr>w_is_file = (\<lambda>(t, running) p. p = ''/v/e.mkv'' \<or> p = ''/c/s1/index.m3u8''
                      \<or> (running \<noteq> [] \<and> t \<ge> ready \<and> p = ''/c/s1/segment_00000.ts'')),
      w_listdir = (\<lambda>(t, running) d. Some (if t \<ge> ready then [''segment_00000.ts''] else [])),
      w_read = (\<lambda>w p. None), w_write = (\<lambda>w p t. (w, Inr ())), w_mkdir = (\<lambda>w p. (w, Inr ())),
      w_rmtree = (\<lambda>w p. w), w_resolve = (\<lambda>w p. p),
      w_clock = (\<lambda>(t, running). 1000 + 10 * of_nat t), w_monotonic = (\<lambda>(t, running). 10 * of_nat t),
      w_nap = (\<lambda>(t, running). (Suc t, running)),
      w_start = (\<lambda>(t, running) r. ((t, er_session r # running), Inr None)),
      w_stop = (\<lambda>(t, running) sid. (t, filter (\<lambda>x. x \<noteq> sid) running)),
      w_running = Some (\<lambda>(t, running) sid. Inr (sid \<in> set running)),
      w_episodes = (\<lambda>w a. Inr [[(''file_id'', PStr ''f1''), (''path'', PStr ''/v/e.mkv'')]]),
      w_stream_root = (\<lambda>w. Inr ''/c''), w_delete = (\<lambda>w a f. (w, Inr True)),
      w_probe_available = None, w_require_tools = None, w_tracks = (\<lambda>w p. Inr ([], [])),
      w_duration = Some (\<lambda>w p. Inr 1440), w_subtitles = None\<rparr>"

definition sample_playback_config :: playback_config where
  "sample_playback_config = new_config (\<lambda>p. ''sig'') 900 4"

definition sample_command :: create_command where
  "sample_command = \<lparr>cc_anime = 1, cc_file_id = ''f1'', cc_ttl = 900, cc_audio = None,
                     cc_subtitle = None, cc_start = None\<rparr>"

definition sample_started :: "nat \<Rightarrow> (nat \<times> string list) playback \<times> PlaybackSession res" where
  "sample_started ready =
     create_session (sample_player ready) sample_playback_config ''s1'' sample_command (new_service (0, []))"

lemma poll_file_numeral:
  "poll_file W (numeral k) target deadline abort w =
     (if w_is_file W w target then (w, Inr True)
      else if abort w then (w, Inl (RuntimeError ''aborted''))
      else if w_monotonic W w \<ge> deadline then (w, Inr (w_is_file W w target))
      else poll_file W (pred_numeral k) target deadline abort (w_nap W w))"
  by (simp add: numeral_eq_Suc)

lemma sample_fields [simp]:
  "w_is_file (sample_player r) (t, run) p =
     (p = ''/v/e.mkv'' \<or> p = ''/c/s1/index.m3u8'' \<or> (run \<noteq> [] \<and> t \<ge> r \<and> p = ''/c/s1/segment_00000.ts''))"
  "w_listdir (sample_player r) (t, run) d = Some (if t \<ge> r then [''segment_00000.ts''] else [])"
  "w_read (sample_player r) w p = None" "w_write (sample_player r) w p content = (w, Inr ())"
  "w_mkdir (sample_player r) w p = (w, Inr ())" "w_rmtree (sample_player r) w p = w"
  "w_resolve (sample_player r) w p = p" "w_clock (sample_player r) (t, run) = 1000 + 10 * of_nat t"
  "w_monotonic (sample_player r) (t, run) = 10 * of_nat t" "w_nap (sample_player r) (t, run) = (Suc t, run)"
  "w_start (sample_player r) (t, run) q = ((t, er_session q # run), Inr None)"
  "w_stop (sample_player r) (t, run) sid = (t, filter (\<lambda>x. x \<noteq> sid) run)"
  "is_running (sample_player r) (t, run) sid = (sid \<in> set run)"
  "w_stream_root (sample_player r) w = Inr ''/c''" "w_subtitles (sample_player r) = None"
  by (simp_all add: sample_player_def is_running_def)

lemmas sample_simps = sample_player_def sample_playback_config_def sample_command_def new_config_def new_service_def

lemma sample_paths [simp]:
  "path_join ''/c'' ''s1'' = ''/c/s1''" "path_join ''/c/s1'' ''index.m3u8'' = ''/c/s1/index.m3u8''"
  "segment_file ''/c/s1'' 0 = ''/c/s1/segment_00000.ts''" "path_join ''/c/s1'' ''segment_00000.ts'' = ''/c/s1/segment_00000.ts''"
  by code_simp+

definition sample_session :: PlaybackSession where
  "sample_session = planned_session sample_playback_config sample_command
     \<lparr>ef_id = ''f1'', ef_title = ''e.mkv'', ef_path = ''/v/e.mkv'', ef_size = None, ef_season = None,
      ef_episode = None, ef_audio = [], ef_subtitles = [], ef_duration = Some 1440, ef_blocker = None\<rparr>
     1440 1000 ''s1'' ''/c/s1''"

lemma sample_session_fields [simp]:
  "session_id sample_session = ''s1''" "total_segments sample_session = 360"
  "segment_seconds sample_session = 4" "hls_anchor_segment sample_session = 0"
  "playback_start_seconds sample_session = 0" "live_playhead_segment sample_session = 0"
  "transcode_start_segment sample_session = 0" "output_dir sample_session = ''/c/s1''"
  "manifest_path sample_session = ''/c/s1/index.m3u8''" "duration_seconds sample_session = 1440"
  "expires_at sample_session = 1900" "source_path sample_session = ''/v/e.mkv''"
  "ps_file_id sample_session = ''f1''"
  by (simp_all add: sample_session_def planned_session_def Let_def sample_simps clamp_resume_seconds_def
      normalize_resume_seconds_def initial_total_def)

lemma sample_published:
  "sample_session\<lparr>manifest_path := ''/c/s1/index.m3u8'', subtitle_tracks := []\<rparr> = sample_session"
  by (simp add: sample_session_def planned_session_def Let_def)

lemma sample_selected:
  "select_episode (sample_player ready) sample_command w =
     Inr (\<lparr>ef_id = ''f1'', ef_title = ''e.mkv'', ef_path = ''/v/e.mkv'', ef_size = None, ef_season = None,
      ef_episode = None, ef_audio = [], ef_subtitles = [], ef_duration = Some 1440, ef_blocker = None\<rparr>, 1440)"
proof -
  have t: "path_name ''/v/e.mkv'' = ''e.mkv''" "py_strip (py_str (PStr ''f1'')) = ''f1''"
    "py_strip (py_str (PStr ''/v/e.mkv'')) = ''/v/e.mkv''" by code_simp+
  have d: "dget [(''file_id'', PStr ''f1''), (''path'', PStr ''/v/e.mkv'')] k = 
     (if k = ''file_id'' then PStr ''f1'' else if k = ''path'' then PStr ''/v/e.mkv'' else PNone)" for k
    by (simp add: dget_def)
  show ?thesis
    by (cases w) (simp add: select_episode_def list_episode_files_def episode_row_def sample_simps d t Let_def
      probe_duration_def str_or_empty_def py_or_def)
qed

lemma sample_create:
  "sample_started ready = launch_session (sample_player ready) sample_playback_config sample_session (new_service (0, []))"
proof -
  have c: "cleanup_stale_sessions W (new_service w) = new_service w" for W :: "(nat \<times> string list) player" and w
    by (simp add: cleanup_stale_sessions_def new_service_def Let_def)
  show ?thesis
    by (simp add: sample_started_def create_session_def c Let_def sample_selected)
     (simp add: sample_session_def new_service_def)
qed


lemma wait_for_file_sample:
  "wait_for_file (sample_player r) p 25 abort w =
     poll_file (sample_player r) 251 p (w_monotonic (sample_player r) w + 25) abort w"
  by (simp add: wait_for_file_def wait_fuel_def)

lemma sample_started_ok:
  "map_of (pb_sessions (fst (sample_started 1))) ''s1'' = Some sample_session
   \<and> pb_world (fst (sample_started 1)) = (1, [''s1''])"
proof -
  have "await_first_segment (sample_player 1) sample_session (0, [''s1'']) = ((1, [''s1'']), Inr ())"
    by (simp add: await_first_segment_def Let_def create_wait_def SESSION_CREATE_WAIT_SECONDS_def
        wait_for_file_sample poll_file_numeral)
  then have "publish_session (sample_player 1) sample_session None (new_service (0, [''s1''])) =
     (register_session sample_session (new_service (1, [''s1''])), Inr sample_session)"
    by (simp add: publish_session_def materialize_subtitles_def new_service_def Let_def) (simp add: published_def sample_published)
  then show ?thesis
    by (simp add: sample_create launch_session_def write_initial_playlist_def write_manifest_file_def
        new_service_def request_of_def) (simp add: register_session_def)
qed


theorem wait_finds_file_in_time_witness:
  "wait_for_file (sample_player 2) ''/c/s1/segment_00000.ts'' 25 (\<lambda>_. False) (0, [''s1'']) = ((2, [''s1'']), Inr True)"
proof -
  have "w_monotonic (sample_player 2) w + 1 / 10 \<le> w_monotonic (sample_player 2) (w_nap (sample_player 2) w)" for w
    by (cases w) simp
  from wait_finds_file_in_time [where W = "sample_player 2" and timeout = 25 and w = "(0, [''s1''])"
      and target = "''/c/s1/segment_00000.ts''" and abort = "\<lambda>_. False", OF this]
  show ?thesis by (auto simp: numeral_2_eq_2 less_Suc_eq dest!: spec [where x = "Suc (Suc 0)"])
qed

definition sample_state :: "nat \<Rightarrow> (nat \<times> string list) playback" where
  "sample_state t = \<lparr>pb_sessions = [(''s1'', sample_session)], pb_locks = {}, pb_world = (t, [''s1''])\<rparr>"

lemma far_probe_leaves_encoder_alone_witness:
  "ensure_segment (sample_player 1) ''s1'' ''segment_00177.ts'' ''/c/s1/segment_00177.ts'' (sample_state 3)
     = (sample_state 3, Inl too_far_error)"
proof -
  have n: "segment_index ''segment_00177.ts'' = Some 177" "segment_index ''segment_00000.ts'' = Some 0" by code_simp+
  have "latest_existing_segment (w_listdir (sample_player 1) (3, [''s1'']) ''/c/s1'') = 0"
    by (simp add: latest_existing_segment_def n)
  then show ?thesis
    by (subst far_probe_leaves_encoder_alone [where s = sample_session and i = 177 and latest = 0])
      (simp_all add: sample_state_def RESERVED_INTERNAL_NAMES_def n)
qed


lemma failed_start_leaves_encoder_witness:
  "\<exists>st' e. publish_session (sample_player 1000) sample_session None (new_service (0, [''s1''])) = (st', Inl e)
     \<and> ''s1'' \<in> set (snd (pb_world (stop_session (sample_player 1000) ''s1''
                                    (cleanup_stale_sessions (sample_player 1000) st'))))"
proof -
  obtain e where e: "snd (await_first_segment (sample_player 1000) sample_session (0, [''s1''])) = Inl e"
    by (simp add: await_first_segment_def Let_def create_wait_def SESSION_CREATE_WAIT_SECONDS_def
        wait_for_file_sample poll_file_numeral)
  obtain st' r where r: "publish_session (sample_player 1000) sample_session None (new_service (0, [''s1''])) = (st', r)"
    by fastforce
  have "snd (await_first_segment (sample_player 1000) sample_session (pb_world (new_service (0, [''s1''])))) = Inl e"
    by (simp add: new_service_def e)
  from failed_start_leaves_encoder [where P = "\<lambda>w. ''s1'' \<in> set (snd w)", OF _ _ _ _ _ _ this r]
  have "r = Inl e \<and> ''s1'' \<in> set (snd (pb_world (stop_session (sample_player 1000) ''s1''
                                    (cleanup_stale_sessions (sample_player 1000) st'))))"
    by (auto simp: new_service_def)
  then show ?thesis using r by auto
qed

theorem sessions_stay_well_formed_witness:
  "map_of (pb_sessions (fst (sample_started 1))) ''s1'' = Some sample_session
   \<and> token sample_session = build_token (\<lambda>p. ''sig'') ''s1'' (expires_at sample_session)"
proof -
  have "playback_reachable (sample_player 1) (new_config (\<lambda>p. ''sig'') 900 4) (new_service (0, []))"
    by (rule playback_reachable.New)
  moreover have "playback_step (sample_player 1) (new_config (\<lambda>p. ''sig'') 900 4)
      (new_service (0, [])) (fst (sample_started 1))"
    by (rule playback_step.Create [of _ "''s1''" _ _ sample_command _ "snd (sample_started 1)"])
      (simp_all add: new_service_def sample_started_def sample_playback_config_def)
  ultimately show ?thesis using sample_started_ok sessions_stay_well_formed by fastforce
qed

theorem resume_segment_holds_playhead_witness:
  "clamp_resume_seconds (Some 600) (Some 1440) = 600
   \<and> resume_segment_index 600 (initial_total 1440 4) 4 = 150
   \<and> of_int (resume_segment_index 600 (initial_total 1440 4) 4 * 4) \<le> (600 :: rat)"
proof -
  have c: "clamp_resume_seconds (Some 600) (Some 1440) = 600"
    by (simp add: clamp_resume_seconds_def normalize_resume_seconds_def playback_constants)
  have "resume_segment_index 600 (initial_total 1440 4) 4 = 150"
    by (simp add: resume_segment_index_def initial_total_def playback_constants)
  then show ?thesis using resume_segment_holds_playhead [OF c, of 4] c by simp
qed

theorem playlist_covers_the_episode_witness:
  "\<exists>p. p = plan_manifest (sample_session\<lparr>duration_seconds := 10, total_segments := 3\<rparr>)
           (Some [''segment_00002.ts'']) True
     \<and> map snd (pl_entries p) = [0..2] \<and> sum_list (map fst (pl_entries p)) = 10"
proof -
  let ?s = "sample_session\<lparr>duration_seconds := 10, total_segments := 3\<rparr>"
  let ?p = "plan_manifest ?s (Some [''segment_00002.ts'']) True"
  have "segment_index ''segment_00002.ts'' = Some 2" by code_simp
  then have c: "pl_complete ?p" by (simp add: plan_manifest_def Let_def latest_existing_segment_def manifest_total_def)
  have "\<lceil>5 / 2 :: rat\<rceil> = 3" by (rule ceiling_unique) simp_all
  then have "map snd (pl_entries ?p) = [manifest_anchor ?s..total_segments ?s - 1]
      \<and> sum_list (map fst (pl_entries ?p)) = duration_seconds ?s - of_int (manifest_anchor ?s * segment_seconds ?s)"
    using playlist_covers_the_episode [of ?s ?p "Some [''segment_00002.ts'']" True] c
    by (simp add: initial_total_def)
  then show ?thesis by (simp add: manifest_anchor_def manifest_total_def)
qed

end
