(* ===== verification/UserActions.thy ===== *)
theory UserActions
  imports AutoPrefs "HOL-Library.AList"
begin

text \<open>
  The user's marks (\<open>adapters/persistence/user_actions_repository.py\<close>): tags, likes and the
  automatic-download switch, episode progress, download preferences and the feed items already
  seen.  The database is its tables; they exist with all their columns, so the statements that
  create them do nothing here.  Latin-1 text, as elsewhere.
\<close>

section \<open>Tables\<close>

text \<open>
  The repository looks for a row by its key and then updates every row with that key or inserts
  a new one.
\<close>

definition sql_upsert :: "'k \<Rightarrow> ('v \<Rightarrow> 'v) \<Rightarrow> 'v \<Rightarrow> ('k \<times> 'v) list \<Rightarrow> ('k \<times> 'v) list" where
  "sql_upsert k f v t =
     (if k \<in> fst ` set t then map (\<lambda>(k', x). (k', if k' = k then f x else x)) t else t @ [(k, v)])"

definition rows_at :: "'k \<Rightarrow> ('k \<times> 'v) list \<Rightarrow> 'v list" where
  "rows_at k t = map snd (filter (\<lambda>(k', x). k' = k) t)"

record user_row =
  ua_tag :: "string option"
  ua_liked :: "int option"
  ua_auto :: "int option"

record progress_row =
  ep_status :: string
  ep_position :: "rat option"
  ep_updated :: rat

record pref_row =
  dp_mode :: string
  dp_publisher :: "string option"
  dp_resolution :: "string option"
  dp_feeds :: string
  dp_inferred :: int

record user_db =
  ud_tags :: "((int \<times> int) \<times> user_row) list"
  ud_progress :: "((int \<times> int \<times> string) \<times> progress_row) list"
  ud_prefs :: "((int \<times> int) \<times> pref_row) list"
  ud_seen :: "((string \<times> string) \<times> int) list"
  ud_last_seen :: "(int \<times> string option) list"

section \<open>Tags, likes and the automatic-download switch\<close>

definition ALLOWED_COLUMNS :: "string list" where
  "ALLOWED_COLUMNS = [''tag'', ''liked'', ''auto_download'']"

definition write_column :: "string \<Rightarrow> pyval \<Rightarrow> user_row \<Rightarrow> user_row" where
  "write_column column v r =
     (if column = ''tag'' then r\<lparr>ua_tag := (case v of PStr s \<Rightarrow> Some s | _ \<Rightarrow> None)\<rparr>
      else if column = ''liked'' then r\<lparr>ua_liked := (case v of PInt i \<Rightarrow> Some i | _ \<Rightarrow> None)\<rparr>
      else r\<lparr>ua_auto := (case v of PInt i \<Rightarrow> Some i | _ \<Rightarrow> None)\<rparr>)"

definition no_marks :: user_row where
  "no_marks = \<lparr>ua_tag = None, ua_liked = None, ua_auto = None\<rparr>"

definition upsert_column :: "int \<Rightarrow> int \<Rightarrow> string \<Rightarrow> pyval \<Rightarrow> user_db \<Rightarrow> user_db \<times> unit res" where
  "upsert_column anime user column v db =
     (if column \<notin> set ALLOWED_COLUMNS
      then (db, Inl (InfrastructureError (''Refusing to write to unsupported column: '' @ column)))
      else (db\<lparr>ud_tags := sql_upsert (anime, user) (write_column column v)
                            (write_column column v no_marks) (ud_tags db)\<rparr>, Inr ()))"

definition set_auto_download :: "int \<Rightarrow> bool \<Rightarrow> int \<Rightarrow> user_db \<Rightarrow> user_db" where
  "set_auto_download anime enabled user db =
     fst (upsert_column anime user ''auto_download'' (PInt (if enabled then 1 else 0)) db)"

definition set_like :: "int \<Rightarrow> bool \<Rightarrow> int \<Rightarrow> user_db \<Rightarrow> user_db" where
  "set_like anime liked user db =
     fst (upsert_column anime user ''liked'' (PInt (if liked then 1 else 0)) db)"

text \<open>The loop of \<open>get_user_state\<close> on one column: the last value that is not null.\<close>

definition last_value :: "('r \<Rightarrow> 'a option) \<Rightarrow> 'r list \<Rightarrow> 'a option" where
  "last_value f rows = fold (\<lambda>r acc. if f r \<noteq> None then f r else acc) rows None"

record user_state =
  us_tag :: string
  us_liked :: bool
  us_auto :: bool

definition tag_or_none :: "string option \<Rightarrow> string" where
  "tag_or_none tag = (if or_empty tag = [] then ''NONE'' else or_empty tag)"

definition get_user_state :: "int \<Rightarrow> int \<Rightarrow> user_db \<Rightarrow> user_state" where
  "get_user_state anime user db =
     (let rows = rows_at (anime, user) (ud_tags db);
          tag = tag_or_none (last_value ua_tag rows)
      in if rows = [] then \<lparr>us_tag = ''NONE'', us_liked = False, us_auto = False\<rparr>
         else \<lparr>us_tag = tag,
               us_liked = (case last_value ua_liked rows of None \<Rightarrow> False | Some i \<Rightarrow> i \<noteq> 0),
               us_auto = (case last_value ua_auto rows of
                            None \<Rightarrow> py_upper tag = ''WATCHING'' | Some i \<Rightarrow> i \<noteq> 0)\<rparr>)"

definition set_tag :: "int \<Rightarrow> string \<Rightarrow> int \<Rightarrow> user_db \<Rightarrow> user_db" where
  "set_tag anime tag user db =
     (let db1 = fst (upsert_column anime user ''tag'' (PStr tag) db)
      in if py_upper (py_strip tag) \<noteq> ''WATCHING'' then db1
         else if \<not> us_auto (get_user_state anime user db1) then db1
         else set_auto_download anime True user db1)"

definition mark_seen :: "int \<Rightarrow> string \<Rightarrow> int \<Rightarrow> user_db \<Rightarrow> user_db" where
  "mark_seen anime file_name user db =
     (let db1 = set_tag anime ''SEEN'' user db; clean_name = py_strip file_name
      in if clean_name = [] then db1
         else db1\<lparr>ud_last_seen := map (\<lambda>(i, x). (i, if i = anime then Some clean_name else x)) (ud_last_seen db1)\<rparr>)"

text \<open>\<open>UPPER\<close> of SQL, on ASCII letters.\<close>

definition sql_upper :: "string \<Rightarrow> string" where
  "sql_upper s =
     map (\<lambda>c. let n = (of_char c :: nat) in if 97 \<le> n \<and> n \<le> 122 then char_of (n - 32) else c) s"

text \<open>The loops over identifiers with a \<open>seen\<close> set.\<close>

fun first_ids :: "int list \<Rightarrow> int list \<Rightarrow> int list" where
  "first_ids seen [] = []"
| "first_ids seen (i # is) =
     (if i \<in> set seen then first_ids seen is else i # first_ids (i # seen) is)"

interpretation id_dedupe: first_seen_filter first_ids "\<lambda>i. i"
  by unfold_locales simp_all

definition list_anime_ids_with_tag :: "string \<Rightarrow> user_db \<Rightarrow> int list" where
  "list_anime_ids_with_tag tag db =
     (let clean = py_upper (py_strip tag)
      in if clean = [] then []
         else first_ids [] (map (fst \<circ> fst)
                (filter (\<lambda>(k, r). map_option sql_upper (ua_tag r) = Some clean) (ud_tags db))))"

definition list_auto_download_eligible :: "int \<Rightarrow> user_db \<Rightarrow> int list" where
  "list_auto_download_eligible user db =
     first_ids [] (map (fst \<circ> fst)
       (filter (\<lambda>((anime, u), r). u = user \<and> map_option sql_upper (ua_tag r) = Some ''WATCHING''
                  \<and> ua_auto r \<noteq> Some 0) (ud_tags db)))"

section \<open>Episode progress\<close>

definition EPISODE_STATUSES :: "string list" where
  "EPISODE_STATUSES = [''UNSEEN'', ''IN_PROGRESS'', ''SEEN'']"

definition status_or_unseen :: "string \<Rightarrow> string" where
  "status_or_unseen status = py_upper (if status = [] then ''UNSEEN'' else status)"

text \<open>The map of one anime as a dictionary: a later row overrides an earlier one.\<close>

definition progress_step ::
  "int \<Rightarrow> int \<Rightarrow> (int \<times> int \<times> string) \<times> progress_row \<Rightarrow>
   (string \<times> (string \<times> rat option)) list \<Rightarrow> (string \<times> (string \<times> rat option)) list" where
  "progress_step anime user =
     (\<lambda>((a, u, f), r) out.
        let fid = py_strip f
        in if a = anime \<and> u = user \<and> fid \<noteq> []
           then AList.update fid (status_or_unseen (ep_status r), ep_position r) out else out)"

definition get_episode_progress_map ::
  "int \<Rightarrow> int \<Rightarrow> user_db \<Rightarrow> (string \<times> (string \<times> rat option)) list" where
  "get_episode_progress_map anime user db = fold (progress_step anime user) (ud_progress db) []"

definition set_episode_progress ::
  "int \<Rightarrow> int \<Rightarrow> string \<Rightarrow> string \<Rightarrow> rat option \<Rightarrow> rat \<Rightarrow> user_db \<Rightarrow> user_db \<times> unit res" where
  "set_episode_progress anime user file_id status position now db =
     (let fid = py_strip file_id; status_u = status_or_unseen status;
          pos = map_option (max 0) position
      in if fid = [] then (db, Inl (InfrastructureError ''file_id is required for episode progress''))
         else if status_u \<notin> set EPISODE_STATUSES
         then (db, Inl (InfrastructureError (''Invalid episode status: '' @ repr_str status)))
         else (db\<lparr>ud_progress := sql_upsert (anime, user, fid)
                      (\<lambda>r. if position \<noteq> None
                            then r\<lparr>ep_status := status_u, ep_position := pos, ep_updated := now\<rparr>
                            else r\<lparr>ep_status := status_u, ep_updated := now\<rparr>)
                      \<lparr>ep_status = status_u, ep_position = pos, ep_updated = now\<rparr> (ud_progress db)\<rparr>,
               Inr ()))"

definition delete_episode_progress :: "int \<Rightarrow> int \<Rightarrow> string \<Rightarrow> user_db \<Rightarrow> user_db" where
  "delete_episode_progress anime user file_id db =
     (let fid = py_strip file_id
      in if fid = [] then db
         else db\<lparr>ud_progress := filter (\<lambda>(k, r). k \<noteq> (anime, user, fid)) (ud_progress db)\<rparr>)"

section \<open>Download preferences\<close>

text \<open>\<open>json_dumps\<close> and \<open>json_loads\<close> of lists of texts are arguments.\<close>

definition stored_feeds :: "(string \<Rightarrow> pyval option) \<Rightarrow> string \<Rightarrow> string list" where
  "stored_feeds json_loads raw =
     (if py_strip raw = [] then []
      else case json_loads raw of Some (PList xs) \<Rightarrow> clean_list xs | _ \<Rightarrow> [])"

definition stored_prefs :: "string \<Rightarrow> string option \<Rightarrow> string option \<Rightarrow> string list \<Rightarrow> bool \<Rightarrow> pydict" where
  "stored_prefs mode pub res feeds inferred =
     [(''source_mode'', PStr mode), (''publisher'', text_val pub), (''resolution'', text_val res),
      (''feed_ids'', PList (map PStr feeds)), (''use_inferred'', PBool inferred)]"

definition row_prefs :: "(string \<Rightarrow> pyval option) \<Rightarrow> pref_row \<Rightarrow> pydict" where
  "row_prefs json_loads row =
     stored_prefs (if dp_mode row = [] then ''search'' else dp_mode row) (dp_publisher row)
       (dp_resolution row) (stored_feeds json_loads (dp_feeds row)) (dp_inferred row \<noteq> 0)"

definition user_download_preferences ::
  "(string \<Rightarrow> pyval option) \<Rightarrow> int \<Rightarrow> int \<Rightarrow> user_db \<Rightarrow> pydict" where
  "user_download_preferences json_loads anime user db =
     (case rows_at (anime, user) (ud_prefs db) of [] \<Rightarrow> [] | row # _ \<Rightarrow> row_prefs json_loads row)"

text \<open>\<open>d.get(key, fallback)\<close>.\<close>

definition dget_or :: "pydict \<Rightarrow> string \<Rightarrow> pyval \<Rightarrow> pyval" where
  "dget_or d key fallback = (case map_of d key of None \<Rightarrow> fallback | Some v \<Rightarrow> v)"

definition strip_or_none :: "pyval \<Rightarrow> string option" where
  "strip_or_none v = (if v = PNone then None else or_none (py_strip (py_str v)))"

definition list_of :: "pyval \<Rightarrow> pyval list" where
  "list_of v = (case v of PList xs \<Rightarrow> xs | _ \<Rightarrow> [])"

text \<open>The row an update leaves: what \<open>prefs\<close> names replaces what is stored.\<close>

definition merged_row :: "(string list \<Rightarrow> string) \<Rightarrow> pydict \<Rightarrow> pydict \<Rightarrow> pref_row" where
  "merged_row json_dumps current prefs =
     (let mode = py_lower (py_strip (py_str (dget_or prefs ''source_mode''
                     (py_or (dget current ''source_mode'') (PStr ''search'')))));
          feed_ids = (case map_of prefs ''feed_ids'' of
                        Some v \<Rightarrow> clean_list (list_of v)
                      | None \<Rightarrow> map py_str (list_of (dget current ''feed_ids'')));
          use_inferred = (case map_of prefs ''use_inferred'' of
                            Some v \<Rightarrow> py_truthy v
                          | None \<Rightarrow> py_truthy (dget_or current ''use_inferred'' (PBool True)))
      in \<lparr>dp_mode = (if mode \<in> {''search'', ''rss''} then mode else ''search''),
          dp_publisher = strip_or_none (dget_or prefs ''publisher'' (dget current ''publisher'')),
          dp_resolution = strip_or_none (dget_or prefs ''resolution'' (dget current ''resolution'')),
          dp_feeds = json_dumps feed_ids, dp_inferred = (if use_inferred then 1 else 0)\<rparr>)"

definition set_download_preferences ::
  "(string list \<Rightarrow> string) \<Rightarrow> (string \<Rightarrow> pyval option) \<Rightarrow> int \<Rightarrow> int \<Rightarrow> pydict \<Rightarrow> user_db \<Rightarrow> user_db \<times> pydict" where
  "set_download_preferences json_dumps json_loads anime user prefs db =
     (let row = merged_row json_dumps (user_download_preferences json_loads anime user db) prefs;
          db1 = db\<lparr>ud_prefs := sql_upsert (anime, user) (\<lambda>_. row) row (ud_prefs db)\<rparr>
      in (db1, user_download_preferences json_loads anime user db1))"

section \<open>Feed items already seen\<close>

definition list_rss_feed_seen_keys :: "string list option \<Rightarrow> user_db \<Rightarrow> (string \<times> string) set" where
  "list_rss_feed_seen_keys feed_ids db =
     (let rows = map fst (ud_seen db);
          wanted = (case feed_ids of
                      None \<Rightarrow> rows
                    | Some ids \<Rightarrow> if ids = [] then rows else filter (\<lambda>(f, k). f \<in> set ids) rows)
      in set (filter (\<lambda>(f, k). f \<noteq> [] \<and> k \<noteq> []) (map (\<lambda>(f, k). (py_strip f, py_strip k)) wanted)))"

definition mark_rss_feed_seen :: "string \<Rightarrow> string \<Rightarrow> rat \<Rightarrow> user_db \<Rightarrow> user_db" where
  "mark_rss_feed_seen feed item now db =
     (let fid = py_strip feed; key = py_strip item
      in if fid = [] \<or> key = [] then db
         else db\<lparr>ud_seen := sql_upsert (fid, key) (\<lambda>_. \<lfloor>now\<rfloor>) \<lfloor>now\<rfloor> (ud_seen db)\<rparr>)"

section \<open>Keyed tables\<close>

text \<open>
  What the operations rely on: a row put under a key is what is read back, changed by the update
  when there was one, and no other key is touched.
\<close>

locale keyed_table =
  fixes lookup :: "'t \<Rightarrow> 'k \<Rightarrow> 'v option"
    and upsert :: "'k \<Rightarrow> ('v \<Rightarrow> 'v) \<Rightarrow> 'v \<Rightarrow> 't \<Rightarrow> 't"
  assumes lookup_same: "lookup (upsert k f v t) k = Some (case lookup t k of None \<Rightarrow> v | Some x \<Rightarrow> f x)"
    and lookup_other: "k \<noteq> k' \<Longrightarrow> lookup (upsert k f v t) k' = lookup t k'"
begin

lemma lookup_upsert:
  "lookup (upsert k f v t) k' =
     (if k' = k then Some (case lookup t k of None \<Rightarrow> v | Some x \<Rightarrow> f x) else lookup t k')"
  by (auto simp: lookup_same lookup_other)

lemma lookup_put: "lookup (upsert k (\<lambda>_. v) v t) = (lookup t)(k \<mapsto> v)"
  by (rule ext) (auto simp: lookup_upsert split: option.splits)

lemma lookup_commute:
  "k \<noteq> k' \<Longrightarrow> lookup (upsert k f v (upsert k' g w t)) = lookup (upsert k' g w (upsert k f v t))"
  by (rule ext) (simp add: lookup_upsert)

end

lemma sql_upsert_old: "k \<in> fst ` set t \<Longrightarrow> sql_upsert k f v t = map (\<lambda>(k', x). (k', if k' = k then f x else x)) t"
  by (simp add: sql_upsert_def)

lemma sql_upsert_new: "k \<notin> fst ` set t \<Longrightarrow> sql_upsert k f v t = t @ [(k, v)]"
  by (simp add: sql_upsert_def)

lemma map_of_updated:
  "map_of (map (\<lambda>(k', x). (k', if k' = k then f x else x)) t) k' =
     map_option (\<lambda>x. if k' = k then f x else x) (map_of t k')"
  by (induction t) auto

interpretation sql: keyed_table map_of sql_upsert
proof
  fix t :: "('k \<times> 'v) list" and k f v
  show "map_of (sql_upsert k f v t) k = Some (case map_of t k of None \<Rightarrow> v | Some x \<Rightarrow> f x)"
  proof (cases "k \<in> fst ` set t")
    case True
    then obtain x where "map_of t k = Some x" by (metis map_of_eq_None_iff not_None_eq)
    then show ?thesis by (simp add: sql_upsert_old [OF True] map_of_updated)
  next
    case False
    then have "map_of t k = None" by (simp add: map_of_eq_None_iff)
    then show ?thesis by (simp add: sql_upsert_new [OF False] map_add_def)
  qed
  show "map_of (sql_upsert k f v t) k' = map_of t k'" if "k \<noteq> k'" for k'
    using that by (cases "k \<in> fst ` set t")
      (simp_all add: sql_upsert_old sql_upsert_new map_of_updated map_add_def option.map_ident
        split: option.splits)
qed

section \<open>Marks\<close>

text \<open>The marks of a user on an anime, as the rows show them, and what the operations do to them.\<close>

definition row_marks :: "user_row list \<Rightarrow> user_row" where
  "row_marks rows =
     \<lparr>ua_tag = last_value ua_tag rows, ua_liked = last_value ua_liked rows, ua_auto = last_value ua_auto rows\<rparr>"

definition marks_of :: "user_db \<Rightarrow> int \<times> int \<Rightarrow> user_row" where
  "marks_of db k = row_marks (rows_at k (ud_tags db))"

definition auto_enabled :: "user_row \<Rightarrow> bool" where
  "auto_enabled m =
     (case ua_auto m of None \<Rightarrow> py_upper (tag_or_none (ua_tag m)) = ''WATCHING'' | Some i \<Rightarrow> i \<noteq> 0)"

definition marks_state :: "user_row \<Rightarrow> user_state" where
  "marks_state m =
     \<lparr>us_tag = tag_or_none (ua_tag m),
      us_liked = (case ua_liked m of None \<Rightarrow> False | Some i \<Rightarrow> i \<noteq> 0), us_auto = auto_enabled m\<rparr>"

definition tagged :: "string \<Rightarrow> user_row \<Rightarrow> user_row" where
  "tagged tag m =
     (let m1 = m\<lparr>ua_tag := Some tag\<rparr>
      in if py_upper (py_strip tag) = ''WATCHING'' \<and> auto_enabled m1 then m1\<lparr>ua_auto := Some 1\<rparr> else m1)"

lemma last_value_Nil [simp]: "last_value f [] = None"
  by (simp add: last_value_def)

lemma last_value_snoc [simp]: "last_value f (rows @ [r]) = (if f r \<noteq> None then f r else last_value f rows)"
  by (simp add: last_value_def)

lemma last_value_same: "(\<And>r. r \<in> set rows \<Longrightarrow> f (g r) = f r) \<Longrightarrow> last_value f (map g rows) = last_value f rows"
  by (induction rows rule: rev_induct) auto

lemma last_value_const: "rows \<noteq> [] \<Longrightarrow> (\<And>r. f (g r) = Some v) \<Longrightarrow> last_value f (map g rows) = Some v"
  by (induction rows rule: rev_induct) auto

lemma rows_at_upsert:
  "rows_at k' (sql_upsert k f v t) =
     (if k' = k then if rows_at k t = [] then [v] else map f (rows_at k t) else rows_at k' t)"
proof (cases "k \<in> fst ` set t")
  case True
  then have "rows_at k t \<noteq> []" by (force simp: rows_at_def filter_empty_conv)
  moreover have "rows_at k' (map (\<lambda>(k', x). (k', if k' = k then f x else x)) t)
      = map (\<lambda>x. if k' = k then f x else x) (rows_at k' t)"
    by (induction t) (auto simp: rows_at_def)
  ultimately show ?thesis using True by (simp add: sql_upsert_old)
next
  case False
  then have "rows_at k t = []" by (force simp: rows_at_def filter_empty_conv)
  then show ?thesis using False by (auto simp: sql_upsert_new rows_at_def)
qed

lemma row_marks_written:
  assumes "rows \<noteq> []"
  shows "row_marks (map (write_column ''tag'' (PStr s)) rows) = (row_marks rows)\<lparr>ua_tag := Some s\<rparr>"
    and "row_marks (map (write_column ''liked'' (PInt i)) rows) = (row_marks rows)\<lparr>ua_liked := Some i\<rparr>"
    and "row_marks (map (write_column ''auto_download'' (PInt i)) rows) = (row_marks rows)\<lparr>ua_auto := Some i\<rparr>"
proof -
  have "last_value ua_tag (map (write_column ''tag'' (PStr s)) rows) = Some s"
    "last_value ua_liked (map (write_column ''liked'' (PInt i)) rows) = Some i"
    "last_value ua_auto (map (write_column ''auto_download'' (PInt i)) rows) = Some i"
    using assms by (rule last_value_const, simp add: write_column_def)+
  moreover have "last_value f (map (write_column ''tag'' (PStr s)) rows) = last_value f rows"
    if "\<And>r. f (write_column ''tag'' (PStr s) r) = f r" for f :: "user_row \<Rightarrow> int option"
    using that by (rule last_value_same)
  moreover have "last_value f (map (write_column c (PInt i)) rows) = last_value f rows"
    if "\<And>r. f (write_column c (PInt i) r) = f r" for f :: "user_row \<Rightarrow> int option" and c
    using that by (rule last_value_same)
  moreover have "last_value f (map (write_column c (PInt i)) rows) = last_value f rows"
    if "\<And>r. f (write_column c (PInt i) r) = f r" for f :: "user_row \<Rightarrow> string option" and c
    using that by (rule last_value_same)
  ultimately show "row_marks (map (write_column ''tag'' (PStr s)) rows) = (row_marks rows)\<lparr>ua_tag := Some s\<rparr>"
    "row_marks (map (write_column ''liked'' (PInt i)) rows) = (row_marks rows)\<lparr>ua_liked := Some i\<rparr>"
    "row_marks (map (write_column ''auto_download'' (PInt i)) rows) = (row_marks rows)\<lparr>ua_auto := Some i\<rparr>"
    by (simp_all add: row_marks_def write_column_def)
qed

lemma row_marks_new:
  "row_marks [write_column ''tag'' (PStr s) no_marks] = (row_marks [])\<lparr>ua_tag := Some s\<rparr>"
  "row_marks [write_column ''liked'' (PInt i) no_marks] = (row_marks [])\<lparr>ua_liked := Some i\<rparr>"
  "row_marks [write_column ''auto_download'' (PInt i) no_marks] = (row_marks [])\<lparr>ua_auto := Some i\<rparr>"
  by (simp_all add: row_marks_def last_value_def write_column_def no_marks_def)

lemma marks_of_column:
  "marks_of (fst (upsert_column a u ''tag'' (PStr s) db)) = (marks_of db)((a, u) := (marks_of db (a, u))\<lparr>ua_tag := Some s\<rparr>)"
  "marks_of (fst (upsert_column a u ''liked'' (PInt i) db)) = (marks_of db)((a, u) := (marks_of db (a, u))\<lparr>ua_liked := Some i\<rparr>)"
  "marks_of (fst (upsert_column a u ''auto_download'' (PInt i) db)) = (marks_of db)((a, u) := (marks_of db (a, u))\<lparr>ua_auto := Some i\<rparr>)"
  by (rule ext, cases "rows_at (a, u) (ud_tags db) = []";
      simp add: marks_of_def upsert_column_def ALLOWED_COLUMNS_def rows_at_upsert row_marks_written row_marks_new)+

lemma none_not_watching: "py_upper ''NONE'' \<noteq> ''WATCHING''"
  by code_simp

lemma get_user_state_marks: "get_user_state a u db = marks_state (marks_of db (a, u))"
proof (cases "rows_at (a, u) (ud_tags db) = []")
  case True
  then show ?thesis
    by (simp add: get_user_state_def marks_state_def marks_of_def row_marks_def auto_enabled_def Let_def
        tag_or_none_def none_not_watching)
qed (simp add: get_user_state_def marks_state_def marks_of_def row_marks_def auto_enabled_def Let_def
    cong: option.case_cong)

text \<open>
  C14. The tables refine a map of marks: liking, switching the automatic download and tagging change
  the marks of that user on that anime as stated, and no others, and the state read back is that of
  the marks.  Entering WATCHING switches the automatic download on, unless it was switched off
  explicitly.  Several rows for the same user and anime make no difference.
\<close>

theorem user_marks_refine:
  "marks_of (set_like a liked u db)
     = (marks_of db)((a, u) := (marks_of db (a, u))\<lparr>ua_liked := Some (if liked then 1 else 0)\<rparr>)
   \<and> marks_of (set_auto_download a enabled u db)
     = (marks_of db)((a, u) := (marks_of db (a, u))\<lparr>ua_auto := Some (if enabled then 1 else 0)\<rparr>)
   \<and> marks_of (set_tag a tag u db) = (marks_of db)((a, u) := tagged tag (marks_of db (a, u)))
   \<and> get_user_state a u db = marks_state (marks_of db (a, u))"
proof (intro conjI)
  let ?m = "(marks_of db (a, u))\<lparr>ua_tag := Some tag\<rparr>"
  let ?db1 = "fst (upsert_column a u ''tag'' (PStr tag) db)"
  have "us_auto (get_user_state a u ?db1) = auto_enabled ?m"
    by (simp add: get_user_state_marks marks_of_column marks_state_def)
  then show "marks_of (set_tag a tag u db) = (marks_of db)((a, u) := tagged tag (marks_of db (a, u)))"
    by (simp add: set_tag_def set_auto_download_def marks_of_column tagged_def Let_def)
qed (simp_all add: set_like_def set_auto_download_def marks_of_column get_user_state_marks)

section \<open>Eligibility\<close>

definition plain_word :: "string \<Rightarrow> bool" where
  "plain_word w = (\<forall>c \<in> set w. 65 \<le> (of_char c :: nat) \<and> (of_char c :: nat) \<le> 90 \<and> c \<noteq> CHR ''S'')"

lemma py_upper_word: "plain_word w \<Longrightarrow> py_upper t = w \<longleftrightarrow> sql_upper t = w"
proof (induction t arbitrary: w)
  case Nil
  then show ?case by (simp add: py_upper_def sql_upper_def)
next
  case (Cons x t)
  have lt: "(of_char x :: nat) < 256" by (rule of_char_less_256)
  let ?n = "of_char x :: nat"
  have py: "py_upper (x # t) = py_upper_char x @ py_upper t" by (simp add: py_upper_def)
  have sql: "sql_upper (x # t) = (if 97 \<le> ?n \<and> ?n \<le> 122 then char_of (?n - 32) else x) # sql_upper t"
    by (simp add: sql_upper_def Let_def)
  show ?case
  proof (cases w)
    case Nil
    then show ?thesis by (auto simp: py sql py_upper_char_def Let_def)
  next
    case (Cons c w')
    have c: "65 \<le> (of_char c :: nat)" "(of_char c :: nat) \<le> 90" "c \<noteq> CHR ''S''" and w': "plain_word w'"
      using Cons.prems by (simp_all add: Cons plain_word_def)
    have IH: "py_upper t = w' \<longleftrightarrow> sql_upper t = w'" by (rule Cons.IH [OF w'])
    have x: "c = x \<Longrightarrow> 65 \<le> ?n \<and> ?n \<le> 90" using c by simp
    have hi: "c = char_of (?n - 32) \<Longrightarrow> ?n - 32 \<le> 90" using c lt by (simp add: of_char_of)
    show ?thesis using IH c x hi by (auto simp: py sql Cons py_upper_char_def Let_def)
  qed
qed

lemma watching_upper: "py_upper t = ''WATCHING'' \<longleftrightarrow> sql_upper t = ''WATCHING''"
  by (rule py_upper_word) (simp add: plain_word_def)

lemma set_first_ids: "set (first_ids [] is) = set is"
  using id_dedupe.keys_go [of "[]" "is"] by simp

lemma rows_at_Nil: "k \<notin> fst ` set t \<Longrightarrow> rows_at k t = []"
  by (force simp: rows_at_def filter_empty_conv)

lemma rows_at_distinct:
  "distinct (map fst t) \<Longrightarrow> rows_at k t = (case map_of t k of None \<Rightarrow> [] | Some r \<Rightarrow> [r])"
proof (induction t)
  case (Cons x t)
  then show ?case using rows_at_Nil [of k t] by (cases x) (auto simp: rows_at_def)
qed (simp add: rows_at_def)

text \<open>
  The two readings of the automatic download agree: when no user has two rows for an anime, an
  anime is listed as eligible exactly when its state is tagged WATCHING with the automatic download
  enabled, and it is listed once.
\<close>

lemma eligible_iff_watching_enabled:
  assumes "distinct (map fst (ud_tags db))"
  shows "(anime \<in> set (list_auto_download_eligible user db) \<longleftrightarrow>
      py_upper (us_tag (get_user_state anime user db)) = ''WATCHING'' \<and> us_auto (get_user_state anime user db))
    \<and> distinct (list_auto_download_eligible user db)"
proof
  let ?row = "map_of (ud_tags db) (anime, user)"
  have "anime \<in> set (list_auto_download_eligible user db) \<longleftrightarrow>
      (\<exists>r. ((anime, user), r) \<in> set (ud_tags db) \<and> map_option sql_upper (ua_tag r) = Some ''WATCHING'' \<and> ua_auto r \<noteq> Some 0)"
    by (force simp: list_auto_download_eligible_def set_first_ids)
  also have "\<dots> \<longleftrightarrow> (\<exists>r. ?row = Some r \<and> map_option sql_upper (ua_tag r) = Some ''WATCHING'' \<and> ua_auto r \<noteq> Some 0)"
    using assms by (metis map_of_eq_Some_iff)
  also have "\<dots> \<longleftrightarrow> py_upper (us_tag (get_user_state anime user db)) = ''WATCHING''
      \<and> us_auto (get_user_state anime user db)"
  proof (cases ?row)
    case None
    then show ?thesis using none_not_watching by (simp add: get_user_state_def rows_at_distinct [OF assms])
  next
    case (Some r)
    have "py_upper (tag_or_none (ua_tag r)) = ''WATCHING'' \<longleftrightarrow> map_option sql_upper (ua_tag r) = Some ''WATCHING''"
    proof (cases "or_empty (ua_tag r) = []")
      case True
      then show ?thesis using none_not_watching
        by (cases "ua_tag r") (simp_all add: tag_or_none_def sql_upper_def)
    next
      case False
      then show ?thesis by (cases "ua_tag r") (simp_all add: tag_or_none_def watching_upper)
    qed
    then show ?thesis using Some
      by (cases "ua_auto r") (auto simp: get_user_state_def rows_at_distinct [OF assms] last_value_def Let_def)
  qed
  finally show "anime \<in> set (list_auto_download_eligible user db) \<longleftrightarrow>
      py_upper (us_tag (get_user_state anime user db)) = ''WATCHING'' \<and> us_auto (get_user_state anime user db)" .
  show "distinct (list_auto_download_eligible user db)"
    using id_dedupe.distinct_go [of "[]"] by (simp add: list_auto_download_eligible_def)
qed


section \<open>Episode progress\<close>

definition progress_wf :: "user_db \<Rightarrow> bool" where
  "progress_wf db \<longleftrightarrow>
     distinct (map fst (ud_progress db))
     \<and> (\<forall>(a, u, f) \<in> fst ` set (ud_progress db). f \<noteq> [] \<and> py_strip f = f)"

definition progress_of :: "progress_row \<Rightarrow> string \<times> rat option" where
  "progress_of r = (status_or_unseen (ep_status r), ep_position r)"

lemma progress_step_key:
  "g \<noteq> [] \<Longrightarrow> py_strip g = g \<Longrightarrow>
   progress_step anime user ((a, u, g), r) out =
     (if a = anime \<and> u = user then AList.update g (progress_of r) out else out)"
  by (simp add: progress_step_def progress_of_def)

lemma map_of_progress_fold:
  assumes "distinct (map fst rows)" and "\<forall>(a, u, f) \<in> fst ` set rows. f \<noteq> [] \<and> py_strip f = f"
  shows "map_of (fold (progress_step anime user) rows out) f
    = (case map_of rows (anime, user, f) of None \<Rightarrow> map_of out f | Some r \<Rightarrow> Some (progress_of r))"
  using assms
proof (induction rows arbitrary: out)
  case (Cons x rows)
  obtain a u g r where x: "x = ((a, u, g), r)" by (metis prod.collapse)
  have g: "g \<noteq> []" "py_strip g = g" using Cons.prems(2) by (auto simp: x)
  have new: "map_of rows (a, u, g) = None" using Cons.prems(1) by (simp add: x map_of_eq_None_iff)
  have IH: "map_of (fold (progress_step anime user) rows out') f
    = (case map_of rows (anime, user, f) of None \<Rightarrow> map_of out' f | Some r \<Rightarrow> Some (progress_of r))" for out'
    by (rule Cons.IH) (use Cons.prems in auto)
  show ?case using g new
    by (auto simp: x IH progress_step_key update_conv' split: option.splits)
qed simp

lemma map_of_progress:
  "progress_wf db \<Longrightarrow> map_of (get_episode_progress_map anime user db) f =
     map_option progress_of (map_of (ud_progress db) (anime, user, f))"
  unfolding get_episode_progress_map_def progress_wf_def
  by (subst map_of_progress_fold) (auto split: option.splits)

lemma keys_sql_upsert:
  "map fst (sql_upsert k f v t) = (if k \<in> fst ` set t then map fst t else map fst t @ [k])"
  by (simp add: sql_upsert_def comp_def case_prod_unfold)

lemma status_fixed: "s \<in> set EPISODE_STATUSES \<Longrightarrow> status_or_unseen s = s"
  unfolding EPISODE_STATUSES_def by (simp, elim disjE) (simp only:, code_simp)+

text \<open>
  C27. Episode progress is read back as it was set: the map of that anime and user gets the status,
  upper-cased, and the position given, never negative; without a position the earlier one stays.
  No other entry of any map changes, and the table stays well formed; a missing file id or an
  unknown status changes nothing and is an error.
\<close>

theorem episode_progress_roundtrip:
  assumes "progress_wf db" and "set_episode_progress anime user file_id status position now db = (db', r)"
  shows "progress_wf db'
    \<and> (r = Inr () \<longleftrightarrow> py_strip file_id \<noteq> [] \<and> status_or_unseen status \<in> set EPISODE_STATUSES)
    \<and> (r \<noteq> Inr () \<longrightarrow> db' = db)
    \<and> (r = Inr () \<longrightarrow>
         map_of (get_episode_progress_map anime user db') =
           (map_of (get_episode_progress_map anime user db))
             (py_strip file_id \<mapsto>
                (status_or_unseen status,
                 case position of
                   None \<Rightarrow> (case map_of (get_episode_progress_map anime user db) (py_strip file_id) of
                               None \<Rightarrow> None | Some (s, p) \<Rightarrow> p)
                 | Some p \<Rightarrow> Some (max 0 p)))
         \<and> ((a, u) \<noteq> (anime, user) \<longrightarrow>
              map_of (get_episode_progress_map a u db') = map_of (get_episode_progress_map a u db)))"
proof -
  let ?fid = "py_strip file_id" and ?s = "status_or_unseen status"
  show ?thesis
  proof (cases "?fid \<noteq> [] \<and> ?s \<in> set EPISODE_STATUSES")
    case True
    obtain f v where db': "ud_progress db' = sql_upsert (anime, user, ?fid) f v (ud_progress db)" and r: "r = Inr ()"
      and v: "v = \<lparr>ep_status = ?s, ep_position = map_option (max 0) position, ep_updated = now\<rparr>"
      and f: "f = (\<lambda>r. if position \<noteq> None
                then r\<lparr>ep_status := ?s, ep_position := map_option (max 0) position, ep_updated := now\<rparr>
                else r\<lparr>ep_status := ?s, ep_updated := now\<rparr>)"
      using assms(2) True by (auto simp: set_episode_progress_def Let_def)
    have wf: "progress_wf db'"
      using assms(1) True by (auto simp: progress_wf_def db' keys_sql_upsert simp flip: set_map)
    have fixed: "status_or_unseen ?s = ?s" using True by (simp add: status_fixed)
    have at: "map_of (get_episode_progress_map a u db') g =
        (if (a, u, g) = (anime, user, ?fid)
         then Some (progress_of (case map_of (ud_progress db) (a, u, g) of None \<Rightarrow> v | Some x \<Rightarrow> f x))
         else map_of (get_episode_progress_map a u db) g)" for a u g
      by (simp add: map_of_progress [OF wf] map_of_progress [OF assms(1)] db' sql.lookup_upsert)
    show ?thesis using True wf r
      by (auto simp: at f v progress_of_def fixed map_of_progress [OF assms(1)] fun_eq_iff split: option.splits)
  next
    case False
    then have "db' = db" "r \<noteq> Inr ()" using assms(2) by (auto simp: set_episode_progress_def Let_def split: if_splits)
    then show ?thesis using assms(1) False by auto
  qed
qed


section \<open>Download preferences and seen items\<close>

lemma clean_list_stripped_strings:
  "x \<in> set (clean_list xs) \<Longrightarrow> x \<noteq> [] \<and> py_strip x = x"
  by (auto simp: clean_list_def)

lemma clean_list_fixed: "\<forall>x \<in> set xs. x \<noteq> [] \<and> py_strip x = x \<Longrightarrow> clean_list (map PStr xs) = xs"
  by (induction xs) (auto simp: clean_list_def py_str_def)

lemma hd_rows_at_put: "\<exists>rs. rows_at k (sql_upsert k (\<lambda>_. r) r t) = r # rs"
  by (cases "rows_at k t") (auto simp: rows_at_upsert)

lemma put_twice: "sql_upsert k (\<lambda>_. r) r (sql_upsert k (\<lambda>_. r) r t) = sql_upsert k (\<lambda>_. r) r t"
proof (cases "k \<in> fst ` set t")
  case True
  have "k \<in> set (map fst (sql_upsert k (\<lambda>_. r) r t))" using True by (simp add: keys_sql_upsert)
  then have "k \<in> fst ` set (sql_upsert k (\<lambda>_. r) r t)" by simp
  then show ?thesis using True by (simp add: sql_upsert_old comp_def case_prod_unfold)
next
  case False
  have "map (\<lambda>(k', x). (k', if k' = k then r else x)) t = t"
    using False by (intro map_idI) (force split: prod.splits)
  then show ?thesis using False by (simp add: sql_upsert_def)
qed

lemma strip_or_none_text: "strip_or_none (text_val (strip_or_none v)) = strip_or_none v"
  by (auto simp: strip_or_none_def text_val_def or_none_def py_str_def)

lemma mode_fixed: "mode \<in> {''search'', ''rss''} \<Longrightarrow> py_lower (py_strip (py_str (PStr mode))) = mode"
  by (auto, code_simp+)

definition pref_row_ok :: "(string list \<Rightarrow> string) \<Rightarrow> pref_row \<Rightarrow> bool" where
  "pref_row_ok json_dumps r \<longleftrightarrow>
     dp_mode r \<in> {''search'', ''rss''} \<and> (\<exists>v. dp_publisher r = strip_or_none v)
     \<and> (\<exists>v. dp_resolution r = strip_or_none v) \<and> dp_inferred r \<in> {0, 1}
     \<and> (\<exists>feeds. dp_feeds r = json_dumps feeds \<and> (\<forall>x \<in> set feeds. x \<noteq> [] \<and> py_strip x = x))"

definition feeds_clean :: "pydict \<Rightarrow> bool" where
  "feeds_clean current \<longleftrightarrow>
     (\<exists>fs. list_of (dget current ''feed_ids'') = map PStr fs \<and> (\<forall>x \<in> set fs. x \<noteq> [] \<and> py_strip x = x))"

lemma merged_row_ok: "feeds_clean current \<Longrightarrow> pref_row_ok json_dumps (merged_row json_dumps current prefs)"
  by (auto simp: pref_row_ok_def merged_row_def feeds_clean_def Let_def py_str_def comp_def
      dest: clean_list_stripped_strings split: option.splits)

lemma row_prefs_clean: "feeds_clean (row_prefs json_loads r)"
proof -
  have "x \<noteq> [] \<and> py_strip x = x" if "x \<in> set (stored_feeds json_loads raw)" for raw x
    using that by (auto simp: stored_feeds_def dest: clean_list_stripped_strings split: if_splits option.splits pyval.splits)
  then show ?thesis
    by (auto simp: feeds_clean_def row_prefs_def stored_prefs_def dget_def list_of_def)
qed

lemma user_prefs_clean: "feeds_clean (user_download_preferences json_loads anime user db)"
proof (cases "rows_at (anime, user) (ud_prefs db)")
  case Nil
  then show ?thesis by (simp add: user_download_preferences_def feeds_clean_def list_of_def dget_def)
qed (simp add: user_download_preferences_def row_prefs_clean)

lemma merged_row_same:
  assumes "\<And>xs. json_loads (json_dumps xs) = Some (PList (map PStr xs))"
    and "\<And>xs. py_strip (json_dumps xs) \<noteq> []"
    and "pref_row_ok json_dumps r"
  shows "merged_row json_dumps (row_prefs json_loads r) [] = r"
proof -
  obtain feeds where f: "dp_feeds r = json_dumps feeds" "\<forall>x \<in> set feeds. x \<noteq> [] \<and> py_strip x = x"
    using assms(3) by (auto simp: pref_row_ok_def)
  have s: "stored_feeds json_loads (dp_feeds r) = feeds"
    by (simp add: stored_feeds_def f assms(1,2) clean_list_fixed)
  have m: "dp_mode r \<noteq> []" "dp_mode r \<in> {''search'', ''rss''}" using assms(3) by (auto simp: pref_row_ok_def)
  have get: "dget (row_prefs json_loads r) ''source_mode'' = PStr (dp_mode r)"
    "dget (row_prefs json_loads r) ''publisher'' = text_val (dp_publisher r)"
    "dget (row_prefs json_loads r) ''resolution'' = text_val (dp_resolution r)"
    "dget (row_prefs json_loads r) ''feed_ids'' = PList (map PStr feeds)"
    "dget_or (row_prefs json_loads r) ''use_inferred'' v = PBool (dp_inferred r \<noteq> 0)" for v
    using m(1) by (simp_all add: row_prefs_def stored_prefs_def dget_def dget_or_def s)
  have none: "dget_or [] k v = v" for k v by (simp add: dget_or_def)
  have mode: "py_or (PStr (dp_mode r)) v = PStr (dp_mode r)" for v using m(1) by (simp add: py_or_def)
  have texts: "strip_or_none (text_val (dp_publisher r)) = dp_publisher r"
    "strip_or_none (text_val (dp_resolution r)) = dp_resolution r"
    using assms(3) by (auto simp: pref_row_ok_def strip_or_none_text)
  have feeds: "map py_str (list_of (PList (map PStr feeds))) = feeds"
    by (simp add: list_of_def py_str_def comp_def)
  have "dp_inferred r = (if dp_inferred r \<noteq> 0 then 1 else 0)" using assms(3) by (auto simp: pref_row_ok_def)
  then show ?thesis
    unfolding merged_row_def get none mode mode_fixed [OF m(2)] texts feeds Let_def
    using m(2) f(1) by (simp add: if_split_eq1)
qed

text \<open>
  Preferences are read back as they were stored, and an update that names nothing changes
  nothing: after any update the answer is what the next reader sees, its mode is one of the two
  known ones, and the empty update leaves the database and the answer as they are.
\<close>

lemma preferences_roundtrip:
  assumes "\<And>xs. json_loads (json_dumps xs) = Some (PList (map PStr xs))"
    and "\<And>xs. py_strip (json_dumps xs) \<noteq> []"
    and "set_download_preferences json_dumps json_loads anime user prefs db = (db', answer)"
  shows "user_download_preferences json_loads anime user db' = answer
    \<and> dget answer ''source_mode'' \<in> {PStr ''search'', PStr ''rss''}
    \<and> set_download_preferences json_dumps json_loads anime user [] db' = (db', answer)"
proof -
  define row where "row = merged_row json_dumps (user_download_preferences json_loads anime user db) prefs"
  have db': "db' = db\<lparr>ud_prefs := sql_upsert (anime, user) (\<lambda>_. row) row (ud_prefs db)\<rparr>"
    and answer: "answer = user_download_preferences json_loads anime user db'"
    using assms(3) by (auto simp: set_download_preferences_def row_def Let_def)
  have ok: "pref_row_ok json_dumps row" unfolding row_def by (rule merged_row_ok [OF user_prefs_clean])
  have read: "answer = row_prefs json_loads row"
    using hd_rows_at_put [of "(anime, user)" row "ud_prefs db"]
    by (auto simp: answer db' user_download_preferences_def)
  have "merged_row json_dumps answer [] = row"
    unfolding read by (rule merged_row_same [OF assms(1,2) ok])
  then have "set_download_preferences json_dumps json_loads anime user [] db' = (db', answer)"
    using answer by (simp add: set_download_preferences_def Let_def db' put_twice)
  moreover have "dget answer ''source_mode'' \<in> {PStr ''search'', PStr ''rss''}"
    using ok by (auto simp: read row_prefs_def stored_prefs_def pref_row_ok_def dget_def)
  ultimately show ?thesis using answer by simp
qed

lemma marked_item_is_seen:
  assumes "py_strip f \<noteq> []" and "py_strip k \<noteq> []" and "feeds = [] \<or> py_strip f \<in> set feeds"
  shows "(py_strip f, py_strip k) \<in> list_rss_feed_seen_keys (Some feeds) (mark_rss_feed_seen f k now db)"
proof -
  have "(py_strip f, py_strip k) \<in> fst ` set (ud_seen (mark_rss_feed_seen f k now db))"
    using assms(1,2) by (force simp: mark_rss_feed_seen_def Let_def sql_upsert_def)
  then show ?thesis using assms by (force simp: list_rss_feed_seen_keys_def Let_def)
qed

section \<open>Examples\<close>

definition sample_user_db :: user_db where
  "sample_user_db =
     \<lparr>ud_tags = [((7, 1), \<lparr>ua_tag = Some ''Watching'', ua_liked = None, ua_auto = None\<rparr>),
                 ((8, 1), \<lparr>ua_tag = Some ''WATCHING'', ua_liked = Some 1, ua_auto = Some 0\<rparr>)],
      ud_progress = [((7, 1, ''ep-1''), \<lparr>ep_status = ''IN_PROGRESS'', ep_position = Some 60, ep_updated = 5\<rparr>)],
      ud_prefs = [], ud_seen = [], ud_last_seen = []\<rparr>"

lemma eligible_iff_watching_enabled_witness:
  "list_auto_download_eligible 1 sample_user_db = [7]
   \<and> py_upper (us_tag (get_user_state 7 1 sample_user_db)) = ''WATCHING'' \<and> us_auto (get_user_state 7 1 sample_user_db)
   \<and> \<not> us_auto (get_user_state 8 1 sample_user_db)"
proof -
  have d: "distinct (map fst (ud_tags sample_user_db))" by (simp add: sample_user_db_def)
  have l: "list_auto_download_eligible 1 sample_user_db = [7]" by code_simp
  have "\<not> us_auto (get_user_state 8 1 sample_user_db)" by code_simp
  then show ?thesis using eligible_iff_watching_enabled [OF d, of 7 1] l by simp
qed

theorem episode_progress_roundtrip_witness:
  "\<exists>db'. set_episode_progress 7 1 '' ep-1'' ''seen'' None 9 sample_user_db = (db', Inr ())
     \<and> map_of (get_episode_progress_map 7 1 db') ''ep-1'' = Some (''SEEN'', Some 60)"
proof -
  have c: "py_strip ''ep-1'' = ''ep-1''" "py_strip '' ep-1'' = ''ep-1''" "status_or_unseen ''seen'' = ''SEEN''"
    "''SEEN'' \<in> set EPISODE_STATUSES" by code_simp+
  have wf: "progress_wf sample_user_db" by (simp add: progress_wf_def sample_user_db_def c)
  obtain db' r where s: "set_episode_progress 7 1 '' ep-1'' ''seen'' None 9 sample_user_db = (db', r)" by fastforce
  have old: "map_of (get_episode_progress_map 7 1 sample_user_db) ''ep-1'' = Some (''IN_PROGRESS'', Some 60)"
    using map_of_progress [OF wf, of 7 1 "''ep-1''"] status_fixed [of "''IN_PROGRESS''"]
    by (simp add: sample_user_db_def progress_of_def EPISODE_STATUSES_def)
  have "r = Inr ()" "map_of (get_episode_progress_map 7 1 db') ''ep-1'' = Some (''SEEN'', Some 60)"
    using episode_progress_roundtrip [OF wf s] by (simp_all add: c old)
  then show ?thesis using s by blast
qed

text \<open>A small text format for lists of texts, in the place of JSON.\<close>

fun sample_encode :: "string list \<Rightarrow> string" where
  "sample_encode [] = ''.''"
| "sample_encode ([] # xs) = '','' @ sample_encode xs"
| "sample_encode ((c # cs) # xs) = ''-'' @ [c] @ sample_encode (cs # xs)"

fun sample_decode :: "string \<Rightarrow> string list" where
  "sample_decode (a # s) =
     (if a = CHR '','' then [] # sample_decode s
      else if a = CHR ''-''
      then (case s of
              [] \<Rightarrow> []
            | c # t \<Rightarrow> (case sample_decode t of [] \<Rightarrow> [] | x # xs \<Rightarrow> (c # x) # xs))
      else [])"
| "sample_decode [] = []"

lemma sample_decode_encode: "sample_decode (sample_encode xs) = xs"
  by (induction xs rule: sample_encode.induct) simp_all

lemma sample_encode_not_blank: "py_strip (sample_encode xs) \<noteq> []"
proof -
  have h: "hd (sample_encode xs) \<in> set ''.,-''" "sample_encode xs \<noteq> []"
    by (cases xs rule: sample_encode.cases; simp)+
  have "\<not> py_isspace c" if "c \<in> set ''.,-''" for c using that by (auto simp: py_isspace_def)
  with h(1) have n: "\<not> py_isspace (hd (sample_encode xs))" by blast
  then have "py_lstrip (sample_encode xs) = sample_encode xs" by (intro lstrip_id) simp
  moreover have "\<exists>c \<in> set (sample_encode xs). \<not> py_isspace c" using n h(2) by (blast intro: hd_in_set)
  ultimately have "py_lstrip (sample_encode xs) = sample_encode xs" "\<exists>c \<in> set (sample_encode xs). \<not> py_isspace c"
    by blast+
  then show ?thesis by (auto simp: py_strip_def py_rstrip_def dropWhile_eq_Nil_conv)
qed

lemma preferences_roundtrip_witness:
  "\<exists>db' answer. set_download_preferences sample_encode (\<lambda>s. Some (PList (map PStr (sample_decode s)))) 7 1
       [(''source_mode'', PStr '' RSS ''), (''feed_ids'', PList [PStr ''nyaa''])] sample_user_db = (db', answer)
     \<and> user_download_preferences (\<lambda>s. Some (PList (map PStr (sample_decode s)))) 7 1 db' = answer
     \<and> dget answer ''source_mode'' = PStr ''rss''"
proof -
  let ?loads = "\<lambda>s. Some (PList (map PStr (sample_decode s)))"
  let ?prefs = "[(''source_mode'', PStr '' RSS ''), (''feed_ids'', PList [PStr ''nyaa''])]"
  obtain db' answer where s: "set_download_preferences sample_encode ?loads 7 1 ?prefs sample_user_db = (db', answer)"
    by fastforce
  have a: "user_download_preferences ?loads 7 1 db' = answer"
    using preferences_roundtrip [OF _ _ s] by (simp add: sample_decode_encode sample_encode_not_blank)
  have c: "py_lower (py_strip (py_str (PStr '' RSS ''))) = ''rss''" by code_simp
  have none: "user_download_preferences ?loads 7 1 sample_user_db = []"
    by (simp add: user_download_preferences_def sample_user_db_def rows_at_def)
  have "dp_mode (merged_row sample_encode [] ?prefs) = ''rss''" by (simp add: merged_row_def Let_def dget_or_def c)
  then have "dget (snd (set_download_preferences sample_encode ?loads 7 1 ?prefs sample_user_db)) ''source_mode'' = PStr ''rss''"
    by (simp add: set_download_preferences_def none Let_def)
      (simp add: user_download_preferences_def sample_user_db_def sql_upsert_def rows_at_def row_prefs_def stored_prefs_def dget_def)
  then show ?thesis using s a by auto
qed

end
