(* ===== verification/Policies.thy ===== *)
theory Policies
  imports Contracts
begin

text \<open>
  The pure domain policies (\<open>domain/policies\<close>): status derivation, query normalisation,
  genres, airing seasons, top categories, schedule recency and metadata completeness.  The
  clock is an argument: \<open>now_us\<close> is \<open>datetime.now(timezone.utc)\<close> in microseconds since the
  epoch, \<open>today_year\<close> is \<open>date.today().year\<close>.
\<close>

section \<open>Status and search queries\<close>

text \<open>
  \<open>datetime.fromtimestamp(ts, utc)\<close> exists for the years 1 to 9999; the exceptions of other
  arguments are folded into one.
\<close>

definition timestamp_in_range :: "int \<Rightarrow> bool" where
  "timestamp_in_range ts \<longleftrightarrow> -62135596800 \<le> ts \<and> ts \<le> 253402300799"

definition derive_status ::
  "int \<Rightarrow> string option \<Rightarrow> int option \<Rightarrow> int option \<Rightarrow> int option \<Rightarrow> string res" where
  "derive_status now_us status date_from date_to episodes =
     (if or_empty status \<noteq> []
      then Inr (if or_empty status = ''UPDATE'' then ''UNKNOWN'' else or_empty status)
      else case date_from of
        None \<Rightarrow> Inr ''UNKNOWN''
      | Some f \<Rightarrow>
          if \<not> timestamp_in_range f then Inl (ValueError ''timestamp out of range'')
          else if f * 1000000 > now_us then Inr ''UPCOMING''
          else (case date_to of
            None \<Rightarrow> Inr (if episodes = Some 1 then ''FINISHED'' else ''AIRING'')
          | Some t \<Rightarrow>
              if \<not> timestamp_in_range t then Inl (ValueError ''timestamp out of range'')
              else Inr (if t * 1000000 \<le> now_us then ''FINISHED'' else ''AIRING'')))"

definition normalize_search_query :: "string \<Rightarrow> string" where
  "normalize_search_query query =
     (if query = [] then []
      else let cleaned = map (\<lambda>c. if py_isalnum c \<or> c = CHR '' '' then c else CHR '' '') query
           in py_strip (py_join '' '' (py_split cleaned)))"

section \<open>Genres\<close>

definition GENRE_ORDER :: "string list" where
  "GENRE_ORDER = [''Action'', ''Adventure'', ''Comedy'', ''Drama'', ''Ecchi'', ''Fantasy'',
     ''Hentai'', ''Horror'', ''Mahou Shoujo'', ''Mecha'', ''Music'', ''Mystery'',
     ''Psychological'', ''Romance'', ''Sci-Fi'', ''Slice Of Life'', ''Sports'',
     ''Supernatural'', ''Thriller'']"

definition genre_lookup :: "string \<Rightarrow> string option" where
  "genre_lookup k = map_of (map (\<lambda>g. (py_lower g, g)) GENRE_ORDER) k"

fun index_of :: "'a \<Rightarrow> 'a list \<Rightarrow> nat" where
  "index_of x [] = 0"
| "index_of x (y # ys) = (if x = y then 0 else Suc (index_of x ys))"

definition genre_rank :: "string \<Rightarrow> nat" where
  "genre_rank g = index_of g GENRE_ORDER"

definition normalize_genre :: "string \<Rightarrow> string res" where
  "normalize_genre value =
     (let normalized = py_strip value
      in if normalized = [] then Inl (ValidationError ''Genre name is required.'')
         else case genre_lookup (py_lower normalized) of
           None \<Rightarrow> Inl (ValidationError
                     (''Genre must be one of: '' @ py_join '', '' GENRE_ORDER @ ''.''))
         | Some canonical \<Rightarrow> Inr canonical)"

datatype genre_arg = GStr string | GSeq "string option list"

fun genre_seq_tokens :: "string option list \<Rightarrow> string list" where
  "genre_seq_tokens [] = []"
| "genre_seq_tokens (None # items) = genre_seq_tokens items"
| "genre_seq_tokens (Some item # items) =
     (let text = py_strip item
      in (if text = [] then []
          else if CHR '','' \<in> set text then map py_strip (py_split_on CHR '','' text)
          else [text]) @ genre_seq_tokens items)"

fun genre_tokens :: "genre_arg \<Rightarrow> string list" where
  "genre_tokens (GStr s) = map py_strip (py_split_on CHR '','' s)"
| "genre_tokens (GSeq items) = genre_seq_tokens items"

text \<open>The loop over the tokens; \<open>canonical\<close> holds the names seen so far, in order.\<close>

fun genre_canonical :: "string list \<Rightarrow> string list \<Rightarrow> string list res" where
  "genre_canonical canonical [] = Inr canonical"
| "genre_canonical canonical (token # tokens) =
     (if token = [] then genre_canonical canonical tokens
      else case normalize_genre token of
        Inl e \<Rightarrow> Inl e
      | Inr name \<Rightarrow>
          if name \<in> set canonical then genre_canonical canonical tokens
          else genre_canonical (canonical @ [name]) tokens)"

definition normalize_genres :: "genre_arg \<Rightarrow> string list res" where
  "normalize_genres values =
     (let tokens = genre_tokens values
      in if tokens = [] then Inl (ValidationError ''At least one genre is required.'')
         else case genre_canonical [] tokens of
           Inl e \<Rightarrow> Inl e
         | Inr canonical \<Rightarrow>
             if canonical = [] then Inl (ValidationError ''At least one genre is required.'')
             else Inr (sort_key genre_rank canonical))"

definition format_genre_label :: "genre_arg \<Rightarrow> string res" where
  "format_genre_label genres = map_sum id (py_join '' + '') (normalize_genres genres)"

definition genres_contain_all ::
  "string option list option \<Rightarrow> string list \<Rightarrow> bool res" where
  "genres_contain_all available required =
     (if required = [] then Inr True
      else let have_names =
                 List.map_filter
                   (\<lambda>g. case g of None \<Rightarrow> None
                      | Some s \<Rightarrow> if py_strip s = [] then None
                                  else genre_lookup (py_lower (py_strip s)))
                   (case available of None \<Rightarrow> [] | Some gs \<Rightarrow> gs)
           in map_sum id (\<lambda>need. list_all (\<lambda>n. n \<in> set have_names) need)
                (normalize_genres (GSeq (map Some required))))"

section \<open>Airing seasons\<close>

definition AIRING_SEASONS :: "string list" where
  "AIRING_SEASONS = [''fall'', ''spring'', ''summer'', ''winter'']"

definition normalize_airing_season :: "string \<Rightarrow> string res" where
  "normalize_airing_season season =
     (let normalized = py_lower (py_strip season)
      in if normalized \<in> set AIRING_SEASONS then Inr normalized
         else Inl (ValidationError
                (''Season must be one of: '' @ py_join '', '' AIRING_SEASONS @ ''.'')))"

definition validate_season_year :: "int \<Rightarrow> pyval \<Rightarrow> int res" where
  "validate_season_year today_year year =
     (case py_int year of
        None \<Rightarrow> Inl (ValidationError ''Year must be a valid integer.'')
      | Some value \<Rightarrow>
          if value < 1980 \<or> value > today_year + 5
          then Inl (ValidationError (''Year must be between 1980 and ''
                     @ int_str (today_year + 5) @ ''.''))
          else Inr value)"

text \<open>
  \<open>datetime(y, m, 1, tzinfo=utc).timestamp()\<close> by the proleptic Gregorian ordinal of the
  standard library; 719163 is the ordinal of 1 January 1970.
\<close>

definition is_leap :: "int \<Rightarrow> bool" where
  "is_leap y \<longleftrightarrow> y mod 4 = 0 \<and> (y mod 100 \<noteq> 0 \<or> y mod 400 = 0)"

definition days_before_year :: "int \<Rightarrow> int" where
  "days_before_year y =
     (let y1 = y - 1 in y1 * 365 + y1 div 4 - y1 div 100 + y1 div 400)"

definition days_before_month :: "int \<Rightarrow> nat \<Rightarrow> int" where
  "days_before_month y m =
     [0, 31, 59, 90, 120, 151, 181, 212, 243, 273, 304, 334] ! (m - 1)
       + (if m > 2 \<and> is_leap y then 1 else 0)"

definition month_start_ts :: "int \<Rightarrow> nat \<Rightarrow> int" where
  "month_start_ts y m = (days_before_year y + days_before_month y m + 1 - 719163) * 86400"

definition season_start_month :: "string \<Rightarrow> nat" where
  "season_start_month s =
     (if s = ''winter'' then 1 else if s = ''spring'' then 4
      else if s = ''summer'' then 7 else 10)"

definition season_date_range :: "int \<Rightarrow> pyval \<Rightarrow> string \<Rightarrow> (int \<times> int) res" where
  "season_date_range today_year year season =
     (case normalize_airing_season season of
        Inl e \<Rightarrow> Inl e
      | Inr season_key \<Rightarrow>
          (case validate_season_year today_year year of
             Inl e \<Rightarrow> Inl e
           | Inr y \<Rightarrow>
               Inr (month_start_ts y (season_start_month season_key),
                    if season_key = ''winter'' then month_start_ts y 4
                    else if season_key = ''spring'' then month_start_ts y 7
                    else if season_key = ''summer'' then month_start_ts y 10
                    else month_start_ts (y + 1) 1)))"

fun py_capitalize :: "string \<Rightarrow> string" where
  "py_capitalize [] = []"
| "py_capitalize (c # cs) = py_upper_char c @ py_lower cs"

definition format_season_label :: "int \<Rightarrow> string \<Rightarrow> pyval \<Rightarrow> string res" where
  "format_season_label today_year season year =
     (case normalize_airing_season season of
        Inl e \<Rightarrow> Inl e
      | Inr k \<Rightarrow> map_sum id (\<lambda>y. py_capitalize k @ '' '' @ int_str y)
                   (validate_season_year today_year year))"

section \<open>Top categories\<close>

record TopCategorySpec =
  tc_key :: string
  tc_label :: string
  tc_local_status :: "string option"

definition TOP_CATEGORY_SPECS :: "TopCategorySpec list" where
  "TOP_CATEGORY_SPECS =
     [\<lparr>tc_key = ''all'', tc_label = ''All'', tc_local_status = None\<rparr>,
      \<lparr>tc_key = ''airing'', tc_label = ''Airing'', tc_local_status = Some ''AIRING''\<rparr>,
      \<lparr>tc_key = ''upcoming'', tc_label = ''Upcoming'', tc_local_status = Some ''UPCOMING''\<rparr>]"

definition top_lookup :: "string \<Rightarrow> TopCategorySpec option" where
  "top_lookup k = map_of (map (\<lambda>s. (tc_key s, s)) TOP_CATEGORY_SPECS) k"

definition normalize_top_category :: "string \<Rightarrow> string res" where
  "normalize_top_category value =
     (let normalized = py_lower (py_strip value)
      in if top_lookup normalized = None
         then Inl (ValidationError (''Top category must be one of: ''
                @ py_join '', '' (map tc_key TOP_CATEGORY_SPECS) @ ''.''))
         else Inr normalized)"

definition top_category_spec :: "string \<Rightarrow> TopCategorySpec res" where
  "top_category_spec value =
     (case normalize_top_category value of
        Inl e \<Rightarrow> Inl e
      | Inr k \<Rightarrow> (case top_lookup k of None \<Rightarrow> Inl (KeyError k) | Some spec \<Rightarrow> Inr spec))"

definition local_status_for :: "string \<Rightarrow> string option res" where
  "local_status_for category = map_sum id tc_local_status (top_category_spec category)"

definition format_top_label :: "string \<Rightarrow> string res" where
  "format_top_label category = map_sum id tc_label (top_category_spec category)"

section \<open>Schedule recency\<close>

text \<open>\<open>int(current.timestamp())\<close> truncates towards zero.\<close>

definition trunc_seconds :: "int \<Rightarrow> int" where
  "trunc_seconds now_us =
     (if now_us \<ge> 0 then now_us div 1000000 else - ((- now_us) div 1000000))"

definition schedule_recency_cutoff_ts :: "int \<Rightarrow> int \<Rightarrow> int" where
  "schedule_recency_cutoff_ts window_days now_us = trunc_seconds now_us - window_days * 86400"

definition schedule_recency_horizon_ts :: "int \<Rightarrow> int \<Rightarrow> int" where
  "schedule_recency_horizon_ts window_days now_us = trunc_seconds now_us + window_days * 86400"

definition is_recent_schedule_start :: "int option \<Rightarrow> int \<Rightarrow> int \<Rightarrow> bool" where
  "is_recent_schedule_start date_from window_days now_us =
     (case date_from of
        None \<Rightarrow> False
      | Some start \<Rightarrow> schedule_recency_cutoff_ts window_days now_us \<le> start
                    \<and> start \<le> schedule_recency_horizon_ts window_days now_us)"

text \<open>\<open>int(record.date_from or 0)\<close>; a stable sort on the negated key is \<open>reverse=True\<close>.\<close>

definition date_from_key :: "AnimeRecord \<Rightarrow> int" where
  "date_from_key r = (case ar_date_from r of None \<Rightarrow> 0 | Some d \<Rightarrow> d)"

definition filter_recent_schedule_records ::
  "AnimeRecord list \<Rightarrow> int \<Rightarrow> int \<Rightarrow> int \<Rightarrow> AnimeRecord list" where
  "filter_recent_schedule_records records window_days limit now_us =
     (let recent = filter (\<lambda>r. is_recent_schedule_start (ar_date_from r) window_days now_us)
                     records
      in take (nat (max 0 limit)) (sort_key (\<lambda>r. - date_from_key r) recent))"

section \<open>Incomplete metadata\<close>

definition is_anime_metadata_missing :: "AnimeEntity option \<Rightarrow> int option \<Rightarrow> bool" where
  "is_anime_metadata_missing entity catalog_id =
     (let fallback = (case catalog_id of None \<Rightarrow> 0 | Some c \<Rightarrow> c);
          effective_id = (case entity of None \<Rightarrow> fallback
                          | Some e \<Rightarrow> if ae_id e > 0 then ae_id e else fallback)
      in if effective_id \<le> 0 then False
         else (case entity of None \<Rightarrow> True
           | Some e \<Rightarrow>
               py_strip (ae_title e) = [] \<or>
               map py_strip (filter (\<lambda>s. s \<noteq> []) (ae_title_synonyms e)) = []))"

section \<open>Search queries\<close>

lemma normalize_search_query_alt:
  "normalize_search_query q =
     py_join '' '' (py_split (map (\<lambda>c. if py_isalnum c then c else CHR '' '') q))"
proof -
  have cleaned: "map (\<lambda>c. if py_isalnum c \<or> c = CHR '' '' then c else CHR '' '') q
      = map (\<lambda>c. if py_isalnum c then c else CHR '' '') q"
    by auto
  let ?ws = "py_split (map (\<lambda>c. if py_isalnum c then c else CHR '' '') q)"
  have "py_strip (py_join '' '' ?ws) = py_join '' '' ?ws"
    by (rule py_strip_join_blank) (use py_split_words in blast)
  then show ?thesis
    by (cases "q = []") (simp_all add: normalize_search_query_def cleaned py_split_def Let_def)
qed

lemma py_join_alnum:
  assumes "\<forall>w \<in> set ws. \<forall>c \<in> set w. py_isalnum c"
  shows "\<forall>c \<in> set (py_join '' '' ws). py_isalnum c \<or> c = CHR '' ''"
  using assms by (induction ws rule: induct_list012) auto

lemma query_words_alnum:
  assumes "w \<in> set (py_split (map (\<lambda>c. if py_isalnum c then c else CHR '' '') q))"
  shows "\<forall>c \<in> set w. py_isalnum c"
proof
  fix c assume c: "c \<in> set w"
  have "c \<in> set (map (\<lambda>c. if py_isalnum c then c else CHR '' '') q)"
    using py_split_chars [OF assms] c by blast
  moreover have "c \<noteq> CHR '' ''" using py_split_words [OF assms] c by auto
  ultimately show "py_isalnum c" by auto
qed

section \<open>Genres\<close>

lemma genre_lookup_mem: "genre_lookup k = Some g \<Longrightarrow> g \<in> set GENRE_ORDER"
  unfolding genre_lookup_def by (drule map_of_SomeD) (metis (no_types, lifting) image_iff list.set_map prod.inject)

lemma normalize_genre_mem: "normalize_genre t = Inr g \<Longrightarrow> g \<in> set GENRE_ORDER"
  by (auto simp: normalize_genre_def Let_def dest: genre_lookup_mem split: if_splits option.splits)

lemma genre_order_tokens: "g \<in> set GENRE_ORDER \<Longrightarrow>
   g \<noteq> [] \<and> py_strip g = g \<and> CHR '','' \<notin> set g"
proof -
  have "list_all (\<lambda>g. g \<noteq> [] \<and> py_strip g = g \<and> CHR '','' \<notin> set g) GENRE_ORDER"
    by code_simp
  then show "g \<in> set GENRE_ORDER \<Longrightarrow> g \<noteq> [] \<and> py_strip g = g \<and> CHR '','' \<notin> set g"
    unfolding list_all_iff by blast
qed

lemma distinct_lower_genres: "distinct (map py_lower GENRE_ORDER)"
  by (simp add: GENRE_ORDER_def py_lower_def py_lower_char_def)

lemma genre_order_fixed: "g \<in> set GENRE_ORDER \<Longrightarrow> normalize_genre g = Inr g"
proof -
  assume g: "g \<in> set GENRE_ORDER"
  then have "genre_lookup (py_lower g) = Some g"
    using distinct_lower_genres
    by (auto simp: genre_lookup_def comp_def intro!: map_of_is_SomeI)
  then show "normalize_genre g = Inr g"
    using genre_order_tokens [OF g] by (simp add: normalize_genre_def)
qed

lemma genre_canonical_Inr:
  assumes "genre_canonical acc ts = Inr gs" and "distinct acc"
  shows "distinct gs \<and>
         set gs = set acc \<union> {g. \<exists>t \<in> set ts. t \<noteq> [] \<and> normalize_genre t = Inr g}"
  using assms
proof (induction acc ts rule: genre_canonical.induct)
  case (1 acc)
  then show ?case by simp
next
  case (2 acc t ts)
  show ?case
  proof (cases "t = []")
    case True
    then show ?thesis using 2 by auto
  next
    case False
    with "2.prems"(1) obtain name where n: "normalize_genre t = Inr name"
      by (auto split: sum.splits)
    show ?thesis
    proof (cases "name \<in> set acc")
      case True
      then show ?thesis using 2 False n by auto
    next
      case new: False
      then have "distinct gs \<and> set gs = set (acc @ [name]) \<union>
          {g. \<exists>t \<in> set ts. t \<noteq> [] \<and> normalize_genre t = Inr g}"
        using "2.IH"(3) [OF False n new] "2.prems" False n by simp
      then show ?thesis using False n by auto
    qed
  qed
qed

lemma genre_rank_less: "g \<in> set GENRE_ORDER \<Longrightarrow> genre_rank g < 19"
proof -
  have "list_all (\<lambda>g. genre_rank g < 19) GENRE_ORDER" by code_simp
  then show "g \<in> set GENRE_ORDER \<Longrightarrow> genre_rank g < 19" by (simp add: list_all_iff)
qed

lemma sorted_genre_order: "sorted (map genre_rank GENRE_ORDER)" and
  distinct_genre_order: "distinct GENRE_ORDER" and
  distinct_genre_rank: "distinct (map genre_rank GENRE_ORDER)"
  by code_simp+

lemma sort_by_rank:
  assumes "distinct gs" and "set gs \<subseteq> set GENRE_ORDER"
  shows "sort_key genre_rank gs = filter (\<lambda>g. g \<in> set gs) GENRE_ORDER"
proof -
  let ?r = "filter (\<lambda>g. g \<in> set gs) GENRE_ORDER"
  have inj: "inj_on genre_rank (set GENRE_ORDER)"
    using distinct_genre_rank by (simp add: distinct_map)
  have "sorted (map genre_rank ?r)" using sorted_genre_order by (rule sorted_filter)
  moreover have "distinct ?r" by (simp add: distinct_genre_order)
  moreover have "set ?r = set gs" using assms(2) by auto
  moreover have "distinct (map genre_rank ?r)"
    using distinct_genre_rank by (rule distinct_map_filter)
  moreover have "distinct (map genre_rank (sort_key genre_rank gs))"
    using assms inj by (auto simp: distinct_map intro: inj_on_subset)
  ultimately have "map genre_rank (sort_key genre_rank gs) = map genre_rank ?r"
    by (intro sorted_distinct_set_unique) simp_all
  then show ?thesis
    by (rule map_inj_on) (use assms inj in \<open>auto intro: inj_on_subset\<close>)
qed

lemma normalize_genres_Inr:
  assumes "normalize_genres values = Inr gs"
  shows "gs = filter (\<lambda>g. \<exists>t \<in> set (genre_tokens values). t \<noteq> [] \<and> normalize_genre t = Inr g)
               GENRE_ORDER \<and> gs \<noteq> []"
proof -
  from assms obtain cs where c: "genre_canonical [] (genre_tokens values) = Inr cs"
      and ne: "cs \<noteq> []" and gs: "gs = sort_key genre_rank cs"
    by (auto simp: normalize_genres_def Let_def split: if_splits sum.splits)
  have d: "distinct cs" and
    s: "set cs = {g. \<exists>t \<in> set (genre_tokens values). t \<noteq> [] \<and> normalize_genre t = Inr g}"
    using genre_canonical_Inr [OF c] by auto
  then have "set cs \<subseteq> set GENRE_ORDER" by (auto dest: normalize_genre_mem)
  then have "gs = filter (\<lambda>g. g \<in> set cs) GENRE_ORDER"
    using gs sort_by_rank [OF d] by simp
  moreover have "gs \<noteq> []" using gs ne by (metis length_0_conv length_sort)
  ultimately show ?thesis using s by simp
qed

lemma genre_seq_tokens_canonical:
  "set gs \<subseteq> set GENRE_ORDER \<Longrightarrow> genre_seq_tokens (map Some gs) = gs"
  by (induction gs) (auto simp: genre_order_tokens)

lemma genre_canonical_fixed:
  "set gs \<subseteq> set GENRE_ORDER \<Longrightarrow> distinct (acc @ gs) \<Longrightarrow> genre_canonical acc gs = Inr (acc @ gs)"
  by (induction gs arbitrary: acc) (auto simp: genre_order_fixed genre_order_tokens)

section \<open>Seasons\<close>

lemma div_pred:
  assumes "0 < (n::int)"
  shows "y div n = (y - 1) div n + (if y mod n = 0 then 1 else 0)"
proof (cases "y mod n = 0")
  case True
  then have "y - 1 = n * (y div n - 1) + (n - 1)"
    using mult_div_mod_eq [of n y] by (simp add: right_diff_distrib)
  then have "(y - 1) div n = y div n - 1"
    by (rule int_div_pos_eq) (use assms in simp_all)
  then show ?thesis using True by simp
next
  case False
  then have "0 < y mod n" using assms pos_mod_sign [of n y] by linarith
  moreover have "y - 1 = n * (y div n) + (y mod n - 1)"
    using mult_div_mod_eq [of n y] by simp
  ultimately have "(y - 1) div n = y div n"
    using assms pos_mod_bound [OF assms, of y]
    by (intro int_div_pos_eq [where r = "y mod n - 1"]) simp_all
  then show ?thesis using False by simp
qed

lemma days_before_year_Suc:
  "days_before_year (y + 1) = days_before_year y + 365 + (if is_leap y then 1 else 0)"
proof -
  define p4 p100 p400 where "p4 = (y mod 4 = 0)" and "p100 = (y mod 100 = 0)"
    and "p400 = (y mod 400 = 0)"
  define d4 d100 d400 where "d4 = (y - 1) div 4" and "d100 = (y - 1) div 100"
    and "d400 = (y - 1) div 400"
  have imp: "p100 \<longrightarrow> p4" "p400 \<longrightarrow> p100"
    unfolding p4_def p100_def p400_def by presburger+
  have eqs: "y div 4 = d4 + (if p4 then 1 else 0)" "y div 100 = d100 + (if p100 then 1 else 0)"
      "y div 400 = d400 + (if p400 then 1 else 0)"
    using div_pred [of 4 y, OF zero_less_numeral] div_pred [of 100 y, OF zero_less_numeral]
      div_pred [of 400 y, OF zero_less_numeral]
    by (simp_all only: p4_def p100_def p400_def d4_def d100_def d400_def)
  have leap: "is_leap y = (p4 \<and> (\<not> p100 \<or> p400))"
    by (simp only: is_leap_def p4_def p100_def p400_def)
  have "days_before_year (y + 1) = y * 365 + y div 4 - y div 100 + y div 400"
    by (simp add: days_before_year_def)
  also have "\<dots> = (y - 1) * 365 + d4 - d100 + d400 + 365 + (if is_leap y then 1 else 0)"
    by (cases p4; cases p100; cases p400) (use imp in \<open>simp_all add: eqs leap\<close>)
  also have "\<dots> = days_before_year y + 365 + (if is_leap y then 1 else 0)"
    by (simp add: days_before_year_def Let_def d4_def d100_def d400_def)
  finally show ?thesis .
qed

lemma days_before_month_values:
  "days_before_month y 1 = 0"
  "days_before_month y 4 = 90 + (if is_leap y then 1 else 0)"
  "days_before_month y 7 = 181 + (if is_leap y then 1 else 0)"
  "days_before_month y 10 = 273 + (if is_leap y then 1 else 0)"
  by (simp_all add: days_before_month_def)

lemma season_cases:
  "normalize_airing_season s = Inr k \<Longrightarrow>
   k = ''winter'' \<or> k = ''spring'' \<or> k = ''summer'' \<or> k = ''fall''"
  by (auto simp: normalize_airing_season_def AIRING_SEASONS_def Let_def split: if_splits)

lemma season_names [simp]:
  "normalize_airing_season ''winter'' = Inr ''winter''"
  "normalize_airing_season ''spring'' = Inr ''spring''"
  "normalize_airing_season ''summer'' = Inr ''summer''"
  "normalize_airing_season ''fall'' = Inr ''fall''"
  by code_simp+

lemma validate_year_PInt:
  "1980 \<le> y \<Longrightarrow> y \<le> t + 5 \<Longrightarrow> validate_season_year t (PInt y) = Inr y"
  by (simp add: validate_season_year_def)

section \<open>Schedule rows\<close>

lemma set_filter_recent:
  "set (filter_recent_schedule_records rs w l now) \<subseteq> set rs"
  by (auto simp: filter_recent_schedule_records_def Let_def dest!: in_set_takeD)

lemma sorted_take_rest:
  assumes "sorted (map f xs)" and "x \<in> set (take n xs)" and "y \<in> set (drop n xs)"
  shows "f x \<le> f y"
proof -
  have "sorted (map f (take n xs @ drop n xs))" using assms(1) by simp
  then have "\<forall>a \<in> set (take n xs). \<forall>b \<in> set (drop n xs). f a \<le> f b"
    by (simp only: map_append sorted_append) auto
  then show ?thesis using assms by blast
qed

section \<open>Properties\<close>

text \<open>
  Normalising a search query yields words of letters and digits separated by single
  blanks, without leading or trailing blanks, and normalising again changes nothing.
\<close>

lemma normalize_search_query_canonical:
  "normalize_search_query (normalize_search_query q) = normalize_search_query q
   \<and> (\<exists>ws. normalize_search_query q = py_join '' '' ws
        \<and> list_all (\<lambda>w. w \<noteq> [] \<and> list_all py_isalnum w) ws)"
proof -
  let ?clean = "\<lambda>q. map (\<lambda>c. if py_isalnum c then c else CHR '' '') q"
  let ?ws = "py_split (?clean q)"
  have nq: "normalize_search_query q = py_join '' '' ?ws"
    by (rule normalize_search_query_alt)
  have words: "list_all (\<lambda>w. w \<noteq> [] \<and> list_all py_isalnum w) ?ws"
    using py_split_words query_words_alnum by (auto simp: list_all_iff)
  have "?clean (py_join '' '' ?ws) = py_join '' '' ?ws"
    using py_join_alnum [of ?ws] query_words_alnum by (intro map_idI) auto
  moreover have "py_split (py_join '' '' ?ws) = ?ws"
    by (rule split_join_blank) (use py_split_words in blast)
  ultimately have "normalize_search_query (py_join '' '' ?ws) = py_join '' '' ?ws"
    by (simp add: normalize_search_query_alt)
  then show ?thesis using nq words by auto
qed

text \<open>
  Genre normalisation returns the named genres exactly once each in the registry's order,
  whatever the order, case or repetition of the input; the result is accepted again and is
  its own normal form.
\<close>

lemma normalize_genres_canonical:
  assumes "normalize_genres values = Inr gs"
  shows "gs = filter (\<lambda>g. \<exists>t \<in> set (genre_tokens values). normalize_genre t = Inr g) GENRE_ORDER
       \<and> normalize_genres (GSeq (map Some gs)) = Inr gs"
proof -
  have empty_token: "normalize_genre [] \<noteq> Inr g" for g
    by (simp add: normalize_genre_def)
  have token_eq: "(t \<noteq> [] \<and> normalize_genre t = Inr g) = (normalize_genre t = Inr g)" for t g
    using empty_token by (cases "t = []") simp_all
  have gs: "gs = filter (\<lambda>g. \<exists>t \<in> set (genre_tokens values). normalize_genre t = Inr g) GENRE_ORDER"
    and ne: "gs \<noteq> []"
    using normalize_genres_Inr [OF assms, unfolded token_eq] by blast+
  then have sub: "set gs \<subseteq> set GENRE_ORDER" by auto
  have d: "distinct gs" using gs distinct_genre_order by simp
  let ?P = "\<lambda>g. \<exists>t \<in> set (genre_tokens values). normalize_genre t = Inr g"
  have mem: "g \<in> set gs \<longleftrightarrow> g \<in> set GENRE_ORDER \<and> ?P g" for g
    by (subst gs) simp
  have "filter (\<lambda>g. g \<in> set gs) GENRE_ORDER = filter ?P GENRE_ORDER"
    by (rule filter_cong [OF refl]) (simp add: mem)
  then have "filter (\<lambda>g. g \<in> set gs) GENRE_ORDER = gs"
    by (simp only: gs [symmetric])
  then have "sort_key genre_rank gs = gs" using sort_by_rank [OF d sub] by simp
  then have "normalize_genres (GSeq (map Some gs)) = Inr gs"
    using genre_canonical_fixed [OF sub, of "[]"] d ne
    by (simp add: normalize_genres_def genre_seq_tokens_canonical [OF sub])
  then show ?thesis using gs by blast
qed

lemma normalize_genres_canonical_witness:
  "normalize_genres (GSeq (map Some [''Action'', ''Comedy''])) = Inr [''Action'', ''Comedy'']"
proof -
  have "normalize_genres (GStr ''comedy, ACTION,,Comedy'') = Inr [''Action'', ''Comedy'']"
    by code_simp
  from normalize_genres_canonical [OF this] show ?thesis by blast
qed

text \<open>
  The airing seasons of a year tile it without gap or overlap: each range is non-empty,
  ends where the next begins, and the fall of a year ends where the next winter begins.
\<close>

lemma season_ranges_tile_the_year:
  assumes "1980 \<le> y" and "y \<le> today_year + 4"
  shows "\<exists>t0 t1 t2 t3 t4. t0 < t1 \<and> t1 < t2 \<and> t2 < t3 \<and> t3 < t4
      \<and> season_date_range today_year (PInt y) ''winter'' = Inr (t0, t1)
      \<and> season_date_range today_year (PInt y) ''spring'' = Inr (t1, t2)
      \<and> season_date_range today_year (PInt y) ''summer'' = Inr (t2, t3)
      \<and> season_date_range today_year (PInt y) ''fall'' = Inr (t3, t4)
      \<and> (\<exists>t5. season_date_range today_year (PInt (y + 1)) ''winter'' = Inr (t4, t5))"
proof -
  have v: "validate_season_year today_year (PInt y) = Inr y"
      "validate_season_year today_year (PInt (y + 1)) = Inr (y + 1)"
    using assms by (simp_all add: validate_year_PInt)
  have lt: "month_start_ts y 1 < month_start_ts y 4" "month_start_ts y 4 < month_start_ts y 7"
      "month_start_ts y 7 < month_start_ts y 10" "month_start_ts y 10 < month_start_ts (y + 1) 1"
    by (simp_all only: month_start_ts_def days_before_month_values days_before_year_Suc)
       (simp_all split: if_splits)
  have "season_start_month ''winter'' = 1" "season_start_month ''spring'' = 4"
      "season_start_month ''summer'' = 7" "season_start_month ''fall'' = 10"
    by code_simp+
  then show ?thesis
    using lt by (simp add: season_date_range_def v)
qed

lemma season_ranges_tile_the_year_witness:
  "\<exists>t0 t1. t0 < t1 \<and> season_date_range 2026 (PInt 2024) ''winter'' = Inr (t0, t1)"
  using season_ranges_tile_the_year [of 2024 2026] by auto

text \<open>
  The schedule filter keeps the newest recent rows: the result has at most \<open>limit\<close> rows,
  all recent, in descending start order, and a recent row that was left out starts no later
  than every row kept.
\<close>

lemma filter_recent_keeps_newest:
  assumes "r \<in> set (filter_recent_schedule_records records w limit now_us)"
  shows "r \<in> set records \<and> is_recent_schedule_start (ar_date_from r) w now_us
      \<and> length (filter_recent_schedule_records records w limit now_us) \<le> nat limit
      \<and> sorted (map (\<lambda>r. - date_from_key r) (filter_recent_schedule_records records w limit now_us))
      \<and> (\<forall>o' \<in> set records. is_recent_schedule_start (ar_date_from o') w now_us \<longrightarrow>
           o' \<notin> set (filter_recent_schedule_records records w limit now_us) \<longrightarrow>
           date_from_key o' \<le> date_from_key r)"
proof -
  let ?recent = "filter (\<lambda>r. is_recent_schedule_start (ar_date_from r) w now_us) records"
  let ?s = "sort_key (\<lambda>r. - date_from_key r) ?recent"
  have f: "filter_recent_schedule_records records w limit now_us = take (nat (max 0 limit)) ?s"
    by (simp add: filter_recent_schedule_records_def)
  have sorted_s: "sorted (map (\<lambda>r. - date_from_key r) ?s)" by (rule sorted_sort_key)
  have r: "r \<in> set (take (nat (max 0 limit)) ?s)" using assms f by simp
  then have "r \<in> set ?s" by (rule in_set_takeD)
  then have 1: "r \<in> set records \<and> is_recent_schedule_start (ar_date_from r) w now_us" by simp
  have "date_from_key o' \<le> date_from_key r"
    if "o' \<in> set records" "is_recent_schedule_start (ar_date_from o') w now_us"
      "o' \<notin> set (take (nat (max 0 limit)) ?s)" for o'
  proof -
    have "o' \<in> set ?s" using that by simp
    then have "o' \<in> set (drop (nat (max 0 limit)) ?s)"
      using that(3) by (metis Un_iff append_take_drop_id set_append)
    from sorted_take_rest [OF sorted_s r this] show ?thesis by simp
  qed
  moreover have "length (take (nat (max 0 limit)) ?s) \<le> nat limit" by simp
  moreover have "sorted (map (\<lambda>r. - date_from_key r) (take (nat (max 0 limit)) ?s))"
    using sorted_s by (simp add: take_map [symmetric] sorted_wrt_take)
  ultimately show ?thesis using 1 f by simp
qed

definition sample_record :: "int \<Rightarrow> int option \<Rightarrow> AnimeRecord" where
  "sample_record i d =
     \<lparr>ar_id = i, ar_title = ''t'', ar_title_synonyms = [], ar_synopsis = None,
      ar_episodes = None, ar_duration = None, ar_status = None, ar_rating = None,
      ar_date_from = d, ar_date_to = None, ar_picture = None, ar_trailer = None,
      ar_broadcast = None, ar_genres = [], ar_external_ids = [],
      ar_source_provider = UNKNOWN, ar_picture_variants = []\<rparr>"

lemma filter_recent_keeps_newest_witness:
  "filter_recent_schedule_records
      [sample_record 1 (Some 100), sample_record 2 (Some 300), sample_record 3 None] 1 1 0
     = [sample_record 2 (Some 300)]
   \<and> date_from_key (sample_record 1 (Some 100)) \<le> date_from_key (sample_record 2 (Some 300))"
proof -
  have f: "filter_recent_schedule_records
      [sample_record 1 (Some 100), sample_record 2 (Some 300), sample_record 3 None] 1 1 0
     = [sample_record 2 (Some 300)]"
    by code_simp
  have m: "sample_record 2 (Some 300) \<in> set (filter_recent_schedule_records
      [sample_record 1 (Some 100), sample_record 2 (Some 300), sample_record 3 None] 1 1 0)"
    by (simp add: f)
  have rec: "is_recent_schedule_start (ar_date_from (sample_record 1 (Some 100))) 1 0"
    by code_simp
  have ne: "sample_record 1 (Some 100) \<noteq> sample_record 2 (Some 300)"
    by (simp add: sample_record_def)
  show ?thesis using filter_recent_keeps_newest [OF m] f rec ne by simp
qed

end
