(* ===== verification/Listing.thy ===== *)
theory Listing
  imports Policies
begin

text \<open>
  Browsing the local catalogue: the query builder
  (\<open>adapters/persistence/query_builder.py\<close>), the statement its specification becomes
  (\<open>filter\<close> in \<open>adapters/persistence/dbManager.py\<close>), the listing operations of the database
  manager (\<open>application/services/database_manager.py\<close>) and of the repository
  (\<open>adapters/persistence/anime_repository.py\<close>).  The SQL engine is an argument: the rows a table,
  a condition and an order select, or its exception.
\<close>

section \<open>Query specifications\<close>

definition ALLOWED_CRITERIA :: "string list" where
  "ALLOWED_CRITERIA =
     [''DEFAULT'', ''LIKED'', ''NONE'', ''UPCOMING'', ''FINISHED'', ''AIRING'', ''RATED'', ''RANDOM'',
      ''WATCHING'', ''SEEN'', ''WATCHLIST'']"

text \<open>An apostrophe, which string literals cannot show next to one another.\<close>

definition quoted :: "string \<Rightarrow> string" where
  "quoted s = char_of (39::nat) # s @ [char_of (39::nat)]"

definition RATING_GUARD :: string where
  "RATING_GUARD = ''(rating NOT IN('' @ quoted ''R+'' @ '','' @ quoted ''Rx'' @ '') OR rating IS NULL)''"

definition default_table :: "int \<Rightarrow> string" where
  "default_table user_id =
     ''anime LEFT JOIN user_tags '' @ ''ON user_tags.anime_id = anime.id AND user_id='' @ int_str user_id"

definition watching_table :: "int \<Rightarrow> string" where
  "watching_table user_id =
     ''anime LEFT JOIN broadcasts ON anime.id = broadcasts.id '' @
     ''LEFT JOIN user_tags ON user_tags.anime_id = anime.id AND user_id='' @ int_str user_id"

record AnimeListQuery =
  aq_table :: string
  aq_filter :: string
  aq_order :: string
  aq_sort :: string
  aq_range :: "int \<times> int"
  aq_params :: pydict

definition safe_range :: "int \<times> int \<Rightarrow> int \<times> int" where
  "safe_range listrange =
     (let start = max 0 (fst listrange) in (start, max (start + 1) (snd listrange)))"

definition guarded :: "bool \<Rightarrow> string \<Rightarrow> string" where
  "guarded hide_rated clause = (if hide_rated then clause @ '' AND '' @ RATING_GUARD else clause)"

definition build_anime_list_query :: "string \<Rightarrow> int \<times> int \<Rightarrow> bool \<Rightarrow> int \<Rightarrow> AnimeListQuery" where
  "build_anime_list_query requested listrange hide_rated user_id =
     (let criteria = (if requested \<in> set ALLOWED_CRITERIA then requested else ''DEFAULT'');
          params = [(''user_id'', PInt user_id)];
          base_filter = guarded hide_rated (''status != '' @ quoted ''UPCOMING'');
          q = \<lparr>aq_table = default_table user_id, aq_filter = [], aq_order = ''date_from'', aq_sort = ''DESC'',
               aq_range = safe_range listrange, aq_params = params\<rparr>
      in if criteria = ''DEFAULT''
         then q\<lparr>aq_filter := guarded hide_rated
                  (''anime.status != '' @ quoted ''UPCOMING'' @ '' AND anime.status != '' @ quoted ''UNKNOWN''),
                aq_order := ''anime.date_from''\<rparr>
         else if criteria = ''LIKED'' then q\<lparr>aq_filter := ''liked = 1 AND '' @ base_filter\<rparr>
         else if criteria = ''NONE''
         then q\<lparr>aq_filter := ''(tag IS NULL OR tag = '' @ quoted ''NONE'' @ '') AND '' @ base_filter\<rparr>
         else if criteria = ''UPCOMING''
         then q\<lparr>aq_sort := ''ASC'', aq_filter := guarded hide_rated (''status = '' @ quoted criteria),
                aq_params := params @ [(''status'', PStr criteria)]\<rparr>
         else if criteria \<in> {''FINISHED'', ''AIRING''}
         then q\<lparr>aq_filter := ''status = '' @ quoted criteria @ '' AND '' @ base_filter,
                aq_params := params @ [(''status'', PStr criteria)]\<rparr>
         else if criteria = ''RATED''
         then q\<lparr>aq_filter := ''rating IN('' @ quoted ''R+'' @ '','' @ quoted ''Rx'' @
                                '') AND status != '' @ quoted ''UPCOMING''\<rparr>
         else if criteria = ''RANDOM''
         then q\<lparr>aq_order := ''RANDOM()'', aq_filter := ''anime.picture IS NOT NULL''\<rparr>
         else if criteria = ''WATCHING''
         then q\<lparr>aq_table := watching_table user_id,
                aq_filter := ''tag = '' @ quoted criteria @ '' AND status != '' @ quoted ''UPCOMING'',
                aq_params := params @ [(''tag'', PStr criteria)]\<rparr>
         else q\<lparr>aq_filter := ''tag = '' @ quoted criteria @ '' AND '' @ base_filter,
                aq_params := params @ [(''tag'', PStr criteria)]\<rparr>)"

definition genre_exists :: "string \<Rightarrow> string" where
  "genre_exists genre =
     ''EXISTS (SELECT 1 FROM genres g '' @ ''LEFT JOIN genresindex gi ON gi.id = g.value '' @
     ''WHERE g.id = anime.id AND (gi.name = '' @ quoted genre @ '' OR g.value = '' @ quoted genre @ ''))''"

definition build_genre_list_query :: "string list \<Rightarrow> int \<times> int \<Rightarrow> bool \<Rightarrow> int \<Rightarrow> AnimeListQuery res" where
  "build_genre_list_query genres listrange hide_rated user_id =
     (if genres = [] then Inl (ValueError ''At least one genre is required.'')
      else Inr \<lparr>aq_table = default_table user_id,
                aq_filter = guarded hide_rated
                  (py_join '' AND '' (map genre_exists genres) @ '' AND anime.status != '' @ quoted ''UPCOMING''
                   @ '' AND anime.status != '' @ quoted ''UNKNOWN''),
                aq_order = ''anime.date_from'', aq_sort = ''DESC'', aq_range = safe_range listrange,
                aq_params = [(''user_id'', PInt user_id), (''genres'', PList (map PStr genres))]\<rparr>)"

definition build_season_list_query :: "int \<Rightarrow> int \<Rightarrow> int \<times> int \<Rightarrow> int \<Rightarrow> AnimeListQuery" where
  "build_season_list_query start_ts end_ts listrange user_id =
     \<lparr>aq_table = default_table user_id,
      aq_filter = ''anime.date_from IS NOT NULL '' @ ''AND anime.date_from >= '' @ int_str start_ts
                  @ '' '' @ ''AND anime.date_from < '' @ int_str end_ts,
      aq_order = ''anime.date_from'', aq_sort = ''DESC'', aq_range = safe_range listrange,
      aq_params = [(''user_id'', PInt user_id), (''start_ts'', PInt start_ts), (''end_ts'', PInt end_ts)]\<rparr>"

definition build_top_list_query :: "string \<Rightarrow> int \<times> int \<Rightarrow> bool \<Rightarrow> int \<Rightarrow> AnimeListQuery" where
  "build_top_list_query status listrange hide_rated user_id =
     (let status_key = py_upper (py_strip status)
      in \<lparr>aq_table = default_table user_id,
          aq_filter = guarded hide_rated (''status = '' @ quoted status_key),
          aq_order = ''date_from'', aq_sort = (if status_key = ''UPCOMING'' then ''ASC'' else ''DESC''),
          aq_range = safe_range listrange,
          aq_params = [(''user_id'', PInt user_id), (''status'', PStr status_key)]\<rparr>)"

section \<open>Statements\<close>

text \<open>
  What \<open>filter\<close> makes of a specification: \<open>LIMIT a,b\<close> is, to the engines used, at most \<open>b\<close>
  rows from offset \<open>a\<close>.
\<close>

record sql_args =
  qa_table :: string
  qa_filter :: string
  qa_order :: string
  qa_sort :: string
  qa_range :: "int \<times> int"

definition to_args :: "AnimeListQuery \<Rightarrow> sql_args" where
  "to_args q =
     \<lparr>qa_table = aq_table q, qa_filter = aq_filter q, qa_order = aq_order q, qa_sort = aq_sort q,
      qa_range = aq_range q\<rparr>"

fun collapse_blanks :: "string \<Rightarrow> string" where
  "collapse_blanks (a # b # s) =
     (if a = CHR '' '' \<and> b = CHR '' '' then collapse_blanks (b # s) else a # collapse_blanks (b # s))"
| "collapse_blanks s = s"

definition limit_text :: "int \<times> int \<Rightarrow> string" where
  "limit_text r = ''LIMIT '' @ int_str (fst r) @ '','' @ int_str (snd r)"

definition ALLOWED_TABLES :: "string list" where
  "ALLOWED_TABLES =
     [''anime'', ''characters'', ''relations'', ''pictures'', ''torrents'', ''torrentsIndex'',
      ''animeRelations'', ''title_synonyms'', ''indexList'', ''charactersIndex'']"

definition validate_table_name :: "string \<Rightarrow> string res" where
  "validate_table_name table =
     (if table \<notin> set ALLOWED_TABLES \<and> \<not> py_contains table ''LEFT JOIN''
      then Inl (ValueError (''Invalid table name: '' @ table)) else Inr table)"

text \<open>The statement on one line: the template's line breaks and tabs, which SQL ignores, are blanks here.\<close>

definition filter_statement :: "sql_args \<Rightarrow> string res" where
  "filter_statement args =
     map_sum id (\<lambda>table. collapse_blanks
       (''SELECT * FROM '' @ table @ '' WHERE '' @ qa_filter args @ '' ORDER BY '' @ qa_order args
        @ '' '' @ qa_sort args @ '' '' @ limit_text (qa_range args) @ '';''))
       (validate_table_name (qa_table args))"

definition limit_rows :: "int \<times> int \<Rightarrow> 'a list \<Rightarrow> 'a list" where
  "limit_rows r rows = take (nat (snd r)) (drop (nat (fst r)) rows)"

text \<open>The engine answers the rows of a table under a condition in an order, all of them.\<close>

type_synonym 'a engine = "string \<Rightarrow> string \<Rightarrow> string \<Rightarrow> string \<Rightarrow> 'a list res"

definition db_filter :: "'a engine \<Rightarrow> sql_args \<Rightarrow> 'a list res" where
  "db_filter E args =
     (case validate_table_name (qa_table args) of
        Inl e \<Rightarrow> Inl e
      | Inr table \<Rightarrow>
          map_sum id (limit_rows (qa_range args)) (E table (qa_filter args) (qa_order args) (qa_sort args)))"

section \<open>Listing operations\<close>

text \<open>
  \<open>get_anime_list\<close> answers a page and, unless it is empty, the function for the next one, which
  is given by the arguments it runs with.  \<open>listrange\<close> stays the one of the first call.
\<close>

definition get_next :: "'a engine \<Rightarrow> int \<times> int \<Rightarrow> sql_args \<Rightarrow> ('a list \<times> sql_args option) res" where
  "get_next E listrange args =
     map_sum id
       (\<lambda>rows. (rows,
          if rows = [] then None
          else Some (args\<lparr>qa_range := (snd listrange, snd listrange + snd listrange - fst listrange)\<rparr>)))
       (db_filter E args)"

definition list_args :: "string \<Rightarrow> int \<times> int \<Rightarrow> bool option \<Rightarrow> int option \<Rightarrow> sql_args" where
  "list_args criteria listrange hide_rated user_id =
     to_args (build_anime_list_query criteria listrange
       (case hide_rated of None \<Rightarrow> True | Some h \<Rightarrow> h) (case user_id of None \<Rightarrow> 4 | Some u \<Rightarrow> u))"

definition get_anime_list ::
  "'a engine \<Rightarrow> string \<Rightarrow> int \<times> int \<Rightarrow> bool option \<Rightarrow> int option \<Rightarrow> ('a list \<times> sql_args option) option" where
  "get_anime_list E criteria listrange hide_rated user_id =
     (case get_next E listrange (list_args criteria listrange hide_rated user_id) of
        Inl _ \<Rightarrow> None | Inr page \<Rightarrow> Some page)"

text \<open>Following the next-page functions.\<close>

fun follow_pages :: "'a engine \<Rightarrow> int \<times> int \<Rightarrow> nat \<Rightarrow> sql_args \<Rightarrow> 'a list list" where
  "follow_pages E listrange 0 args = []"
| "follow_pages E listrange (Suc n) args =
     (case get_next E listrange args of
        Inl _ \<Rightarrow> []
      | Inr (rows, next) \<Rightarrow>
          rows # (case next of None \<Rightarrow> [] | Some args' \<Rightarrow> follow_pages E listrange n args'))"

definition safe_limit :: "int \<Rightarrow> int" where
  "safe_limit limit = max 1 (min limit 2500)"

definition rows_or_nothing :: "'a list res \<Rightarrow> 'a list option" where
  "rows_or_nothing r = (case r of Inr rows \<Rightarrow> if rows = [] then None else Some rows | Inl _ \<Rightarrow> None)"

definition list_anime_by_airing_season ::
  "'a engine \<Rightarrow> int \<Rightarrow> pyval \<Rightarrow> string \<Rightarrow> int \<Rightarrow> int option \<Rightarrow> 'a list option res" where
  "list_anime_by_airing_season E today_year year season limit user_id =
     (case normalize_airing_season season of
        Inl e \<Rightarrow> Inl e
      | Inr season_key \<Rightarrow>
          (case validate_season_year today_year year of
             Inl e \<Rightarrow> Inl e
           | Inr year_value \<Rightarrow>
               (case season_date_range today_year (PInt year_value) season_key of
                  Inl e \<Rightarrow> Inl e
                | Inr (start_ts, end_ts) \<Rightarrow>
                    Inr (rows_or_nothing (db_filter E (to_args (build_season_list_query start_ts end_ts
                      (0, safe_limit limit) (case user_id of None \<Rightarrow> 4 | Some u \<Rightarrow> u))))))))"

definition list_anime_by_genre ::
  "'a engine \<Rightarrow> genre_arg \<Rightarrow> int \<Rightarrow> int option \<Rightarrow> bool option \<Rightarrow> 'a list option res" where
  "list_anime_by_genre E genre limit user_id hide_rated =
     (case normalize_genres genre of
        Inl e \<Rightarrow> Inl e
      | Inr genres \<Rightarrow>
          (case build_genre_list_query genres (0, safe_limit limit)
                  (case hide_rated of None \<Rightarrow> True | Some h \<Rightarrow> h) (case user_id of None \<Rightarrow> 4 | Some u \<Rightarrow> u) of
             Inl e \<Rightarrow> Inl e
           | Inr q \<Rightarrow> Inr (rows_or_nothing (db_filter E (to_args q)))))"

definition list_anime_by_top_category ::
  "'a engine \<Rightarrow> string \<Rightarrow> int \<Rightarrow> int option \<Rightarrow> bool option \<Rightarrow> 'a list option res" where
  "list_anime_by_top_category E category limit user_id hide_rated =
     (case normalize_top_category category of
        Inl e \<Rightarrow> Inl e
      | Inr category_key \<Rightarrow>
          (case local_status_for category_key of
             Inl e \<Rightarrow> Inl e
           | Inr None \<Rightarrow> Inr None
           | Inr (Some status) \<Rightarrow>
               Inr (rows_or_nothing (db_filter E (to_args (build_top_list_query status (0, safe_limit limit)
                 (case hide_rated of None \<Rightarrow> True | Some h \<Rightarrow> h) (case user_id of None \<Rightarrow> 4 | Some u \<Rightarrow> u)))))))"

text \<open>The repository: the entities of a page and whether there is another.\<close>

definition list_anime ::
  "'a engine \<Rightarrow> ('a \<Rightarrow> 'e) \<Rightarrow> string \<Rightarrow> int \<Rightarrow> int \<Rightarrow> bool option \<Rightarrow> int option \<Rightarrow> 'e list \<times> bool" where
  "list_anime E entity criteria list_start list_stop hide_rated user_id =
     (case get_anime_list E criteria (list_start, list_stop) hide_rated user_id of
        None \<Rightarrow> ([], False)
      | Some (rows, next) \<Rightarrow> if rows = [] then ([], False) else (map entity rows, next \<noteq> None))"

section \<open>Searching\<close>

text \<open>The search statement takes the pattern twice, the terms, the prefix pattern and the limit.\<close>

record 'a search_engine =
  se_sql :: "string list \<Rightarrow> int \<Rightarrow> 'a list res"
  se_procedure :: "string \<Rightarrow> int \<Rightarrow> 'a list res"

definition search_anime_rows :: "'a search_engine \<Rightarrow> string \<Rightarrow> int \<Rightarrow> 'a list" where
  "search_anime_rows S cleaned_terms limit =
     (let pattern = ''%'' @ cleaned_terms @ ''%'';
          fallback = (case se_procedure S cleaned_terms limit of Inr rows \<Rightarrow> rows | Inl _ \<Rightarrow> [])
      in case se_sql S [pattern, pattern, cleaned_terms, cleaned_terms @ ''%''] limit of
           Inr rows \<Rightarrow> if rows \<noteq> [] then rows else fallback
         | Inl _ \<Rightarrow> fallback)"

definition cleaned_search_terms :: "string \<Rightarrow> string" where
  "cleaned_search_terms terms =
     py_join '' '' (py_split (map (\<lambda>c. if py_isalnum c \<or> c = CHR '' '' then c else CHR '' '') terms))"

definition search_anime :: "'a search_engine \<Rightarrow> string \<Rightarrow> int \<Rightarrow> 'a list option" where
  "search_anime S terms limit =
     (if terms = [] \<or> py_strip terms = [] then None
      else let cleaned = cleaned_search_terms terms
           in if cleaned = [] then None
              else let rows = search_anime_rows S cleaned limit in if rows = [] then None else Some rows)"

section \<open>Only known statements\<close>

text \<open>The conditions the listing operations may send, for a user.\<close>

definition known_query :: "int \<Rightarrow> AnimeListQuery \<Rightarrow> bool" where
  "known_query user q \<longleftrightarrow>
     (\<exists>r hide. (\<exists>c \<in> set ALLOWED_CRITERIA. q = build_anime_list_query c r hide user)
        \<or> (\<exists>gs. gs \<noteq> [] \<and> set gs \<subseteq> set GENRE_ORDER \<and> build_genre_list_query gs r hide user = Inr q)
        \<or> (\<exists>status \<in> {''AIRING'', ''UPCOMING''}. q = build_top_list_query status r hide user)
        \<or> (\<exists>start_ts end_ts. q = build_season_list_query start_ts end_ts r user))"

definition agree_on_known :: "int \<Rightarrow> 'a engine \<Rightarrow> 'a engine \<Rightarrow> bool" where
  "agree_on_known user E E' \<longleftrightarrow>
     (\<forall>q. known_query user q \<longrightarrow>
        E (aq_table q) (aq_filter q) (aq_order q) (aq_sort q) = E' (aq_table q) (aq_filter q) (aq_order q) (aq_sort q))"

lemma known_filter:
  "agree_on_known user E E' \<Longrightarrow> known_query user q \<Longrightarrow> db_filter E (to_args q) = db_filter E' (to_args q)"
  by (auto simp: agree_on_known_def db_filter_def to_args_def validate_table_name_def)

lemma unknown_criteria: "c \<notin> set ALLOWED_CRITERIA \<Longrightarrow> build_anime_list_query c r h u = build_anime_list_query ''DEFAULT'' r h u"
proof -
  assume "c \<notin> set ALLOWED_CRITERIA"
  moreover have "''DEFAULT'' \<in> set ALLOWED_CRITERIA" by (simp add: ALLOWED_CRITERIA_def)
  ultimately show ?thesis unfolding build_anime_list_query_def by (simp only: if_True if_False Let_def)
qed

lemma known_list: "known_query u (build_anime_list_query c r h u)"
proof (cases "c \<in> set ALLOWED_CRITERIA")
  case False
  have "''DEFAULT'' \<in> set ALLOWED_CRITERIA" by (simp add: ALLOWED_CRITERIA_def)
  then show ?thesis unfolding known_query_def unknown_criteria [OF False] by blast
qed (unfold known_query_def, blast)

lemma known_genres: "gs \<noteq> [] \<Longrightarrow> set gs \<subseteq> set GENRE_ORDER \<Longrightarrow> build_genre_list_query gs r h u = Inr q \<Longrightarrow> known_query u q"
  unfolding known_query_def by blast

lemma known_top: "status \<in> {''AIRING'', ''UPCOMING''} \<Longrightarrow> known_query u (build_top_list_query status r h u)"
  unfolding known_query_def by blast

lemma known_season: "known_query u (build_season_list_query a b r u)"
  unfolding known_query_def by blast

lemma spec_statuses: "\<forall>s \<in> set TOP_CATEGORY_SPECS. tc_local_status s \<in> {None, Some ''AIRING'', Some ''UPCOMING''}"
  by (simp add: TOP_CATEGORY_SPECS_def)

lemma top_lookup_mem: "top_lookup k = Some s \<Longrightarrow> s \<in> set TOP_CATEGORY_SPECS"
  unfolding top_lookup_def by (drule map_of_SomeD) auto

lemma local_status:
  assumes "local_status_for category = Inr (Some status)"
  shows "status \<in> {''AIRING'', ''UPCOMING''}"
proof -
  obtain s where "top_category_spec category = Inr s" and st: "tc_local_status s = Some status"
    using assms by (auto simp: local_status_for_def map_sum_eq_Inr)
  then obtain k where "top_lookup k = Some s"
    unfolding top_category_spec_def by (auto split: sum.splits option.splits)
  then have "tc_local_status s \<in> {None, Some ''AIRING'', Some ''UPCOMING''}"
    using top_lookup_mem spec_statuses by blast
  then show ?thesis using st by simp
qed

lemma normalized_genres_known:
  assumes "normalize_genres g = Inr gs"
  shows "gs \<noteq> [] \<and> set gs \<subseteq> set GENRE_ORDER"
  using normalize_genres_Inr [OF assms] by auto

text \<open>
  C26. No listing sends the engine anything but known statements: whatever text comes in as
  criteria, genre, season or category, every condition is one that is built from the whitelisted
  criteria, the registered genre names, the two local statuses or two timestamps, so engines that
  agree on those cannot be told apart.
\<close>

theorem listings_send_known_statements:
  assumes "agree_on_known u E E'"
  shows "get_anime_list E criteria r hide (Some u) = get_anime_list E' criteria r hide (Some u)
    \<and> list_anime_by_genre E genre limit (Some u) hide = list_anime_by_genre E' genre limit (Some u) hide
    \<and> list_anime_by_top_category E category limit (Some u) hide = list_anime_by_top_category E' category limit (Some u) hide
    \<and> list_anime_by_airing_season E today year season limit (Some u)
        = list_anime_by_airing_season E' today year season limit (Some u)"
proof (intro conjI)
  note known = known_filter [OF assms]
  show "get_anime_list E criteria r hide (Some u) = get_anime_list E' criteria r hide (Some u)"
    by (simp add: get_anime_list_def get_next_def list_args_def known [OF known_list])
  show "list_anime_by_genre E genre limit (Some u) hide = list_anime_by_genre E' genre limit (Some u) hide"
    using known [OF known_genres] normalized_genres_known [of genre]
    by (auto simp: list_anime_by_genre_def split: sum.splits)
  show "list_anime_by_top_category E category limit (Some u) hide = list_anime_by_top_category E' category limit (Some u) hide"
    using known [OF known_top] local_status
    by (auto simp: list_anime_by_top_category_def split: sum.splits option.splits)
  show "list_anime_by_airing_season E today year season limit (Some u)
        = list_anime_by_airing_season E' today year season limit (Some u)"
    by (simp add: list_anime_by_airing_season_def known [OF known_season] split: sum.splits prod.splits)
qed

section \<open>Pages\<close>

lemma filter_pages:
  assumes "E (qa_table args) (qa_filter args) (qa_order args) (qa_sort args) = Inr rows"
    and "py_contains (qa_table args) ''LEFT JOIN''"
  shows "db_filter E (args\<lparr>qa_range := r\<rparr>) = Inr (limit_rows r rows)"
  using assms by (simp add: db_filter_def validate_table_name_def)

lemma list_args_range: "(list_args c r h u)\<lparr>qa_range := x\<rparr> = (list_args c r' h u)\<lparr>qa_range := x\<rparr>"
  by (simp add: list_args_def to_args_def build_anime_list_query_def Let_def)

lemma contains_append_left: "py_contains s t \<Longrightarrow> py_contains (p @ s) t"
  by (induction p) auto

lemma contains_prefix: "py_contains (t @ s) t"
proof -
  have "py_startswith (t @ s) t" by (simp add: py_startswith_def)
  then show ?thesis by (cases "t @ s") auto
qed

lemma joins_tables:
  "py_contains (default_table i) ''LEFT JOIN''" "py_contains (watching_table i) ''LEFT JOIN''"
proof -
  have "default_table i = ''anime '' @ (''LEFT JOIN'' @ ('' user_tags ON user_tags.anime_id = anime.id AND user_id='' @ int_str i))"
    by (simp add: default_table_def)
  then show "py_contains (default_table i) ''LEFT JOIN''"
    by (simp only:) (rule contains_append_left [OF contains_prefix])
  have "watching_table i = ''anime '' @ (''LEFT JOIN'' @ ('' broadcasts ON anime.id = broadcasts.id LEFT JOIN user_tags ON user_tags.anime_id = anime.id AND user_id='' @ int_str i))"
    by (simp add: watching_table_def)
  then show "py_contains (watching_table i) ''LEFT JOIN''"
    by (simp only:) (rule contains_append_left [OF contains_prefix])
qed

lemma list_query_table: "aq_table (build_anime_list_query c r h u) \<in> {default_table u, watching_table u}"
  unfolding build_anime_list_query_def Let_def by (simp only: if_distrib [of aq_table]) simp

lemma list_table: "py_contains (qa_table (list_args c r h u)) ''LEFT JOIN''"
  using list_query_table [of c r "case h of None \<Rightarrow> True | Some h \<Rightarrow> h" "case u of None \<Rightarrow> 4 | Some u \<Rightarrow> u"]
    joins_tables by (auto simp: list_args_def to_args_def)

text \<open>The rows a listing selects, whatever the page.\<close>

definition selected :: "'a engine \<Rightarrow> string \<Rightarrow> bool option \<Rightarrow> int option \<Rightarrow> 'a list res" where
  "selected E c h u =
     (let a = list_args c (0, 1) h u in E (qa_table a) (qa_filter a) (qa_order a) (qa_sort a))"

lemma filter_range:
  assumes "selected E c h u = Inr rows"
  shows "db_filter E ((list_args c r h u)\<lparr>qa_range := x\<rparr>) = Inr (limit_rows x rows)"
proof -
  have "qa_table (list_args c r h u) = qa_table (list_args c (0, 1) h u)"
    "qa_filter (list_args c r h u) = qa_filter (list_args c (0, 1) h u)"
    "qa_order (list_args c r h u) = qa_order (list_args c (0, 1) h u)"
    "qa_sort (list_args c r h u) = qa_sort (list_args c (0, 1) h u)"
    by (simp_all add: list_args_def to_args_def build_anime_list_query_def Let_def)
  then show ?thesis
    using assms filter_pages [of E "list_args c r h u" rows x] list_table [of c r h u]
    by (simp add: selected_def Let_def)
qed

lemma list_args_safe: "list_args c r h u = (list_args c r h u)\<lparr>qa_range := safe_range r\<rparr>"
  by (simp add: list_args_def to_args_def build_anime_list_query_def Let_def)

lemma page_rows:
  assumes "selected E c h u = Inr rows"
  shows "get_anime_list E c r h u =
     Some (limit_rows (safe_range r) rows,
           if limit_rows (safe_range r) rows = [] then None
           else Some ((list_args c r h u)\<lparr>qa_range := (snd r, snd r + snd r - fst r)\<rparr>))"
proof -
  have "db_filter E (list_args c r h u) = Inr (limit_rows (safe_range r) rows)"
    using filter_range [OF assms, where r = r and x = "safe_range r"] list_args_safe [of c r h u] by simp
  then show ?thesis by (simp add: get_anime_list_def get_next_def)
qed

lemma safe_range_id: "0 \<le> a \<Longrightarrow> a < b \<Longrightarrow> safe_range (a, b) = (a, b)"
  by (simp add: safe_range_def Let_def)

text \<open>
  Pages overlap.  The clients ask for page \<open>k\<close> as the range from \<open>k n\<close> to \<open>(k + 1) n\<close>, but the
  statement limits the page to that many rows instead of that end: after its first \<open>n\<close> rows,
  page \<open>k\<close> goes on with the first \<open>k n\<close> rows of page \<open>k + 1\<close>.
\<close>

lemma pages_overlap:
  assumes "selected E c h u = Inr rows" and "0 < n" and "0 \<le> k"
    and "get_anime_list E c (k * n, (k + 1) * n) h u = Some (page, next)"
    and "get_anime_list E c ((k + 1) * n, (k + 2) * n) h u = Some (page', next')"
  shows "drop (nat n) page = take (nat (k * n)) page'"
proof -
  obtain N K where n: "n = int N" and k: "k = int K" using assms(2,3) by (metis less_imp_le nonneg_int_cases)
  have r: "safe_range (k * n, (k + 1) * n) = (k * n, (k + 1) * n)"
    "safe_range ((k + 1) * n, (k + 2) * n) = ((k + 1) * n, (k + 2) * n)"
    using assms(2,3) by (auto intro!: safe_range_id mult_nonneg_nonneg mult_strict_right_mono)
  have ints: "k * n = int (K * N)" "(k + 1) * n = int (K * N + N)" "(k + 2) * n = int (K * N + 2 * N)"
    by (simp_all add: n k distrib_right)
  have nats: "nat (k * n) = K * N" "nat ((k + 1) * n) = K * N + N" "nat ((k + 2) * n) = K * N + 2 * N" "nat n = N"
    by (simp_all only: ints nat_int) (simp only: n nat_int)
  have page: "page = take (K * N + N) (drop (K * N) rows)" "page' = take (K * N + 2 * N) (drop (K * N + N) rows)"
    using assms(4,5) by (simp_all add: page_rows [OF assms(1)] r limit_rows_def nats)
  have "drop N page = take (K * N) (drop (K * N + N) rows)" by (simp add: page drop_take add.commute)
  moreover have "take (K * N) page' = take (K * N) (drop (K * N + N) rows)" by (simp add: page min_def)
  ultimately show ?thesis by (simp add: nats)
qed

text \<open>
  Following the pages never ends.  The function for the next page computes its range from the
  range of the first call: every page after the first is the second one again, as long as that
  has a row.
\<close>

lemma next_pages_repeat:
  assumes "selected E c h u = Inr rows"
    and "first = limit_rows (safe_range (start, stop)) rows" and "first \<noteq> []"
    and "second = limit_rows (stop, stop + stop - start) rows" and "second \<noteq> []"
  shows "follow_pages E (start, stop) (Suc n) (list_args c (start, stop) h u) = first # replicate n second"
proof -
  let ?args = "(list_args c (start, stop) h u)\<lparr>qa_range := (stop, stop + stop - start)\<rparr>"
  have "get_next E (start, stop) ?args = Inr (second, Some ?args)"
    using assms(5) by (simp add: get_next_def filter_range [OF assms(1)] assms(4))
  then have rest: "follow_pages E (start, stop) n ?args = replicate n second" for n
    by (induction n) simp_all
  have "db_filter E (list_args c (start, stop) h u) = Inr first"
    using filter_range [OF assms(1), where r = "(start, stop)" and x = "safe_range (start, stop)"]
      list_args_safe [of c "(start, stop)" h u] by (simp add: assms(2))
  then have "get_next E (start, stop) (list_args c (start, stop) h u) = Inr (first, Some ?args)"
    using assms(3) by (simp add: get_next_def)
  then show ?thesis by (simp only: follow_pages.simps sum.case prod.case option.case rest)
qed


section \<open>Search patterns\<close>

lemma cleaned_terms_normal: "cleaned_search_terms t = normalize_search_query t"
proof -
  have "(\<lambda>c. if py_isalnum c \<or> c = CHR '' '' then c else CHR '' '') = (\<lambda>c. if py_isalnum c then c else CHR '' '')"
    by (rule ext) simp
  then show ?thesis by (simp add: cleaned_search_terms_def normalize_search_query_alt)
qed

text \<open>No wildcard of \<open>LIKE\<close> reaches the search statement but the ones the program adds.\<close>

lemma cleaned_terms_plain: "c \<in> set (cleaned_search_terms t) \<Longrightarrow> py_isalnum c \<or> c = CHR '' ''"
  using py_join_alnum [of "py_split (map (\<lambda>c. if py_isalnum c then c else CHR '' '') t)"] query_words_alnum
  by (auto simp: cleaned_terms_normal normalize_search_query_alt)

section \<open>Examples\<close>

definition sample_engine :: "nat engine" where
  "sample_engine t f o' s = Inr [0..<200]"

lemma sample_pages_selected: "selected sample_engine c h u = Inr [0..<200]"
  by (simp add: selected_def sample_engine_def Let_def)

lemma known_sort:
  assumes "known_query u q"
  shows "aq_sort q = ''ASC'' \<or> aq_sort q = ''DESC''"
proof -
  have "aq_sort (build_anime_list_query c r h u) = ''ASC'' \<or> aq_sort (build_anime_list_query c r h u) = ''DESC''" for c r h
    unfolding build_anime_list_query_def Let_def by (simp only: if_distrib [of aq_sort]) simp
  moreover have "aq_sort (build_top_list_query st r h u) = ''ASC'' \<or> aq_sort (build_top_list_query st r h u) = ''DESC''" for st r h
    by (simp add: build_top_list_query_def Let_def)
  moreover have "aq_sort q = ''DESC''" if "build_genre_list_query gs r h u = Inr q" for gs r h
    using that by (auto simp: build_genre_list_query_def split: if_splits)
  moreover have "aq_sort (build_season_list_query a b r u) = ''DESC''" for a b r
    by (simp add: build_season_list_query_def)
  ultimately show ?thesis using assms unfolding known_query_def by metis
qed

text \<open>An engine that fails on any other direction of sorting, and one that never fails.\<close>

definition strict_engine :: "nat engine" where
  "strict_engine t f o' s =
     (if s \<in> {''ASC'', ''DESC''} then Inr [0..<200] else Inl (RuntimeError ''unexpected statement''))"

theorem listings_send_known_statements_witness:
  "get_anime_list strict_engine ''SEEN; DROP TABLE anime'' (0, 2) None (Some 4)
     = get_anime_list sample_engine ''SEEN; DROP TABLE anime'' (0, 2) None (Some 4)"
proof -
  have "agree_on_known 4 strict_engine sample_engine"
    using known_sort by (fastforce simp: agree_on_known_def strict_engine_def sample_engine_def)
  then show ?thesis by (rule listings_send_known_statements [THEN conjunct1])
qed

lemma pages_overlap_witness:
  "\<exists>page page' next next'. get_anime_list sample_engine ''SEEN'' (24, 48) None None = Some (page, next)
     \<and> get_anime_list sample_engine ''SEEN'' (48, 72) None None = Some (page', next')
     \<and> drop 24 page = take 24 page' \<and> length page = 48"
proof -
  obtain page "next" where p: "get_anime_list sample_engine ''SEEN'' (24, 48) None None = Some (page, next)"
    by (simp add: page_rows [OF sample_pages_selected])
  obtain page' next' where p': "get_anime_list sample_engine ''SEEN'' (48, 72) None None = Some (page', next')"
    by (simp add: page_rows [OF sample_pages_selected])
  have "page = limit_rows (24, 48) [0..<200]"
    using p by (simp add: page_rows [OF sample_pages_selected] safe_range_id)
  then have "length page = 48" by (simp add: limit_rows_def)
  moreover have "drop 24 page = take 24 page'"
    using pages_overlap [OF sample_pages_selected, of 24 1 "''SEEN''" None None page "next" page' next'] p p' by simp
  ultimately show ?thesis using p p' by blast
qed

lemma next_pages_repeat_witness:
  "follow_pages sample_engine (0, 50) 3 (list_args ''SEEN'' (0, 50) None None)
     = [[0..<50], [50..<150], [50..<150]]"
proof -
  have l: "limit_rows (safe_range (0, 50)) [0..<200] = [0..<50]" "limit_rows (50, 50 + 50 - 0) [0..<200] = [50..<150]"
    by (simp_all add: limit_rows_def safe_range_id take_upt drop_upt)
  have ne: "[0..<50::nat] \<noteq> []" "[50..<150::nat] \<noteq> []" by simp_all
  have "follow_pages sample_engine (0, 50) (Suc 2) (list_args ''SEEN'' (0, 50) None None)
      = [0..<50] # replicate 2 [50..<150]"
    by (rule next_pages_repeat [OF sample_pages_selected l(1)[symmetric] ne(1) l(2)[symmetric] ne(2)])
  then show ?thesis by (simp only: numeral_3_eq_3 numeral_2_eq_2 replicate.simps)
qed

end
