(* ===== verification/ConnectionPool.thy ===== *)
theory ConnectionPool
  imports Values "HOL-Library.Multiset"
begin

text \<open>
  The database connection pool (\<open>ConnectionPool\<close> in \<open>adapters/persistence/base.py\<close>).  Connections
  are numbers; opening, closing and testing one is done by an outside world.  The operations of
  the pool run under its lock, one at a time; a last section models the lock itself, which a
  thread keeps while it waits for a connection.
\<close>

section \<open>The pool\<close>

text \<open>
  How a connection object answers the validity test: by \<open>ping\<close> (which may raise), by
  \<open>is_connected\<close>, or not at all.
\<close>

datatype validity = Ping bool | IsConnected bool | NoTest

text \<open>
  The exceptions of the database layer: those of \<open>mysql.connector\<close> (number and text; an
  \<open>OperationalError\<close> is a \<open>DatabaseError\<close>), Python's \<open>IndexError\<close>, and the others.
\<close>

datatype db_error =
    DatabaseError int string
  | OperationalError int string
  | InterfaceError string
  | PyIndexError
  | Py pyerr

type_synonym 'a dbres = "db_error + 'a"

record 'w connections =
  c_open :: "'w \<Rightarrow> 'w \<times> nat dbres"
  c_close :: "'w \<Rightarrow> nat \<Rightarrow> 'w"
  c_test :: "'w \<Rightarrow> nat \<Rightarrow> validity"
  c_time :: "'w \<Rightarrow> rat"

text \<open>\<open>handed_out\<close> is not in the program: the connections that were given away and not yet returned.\<close>

record 'w pool =
  pooled :: "(nat \<times> rat) list"
  created :: int
  handed_out :: "nat list"
  pool_world :: 'w

text \<open>
  \<open>_is_connection_valid\<close>: after a \<open>ping\<close> that does not raise the function ends without a
  \<open>return\<close>, so its answer is \<open>None\<close>.
\<close>

definition is_connection_valid :: "'w connections \<Rightarrow> 'w \<Rightarrow> nat \<Rightarrow> bool" where
  "is_connection_valid C w conn =
     (case c_test C w conn of Ping _ \<Rightarrow> False | IsConnected b \<Rightarrow> b | NoTest \<Rightarrow> True)"

fun initialize_pool :: "'w connections \<Rightarrow> nat \<Rightarrow> 'w pool \<Rightarrow> 'w pool" where
  "initialize_pool C 0 p = p"
| "initialize_pool C (Suc n) p =
     (case c_open C (pool_world p) of
        (w, Inl _) \<Rightarrow> initialize_pool C n (p\<lparr>pool_world := w\<rparr>)
      | (w, Inr conn) \<Rightarrow>
          initialize_pool C n (p\<lparr>pooled := pooled p @ [(conn, c_time C w)], created := created p + 1, pool_world := w\<rparr>))"

definition new_pool :: "'w connections \<Rightarrow> nat \<Rightarrow> 'w \<Rightarrow> 'w pool" where
  "new_pool C pool_size w =
     initialize_pool C (min 5 pool_size) \<lparr>pooled = [], created = 0, handed_out = [], pool_world = w\<rparr>"

definition hand_out :: "nat \<Rightarrow> 'w pool \<Rightarrow> 'w pool \<times> nat dbres" where
  "hand_out conn p = (p\<lparr>handed_out := handed_out p @ [conn]\<rparr>, Inr conn)"

definition open_new :: "'w connections \<Rightarrow> 'w pool \<Rightarrow> 'w pool \<times> nat dbres" where
  "open_new C p =
     (case c_open C (pool_world p) of
        (w, Inl e) \<Rightarrow> (p\<lparr>pool_world := w\<rparr>, Inl e)
      | (w, Inr conn) \<Rightarrow> hand_out conn (p\<lparr>created := created p + 1, pool_world := w\<rparr>))"

text \<open>A connection taken from the queue: handed out when valid, else closed and replaced.\<close>

definition take_connection :: "'w connections \<Rightarrow> nat \<Rightarrow> 'w pool \<Rightarrow> 'w pool \<times> nat dbres" where
  "take_connection C conn p =
     (if is_connection_valid C (pool_world p) conn then hand_out conn p
      else open_new C (p\<lparr>pool_world := c_close C (pool_world p) conn\<rparr>))"

text \<open>
  \<open>get_connection\<close>.  When the queue is empty and the limit reached, the thread waits with the lock
  in its hands; no other thread can return a connection then (last section), so it times out.
\<close>

definition pool_timeout :: db_error where
  "pool_timeout = Py (RuntimeError ''Connection pool timeout - no connections available'')"

definition get_connection :: "'w connections \<Rightarrow> nat \<Rightarrow> 'w pool \<Rightarrow> 'w pool \<times> nat dbres" where
  "get_connection C pool_size p =
     (case pooled p of
        (conn, last_used) # rest \<Rightarrow> take_connection C conn (p\<lparr>pooled := rest\<rparr>)
      | [] \<Rightarrow> if created p < int pool_size then open_new C p else (p, Inl pool_timeout))"

definition return_connection :: "'w connections \<Rightarrow> nat \<Rightarrow> nat \<Rightarrow> bool \<Rightarrow> 'w pool \<Rightarrow> 'w pool" where
  "return_connection C pool_size conn discard p =
     (let p1 = p\<lparr>handed_out := remove1 conn (handed_out p)\<rparr>; w = pool_world p
      in if discard
         then p1\<lparr>pool_world := c_close C w conn, created := max 0 (created p - 1)\<rparr>
         else if length (pooled p) < pool_size \<and> is_connection_valid C w conn
         then p1\<lparr>pooled := pooled p @ [(conn, c_time C w)]\<rparr>
         else p1\<lparr>pool_world := c_close C w conn, created := created p - 1\<rparr>)"

definition close_each :: "'w connections \<Rightarrow> (nat \<times> rat) list \<Rightarrow> 'w \<Rightarrow> 'w" where
  "close_each C conns w = fold (\<lambda>(conn, t) w. c_close C w conn) conns w"

text \<open>\<open>drain\<close> and \<open>close_all\<close>.\<close>

definition drain :: "'w connections \<Rightarrow> 'w pool \<Rightarrow> 'w pool" where
  "drain C p = p\<lparr>pooled := [], created := 0, pool_world := close_each C (pooled p) (pool_world p)\<rparr>"

text \<open>The loop of \<open>_perform_health_check\<close>: the connections kept, the count and the world.\<close>

fun check_health :: "'w connections \<Rightarrow> rat \<Rightarrow> rat \<Rightarrow> (nat \<times> rat) list \<Rightarrow> int \<Rightarrow> 'w \<Rightarrow>
   (nat \<times> rat) list \<times> int \<times> 'w" where
  "check_health C max_idle now [] n w = ([], n, w)"
| "check_health C max_idle now ((conn, last_used) # conns) n w =
     (if now - last_used > max_idle \<or> \<not> is_connection_valid C w conn
      then check_health C max_idle now conns (n - 1) (c_close C w conn)
      else let (kept, m, w') = check_health C max_idle now conns n w in ((conn, last_used) # kept, m, w'))"

definition perform_health_check :: "'w connections \<Rightarrow> rat \<Rightarrow> 'w pool \<Rightarrow> 'w pool" where
  "perform_health_check C max_idle p =
     (let (kept, n, w) = check_health C max_idle (c_time C (pool_world p)) (pooled p) (created p) (pool_world p)
      in p\<lparr>pooled := kept, created := n, pool_world := w\<rparr>)"

record pool_stats =
  st_created :: int
  st_available :: nat
  st_utilization :: rat

definition get_stats :: "'w pool \<Rightarrow> pool_stats" where
  "get_stats p =
     \<lparr>st_created = created p, st_available = length (pooled p),
      st_utilization = of_int (created p - int (length (pooled p))) / of_int (max 1 (created p))\<rparr>"

section \<open>No connection has two holders\<close>

text \<open>
  \<open>used\<close> are the connections a world has opened so far: opening answers one that was not, and
  closing or testing opens none.
\<close>

definition opens_fresh :: "'w connections \<Rightarrow> ('w \<Rightarrow> nat set) \<Rightarrow> bool" where
  "opens_fresh C used \<longleftrightarrow>
     (\<forall>w w' conn. c_open C w = (w', Inr conn) \<longrightarrow> conn \<notin> used w \<and> insert conn (used w) \<subseteq> used w')
     \<and> (\<forall>w w' e. c_open C w = (w', Inl e) \<longrightarrow> used w \<subseteq> used w')
     \<and> (\<forall>w conn. used w \<subseteq> used (c_close C w conn))"

inductive pool_step :: "'w connections \<Rightarrow> nat \<Rightarrow> 'w pool \<Rightarrow> 'w pool \<Rightarrow> bool" for C pool_size where
  Get: "get_connection C pool_size p = (p', r) \<Longrightarrow> pool_step C pool_size p p'"
| Return: "conn \<in> set (handed_out p) \<Longrightarrow>
     pool_step C pool_size p (return_connection C pool_size conn discard p)"
| Drain: "pool_step C pool_size p (drain C p)"
| Health: "pool_step C pool_size p (perform_health_check C max_idle p)"

inductive pool_reachable :: "'w connections \<Rightarrow> nat \<Rightarrow> 'w pool \<Rightarrow> bool" for C pool_size where
  New: "pool_reachable C pool_size (new_pool C pool_size w)"
| Step: "pool_reachable C pool_size p \<Longrightarrow> pool_step C pool_size p p' \<Longrightarrow> pool_reachable C pool_size p'"

text \<open>The connections the pool accounts for, in the queue or given away.\<close>

definition held :: "'w pool \<Rightarrow> nat list" where
  "held p = map fst (pooled p) @ handed_out p"

definition pool_ok :: "('w \<Rightarrow> nat set) \<Rightarrow> nat \<Rightarrow> 'w pool \<Rightarrow> bool" where
  "pool_ok used pool_size p \<longleftrightarrow>
     distinct (held p) \<and> set (held p) \<subseteq> used (pool_world p) \<and> length (pooled p) \<le> pool_size"

lemma distinct_sub_mset:
  assumes "mset xs \<subseteq># mset ys" and "distinct ys"
  shows "distinct xs"
proof -
  obtain zs where "mset ys = mset (xs @ zs)"
    using assms(1) by (metis ex_mset mset_append mset_subset_eq_exists_conv)
  then have "distinct (xs @ zs)" using assms(2) mset_eq_imp_distinct_iff by blast
  then show ?thesis by simp
qed

lemma pool_ok_sub:
  assumes "pool_ok used cap p" and "mset (held p') \<subseteq># mset (held p)"
    and "used (pool_world p) \<subseteq> used (pool_world p')" and "length (pooled p') \<le> cap"
  shows "pool_ok used cap p'"
  using assms distinct_sub_mset [OF assms(2)] mset_subset_eqD [OF assms(2)] unfolding pool_ok_def by auto

lemma pool_ok_new:
  assumes "pool_ok used cap p" and "mset (held p') = add_mset conn (mset (held p))"
    and "conn \<notin> used (pool_world p)" and "insert conn (used (pool_world p)) \<subseteq> used (pool_world p')"
    and "length (pooled p') \<le> cap"
  shows "pool_ok used cap p'"
proof -
  have m: "mset (held p') = mset (conn # held p)" using assms(2) by simp
  have "distinct (conn # held p)" using assms(1,3) unfolding pool_ok_def by auto
  then have "distinct (held p')" using m by (metis mset_eq_imp_distinct_iff)
  moreover have "set (held p') = insert conn (set (held p))" using mset_eq_setD [OF m] by simp
  ultimately show ?thesis using assms(1,4,5) unfolding pool_ok_def by auto
qed

lemma opens_freshD:
  assumes "opens_fresh C used"
  shows "c_open C w = (w', Inr conn) \<Longrightarrow> conn \<notin> used w \<and> insert conn (used w) \<subseteq> used w'"
    and "c_open C w = (w', Inl e) \<Longrightarrow> used w \<subseteq> used w'"
    and "used w \<subseteq> used (c_close C w conn)"
  using assms unfolding opens_fresh_def by blast+

lemma pool_ok_world:
  assumes "pool_ok used cap p" and "used (pool_world p) \<subseteq> used w"
  shows "pool_ok used cap (p\<lparr>pool_world := w\<rparr>)"
  using assms by (auto simp: pool_ok_def held_def)

lemma initialize_ok:
  assumes "opens_fresh C used"
  shows "pool_ok used cap p \<Longrightarrow> length (pooled p) + n \<le> cap \<Longrightarrow> pool_ok used cap (initialize_pool C n p)"
proof (induction n arbitrary: p)
  case (Suc n)
  obtain w r where o: "c_open C (pool_world p) = (w, r)" by fastforce
  show ?case
  proof (cases r)
    case (Inl e)
    then have "pool_ok used cap (p\<lparr>pool_world := w\<rparr>)"
      using Suc.prems(1) opens_freshD(2) [OF assms, of "pool_world p"] o by (intro pool_ok_world) auto
    then show ?thesis using Suc o Inl by simp
  next
    case (Inr conn)
    let ?p = "p\<lparr>pooled := pooled p @ [(conn, c_time C w)], created := created p + 1, pool_world := w\<rparr>"
    have "pool_ok used cap ?p"
      by (rule pool_ok_new [OF Suc.prems(1), of _ conn])
        (use opens_freshD(1) [OF assms, of "pool_world p"] o Inr Suc.prems(2) in \<open>auto simp: held_def\<close>)
    then show ?thesis using Suc.IH Suc.prems(2) o Inr by simp
  qed
qed simp

lemma open_new_ok:
  assumes "opens_fresh C used" and "pool_ok used cap p" and "open_new C p = (p', r)"
  shows "pool_ok used cap p' \<and> (\<forall>conn. r = Inr conn \<longrightarrow> conn \<notin> set (held p))"
proof -
  obtain w r' where o: "c_open C (pool_world p) = (w, r')" by fastforce
  show ?thesis
  proof (cases r')
    case (Inl e)
    then show ?thesis
      using assms(2,3) o opens_freshD(2) [OF assms(1), of "pool_world p"]
      by (auto simp: open_new_def intro!: pool_ok_world)
  next
    case (Inr conn)
    have f: "conn \<notin> used (pool_world p)" "insert conn (used (pool_world p)) \<subseteq> used w"
      using opens_freshD(1) [OF assms(1), of "pool_world p"] o Inr by auto
    have p': "p' = p\<lparr>created := created p + 1, pool_world := w, handed_out := handed_out p @ [conn]\<rparr>" "r = Inr conn"
      using assms(3) o Inr by (auto simp: open_new_def hand_out_def)
    have "pool_ok used cap p'"
      by (rule pool_ok_new [OF assms(2), of _ conn]) (use f assms(2) in \<open>auto simp: p' held_def pool_ok_def\<close>)
    then show ?thesis using f(1) assms(2) p'(2) by (auto simp: pool_ok_def)
  qed
qed

lemma get_connection_ok:
  assumes "opens_fresh C used" and "pool_ok used cap p" and "get_connection C cap p = (p', r)"
  shows "pool_ok used cap p' \<and> (\<forall>conn. r = Inr conn \<longrightarrow> conn \<notin> set (handed_out p))"
proof (cases "pooled p")
  case Nil
  then show ?thesis using assms open_new_ok [OF assms(1,2)]
    by (auto simp: get_connection_def held_def split: if_splits)
next
  case (Cons x rest)
  obtain conn t where x: "x = (conn, t)" by fastforce
  have rest: "pool_ok used cap (p\<lparr>pooled := rest\<rparr>)"
    by (rule pool_ok_sub [OF assms(2)]) (use assms(2) in \<open>auto simp: held_def Cons x pool_ok_def\<close>)
  have new: "conn \<notin> set (handed_out p)" using assms(2) by (simp add: pool_ok_def held_def Cons x)
  show ?thesis
  proof (cases "is_connection_valid C (pool_world p) conn")
    case True
    then have p': "p' = p\<lparr>pooled := rest, handed_out := handed_out p @ [conn]\<rparr>" "r = Inr conn"
      using assms(3) by (auto simp: get_connection_def Cons x take_connection_def hand_out_def)
    have "pool_ok used cap p'"
      by (rule pool_ok_sub [OF assms(2)]) (use assms(2) in \<open>auto simp: p' held_def Cons x pool_ok_def\<close>)
    then show ?thesis using new p'(2) by simp
  next
    case False
    let ?p1 = "p\<lparr>pooled := rest, pool_world := c_close C (pool_world p) conn\<rparr>"
    have "pool_ok used cap ?p1"
      using pool_ok_world [OF rest] opens_freshD(3) [OF assms(1)] by simp
    from open_new_ok [OF assms(1) this] show ?thesis
      using assms(3) False by (auto simp: get_connection_def Cons x take_connection_def held_def)
  qed
qed

lemma return_connection_ok:
  assumes "opens_fresh C used" and "pool_ok used cap p" and "conn \<in> set (handed_out p)"
  shows "pool_ok used cap (return_connection C cap conn discard p)"
  by (rule pool_ok_sub [OF assms(2)])
    (use assms(2,3) opens_freshD(3) [OF assms(1)] in
      \<open>auto simp: return_connection_def Let_def held_def pool_ok_def\<close>)

lemma close_each_used:
  "opens_fresh C used \<Longrightarrow> used w \<subseteq> used (close_each C conns w)"
  unfolding close_each_def
proof (induction conns arbitrary: w)
  case (Cons x conns)
  then show ?case using opens_freshD(3) [OF Cons.prems, of w "fst x"] by (cases x) fastforce
qed simp

lemma check_health_sub:
  assumes "opens_fresh C used"
  shows "check_health C max_idle now conns n w = (kept, m, w') \<Longrightarrow>
    mset kept \<subseteq># mset conns \<and> used w \<subseteq> used w'"
proof (induction conns arbitrary: n w kept m w')
  case (Cons x conns)
  obtain conn t where x: "x = (conn, t)" by fastforce
  show ?case
  proof (cases "now - t > max_idle \<or> \<not> is_connection_valid C w conn")
    case True
    then have "check_health C max_idle now conns (n - 1) (c_close C w conn) = (kept, m, w')"
      using Cons.prems by (simp add: x)
    from Cons.IH [OF this] show ?thesis
      using opens_freshD(3) [OF assms, of w conn] subset_mset.order_trans [of "mset kept" "mset conns"] by auto
  next
    case False
    obtain kept' m' w'' where c: "check_health C max_idle now conns n w = (kept', m', w'')"
      by (metis prod_cases3)
    then show ?thesis using Cons.IH [OF c] Cons.prems False by (auto simp: x)
  qed
qed simp

lemma perform_health_check_ok:
  assumes "opens_fresh C used" and "pool_ok used cap p"
  shows "pool_ok used cap (perform_health_check C max_idle p)"
proof -
  obtain kept n w where c:
    "check_health C max_idle (c_time C (pool_world p)) (pooled p) (created p) (pool_world p) = (kept, n, w)"
    by (metis prod_cases3)
  have sub: "mset kept \<subseteq># mset (pooled p)" "used (pool_world p) \<subseteq> used w"
    using check_health_sub [OF assms(1) c] by auto
  have "mset (map fst kept) \<subseteq># mset (map fst (pooled p))"
    using image_mset_subseteq_mono [OF sub(1), of fst] by simp
  moreover have "length kept \<le> length (pooled p)" using size_mset_mono [OF sub(1)] by simp
  ultimately show ?thesis
    using sub(2) assms(2) unfolding perform_health_check_def c
    by (intro pool_ok_sub [OF assms(2)]) (auto simp: held_def pool_ok_def)
qed

lemma drain_ok: "opens_fresh C used \<Longrightarrow> pool_ok used cap p \<Longrightarrow> pool_ok used cap (drain C p)"
  by (rule pool_ok_sub) (auto simp: drain_def held_def dest: close_each_used)

lemma pool_step_ok:
  "pool_step C cap p p' \<Longrightarrow> opens_fresh C used \<Longrightarrow> pool_ok used cap p \<Longrightarrow> pool_ok used cap p'"
  by (cases rule: pool_step.cases)
    (auto dest: get_connection_ok intro: return_connection_ok drain_ok perform_health_check_ok)

lemma new_pool_ok: "opens_fresh C used \<Longrightarrow> pool_ok used cap (new_pool C cap w)"
  unfolding new_pool_def by (rule initialize_ok) (auto simp: pool_ok_def held_def)

lemma pool_reachable_ok: "pool_reachable C cap p \<Longrightarrow> opens_fresh C used \<Longrightarrow> pool_ok used cap p"
  by (induction rule: pool_reachable.induct) (auto intro: new_pool_ok pool_step_ok)

section \<open>The results of the pool\<close>

text \<open>
  Connections that are tested by \<open>ping\<close> (the MySQL connectors) are never valid, so the pool hands
  out no connection twice: what it takes from its queue it closes.
\<close>

definition all_ping :: "'w connections \<Rightarrow> bool" where
  "all_ping C \<longleftrightarrow> (\<forall>w conn. \<exists>b. c_test C w conn = Ping b)"

lemma ping_invalid: "all_ping C \<Longrightarrow> \<not> is_connection_valid C w conn"
proof -
  assume "all_ping C"
  then obtain b where "c_test C w conn = Ping b" unfolding all_ping_def by blast
  then show ?thesis by (simp add: is_connection_valid_def)
qed

lemma ping_never_queues:
  "all_ping C \<Longrightarrow> pooled (return_connection C pool_size conn discard p) = pooled p
     \<and> pool_world (return_connection C pool_size conn discard p) = c_close C (pool_world p) conn"
  by (simp add: return_connection_def ping_invalid Let_def)

text \<open>The world in which a checkout opens its connection, when what is queued is not valid.\<close>

definition checkout_world :: "'w connections \<Rightarrow> 'w pool \<Rightarrow> 'w" where
  "checkout_world C p =
     (case pooled p of (conn, t) # rest \<Rightarrow> c_close C (pool_world p) conn | [] \<Rightarrow> pool_world p)"

lemma ping_always_opens:
  "all_ping C \<Longrightarrow> get_connection C pool_size p = (p', Inr conn) \<Longrightarrow>
     c_open C (checkout_world C p) = (pool_world p', Inr conn) \<and> created p' = created p + 1"
  by (auto simp: get_connection_def take_connection_def ping_invalid open_new_def hand_out_def
      checkout_world_def split: list.splits prod.splits sum.splits if_splits)

text \<open>
  C22. From the pool as it is created and through any sequence of checkouts, returns (each of a
  connection that is out), drains and health checks, a connection is never given to two holders,
  and the queue of free connections never grows past its limit, when opening a connection answers
  one that was not open before.
\<close>

theorem connections_have_one_holder:
  assumes "opens_fresh C used" and "pool_reachable C pool_size p"
    and "get_connection C pool_size p = (p', Inr conn)"
  shows "conn \<notin> set (handed_out p) \<and> distinct (map fst (pooled p) @ handed_out p)
    \<and> length (pooled p) \<le> pool_size"
proof -
  have ok: "pool_ok used pool_size p" using pool_reachable_ok [OF assms(2,1)] .
  then have "distinct (map fst (pooled p) @ handed_out p)" "length (pooled p) \<le> pool_size"
    by (simp_all add: pool_ok_def held_def)
  moreover have "conn \<notin> set (handed_out p)" using get_connection_ok [OF assms(1) ok assms(3)] by simp
  ultimately show ?thesis by simp
qed

definition counting :: "(nat \<Rightarrow> validity) \<Rightarrow> nat connections" where
  "counting test = \<lparr>c_open = (\<lambda>w. (Suc w, Inr w)), c_close = (\<lambda>w conn. w),
     c_test = (\<lambda>w conn. test conn), c_time = (\<lambda>w. 0)\<rparr>"

lemma counting_fresh: "opens_fresh (counting test) (\<lambda>w. {..<w})"
  by (auto simp: opens_fresh_def counting_def)

lemma counting_new: "new_pool (counting test) 2 0 =
   \<lparr>pooled = [(0, 0), (1, 0)], created = 2, handed_out = [], pool_world = 2\<rparr>"
  by (simp add: new_pool_def counting_def numeral_2_eq_2)

theorem connections_have_one_holder_witness:
  "(0::nat) \<notin> set (handed_out (new_pool (counting (\<lambda>_. NoTest)) 2 0))
   \<and> distinct (map fst (pooled (new_pool (counting (\<lambda>_. NoTest)) 2 0))
        @ handed_out (new_pool (counting (\<lambda>_. NoTest)) 2 0))
   \<and> length (pooled (new_pool (counting (\<lambda>_. NoTest)) 2 0)) \<le> 2"
  by (rule connections_have_one_holder [OF counting_fresh pool_reachable.New,
        where p' = "\<lparr>pooled = [(1, 0)], created = 2, handed_out = [0], pool_world = 2\<rparr>"])
    (simp add: counting_new get_connection_def take_connection_def is_connection_valid_def hand_out_def,
      simp add: counting_def)

text \<open>
  When connections are tested by \<open>ping\<close> the pool never reuses one: every checkout that succeeds
  has just opened the connection it gives (after closing the one it took from the queue, if any),
  and every return, asked to discard or not, closes the connection and leaves the queue as it was.
\<close>

lemma pinged_connections_are_never_reused:
  assumes "all_ping C"
  shows "(get_connection C pool_size p = (p', Inr conn) \<longrightarrow>
       c_open C (checkout_world C p) = (pool_world p', Inr conn) \<and> created p' = created p + 1)
    \<and> pooled (return_connection C pool_size back discard p) = pooled p
    \<and> pool_world (return_connection C pool_size back discard p) = c_close C (pool_world p) back"
  using ping_always_opens [OF assms] ping_never_queues [OF assms] by blast

lemma pinged_connections_are_never_reused_witness:
  "created \<lparr>pooled = [(1, 0)], created = 3, handed_out = [2], pool_world = 3\<rparr>
     = created \<lparr>pooled = [(0, 0), (1, 0)], created = 2, handed_out = [], pool_world = 2\<rparr> + 1"
  using pinged_connections_are_never_reused [where C = "counting (\<lambda>_. Ping True)" and pool_size = 2
      and p = "\<lparr>pooled = [(0, 0), (1, 0)], created = 2, handed_out = [], pool_world = 2\<rparr>"
      and p' = "\<lparr>pooled = [(1, 0)], created = 3, handed_out = [2], pool_world = 3\<rparr>" and conn = 2]
  by (simp add: all_ping_def counting_def get_connection_def take_connection_def
      is_connection_valid_def open_new_def hand_out_def)

end
