(* ===== verification/SqlRetry.thy ===== *)
theory SqlRetry
  imports ConnectionPool
begin

text \<open>
  How one SQL statement runs (\<open>adapters/persistence/embeddedMariaDB.py\<close>): the main connection and
  its cursor, \<open>_execute_sql\<close> on a pooled or pinned connection, and the retries of
  \<open>handle_sql_error\<close>.  The server and its client library are an argument of the definitions.
\<close>

section \<open>The server and the database object\<close>

datatype login = AppUser | RootUser | RootWithoutDatabase

datatype sql_params = Positional "pyval list" | Named pydict

text \<open>
  The answer of \<open>cursor.fetchall()\<close> comes with the names of the columns (\<open>cursor.description\<close>).
\<close>

record 'w server =
  s_conns :: "'w connections"
  s_connect :: "login \<Rightarrow> 'w \<Rightarrow> 'w \<times> nat dbres"
  s_connected :: "'w \<Rightarrow> nat \<Rightarrow> bool"
  s_cursor :: "nat \<Rightarrow> 'w \<Rightarrow> 'w \<times> unit dbres"
  s_execute :: "nat \<Rightarrow> string \<Rightarrow> sql_params \<Rightarrow> 'w \<Rightarrow> 'w \<times> unit dbres"
  s_fetch :: "nat \<Rightarrow> 'w \<Rightarrow> 'w \<times> (string list \<times> pyval list list) dbres"
  s_commit :: "nat \<Rightarrow> 'w \<Rightarrow> 'w \<times> unit dbres"
  s_rollback :: "nat \<Rightarrow> 'w \<Rightarrow> 'w \<times> unit dbres"
  s_reconnect :: "nat \<Rightarrow> 'w \<Rightarrow> 'w \<times> unit dbres"
  s_pool_size :: nat
  s_root_fallback :: bool
  s_database :: string

text \<open>\<open>_PooledConnectionHandle\<close>: whether a cursor is open, and whether the connection is to be closed.\<close>

record handle =
  h_cur :: bool
  h_discard :: bool

text \<open>
  The state of \<open>EmbeddedMariaDB\<close>.  A handle is named by the connection it wraps; \<open>pinned\<close> is
  \<open>_pinned_sql_conn\<close>.
\<close>

record 'w maria =
  db_pool :: "'w pool"
  handles :: "nat \<Rightarrow> handle option"
  pinned :: "nat option"
  main_db :: "nat option"
  main_cur :: bool
  query_count :: nat
  commit_count :: nat

type_synonym ('w, 'a) dbop = "'w maria \<Rightarrow> 'w maria \<times> 'a dbres"

definition world :: "'w maria \<Rightarrow> 'w" where
  "world s = pool_world (db_pool s)"

definition put_world :: "'w \<Rightarrow> 'w maria \<Rightarrow> 'w maria" where
  "put_world w s = s\<lparr>db_pool := (db_pool s)\<lparr>pool_world := w\<rparr>\<rparr>"

definition on_world :: "('w \<Rightarrow> 'w \<times> 'a dbres) \<Rightarrow> ('w, 'a) dbop" where
  "on_world f s = (case f (world s) of (w, r) \<Rightarrow> (put_world w s, r))"

definition and_then :: "('w, 'a) dbop \<Rightarrow> ('a \<Rightarrow> ('w, 'b) dbop) \<Rightarrow> ('w, 'b) dbop" where
  "and_then m f s = (case m s of (s', Inl e) \<Rightarrow> (s', Inl e) | (s', Inr x) \<Rightarrow> f x s')"

definition give :: "'a \<Rightarrow> ('w, 'a) dbop" where
  "give x s = (s, Inr x)"

definition modify :: "('w maria \<Rightarrow> 'w maria) \<Rightarrow> ('w, unit) dbop" where
  "modify f s = (f s, Inr ())"

definition fail :: "db_error \<Rightarrow> ('w, 'a) dbop" where
  "fail e s = (s, Inl e)"

text \<open>\<open>try: m except OperationalError: h\<close>.\<close>

definition catch_operational :: "('w, 'a) dbop \<Rightarrow> ('w, 'a) dbop \<Rightarrow> ('w, 'a) dbop" where
  "catch_operational m h s =
     (case m s of (s', Inl (OperationalError n t)) \<Rightarrow> h s' | (s', r) \<Rightarrow> (s', r))"

text \<open>\<open>e.errno\<close> and \<open>str(e)\<close>.\<close>

fun errno :: "db_error \<Rightarrow> int option" where
  "errno (DatabaseError n t) = Some n"
| "errno (OperationalError n t) = Some n"
| "errno _ = None"

fun db_error_text :: "db_error \<Rightarrow> string" where
  "db_error_text (DatabaseError n t) = t"
| "db_error_text (OperationalError n t) = t"
| "db_error_text (InterfaceError t) = t"
| "db_error_text PyIndexError = []"
| "db_error_text (Py (AttributeError t)) = t"
| "db_error_text (Py (RuntimeError t)) = t"
| "db_error_text (Py (ValueError t)) = t"
| "db_error_text (Py (TypeError t)) = t"
| "db_error_text (Py _) = []"

section \<open>The main connection\<close>

fun is_mysql_error :: "db_error \<Rightarrow> bool" where
  "is_mysql_error (DatabaseError n t) = True"
| "is_mysql_error (OperationalError n t) = True"
| "is_mysql_error (InterfaceError t) = True"
| "is_mysql_error _ = False"

definition connect_as :: "'w server \<Rightarrow> login \<Rightarrow> ('w, unit) dbop" where
  "connect_as S l = and_then (on_world (s_connect S l)) (\<lambda>conn. modify (\<lambda>s. s\<lparr>main_db := Some conn\<rparr>))"

definition catch_mysql :: "('w, 'a) dbop \<Rightarrow> (db_error \<Rightarrow> ('w, 'a) dbop) \<Rightarrow> ('w, 'a) dbop" where
  "catch_mysql m h s =
     (case m s of (s', Inl e) \<Rightarrow> if is_mysql_error e then h e s' else (s', Inl e) | (s', r) \<Rightarrow> (s', r))"

definition run_on_main :: "'w server \<Rightarrow> string \<Rightarrow> ('w, unit) dbop" where
  "run_on_main S sql s =
     (case main_db s of
        None \<Rightarrow> (s, Inr ())
      | Some conn \<Rightarrow> on_world (s_execute S conn sql (Positional [])) s)"

definition connect_to_database :: "'w server \<Rightarrow> ('w, unit) dbop" where
  "connect_to_database S =
     catch_mysql (connect_as S AppUser) (\<lambda>e.
       if \<not> s_root_fallback S then fail e
       else catch_mysql (connect_as S RootUser) (\<lambda>_.
         and_then (connect_as S RootWithoutDatabase) (\<lambda>_.
         and_then (run_on_main S (''CREATE DATABASE IF NOT EXISTS '' @ s_database S)) (\<lambda>_.
         run_on_main S (''USE '' @ s_database S)))))"

definition open_main_cursor :: "'w server \<Rightarrow> ('w, unit) dbop" where
  "open_main_cursor S s =
     (case main_db s of
        None \<Rightarrow> (s, Inl (Py (RuntimeError ''Database connection not established'')))
      | Some conn \<Rightarrow> and_then (on_world (s_cursor S conn)) (\<lambda>_. modify (\<lambda>s. s\<lparr>main_cur := True\<rparr>)) s)"

text \<open>\<open>get_cursor\<close>: a failed connection attempt is only noticed by the missing connection.\<close>

definition get_cursor :: "'w server \<Rightarrow> ('w, unit) dbop" where
  "get_cursor S s =
     (if main_db s = None then open_main_cursor S (fst (connect_to_database S s))
      else open_main_cursor S s)"

definition close_cursor :: "('w, unit) dbop" where
  "close_cursor = modify (\<lambda>s. s\<lparr>main_cur := False\<rparr>)"

definition close_main :: "'w server \<Rightarrow> 'w maria \<Rightarrow> 'w maria" where
  "close_main S s =
     (case main_db s of
        None \<Rightarrow> s
      | Some conn \<Rightarrow> (put_world (c_close (s_conns S) (world s) conn) s)\<lparr>main_db := None\<rparr>)"

definition recover_connections :: "'w server \<Rightarrow> ('w, unit) dbop" where
  "recover_connections S s =
     (let s1 = close_main S (s\<lparr>pinned := None, main_cur := False\<rparr>);
          s2 = s1\<lparr>db_pool := drain (s_conns S) (db_pool s1)\<rparr>
      in and_then (connect_to_database S) (\<lambda>_. get_cursor S) s2)"

section \<open>One statement on one connection\<close>

definition set_handle :: "nat \<Rightarrow> (handle \<Rightarrow> handle) \<Rightarrow> 'w maria \<Rightarrow> 'w maria" where
  "set_handle conn f s = s\<lparr>handles := (handles s)(conn := map_option f (handles s conn))\<rparr>"

definition has_cursor :: "nat \<Rightarrow> 'w maria \<Rightarrow> bool" where
  "has_cursor conn s = (case handles s conn of None \<Rightarrow> False | Some h \<Rightarrow> h_cur h)"

definition discarded :: "nat \<Rightarrow> 'w maria \<Rightarrow> bool" where
  "discarded conn s = (case handles s conn of None \<Rightarrow> False | Some h \<Rightarrow> h_discard h)"

definition handle_cursor :: "'w server \<Rightarrow> nat \<Rightarrow> ('w, unit) dbop" where
  "handle_cursor S conn s =
     (if has_cursor conn s then (s, Inr ())
      else and_then (on_world (s_cursor S conn)) (\<lambda>_. modify (set_handle conn (\<lambda>h. h\<lparr>h_cur := True\<rparr>))) s)"

text \<open>\<open>_pool_connection_is_usable\<close>: connected, and a ping does not raise.\<close>

definition pool_connection_is_usable :: "'w server \<Rightarrow> 'w \<Rightarrow> nat \<Rightarrow> bool" where
  "pool_connection_is_usable S w conn =
     (s_connected S w conn \<and> (case c_test (s_conns S) w conn of Ping b \<Rightarrow> b | _ \<Rightarrow> True))"

definition mark_pool_connection_bad :: "nat \<Rightarrow> 'w maria \<Rightarrow> 'w maria" where
  "mark_pool_connection_bad conn s =
     (let s1 = set_handle conn (\<lambda>h. h\<lparr>h_discard := True\<rparr>) s
      in if pinned s1 = Some conn then s1\<lparr>pinned := None\<rparr> else s1)"

text \<open>
  Placeholders: \<open>?\<close> becomes \<open>%s\<close>; with named parameters \<open>:name\<close> becomes \<open>%(name)s\<close>.  A colon with
  no name after it stays.
\<close>

definition is_word_char :: "char \<Rightarrow> bool" where
  "is_word_char c = (py_isalnum c \<or> c = CHR ''_'')"

definition positional_marks :: "string \<Rightarrow> string" where
  "positional_marks sql = concat (map (\<lambda>c. if c = CHR ''?'' then ''%s'' else [c]) sql)"

function named_marks :: "string \<Rightarrow> string" where
  "named_marks [] = []"
| "named_marks (c # cs) =
     (let name = takeWhile is_word_char cs
      in if c = CHR '':'' \<and> name \<noteq> []
         then ''%('' @ name @ '')s'' @ named_marks (dropWhile is_word_char cs)
         else c # named_marks cs)"
  by pat_completeness auto
termination
  by (relation "measure length") (auto simp: le_imp_less_Suc length_dropWhile_le)

definition no_params :: "sql_params \<Rightarrow> bool" where
  "no_params ps = (case ps of Positional vs \<Rightarrow> vs = [] | Named d \<Rightarrow> d = [])"

definition with_marks :: "string \<Rightarrow> sql_params \<Rightarrow> string" where
  "with_marks sql ps =
     (if no_params ps then sql
      else case ps of Positional _ \<Rightarrow> positional_marks sql | Named _ \<Rightarrow> named_marks sql)"

definition is_read :: "string \<Rightarrow> bool" where
  "is_read sql =
     (let t = py_upper (py_strip sql)
      in list_ex (py_startswith t) [''SELECT'', ''SHOW'', ''DESCRIBE'', ''EXPLAIN''])"

datatype sql_rows = Tuples "pyval list list" | Dicts "pydict list"

datatype sql_answer = Plain sql_rows | Described sql_rows "string list option"

text \<open>\<open>dict(zip(columns, row))\<close>: a repeated column keeps its last value.\<close>

definition row_dict :: "string list \<Rightarrow> pyval list \<Rightarrow> pydict" where
  "row_dict columns row = fold (\<lambda>(k, v) d. AList.update k v d) (zip columns row) []"

definition shape_rows :: "bool \<Rightarrow> bool \<Rightarrow> string list \<times> pyval list list \<Rightarrow> sql_answer" where
  "shape_rows to_dict described cr =
     (let columns = fst cr;
          rows = (if to_dict \<and> columns \<noteq> [] then Dicts (map (row_dict columns) (snd cr)) else Tuples (snd cr))
      in if described then Described rows (Some columns) else Plain rows)"

definition count_commit :: "'w maria \<Rightarrow> 'w maria" where
  "count_commit s = s\<lparr>commit_count := commit_count s + 1\<rparr>"

text \<open>The body of the \<open>try\<close> of \<open>_execute_sql\<close>.\<close>

definition run_statement :: "'w server \<Rightarrow> nat \<Rightarrow> string \<Rightarrow> sql_params \<Rightarrow> bool \<Rightarrow> bool \<Rightarrow> bool \<Rightarrow>
   ('w, sql_answer) dbop" where
  "run_statement S conn sql ps save to_dict described s =
     and_then (on_world (s_execute S conn (with_marks sql ps) ps)) (\<lambda>_.
     and_then (if save then and_then (on_world (s_commit S conn)) (\<lambda>_. modify count_commit) else give ()) (\<lambda>_.
     if is_read (with_marks sql ps)
     then and_then (on_world (s_fetch S conn)) (\<lambda>cr. give (shape_rows to_dict described cr))
     else give (if described then Described (Tuples []) None else Plain (Tuples []))))
     (s\<lparr>query_count := query_count s + 1\<rparr>)"

definition breaks_connection :: "db_error \<Rightarrow> bool" where
  "breaks_connection e =
     (e = PyIndexError \<or> (\<exists>t. e = InterfaceError t) \<or> py_contains (db_error_text e) ''OK packet''
      \<or> errno e \<in> {Some 2013, Some 2014, Some 2027, Some 2055})"

text \<open>Its \<open>except\<close>: roll back, mark a broken connection, raise again.\<close>

definition after_failure :: "'w server \<Rightarrow> nat \<Rightarrow> db_error \<Rightarrow> 'w maria \<Rightarrow> 'w maria" where
  "after_failure S conn e s =
     (let s1 = fst (on_world (s_rollback S conn) s)
      in if breaks_connection e then mark_pool_connection_bad conn s1 else s1)"

definition execute_sql :: "'w server \<Rightarrow> nat \<Rightarrow> string \<Rightarrow> sql_params \<Rightarrow> bool \<Rightarrow> bool \<Rightarrow> bool \<Rightarrow>
   ('w, sql_answer) dbop" where
  "execute_sql S conn sql ps save to_dict described =
     and_then (handle_cursor S conn) (\<lambda>_ s.
       if \<not> pool_connection_is_usable S (world s) conn
       then (mark_pool_connection_bad conn s, Inl (InterfaceError ''MySQL Connection not available.''))
       else if py_contains sql ''IN ()'' then (s, Inr (Plain (Tuples [])))
       else case run_statement S conn sql ps save to_dict described s of
              (s', Inl e) \<Rightarrow> (after_failure S conn e s', Inl e)
            | (s', Inr a) \<Rightarrow> (s', Inr a))"

section \<open>Pooled connections\<close>

definition checkout :: "'w server \<Rightarrow> ('w, nat) dbop" where
  "checkout S s =
     (case get_connection (s_conns S) (s_pool_size S) (db_pool s) of
        (p, Inl e) \<Rightarrow> (s\<lparr>db_pool := p\<rparr>, Inl e)
      | (p, Inr conn) \<Rightarrow>
          (s\<lparr>db_pool := p, handles := (handles s)(conn := Some \<lparr>h_cur = False, h_discard = False\<rparr>)\<rparr>, Inr conn))"

definition checkin :: "'w server \<Rightarrow> nat \<Rightarrow> 'w maria \<Rightarrow> 'w maria" where
  "checkin S conn s =
     s\<lparr>db_pool := return_connection (s_conns S) (s_pool_size S) conn (discarded conn s) (db_pool s),
       handles := (handles s)(conn := None)\<rparr>"

text \<open>\<open>with self.pooled_connection() as conn: body\<close>.\<close>

definition with_pooled :: "'w server \<Rightarrow> (nat \<Rightarrow> ('w, 'a) dbop) \<Rightarrow> ('w, 'a) dbop" where
  "with_pooled S body = and_then (checkout S) (\<lambda>conn s. case body conn s of (s', r) \<Rightarrow> (checkin S conn s', r))"

definition sql_once :: "'w server \<Rightarrow> string \<Rightarrow> sql_params \<Rightarrow> bool \<Rightarrow> bool \<Rightarrow> bool \<Rightarrow> ('w, sql_answer) dbop" where
  "sql_once S sql ps save to_dict described s =
     (case pinned s of
        Some conn \<Rightarrow> execute_sql S conn sql ps save to_dict described s
      | None \<Rightarrow> with_pooled S (\<lambda>conn. execute_sql S conn sql ps save to_dict described) s)"

section \<open>Retries\<close>

text \<open>The answer of the \<open>except\<close> clauses: the count of the next attempt, or the exception raised.\<close>

definition again_below :: "nat \<Rightarrow> nat \<Rightarrow> db_error \<Rightarrow> ('w, nat) dbop" where
  "again_below limit loops e = (if loops < limit then give (loops + 1) else fail e)"

definition reset_cursor :: "'w server \<Rightarrow> ('w, unit) dbop" where
  "reset_cursor S =
     catch_operational (and_then close_cursor (\<lambda>_. get_cursor S)) (recover_connections S)"

definition reconnect_main :: "'w server \<Rightarrow> ('w, unit) dbop" where
  "reconnect_main S s =
     (case main_db s of None \<Rightarrow> (s, Inr ()) | Some conn \<Rightarrow> on_world (s_reconnect S conn) s)"

definition on_database_error :: "'w server \<Rightarrow> db_error \<Rightarrow> int \<Rightarrow> nat \<Rightarrow> ('w, nat) dbop" where
  "on_database_error S e n loops =
     (if n = 1205 then
        (if loops < 1 then give (loops + 1)
         else if loops = 1 then and_then (reconnect_main S) (\<lambda>_. give (loops + 1))
         else fail e)
      else if n = 4031 then and_then (recover_connections S) (\<lambda>_. give loops)
      else if n = 1040 then fail e
      else if n = 2055 \<or> py_contains (db_error_text e) ''Cursor is not connected''
      then and_then (reset_cursor S) (\<lambda>_. again_below 5 loops e)
      else if n = 2014 \<or> n = 2013 then and_then (reset_cursor S) (\<lambda>_. again_below 5 loops e)
      else if n = 2006 then fail e
      else if n = 1213 \<or> n = 1020 \<or> n = 2027 then again_below 5 loops e
      else fail e)"

definition on_interface_error :: "'w server \<Rightarrow> db_error \<Rightarrow> nat \<Rightarrow> ('w, nat) dbop" where
  "on_interface_error S e loops =
     (if loops < 5
      then and_then
        (if loops \<ge> 2 \<and> (py_contains (db_error_text e) ''OK packet''
              \<or> py_contains (db_error_text e) ''Connection not available'')
         then recover_connections S else give ())
        (\<lambda>_. give (loops + 1))
      else fail e)"

definition on_index_error :: "'w server \<Rightarrow> db_error \<Rightarrow> nat \<Rightarrow> ('w, nat) dbop" where
  "on_index_error S e loops s =
     (let s1 = (case pinned s of None \<Rightarrow> s | Some conn \<Rightarrow> mark_pool_connection_bad conn s)
      in if loops < 5
         then and_then (if loops \<ge> 1 then recover_connections S else give ()) (\<lambda>_. give (loops + 1)) s1
         else fail e s1)"

definition none_attribute :: "string \<Rightarrow> string" where
  "none_attribute a =
     [CHR 0x27] @ ''NoneType'' @ [CHR 0x27] @ '' object has no attribute '' @ [CHR 0x27] @ a @ [CHR 0x27]"

definition lost_cursor :: "string \<Rightarrow> bool" where
  "lost_cursor t = (py_contains t (none_attribute ''get_warnings'') \<or> py_contains t (none_attribute ''get_rows''))"

definition on_error :: "'w server \<Rightarrow> db_error \<Rightarrow> nat \<Rightarrow> ('w, nat) dbop" where
  "on_error S e loops =
     (case e of
        DatabaseError n t \<Rightarrow> on_database_error S e n loops
      | OperationalError n t \<Rightarrow> on_database_error S e n loops
      | InterfaceError t \<Rightarrow> on_interface_error S e loops
      | PyIndexError \<Rightarrow> on_index_error S e loops
      | Py (AttributeError t) \<Rightarrow>
          if lost_cursor t
          then and_then (catch_operational (get_cursor S) (recover_connections S)) (\<lambda>_. again_below 5 loops e)
          else fail e
      | Py x \<Rightarrow> fail e)"

definition ensure_cursor :: "'w server \<Rightarrow> ('w, unit) dbop" where
  "ensure_cursor S s = (if main_cur s then (s, Inr ()) else get_cursor S s)"

text \<open>
  The wrapper of \<open>handle_sql_error\<close>.  It may call itself for ever, so its result is an option:
  \<open>None\<close> when it never returns.
\<close>

partial_function (option) handle_sql_error ::
  "'w server \<Rightarrow> ('w, 'a) dbop \<Rightarrow> nat \<Rightarrow> 'w maria \<Rightarrow> ('w maria \<times> 'a dbres) option" where
  "handle_sql_error S func loops s =
     (case ensure_cursor S s of
        (s1, Inl e) \<Rightarrow> Some (s1, Inl e)
      | (s1, Inr _) \<Rightarrow>
          (case func s1 of
             (s2, Inr x) \<Rightarrow> Some (s2, Inr x)
           | (s2, Inl e) \<Rightarrow>
               (case on_error S e loops s2 of
                  (s3, Inl e') \<Rightarrow> Some (s3, Inl e')
                | (s3, Inr n) \<Rightarrow> handle_sql_error S func n s3)))"

definition sql :: "'w server \<Rightarrow> string \<Rightarrow> sql_params \<Rightarrow> bool \<Rightarrow> bool \<Rightarrow> bool \<Rightarrow>
   'w maria \<Rightarrow> ('w maria \<times> sql_answer dbres) option" where
  "sql S stmt ps save to_dict described = handle_sql_error S (sql_once S stmt ps save to_dict described) 0"

section \<open>The retries end\<close>

text \<open>An error other than the idle disconnect (4031) either is raised or costs one of six attempts.\<close>

lemma again_belowD: "again_below 5 loops e s = (s', Inr n) \<Longrightarrow> n = loops + 1 \<and> loops < 5"
  by (auto simp: again_below_def give_def fail_def split: if_splits)

lemma and_thenE:
  assumes "and_then m f s = (s', Inr y)"
  obtains s1 x where "m s = (s1, Inr x)" and "f x s1 = (s', Inr y)"
  using assms by (auto simp: and_then_def split: prod.splits sum.splits)

lemma on_database_error_counts:
  "on_database_error S e n loops s = (s', Inr k) \<Longrightarrow> n \<noteq> 4031 \<Longrightarrow> k = loops + 1 \<and> loops < 5"
  unfolding on_database_error_def
  by (auto split: if_splits elim!: and_thenE dest!: again_belowD simp: give_def fail_def)

lemma on_error_counts:
  assumes "on_error S e loops s = (s', Inr k)" and "errno e \<noteq> Some 4031"
  shows "k = loops + 1 \<and> loops < 5"
proof (cases e)
  case (InterfaceError t)
  then show ?thesis using assms(1)
    by (auto simp: on_error_def on_interface_error_def give_def fail_def split: if_splits elim!: and_thenE)
next
  case PyIndexError
  then show ?thesis using assms(1)
    by (auto simp: on_error_def on_index_error_def give_def fail_def Let_def split: if_splits elim!: and_thenE)
next
  case (Py x)
  then show ?thesis using assms(1)
    by (cases x) (auto simp: on_error_def fail_def split: if_splits elim!: and_thenE dest!: again_belowD)
qed (use assms in \<open>auto simp: on_error_def dest: on_database_error_counts\<close>)

lemma handle_sql_error_returns:
  assumes "\<And>s s' e. func s = (s', Inl e) \<Longrightarrow> errno e \<noteq> Some 4031"
  shows "\<exists>r. handle_sql_error S func loops s = Some r"
proof (induction "6 - loops" arbitrary: loops s rule: less_induct)
  case less
  obtain s1 c where c: "ensure_cursor S s = (s1, c)" by fastforce
  obtain s2 r where r: "func s1 = (s2, r)" by fastforce
  show ?case
  proof (cases r)
    case (Inl e)
    obtain s3 k where k: "on_error S e loops s2 = (s3, k)" by fastforce
    show ?thesis
    proof (cases k)
      case (Inr n)
      have "n = loops + 1 \<and> loops < 5"
        using on_error_counts k Inr assms r Inl by metis
      then have "6 - n < 6 - loops" by arith
      from less [OF this] have "\<exists>r. handle_sql_error S func n s3 = Some r" .
      then show ?thesis
        by (subst handle_sql_error.simps) (simp add: c r Inl k Inr split: sum.split)
    qed (subst handle_sql_error.simps, simp add: c r Inl k split: sum.split)
  qed (subst handle_sql_error.simps, simp add: c r split: sum.split)
qed

lemma handle_sql_error_never_returns:
  assumes cur: "\<And>s. \<exists>s'. get_cursor S s = (s', Inr ())"
    and rec: "\<And>s. \<exists>s'. recover_connections S s = (s', Inr ())"
    and func: "\<And>s. \<exists>s' t. func s = (s', Inl (OperationalError 4031 t))"
  shows "handle_sql_error S func loops s = None"
proof -
  have False if "handle_sql_error S func loops s = Some r" for r
  proof -
    have "S = S \<longrightarrow> func = func \<longrightarrow> False"
    proof (rule handle_sql_error.raw_induct [where P = "\<lambda>S' f n s r. S' = S \<longrightarrow> f = func \<longrightarrow> False", OF _ that],
        intro impI)
      fix h S' f n s r
      assume ih: "\<And>S' f n s r. h S' f n s = Some r \<Longrightarrow> S' = S \<longrightarrow> f = func \<longrightarrow> False"
        and eq: "S' = S" "f = func"
        and step: "(case ensure_cursor S' s of
            (s1, Inl e) \<Rightarrow> Some (s1, Inl e)
          | (s1, Inr _) \<Rightarrow>
              (case f s1 of
                 (s2, Inr x) \<Rightarrow> Some (s2, Inr x)
               | (s2, Inl e) \<Rightarrow>
                   (case on_error S' e n s2 of
                      (s3, Inl e') \<Rightarrow> Some (s3, Inl e')
                    | (s3, Inr k) \<Rightarrow> h S' f k s3))) = Some r"
      obtain s1 where s1: "ensure_cursor S s = (s1, Inr ())"
        using cur [of s] unfolding ensure_cursor_def by metis
      obtain s2 t where s2: "func s1 = (s2, Inl (OperationalError 4031 t))" using func by blast
      obtain s3 where s3: "recover_connections S s2 = (s3, Inr ())" using rec by blast
      have "on_error S (OperationalError 4031 t) n s2 = (s3, Inr n)"
        by (simp add: on_error_def on_database_error_def and_then_def s3 give_def)
      then have "h S func n s3 = Some r" using step by (simp add: eq s1 s2)
      then show False using ih by blast
    qed
    then show False by simp
  qed
  then show ?thesis by (cases "handle_sql_error S func loops s") auto
qed

definition server_up :: "'w server \<Rightarrow> bool" where
  "server_up S \<longleftrightarrow>
     (\<forall>l w. \<exists>w' conn. s_connect S l w = (w', Inr conn)) \<and> (\<forall>conn w. \<exists>w'. s_cursor S conn w = (w', Inr ()))"

lemma connect_up: "server_up S \<Longrightarrow> \<exists>s' conn. connect_to_database S s = (s', Inr ()) \<and> main_db s' = Some conn"
proof -
  assume up: "server_up S"
  obtain w' conn where "s_connect S AppUser (world s) = (w', Inr conn)" using up unfolding server_up_def by blast
  then show ?thesis
    by (simp add: connect_to_database_def connect_as_def catch_mysql_def and_then_def on_world_def modify_def)
qed

lemma get_cursor_up: "server_up S \<Longrightarrow> \<exists>s'. get_cursor S s = (s', Inr ())"
proof -
  assume up: "server_up S"
  have open_cursor: "\<exists>s'. open_main_cursor S t = (s', Inr ())" if "main_db t = Some conn" for t conn
  proof -
    obtain w' where "s_cursor S conn (world t) = (w', Inr ())" using up unfolding server_up_def by blast
    then show ?thesis
      using that by (simp add: open_main_cursor_def and_then_def on_world_def modify_def)
  qed
  show ?thesis
    using open_cursor connect_up [OF up, of s] by (cases "main_db s") (auto simp: get_cursor_def)
qed

lemma recover_up: "server_up S \<Longrightarrow> \<exists>s'. recover_connections S s = (s', Inr ())"
  unfolding recover_connections_def Let_def and_then_def
  using connect_up get_cursor_up
  by (metis (mono_tags, lifting) old.prod.case old.sum.simps(6))

section \<open>No connection is lost\<close>

text \<open>The connections that are out of the pool, which a statement must leave as they were.\<close>

definition outs :: "'w maria \<Rightarrow> nat multiset" where
  "outs s = mset (handed_out (db_pool s))"

definition keeps_outs :: "('w, 'a) dbop \<Rightarrow> bool" where
  "keeps_outs m \<longleftrightarrow> (\<forall>s. outs (fst (m s)) = outs s)"

lemma outs_updates [simp]:
  "outs (put_world w s) = outs s"
  "outs (s\<lparr>main_db := d\<rparr>) = outs s" "outs (s\<lparr>main_cur := b\<rparr>) = outs s" "outs (s\<lparr>pinned := p\<rparr>) = outs s"
  "outs (s\<lparr>handles := h\<rparr>) = outs s" "outs (s\<lparr>query_count := q\<rparr>) = outs s" "outs (s\<lparr>commit_count := q\<rparr>) = outs s"
  "outs (close_main S s) = outs s" "outs (set_handle conn f s) = outs s"
  "outs (mark_pool_connection_bad conn s) = outs s"
  by (auto simp: outs_def put_world_def close_main_def set_handle_def mark_pool_connection_bad_def Let_def
      split: option.splits)

lemma keeps_basic:
  "keeps_outs (on_world f)" "keeps_outs (give x)" "keeps_outs (fail e)" "keeps_outs close_cursor"
  "keeps_outs (modify count_commit)" "keeps_outs (modify (set_handle conn g))"
  "keeps_outs (modify (\<lambda>s. s\<lparr>main_db := d\<rparr>))" "keeps_outs (modify (\<lambda>s. s\<lparr>main_cur := b\<rparr>))"
  by (auto simp: keeps_outs_def on_world_def give_def fail_def close_cursor_def modify_def count_commit_def
      split: prod.splits)

lemma keeps_and_then: "keeps_outs m \<Longrightarrow> (\<And>x. keeps_outs (f x)) \<Longrightarrow> keeps_outs (and_then m f)"
  unfolding keeps_outs_def and_then_def by (auto split: prod.splits sum.splits) (metis fst_conv)+

lemma keeps_catch_mysql: "keeps_outs m \<Longrightarrow> (\<And>e. keeps_outs (h e)) \<Longrightarrow> keeps_outs (catch_mysql m h)"
  unfolding keeps_outs_def catch_mysql_def by (auto split: prod.splits sum.splits) (metis fst_conv)+

lemma keeps_catch_operational: "keeps_outs m \<Longrightarrow> keeps_outs h \<Longrightarrow> keeps_outs (catch_operational m h)"
  unfolding keeps_outs_def catch_operational_def
  by (auto split: prod.splits sum.splits db_error.splits) (metis fst_conv)+

lemma keeps_at: "keeps_outs m \<Longrightarrow> outs (fst (m s)) = outs s"
  by (simp add: keeps_outs_def)

lemmas keeps_rules = keeps_basic keeps_and_then keeps_catch_mysql keeps_catch_operational

lemma keeps_connect: "keeps_outs (connect_to_database S)"
proof -
  have "keeps_outs (run_on_main S q)" for q
    unfolding keeps_outs_def run_on_main_def using keeps_basic(1) by (auto simp: keeps_outs_def split: option.splits)
  then show ?thesis
    unfolding connect_to_database_def connect_as_def by (auto intro!: keeps_rules)
qed

lemma keeps_get_cursor: "keeps_outs (get_cursor S)"
proof -
  have "keeps_outs (open_main_cursor S)"
    unfolding keeps_outs_def open_main_cursor_def
    by (auto split: option.splits intro!: keeps_at keeps_rules)
  then show ?thesis
    using keeps_connect [of S] unfolding keeps_outs_def get_cursor_def by auto
qed

lemma keeps_recover: "keeps_outs (recover_connections S)"
proof -
  have k: "keeps_outs (and_then (connect_to_database S) (\<lambda>_. get_cursor S))"
    by (intro keeps_and_then keeps_connect keeps_get_cursor)
  have d: "outs (s\<lparr>db_pool := drain C (db_pool s)\<rparr>) = outs s" for C and s :: "'a maria"
    by (simp add: outs_def drain_def)
  show ?thesis unfolding keeps_outs_def recover_connections_def Let_def by (simp add: keeps_at [OF k] d)
qed

lemma keeps_handle_cursor: "keeps_outs (handle_cursor S conn)"
  unfolding keeps_outs_def handle_cursor_def by (auto intro!: keeps_at keeps_rules)

lemma keeps_run_statement: "keeps_outs (run_statement S conn q ps save d1 d2)"
proof -
  have "keeps_outs (\<lambda>s. and_then (on_world (s_execute S conn (with_marks q ps) ps)) (\<lambda>_.
     and_then (if save then and_then (on_world (s_commit S conn)) (\<lambda>_. modify count_commit) else give ()) (\<lambda>_.
     if is_read (with_marks q ps)
     then and_then (on_world (s_fetch S conn)) (\<lambda>cr. give (shape_rows d1 d2 cr))
     else give (if d2 then Described (Tuples []) None else Plain (Tuples [])))) s)"
    by (auto intro!: keeps_rules)
  then show ?thesis unfolding keeps_outs_def run_statement_def by simp
qed

lemma keeps_execute_sql: "keeps_outs (execute_sql S conn q ps save d1 d2)"
proof -
  have fail: "outs (after_failure S conn e s) = outs s" for e s
    using keeps_at [OF keeps_basic(1)] by (auto simp: after_failure_def Let_def)
  have "keeps_outs (\<lambda>s. case run_statement S conn q ps save d1 d2 s of
      (s', Inl e) \<Rightarrow> (after_failure S conn e s', Inl e) | (s', Inr a) \<Rightarrow> (s', Inr a))"
    using keeps_run_statement [of S conn q ps save d1 d2] fail
    unfolding keeps_outs_def by (auto split: prod.splits sum.splits) (metis fst_conv)+
  then show ?thesis
    unfolding execute_sql_def
    by (intro keeps_and_then keeps_handle_cursor) (auto simp: keeps_outs_def)
qed

lemma outs_checkout:
  "checkout S s = (s', Inr conn) \<Longrightarrow> outs s' = add_mset conn (outs s)"
  "checkout S s = (s', Inl e) \<Longrightarrow> outs s' = outs s"
  by (auto simp: checkout_def outs_def get_connection_def take_connection_def open_new_def hand_out_def
      split: prod.splits sum.splits list.splits if_splits)

lemma outs_checkin: "outs (checkin S conn s) = outs s - {#conn#}"
  by (simp add: checkin_def outs_def return_connection_def Let_def)

lemma keeps_with_pooled: "(\<And>conn. keeps_outs (body conn)) \<Longrightarrow> keeps_outs (with_pooled S body)"
  unfolding keeps_outs_def with_pooled_def and_then_def
  by (auto simp: outs_checkin split: prod.splits sum.splits dest: outs_checkout)
    (metis add_mset_remove_trivial fst_conv outs_checkout(1))

lemma keeps_sql_once: "keeps_outs (sql_once S q ps save d1 d2)"
proof -
  have "keeps_outs (with_pooled S (\<lambda>conn. execute_sql S conn q ps save d1 d2))"
    by (intro keeps_with_pooled keeps_execute_sql)
  then show ?thesis
    using keeps_execute_sql [of S] unfolding keeps_outs_def sql_once_def by (auto split: option.splits)
qed

lemma keeps_on_error: "keeps_outs (on_error S e loops)"
proof -
  have [simp]: "keeps_outs (reset_cursor S)"
    unfolding reset_cursor_def by (intro keeps_rules keeps_get_cursor keeps_recover)
  have [simp]: "keeps_outs (reconnect_main S)"
    unfolding keeps_outs_def reconnect_main_def by (auto split: option.splits intro!: keeps_at keeps_rules)
  have [simp]: "keeps_outs (again_below k loops e)" for k loops e
    unfolding again_below_def by (auto intro!: keeps_rules)
  have db: "keeps_outs (on_database_error S e' n loops)" for e' n
    unfolding on_database_error_def by (auto intro!: keeps_rules keeps_recover)
  have [simp]: "keeps_outs (and_then (if c then recover_connections S else give ()) (\<lambda>_. give k))" for c k
    by (auto intro!: keeps_rules keeps_recover)
  define again :: "('a, nat) dbop" where
    "again = and_then (if loops \<ge> 1 then recover_connections S else give ()) (\<lambda>_. give (loops + 1))"
  have again: "outs (fst (again s)) = outs s" for s
    unfolding again_def by (rule keeps_at) simp
  have "keeps_outs (on_index_error S e loops)"
    unfolding keeps_outs_def on_index_error_def Let_def again_def [symmetric]
    by (auto simp: again fail_def split: option.splits)
  moreover have "keeps_outs (on_interface_error S e loops)"
    unfolding on_interface_error_def by (auto intro: keeps_rules)
  moreover have "keeps_outs (and_then (catch_operational (get_cursor S) (recover_connections S)) (\<lambda>_. again_below 5 loops e))"
    by (auto intro!: keeps_rules keeps_get_cursor keeps_recover)
  ultimately show ?thesis
    unfolding on_error_def by (auto split: db_error.splits pyerr.splits intro: db keeps_rules)
qed

lemma handle_sql_error_keeps:
  assumes "keeps_outs func" and "handle_sql_error S func loops s = Some (s', r)"
  shows "outs s' = outs s"
proof -
  have "f = func \<longrightarrow> outs (fst r) = outs s"
    if "handle_sql_error S f loops s = Some r" for f loops s and r :: "'a maria \<times> 'b dbres"
  proof (rule handle_sql_error.raw_induct [where P = "\<lambda>S f n s r. f = func \<longrightarrow> outs (fst r) = outs s", OF _ that],
      intro impI)
    fix h S f n s and r :: "'a maria \<times> 'b dbres"
    assume ih: "\<And>S f n s r. h S f n s = Some r \<Longrightarrow> f = func \<longrightarrow> outs (fst r) = outs s"
      and f: "f = func"
      and step: "(case ensure_cursor S s of
          (s1, Inl e) \<Rightarrow> Some (s1, Inl e)
        | (s1, Inr _) \<Rightarrow>
            (case f s1 of
               (s2, Inr x) \<Rightarrow> Some (s2, Inr x)
             | (s2, Inl e) \<Rightarrow>
                 (case on_error S e n s2 of
                    (s3, Inl e') \<Rightarrow> Some (s3, Inl e')
                  | (s3, Inr k) \<Rightarrow> h S f k s3))) = Some r"
    obtain s1 c where c: "ensure_cursor S s = (s1, c)" by fastforce
    obtain s2 d where d: "f s1 = (s2, d)" by fastforce
    have "outs s1 = outs s"
      using keeps_at [OF keeps_get_cursor, of S s] c by (simp add: ensure_cursor_def split: if_splits)
    then have o2: "outs s1 = outs s" "outs s2 = outs s"
      using d keeps_at [OF assms(1), of s1] f by auto
    show "outs (fst r) = outs s"
    proof (cases c)
      case (Inr u)
      show ?thesis
      proof (cases d)
        case (Inl e)
        obtain s3 k where k: "on_error S e n s2 = (s3, k)" by fastforce
        have o3: "outs s3 = outs s" using keeps_at [OF keeps_on_error, of S e n s2] k o2 by simp
        show ?thesis
        proof (cases k)
          case (Inr m)
          then have "h S f m s3 = Some r" using step c \<open>c = Inr u\<close> d Inl k by simp
          then show ?thesis using ih [of S f m s3 r] f o3 by simp
        qed (use step c \<open>c = Inr u\<close> d Inl k o3 in auto)
      qed (use step c Inr d o2 in auto)
    qed (use step c o2 in auto)
  qed
  then show ?thesis using assms(2) by fastforce
qed

section \<open>The results on statements\<close>



text \<open>
  C19. A statement gives back the connection it took: when it returns, with an answer or an
  exception, and however it was retried, the connections out of the pool are those that were out
  before.
\<close>

theorem sql_returns_its_connections:
  assumes "sql S stmt ps save to_dict described s = Some (s', r)"
  shows "mset (handed_out (db_pool s')) = mset (handed_out (db_pool s))"
  using handle_sql_error_keeps [OF keeps_sql_once] assms unfolding sql_def outs_def by blast

section \<open>A server that keeps a journal\<close>

text \<open>
  A server for the witnesses: it records the statements it has committed and, for each connection,
  those it has not; \<open>refuse\<close> says which statements fail.
\<close>

record journal =
  j_opened :: nat
  j_committed :: "(string \<times> sql_params) list"
  j_pending :: "nat \<Rightarrow> (string \<times> sql_params) list"

definition journal_conns :: "journal connections" where
  "journal_conns =
     \<lparr>c_open = (\<lambda>w. (w\<lparr>j_opened := j_opened w + 1, j_pending := (j_pending w)(j_opened w := [])\<rparr>, Inr (j_opened w))),
      c_close = (\<lambda>w conn. w\<lparr>j_pending := (j_pending w)(conn := [])\<rparr>),
      c_test = (\<lambda>w conn. Ping True), c_time = (\<lambda>w. 0)\<rparr>"

definition journal_server :: "(string \<Rightarrow> db_error option) \<Rightarrow> journal server" where
  "journal_server refuse =
     \<lparr>s_conns = journal_conns,
      s_connect = (\<lambda>l w. (w\<lparr>j_opened := j_opened w + 1, j_pending := (j_pending w)(j_opened w := [])\<rparr>, Inr (j_opened w))),
      s_connected = (\<lambda>w conn. True),
      s_cursor = (\<lambda>conn w. (w, Inr ())),
      s_execute = (\<lambda>conn q ps w.
        case refuse q of
          Some e \<Rightarrow> (w, Inl e)
        | None \<Rightarrow> (if is_read q then w
                   else w\<lparr>j_pending := (j_pending w)(conn := j_pending w conn @ [(q, ps)])\<rparr>, Inr ())),
      s_fetch = (\<lambda>conn w. (w, Inr ([''value''], [[PInt 0]]))),
      s_commit = (\<lambda>conn w. (w\<lparr>j_committed := j_committed w @ j_pending w conn,
                               j_pending := (j_pending w)(conn := [])\<rparr>, Inr ())),
      s_rollback = (\<lambda>conn w. (w\<lparr>j_pending := (j_pending w)(conn := [])\<rparr>, Inr ())),
      s_reconnect = (\<lambda>conn w. (w, Inr ())),
      s_pool_size = 20, s_root_fallback = False, s_database = ''anime_manager''\<rparr>"

definition empty_journal :: journal where
  "empty_journal = \<lparr>j_opened = 1, j_committed = [], j_pending = (\<lambda>_. [])\<rparr>"

definition journal_state :: "journal maria" where
  "journal_state =
     \<lparr>db_pool = \<lparr>pooled = [], created = 0, handed_out = [], pool_world = empty_journal\<rparr>,
      handles = (\<lambda>_. None), pinned = None, main_db = Some 0, main_cur = True, query_count = 0, commit_count = 0\<rparr>"

lemmas journal_defs = journal_state_def journal_server_def journal_conns_def empty_journal_def

lemma journal_up: "server_up (journal_server refuse)"
  by (simp add: server_up_def journal_server_def)

lemma journal_read: "is_read ''SELECT 1''"
  by code_simp

lemma journal_select:
  "sql_once (journal_server refuse) ''SELECT 1'' (Positional []) False False False s =
     (s', Inl e) \<Longrightarrow> refuse ''SELECT 1'' = None \<Longrightarrow> errno e = None"
proof -
  have p: "\<not> py_contains ''SELECT 1'' ''IN ()''" by code_simp
  have "errno e = None"
    if "execute_sql (journal_server refuse) conn ''SELECT 1'' (Positional []) False False False s = (s', Inl e)"
      and "refuse ''SELECT 1'' = None" for conn s s'
    using that p
    by (auto simp: execute_sql_def handle_cursor_def and_then_def on_world_def modify_def journal_server_def
        journal_conns_def pool_connection_is_usable_def run_statement_def with_marks_def no_params_def give_def
        journal_read split: if_splits)
  moreover have "errno e = None" if "checkout (journal_server refuse) s = (s', Inl e)" for s s'
    using that
    by (auto simp: checkout_def get_connection_def take_connection_def open_new_def hand_out_def pool_timeout_def
        journal_server_def journal_conns_def split: list.splits if_splits)
  ultimately show
    "sql_once (journal_server refuse) ''SELECT 1'' (Positional []) False False False s = (s', Inl e) \<Longrightarrow>
     refuse ''SELECT 1'' = None \<Longrightarrow> errno e = None"
    by (auto simp: sql_once_def with_pooled_def and_then_def split: option.splits prod.splits sum.splits)
qed



lemma journal_run:
  "\<exists>s' r. sql (journal_server (\<lambda>_. None)) ''SELECT 1'' (Positional []) False False False journal_state = Some (s', r)"
proof -
  obtain r where "handle_sql_error (journal_server (\<lambda>_. None))
    (sql_once (journal_server (\<lambda>_. None)) ''SELECT 1'' (Positional []) False False False) 0 journal_state = Some r"
    using handle_sql_error_returns journal_select by (metis option.distinct(1))
  then show ?thesis unfolding sql_def by (cases r) auto
qed

theorem sql_returns_its_connections_witness:
  "\<exists>s' r. sql (journal_server (\<lambda>_. None)) ''SELECT 1'' (Positional []) False False False journal_state = Some (s', r)
     \<and> mset (handed_out (db_pool s')) = {#}"
proof -
  obtain s' r where r: "sql (journal_server (\<lambda>_. None)) ''SELECT 1'' (Positional []) False False False journal_state
    = Some (s', r)" using journal_run by blast
  from sql_returns_its_connections [OF r] show ?thesis using r by (auto simp: journal_state_def)
qed

end
