(* ===== verification/MariaStore.thy ===== *)
theory MariaStore
  imports SqlRetry "HOL-Library.Char_ord" "HOL-Library.List_Lexorder"
begin

text \<open>
  Writing anime rows: the row operations of \<open>EmbeddedMariaDB\<close>
  (\<open>adapters/persistence/embeddedMariaDB.py\<close>), the storage of genres
  (\<open>adapters/persistence/genre_metadata.py\<close>) and the batches of the database manager
  (\<open>application/services/database_manager.py\<close>), which hold one pinned connection and commit
  once.
\<close>

section \<open>Sequences of statements\<close>

text \<open>A statement may never return, so neither may what is built from statements.\<close>

type_synonym ('w, 'a) dbrun = "'w maria \<Rightarrow> ('w maria \<times> 'a dbres) option"

definition then_run :: "('w, 'a) dbrun \<Rightarrow> ('a \<Rightarrow> ('w, 'b) dbrun) \<Rightarrow> ('w, 'b) dbrun" where
  "then_run m f s =
     (case m s of
        None \<Rightarrow> None
      | Some (s', Inl e) \<Rightarrow> Some (s', Inl e)
      | Some (s', Inr x) \<Rightarrow> f x s')"

definition ret :: "'a \<Rightarrow> ('w, 'a) dbrun" where
  "ret x s = Some (s, Inr x)"

definition throw :: "pyerr \<Rightarrow> ('w, 'a) dbrun" where
  "throw e s = Some (s, Inl (Py e))"

definition from_res :: "'a dbres \<Rightarrow> ('w, 'a) dbrun" where
  "from_res r s = Some (s, r)"

text \<open>\<open>try: m except Exception: h\<close>.\<close>

definition or_else :: "('w, 'a) dbrun \<Rightarrow> ('w, 'a) dbrun \<Rightarrow> ('w, 'a) dbrun" where
  "or_else m h s = (case m s of None \<Rightarrow> None | Some (s', Inl e) \<Rightarrow> h s' | Some (s', Inr x) \<Rightarrow> Some (s', Inr x))"

fun each :: "('x \<Rightarrow> ('w, unit) dbrun) \<Rightarrow> 'x list \<Rightarrow> ('w, unit) dbrun" where
  "each f [] = ret ()"
| "each f (x # xs) = then_run (f x) (\<lambda>_. each f xs)"

fun plain_rows :: "sql_answer \<Rightarrow> pyval list list" where
  "plain_rows (Plain (Tuples rows)) = rows"
| "plain_rows _ = []"

definition query :: "'w server \<Rightarrow> string \<Rightarrow> sql_params \<Rightarrow> ('w, pyval list list) dbrun" where
  "query S stmt ps = then_run (sql S stmt ps False False False) (\<lambda>a. ret (plain_rows a))"

definition change :: "'w server \<Rightarrow> string \<Rightarrow> pyval list \<Rightarrow> bool \<Rightarrow> ('w, unit) dbrun" where
  "change S stmt ps save = then_run (sql S stmt (Positional ps) save False False) (\<lambda>_. ret ())"

text \<open>\<open>rows[0][0]\<close>.\<close>

fun first_cell :: "pyval list list \<Rightarrow> pyval dbres" where
  "first_cell ((v # vs) # rows) = Inr v"
| "first_cell _ = Inl PyIndexError"

fun first_cells :: "pyval list list \<Rightarrow> pyval list dbres" where
  "first_cells [] = Inr []"
| "first_cells ([] # rows) = Inl PyIndexError"
| "first_cells ((v # vs) # rows) = map_sum id (Cons v) (first_cells rows)"

definition row_int :: "pyval \<Rightarrow> int dbres" where
  "row_int v = (case py_int v of None \<Rightarrow> Inl (Py (ValueError ''invalid literal for int()'')) | Some i \<Rightarrow> Inr i)"

section \<open>Genres\<close>

text \<open>\<open>str.isdigit\<close> accepts the superscript digits, which \<open>int\<close> refuses.\<close>

definition is_genre_index_id :: "pyval \<Rightarrow> bool" where
  "is_genre_index_id v =
     (let t = py_strip (py_str v)
      in t \<noteq> [] \<and> list_all (\<lambda>c. py_isdigit c \<or> (of_char c :: nat) \<in> {178, 179, 185}) t)"

definition cased :: "char \<Rightarrow> bool" where
  "cased c =
     (let n = (of_char c :: nat)
      in (65 \<le> n \<and> n \<le> 90) \<or> (97 \<le> n \<and> n \<le> 122) \<or> n \<in> {170, 181, 186}
         \<or> (192 \<le> n \<and> n \<le> 255 \<and> n \<noteq> 215 \<and> n \<noteq> 247))"

text \<open>\<open>str.title\<close>: the first letter of each run of letters is a capital; the sharp s becomes \<open>Ss\<close>.\<close>

fun title_from :: "bool \<Rightarrow> string \<Rightarrow> string" where
  "title_from inside [] = []"
| "title_from inside (c # cs) =
     (if inside then [py_lower_char c]
      else if (of_char c :: nat) = 223 then ''Ss'' else py_upper_char c) @ title_from (cased c) cs"

definition GENRE_INDEX_TABLE :: string where
  "GENRE_INDEX_TABLE = ''genresindex''"

definition GENRE_PROBE :: string where
  "GENRE_PROBE = ''SELECT 1 FROM '' @ GENRE_INDEX_TABLE @ '' LIMIT 1''"

definition genre_index_table_available :: "'w server \<Rightarrow> ('w, bool) dbrun" where
  "genre_index_table_available S =
     or_else (then_run (query S GENRE_PROBE (Positional [])) (\<lambda>_. ret True)) (ret False)"

definition genre_id_query :: "'w server \<Rightarrow> string \<Rightarrow> ('w, int option) dbrun" where
  "genre_id_query S canonical =
     then_run (query S (''SELECT id FROM '' @ GENRE_INDEX_TABLE @ '' WHERE name = ?'') (Positional [PStr canonical]))
       (\<lambda>rows. if rows = [] then ret None
               else then_run (from_res (first_cell rows)) (\<lambda>v. then_run (from_res (row_int v)) (\<lambda>i. ret (Some i))))"

definition lookup_or_create_genre_id :: "'w server \<Rightarrow> string \<Rightarrow> ('w, int option) dbrun" where
  "lookup_or_create_genre_id S name =
     (let canonical = py_strip (title_from False name)
      in if canonical = [] then ret None
         else then_run (genre_id_query S canonical) (\<lambda>found.
           if found \<noteq> None then ret found
           else then_run
             (or_else (then_run (change S (''INSERT INTO '' @ GENRE_INDEX_TABLE @ ''(name) VALUES (?)'') [PStr canonical] True)
                        (\<lambda>_. ret True))
               (ret False))
             (\<lambda>created. if created then genre_id_query S canonical else ret None)))"

definition genre_value :: "'w server \<Rightarrow> pyval \<Rightarrow> ('w, int option) dbrun" where
  "genre_value S raw =
     (let text = py_strip (py_str raw)
      in if raw = PNone \<or> text = [] then ret None
         else if is_genre_index_id (PStr text)
         then then_run (from_res (row_int (PStr text))) (\<lambda>i. ret (Some i))
         else lookup_or_create_genre_id S text)"

fun genre_values :: "'w server \<Rightarrow> pyval list \<Rightarrow> ('w, int list) dbrun" where
  "genre_values S [] = ret []"
| "genre_values S (v # vs) =
     then_run (genre_value S v) (\<lambda>g. then_run (genre_values S vs) (\<lambda>gs.
       ret (case g of None \<Rightarrow> gs | Some i \<Rightarrow> i # gs)))"

definition normalize_genre_values_for_store :: "'w server \<Rightarrow> pyval list \<Rightarrow> ('w, pyval list) dbrun" where
  "normalize_genre_values_for_store S values =
     (if values = [] then ret []
      else then_run (genre_index_table_available S) (\<lambda>available.
        if \<not> available
        then ret (map PStr (sort (remdups (map (\<lambda>v. py_strip (py_str v)) (filter py_truthy values)))))
        else then_run (genre_values S values) (\<lambda>ids. ret (map PInt (sort (remdups ids))))))"

section \<open>Rows\<close>

definition MARIA_TABLES :: "string list" where
  "MARIA_TABLES =
     [''anime'', ''characters'', ''relations'', ''pictures'', ''torrents'', ''torrentsIndex'',
      ''animeRelations'', ''title_synonyms'', ''indexList'', ''charactersIndex'', ''genres'']"

definition maria_table :: "string \<Rightarrow> ('w, string) dbrun" where
  "maria_table table =
     (if table \<notin> set MARIA_TABLES \<and> \<not> py_contains table ''LEFT JOIN''
      then throw (ValueError (''Invalid table name: '' @ table)) else ret table)"

definition exists_statement :: "string \<Rightarrow> string" where
  "exists_statement table = ''SELECT EXISTS(SELECT 1 FROM '' @ table @ '' WHERE id=%s);''"

definition exists_row :: "'w server \<Rightarrow> pyval \<Rightarrow> string \<Rightarrow> ('w, bool) dbrun" where
  "exists_row S rid table =
     then_run (maria_table table) (\<lambda>t.
     then_run (query S (exists_statement t) (Positional [rid])) (\<lambda>rows.
     if rows = [] then ret False
     else then_run (from_res (first_cell rows)) (\<lambda>v. ret (py_truthy v))))"

definition preprocess_metadata_values :: "'w server \<Rightarrow> string \<Rightarrow> pyval list \<Rightarrow> ('w, pyval list) dbrun" where
  "preprocess_metadata_values S key values =
     (if key = ''genres'' \<and> values \<noteq> [] then normalize_genre_values_for_store S values else ret values)"

definition fetch_values_statement :: "string \<Rightarrow> string" where
  "fetch_values_statement key = ''SELECT value FROM '' @ key @ '' WHERE id=%s;''"

definition fetch_metadata_storage_values :: "'w server \<Rightarrow> pyval \<Rightarrow> string \<Rightarrow> ('w, pyval list) dbrun" where
  "fetch_metadata_storage_values S rid key =
     then_run (maria_table key) (\<lambda>k.
     then_run (query S (fetch_values_statement k) (Positional [rid])) (\<lambda>rows.
     from_res (first_cells rows)))"

definition delete_value_statement :: "string \<Rightarrow> string" where
  "delete_value_statement key = ''DELETE FROM '' @ key @ '' WHERE id=%s AND value=%s''"

definition insert_value_statement :: "string \<Rightarrow> string" where
  "insert_value_statement key = ''INSERT INTO '' @ key @ '' (id, value) VALUES (%s, %s)''"

text \<open>
  One key of \<open>save_metadata\<close>: values no longer wanted are deleted, new ones inserted.  Python goes
  through the two set differences in no fixed order; here it is that of the lists.
\<close>

definition save_values :: "'w server \<Rightarrow> bool \<Rightarrow> pyval \<Rightarrow> string \<times> pyval \<Rightarrow> ('w, unit) dbrun" where
  "save_values S persist_now rid kv =
     then_run (maria_table (fst kv)) (\<lambda>key.
       case snd kv of
         PList vs \<Rightarrow>
           then_run (preprocess_metadata_values S key vs) (\<lambda>values.
           then_run (fetch_metadata_storage_values S rid key) (\<lambda>existing.
           then_run (each (\<lambda>v. change S (delete_value_statement key) [rid, v] persist_now)
                       (filter (\<lambda>v. v \<notin> set values) (remdups existing))) (\<lambda>_.
           each (\<lambda>v. change S (insert_value_statement key) [rid, v] persist_now)
             (filter (\<lambda>v. v \<notin> set existing) (remdups values)))))
       | _ \<Rightarrow> throw (TypeError ''Values must be of type list, not''))"

definition save_metadata :: "'w server \<Rightarrow> pyval \<Rightarrow> pydict \<Rightarrow> ('w, unit) dbrun" where
  "save_metadata S rid metadata s = each (save_values S (pinned s = None) rid) metadata s"

fun is_container :: "pyval \<Rightarrow> bool" where
  "is_container (PList _) = True"
| "is_container (PDict _) = True"
| "is_container _ = False"

definition insert_statement :: "string \<Rightarrow> pydict \<Rightarrow> string" where
  "insert_statement table args =
     ''INSERT INTO '' @ table @ ''('' @ py_join '','' (map fst args) @ '') VALUES(''
     @ py_join '','' (replicate (length args) ''%s'') @ '');''"

definition insert_row :: "'w server \<Rightarrow> pydict \<Rightarrow> string \<Rightarrow> bool \<Rightarrow> ('w, unit) dbrun" where
  "insert_row S data table save =
     then_run (maria_table table) (\<lambda>t.
       let args = filter (\<lambda>(k, v). \<not> is_container v) data; metadata = filter (\<lambda>(k, v). is_container v) data
       in then_run (change S (insert_statement t args) (map snd args) save) (\<lambda>_.
          case map_of data ''id'' of
            Some rid \<Rightarrow> if metadata \<noteq> [] then save_metadata S rid metadata else ret ()
          | None \<Rightarrow> ret ()))"

definition update_statement :: "string \<Rightarrow> pydict \<Rightarrow> string" where
  "update_statement table args =
     ''UPDATE '' @ table @ '' SET '' @ py_join '', '' (map (\<lambda>(k, v). k @ '' = %s'') args) @ '' WHERE id=%s''"

definition update_row :: "'w server \<Rightarrow> pyval \<Rightarrow> pydict \<Rightarrow> string \<Rightarrow> bool \<Rightarrow> ('w, unit) dbrun" where
  "update_row S rid data table save =
     (let args = filter (\<lambda>(k, v). \<not> is_container v) data; metadata = filter (\<lambda>(k, v). is_container v) data
      in if args = [] then ret ()
         else then_run (maria_table table) (\<lambda>t.
              then_run (change S (update_statement t args) (map snd args @ [rid]) save) (\<lambda>_.
              if metadata \<noteq> [] then save_metadata S rid metadata else ret ())))"

definition with_id :: "pyval \<Rightarrow> pydict \<Rightarrow> pydict" where
  "with_id rid data = (if map_of data ''id'' = None then data @ [(''id'', rid)] else data)"

definition set_row :: "'w server \<Rightarrow> pyval \<Rightarrow> pydict \<Rightarrow> string \<Rightarrow> bool \<Rightarrow> ('w, unit) dbrun" where
  "set_row S rid data table save =
     then_run (exists_row S rid table) (\<lambda>present.
       if present then update_row S rid (with_id rid data) table save
       else insert_row S (with_id rid data) table save)"

definition remove_rows :: "'w server \<Rightarrow> pyval \<Rightarrow> string list \<Rightarrow> bool \<Rightarrow> ('w, unit) dbrun" where
  "remove_rows S rid tables save =
     (if rid = PNone then throw (ValueError ''ID must be provided'')
      else each (\<lambda>(idx, table). then_run (maria_table table) (\<lambda>t.
       change S (''DELETE FROM '' @ t @ '' WHERE id=%s;'') [rid] (save \<and> Suc idx = length tables)))
       (enumerate 0 tables))"

section \<open>Batches of records\<close>

definition ANIME_DATA_KEYS :: "string list" where
  "ANIME_DATA_KEYS =
     [''broadcast'', ''date_from'', ''date_to'', ''duration'', ''episodes'', ''genres'', ''id'', ''last_seen'', ''like'',
      ''picture'', ''rating'', ''status'', ''synopsis'', ''tag'', ''title'', ''title_synonyms'', ''trailer'', ''torrents'']"

definition ANIME_METADATA_KEYS :: "string list" where
  "ANIME_METADATA_KEYS = [''title_synonyms'', ''genres'']"

definition save_format :: "pydict \<Rightarrow> pydict \<times> pydict" where
  "save_format anime =
     (let known = filter (\<lambda>(k, v). k \<in> set ANIME_DATA_KEYS) anime
      in (filter (\<lambda>(k, v). k \<notin> set ANIME_METADATA_KEYS) known, filter (\<lambda>(k, v). k \<in> set ANIME_METADATA_KEYS) known))"

definition record_id :: "pydict \<Rightarrow> int res" where
  "record_id anime =
     (let v = dget anime ''id''
      in if v = PNone then Inl (ValueError ''Anime record has no id attribute'')
         else case py_int v of
                None \<Rightarrow> Inl (ValueError (''Anime record has invalid id='' @ py_repr v))
              | Some i \<Rightarrow> if i \<le> 0 then Inl (ValueError (''Refusing to persist provisional anime id='' @ int_str i))
                          else Inr i)"

definition commit_pinned_connection :: "'w server \<Rightarrow> ('w, unit) dbrun" where
  "commit_pinned_connection S s =
     (case pinned s of
        None \<Rightarrow> Some (s, Inr ())
      | Some conn \<Rightarrow> Some (and_then (on_world (s_commit S conn)) (\<lambda>_. modify count_commit) s))"

definition persist_anime_record :: "'w server \<Rightarrow> bool \<Rightarrow> pydict \<Rightarrow> ('w, unit) dbrun" where
  "persist_anime_record S commit anime s =
     (case record_id anime of
        Inl e \<Rightarrow> throw e s
      | Inr i \<Rightarrow>
          let data = with_id (PInt i) (fst (save_format anime)); metadata = snd (save_format anime);
              batch = (pinned s \<noteq> None)
          in then_run (set_row S (PInt i) data ''anime'' (commit \<and> \<not> batch)) (\<lambda>_.
             then_run (if metadata \<noteq> [] then or_else (save_metadata S (PInt i) metadata) (ret ()) else ret ()) (\<lambda>_.
             if commit \<and> batch then commit_pinned_connection S else ret ())) s)"

text \<open>The loop over the records: the count of those that raised nothing.\<close>

fun upsert_loop :: "'w server \<Rightarrow> bool \<Rightarrow> pydict list \<Rightarrow> ('w, nat) dbrun" where
  "upsert_loop S batch [] = ret 0"
| "upsert_loop S batch (anime # records) =
     then_run (or_else (then_run (persist_anime_record S (\<not> batch \<or> records = []) anime) (\<lambda>_. ret 1)) (ret 0))
       (\<lambda>n. then_run (upsert_loop S batch records) (\<lambda>k. ret (n + k)))"

definition upsert_anime_records :: "'w server \<Rightarrow> pydict list \<Rightarrow> ('w, nat) dbrun" where
  "upsert_anime_records S records s = upsert_loop S (pinned s \<noteq> None) records s"

definition with_pinned :: "'w server \<Rightarrow> ('w, 'a) dbrun \<Rightarrow> ('w, 'a) dbrun" where
  "with_pinned S body s =
     (case checkout S s of
        (s1, Inl e) \<Rightarrow> Some (s1, Inl e)
      | (s1, Inr conn) \<Rightarrow>
          (case body (s1\<lparr>pinned := Some conn\<rparr>) of
             None \<Rightarrow> None
           | Some (s2, r) \<Rightarrow> Some (checkin S conn (s2\<lparr>pinned := pinned s1\<rparr>), r)))"

definition upsert_anime_batch :: "'w server \<Rightarrow> pydict list \<Rightarrow> ('w, nat) dbrun" where
  "upsert_anime_batch S records =
     (if records = [] then ret 0 else with_pinned S (upsert_anime_records S records))"

definition update_anime :: "'w server \<Rightarrow> pydict \<Rightarrow> ('w, unit) dbrun" where
  "update_anime S anime = persist_anime_record S True anime"

fun upsert_metadata_batch :: "'w server \<Rightarrow> (pyval \<times> pydict) list \<Rightarrow> ('w, nat) dbrun" where
  "upsert_metadata_batch S [] = ret 0"
| "upsert_metadata_batch S ((rid, metadata) # records) =
     then_run (if metadata = [] then ret 0
               else or_else (then_run (save_metadata S rid metadata) (\<lambda>_. ret 1)) (ret 0))
       (\<lambda>n. then_run (upsert_metadata_batch S records) (\<lambda>k. ret (n + k)))"

text \<open>What the write queue does with a batch: a failure is only logged.\<close>

definition flush_write_batch :: "'w server \<Rightarrow> pydict option list \<Rightarrow> ('w, unit) dbrun" where
  "flush_write_batch S batch =
     (let animes = map the (filter (\<lambda>r. r \<noteq> None) batch)
      in if animes = [] then ret ()
         else or_else (then_run (upsert_anime_batch S animes) (\<lambda>_. ret ())) (ret ()))"

section \<open>Transactions\<close>

text \<open>
  What is asked of the server: a statement that changes data is held back on its connection until the
  commit there, and a rollback or the end of the connection forgets it.  \<open>persisted\<close> and \<open>pending\<close>
  read the statements committed, and those held back on a connection, off the world.
\<close>

type_synonym statement = "string \<times> sql_params"

definition transactional :: "'w server \<Rightarrow> ('w \<Rightarrow> statement list) \<Rightarrow> ('w \<Rightarrow> nat \<Rightarrow> statement list) \<Rightarrow> bool" where
  "transactional S persisted pending \<longleftrightarrow>
     (\<forall>conn q ps w w' r. s_execute S conn q ps w = (w', r) \<longrightarrow> persisted w' = persisted w
        \<and> pending w' conn = (if is_read q \<or> (\<exists>e. r = Inl e) then pending w conn else pending w conn @ [(q, ps)]))
     \<and> (\<forall>conn w w' r. s_fetch S conn w = (w', r) \<longrightarrow> persisted w' = persisted w \<and> pending w' conn = pending w conn)
     \<and> (\<forall>conn w w' r. s_cursor S conn w = (w', r) \<longrightarrow> persisted w' = persisted w \<and> pending w' conn = pending w conn)
     \<and> (\<forall>conn w w'. s_commit S conn w = (w', Inr ()) \<longrightarrow>
          persisted w' = persisted w @ pending w conn \<and> pending w' conn = [])
     \<and> (\<forall>conn w w' r. s_rollback S conn w = (w', r) \<longrightarrow> persisted w' = persisted w \<and> pending w' conn = [])
     \<and> (\<forall>w w' r. c_open (s_conns S) w = (w', r) \<longrightarrow> persisted w' = persisted w)
     \<and> (\<forall>w conn. persisted (c_close (s_conns S) w conn) = persisted w)"

text \<open>A server in good order: it answers everything, but the statements that name a missing table.\<close>

definition harmless :: "string \<Rightarrow> bool" where
  "harmless t \<longleftrightarrow> \<not> py_contains t ''OK packet'' \<and> \<not> py_contains t ''Cursor is not connected''"

definition serves :: "'w server \<Rightarrow> string set \<Rightarrow> bool" where
  "serves S missing \<longleftrightarrow>
     (\<forall>conn w. s_connected S w conn \<and> c_test (s_conns S) w conn = Ping True)
     \<and> (\<forall>conn w. \<exists>w'. s_cursor S conn w = (w', Inr ()))
     \<and> (\<forall>conn q ps w. q \<notin> missing \<longrightarrow> (\<exists>w'. s_execute S conn q ps w = (w', Inr ())))
     \<and> (\<forall>conn q ps w. q \<in> missing \<longrightarrow>
          (\<exists>w' t. s_execute S conn q ps w = (w', Inl (DatabaseError 1146 t)) \<and> harmless t))
     \<and> (\<forall>conn w. \<exists>w'. s_commit S conn w = (w', Inr ()))
     \<and> (\<forall>conn w. \<exists>w' columns rows. s_fetch S conn w = (w', Inr (columns, rows)) \<and> [] \<notin> set rows)"

text \<open>The connection \<open>conn\<close> is pinned, with \<open>l\<close> held back on it.\<close>

definition held_at :: "('w \<Rightarrow> statement list) \<Rightarrow> ('w \<Rightarrow> nat \<Rightarrow> statement list) \<Rightarrow> nat \<Rightarrow>
   statement list \<Rightarrow> statement list \<Rightarrow> 'w maria \<Rightarrow> bool" where
  "held_at persisted pending conn p l s \<longleftrightarrow>
     pinned s = Some conn \<and> handles s conn \<noteq> None \<and> main_cur s
     \<and> persisted (world s) = p \<and> pending (world s) conn = l"

lemma world_put [simp]:
  "world (put_world w s) = w" "pinned (put_world w s) = pinned s" "handles (put_world w s) = handles s"
  "main_cur (put_world w s) = main_cur s"
  "world (s\<lparr>query_count := n\<rparr>) = world s" "world (s\<lparr>commit_count := n\<rparr>) = world s"
  "world (s\<lparr>pinned := x\<rparr>) = world s" "world (s\<lparr>handles := h\<rparr>) = world s"
  by (simp_all add: world_def put_world_def)

lemma held_at_updates [simp]:
  "held_at persisted pending conn p l (s\<lparr>query_count := n\<rparr>) = held_at persisted pending conn p l s"
  "held_at persisted pending conn p l (s\<lparr>commit_count := n\<rparr>) = held_at persisted pending conn p l s"
  by (simp_all add: held_at_def)

lemma held_at_put:
  "held_at persisted pending conn p l s \<Longrightarrow> persisted w = p' \<Longrightarrow> pending w conn = l' \<Longrightarrow>
   held_at persisted pending conn p' l' (put_world w s)"
  by (simp add: held_at_def)

lemma held_at_world: "held_at persisted pending conn p l s \<Longrightarrow> persisted (world s) = p \<and> pending (world s) conn = l"
  by (simp add: held_at_def)

lemma handle_cursor_held:
  assumes "serves S missing" and "transactional S persisted pending" and "held_at persisted pending conn p l s"
  shows "\<exists>s'. handle_cursor S conn s = (s', Inr ()) \<and> held_at persisted pending conn p l s'"
proof -
  obtain w' where w': "s_cursor S conn (world s) = (w', Inr ())" using assms(1) unfolding serves_def by blast
  then have "persisted w' = p" "pending w' conn = l"
    using assms(2) held_at_world [OF assms(3)] unfolding transactional_def by metis+
  from held_at_put [OF assms(3) this]
  have "held_at persisted pending conn p l (set_handle conn (\<lambda>h. h\<lparr>h_cur := True\<rparr>) (put_world w' s))"
    by (auto simp: held_at_def set_handle_def world_def)
  then show ?thesis
    using assms(3) w' by (simp add: handle_cursor_def and_then_def on_world_def modify_def)
qed

text \<open>A statement that is not saved leaves what is persisted alone.\<close>

lemma run_statement_held:
  assumes serves: "serves S missing" and trans: "transactional S persisted pending"
    and s: "held_at persisted pending conn p l s" and q: "with_marks q ps \<notin> missing"
  shows "\<exists>s' rows. run_statement S conn q ps False False False s = (s', Inr (Plain (Tuples rows))) \<and> [] \<notin> set rows
    \<and> held_at persisted pending conn p (if is_read (with_marks q ps) then l else l @ [(with_marks q ps, ps)]) s'"
proof -
  let ?q = "with_marks q ps"
  let ?l = "if is_read ?q then l else l @ [(?q, ps)]"
  obtain w1 where w1: "s_execute S conn ?q ps (world s) = (w1, Inr ())" using serves q unfolding serves_def by blast
  have "persisted w1 = p" "pending w1 conn = ?l"
    using trans w1 held_at_world [OF s] unfolding transactional_def by fastforce+
  from held_at_put [OF s this] have s1: "held_at persisted pending conn p ?l (put_world w1 s)" .
  let ?s1 = "put_world w1 (s\<lparr>query_count := query_count s + 1\<rparr>)"
  have s1': "held_at persisted pending conn p ?l ?s1" using s1 by (auto simp: held_at_def)
  obtain w2 columns rows where w2: "s_fetch S conn w1 = (w2, Inr (columns, rows))" "[] \<notin> set rows"
    using serves unfolding serves_def by blast
  have "persisted w2 = p" "pending w2 conn = ?l"
    using trans w2(1) held_at_world [OF s1] unfolding transactional_def by (metis world_put(1))+
  from held_at_put [OF s1' this] have s2: "held_at persisted pending conn p ?l (put_world w2 ?s1)" .
  show ?thesis
  proof (cases "is_read ?q")
    case True
    then show ?thesis using w1 w2 s2
      by (simp add: run_statement_def and_then_def on_world_def give_def shape_rows_def Let_def)
  next
    case False
    then show ?thesis using w1 s1'
      by (simp add: run_statement_def and_then_def on_world_def give_def Let_def)
  qed
qed

definition maybe_added :: "statement list \<Rightarrow> string \<Rightarrow> sql_params \<Rightarrow> statement list \<Rightarrow> bool" where
  "maybe_added l q ps l' \<longleftrightarrow>
     l' = l \<or> (\<not> is_read (with_marks q ps) \<and> l' = l @ [(with_marks q ps, ps)])"

lemma usable_held: "serves S missing \<Longrightarrow> pool_connection_is_usable S w conn"
  by (simp add: serves_def pool_connection_is_usable_def)

lemma sql_held:
  assumes serves: "serves S missing" and trans: "transactional S persisted pending"
    and s: "held_at persisted pending conn p l s" and q: "with_marks q ps \<notin> missing"
  shows "\<exists>s' rows l'. sql S q ps False False False s = Some (s', Inr (Plain (Tuples rows))) \<and> [] \<notin> set rows
    \<and> maybe_added l q ps l' \<and> held_at persisted pending conn p l' s'"
proof -
  obtain s1 where s1: "handle_cursor S conn s = (s1, Inr ())" "held_at persisted pending conn p l s1"
    using handle_cursor_held [OF serves trans s] by blast
  obtain s2 rows where s2: "run_statement S conn q ps False False False s1 = (s2, Inr (Plain (Tuples rows)))"
      "[] \<notin> set rows"
      "held_at persisted pending conn p (if is_read (with_marks q ps) then l else l @ [(with_marks q ps, ps)]) s2"
    using run_statement_held [OF serves trans s1(2) q] by blast
  have "\<exists>s' rows l'. execute_sql S conn q ps False False False s = (s', Inr (Plain (Tuples rows))) \<and> [] \<notin> set rows
      \<and> maybe_added l q ps l' \<and> held_at persisted pending conn p l' s'"
  proof (cases "py_contains q ''IN ()''")
    case True
    then have "execute_sql S conn q ps False False False s = (s1, Inr (Plain (Tuples [])))"
      using s1 usable_held [OF serves] by (simp add: execute_sql_def and_then_def)
    then show ?thesis using s1(2) by (auto simp: maybe_added_def)
  next
    case False
    then have "execute_sql S conn q ps False False False s = (s2, Inr (Plain (Tuples rows)))"
      using s1 s2 usable_held [OF serves] by (simp add: execute_sql_def and_then_def)
    then show ?thesis using s2(2,3) by (auto simp: maybe_added_def split: if_splits)
  qed
  moreover have "pinned s = Some conn" "main_cur s" using s by (auto simp: held_at_def)
  ultimately show ?thesis
    unfolding sql_def by (subst handle_sql_error.simps) (auto simp: ensure_cursor_def sql_once_def)
qed

text \<open>A statement on a missing table is raised, after a rollback that forgets what was held back.\<close>

lemma sql_missing:
  assumes serves: "serves S missing" and trans: "transactional S persisted pending"
    and s: "held_at persisted pending conn p l s" and q: "with_marks q ps \<in> missing" "\<not> py_contains q ''IN ()''"
  shows "\<exists>s' e. sql S q ps False False False s = Some (s', Inl e) \<and> held_at persisted pending conn p [] s'"
proof -
  obtain s1 where s1: "handle_cursor S conn s = (s1, Inr ())" "held_at persisted pending conn p l s1"
    using handle_cursor_held [OF serves trans s] by blast
  obtain w1 t where w1: "s_execute S conn (with_marks q ps) ps (world s1) = (w1, Inl (DatabaseError 1146 t))" "harmless t"
    using serves q(1) unfolding serves_def by blast
  obtain w2 r where w2: "s_rollback S conn w1 = (w2, r)" by fastforce
  have "persisted w1 = p" using trans w1(1) held_at_world [OF s1(2)] unfolding transactional_def by metis
  then have w2': "persisted w2 = p" "pending w2 conn = []" using trans w2 unfolding transactional_def by metis+
  let ?e = "DatabaseError 1146 t"
  let ?s1 = "put_world w1 (s1\<lparr>query_count := query_count s1 + 1\<rparr>)"
  have run: "run_statement S conn q ps False False False s1 = (?s1, Inl ?e)"
    using w1(1) by (simp add: run_statement_def and_then_def on_world_def Let_def)
  have "\<not> breaks_connection ?e" using w1(2) by (simp add: breaks_connection_def harmless_def)
  then have failed: "after_failure S conn ?e ?s1 = put_world w2 ?s1"
    using w2 by (simp add: after_failure_def on_world_def Let_def)
  have ex: "execute_sql S conn q ps False False False s = (put_world w2 ?s1, Inl ?e)"
    using s1(1) run failed q(2) usable_held [OF serves] by (simp add: execute_sql_def and_then_def)
  have after: "held_at persisted pending conn p [] (put_world w2 ?s1)"
    using s1(2) w2' by (simp add: held_at_def)
  have "on_error S ?e 0 (put_world w2 ?s1) = (put_world w2 ?s1, Inl ?e)"
    using w1(2) by (simp add: on_error_def on_database_error_def fail_def harmless_def)
  moreover have "pinned s = Some conn" "main_cur s" using s by (auto simp: held_at_def)
  ultimately have "sql S q ps False False False s = Some (put_world w2 ?s1, Inl ?e)"
    unfolding sql_def by (subst handle_sql_error.simps) (simp add: ensure_cursor_def sql_once_def ex)
  then show ?thesis using after by blast
qed

section \<open>Runs that succeed\<close>

definition ok_run :: "('w maria \<Rightarrow> bool) \<Rightarrow> ('w, 'a) dbrun \<Rightarrow> ('a \<Rightarrow> 'w maria \<Rightarrow> bool) \<Rightarrow> bool" where
  "ok_run P m Q \<longleftrightarrow> (\<forall>s. P s \<longrightarrow> (\<exists>s' x. m s = Some (s', Inr x) \<and> Q x s'))"

lemma ok_ret: "(\<And>s. P s \<Longrightarrow> Q x s) \<Longrightarrow> ok_run P (ret x) Q"
  by (simp add: ok_run_def ret_def)

lemma ok_then: "ok_run P m Q \<Longrightarrow> (\<And>x. ok_run (Q x) (f x) R) \<Longrightarrow> ok_run P (then_run m f) R"
  unfolding ok_run_def then_run_def by fastforce

lemma ok_weaken: "ok_run P m Q \<Longrightarrow> (\<And>s. P' s \<Longrightarrow> P s) \<Longrightarrow> (\<And>x s. Q x s \<Longrightarrow> Q' x s) \<Longrightarrow> ok_run P' m Q'"
  unfolding ok_run_def by blast

lemma ok_or_else: "ok_run P m Q \<Longrightarrow> ok_run P (or_else m h) Q"
  unfolding ok_run_def or_else_def by fastforce

lemma ok_cong: "ok_run P m Q \<Longrightarrow> (\<And>s. P s \<Longrightarrow> m' s = m s) \<Longrightarrow> ok_run P m' Q"
  unfolding ok_run_def by simp

lemma ok_fact: "(C \<Longrightarrow> ok_run P m Q) \<Longrightarrow> ok_run (\<lambda>s. C \<and> P s) m Q"
  unfolding ok_run_def by blast

lemma ok_each: "(\<And>x. x \<in> set xs \<Longrightarrow> ok_run P (f x) (\<lambda>_. P)) \<Longrightarrow> ok_run P (each f xs) (\<lambda>_. P)"
  by (induction xs) (auto intro!: ok_ret ok_then)

text \<open>A loop in which one step reaches what the others keep.\<close>

lemma ok_each_reaches:
  assumes "\<And>x. x \<in> set xs \<Longrightarrow> ok_run P (f x) (\<lambda>_. P)" and "\<And>x. x \<in> set xs \<Longrightarrow> ok_run Q (f x) (\<lambda>_. Q)"
    and "y \<in> set xs" and "ok_run P (f y) (\<lambda>_. Q)"
  shows "ok_run P (each f xs) (\<lambda>_. Q)"
  using assms
proof (induction xs)
  case (Cons x xs)
  show ?case
  proof (cases "y = x")
    case True
    then show ?thesis using Cons.prems(2,4) by (auto intro!: ok_then ok_each)
  next
    case False
    then have "ok_run P (each f xs) (\<lambda>_. Q)" using Cons by auto
    then show ?thesis using Cons.prems(1) by (auto intro!: ok_then)
  qed
qed simp

section \<open>What a pinned connection holds back\<close>

text \<open>Nothing new is persisted, and what is held back satisfies \<open>\<phi>\<close>.\<close>

definition holds_back :: "('w \<Rightarrow> statement list) \<Rightarrow> ('w \<Rightarrow> nat \<Rightarrow> statement list) \<Rightarrow> nat \<Rightarrow> statement list \<Rightarrow>
   (statement \<Rightarrow> bool) \<Rightarrow> 'w maria \<Rightarrow> bool" where
  "holds_back persisted pending conn p \<phi> s \<longleftrightarrow>
     (\<exists>l. held_at persisted pending conn p l s \<and> (\<forall>st \<in> set l. \<phi> st))"

definition metadata_write :: "statement \<Rightarrow> bool" where
  "metadata_write st \<longleftrightarrow>
     fst st \<in> {delete_value_statement ''title_synonyms'', insert_value_statement ''title_synonyms'',
                delete_value_statement ''genres'', insert_value_statement ''genres''}"

lemma ok_query:
  assumes "serves S missing" and "transactional S persisted pending" and "with_marks q ps \<notin> missing"
    and "is_read (with_marks q ps) \<or> \<phi> (with_marks q ps, ps)"
  shows "ok_run (holds_back persisted pending conn p \<phi>) (query S q ps)
    (\<lambda>rows s. [] \<notin> set rows \<and> holds_back persisted pending conn p \<phi> s)"
  unfolding ok_run_def
proof (intro allI impI)
  fix s assume "holds_back persisted pending conn p \<phi> s"
  then obtain l where l: "held_at persisted pending conn p l s" "\<forall>st \<in> set l. \<phi> st" by (auto simp: holds_back_def)
  obtain s' rows l' where s': "sql S q ps False False False s = Some (s', Inr (Plain (Tuples rows)))" "[] \<notin> set rows"
      "maybe_added l q ps l'" "held_at persisted pending conn p l' s'"
    using sql_held [OF assms(1,2) l(1) assms(3)] by blast
  have "\<forall>st \<in> set l'. \<phi> st" using s'(3) l(2) assms(4) by (auto simp: maybe_added_def)
  then show "\<exists>s' rows. query S q ps s = Some (s', Inr rows) \<and> [] \<notin> set rows \<and> holds_back persisted pending conn p \<phi> s'"
    using s' by (auto simp: query_def then_run_def ret_def holds_back_def)
qed

lemma ok_change:
  assumes "serves S missing" and "transactional S persisted pending" and "with_marks q (Positional ps) \<notin> missing"
    and "\<phi> (with_marks q (Positional ps), Positional ps)"
  shows "ok_run (holds_back persisted pending conn p \<phi>) (change S q ps False)
    (\<lambda>_. holds_back persisted pending conn p \<phi>)"
  unfolding ok_run_def
proof (intro allI impI)
  fix s assume "holds_back persisted pending conn p \<phi> s"
  then obtain l where l: "held_at persisted pending conn p l s" "\<forall>st \<in> set l. \<phi> st" by (auto simp: holds_back_def)
  obtain s' rows l' where s': "sql S q (Positional ps) False False False s = Some (s', Inr (Plain (Tuples rows)))"
      "maybe_added l q (Positional ps) l'" "held_at persisted pending conn p l' s'"
    using sql_held [OF assms(1,2) l(1) assms(3)] by blast
  have "\<forall>st \<in> set l'. \<phi> st" using s'(2) l(2) assms(4) by (auto simp: maybe_added_def)
  then show "\<exists>s' x. change S q ps False s = Some (s', Inr x) \<and> holds_back persisted pending conn p \<phi> s'"
    using s' by (auto simp: change_def then_run_def ret_def holds_back_def)
qed

text \<open>The statements of the rows are not the probe of the genre table.\<close>

lemma positional_marks_hd: "positional_marks (c # q) = (if c = CHR ''?'' then ''%s'' else [c]) @ positional_marks q"
  by (simp add: positional_marks_def)

lemma with_marks_hd: "c \<noteq> CHR ''?'' \<Longrightarrow> \<exists>q'. with_marks (c # q) (Positional ps) = c # q'"
  by (auto simp: with_marks_def positional_marks_hd)

lemma probe_hd: "GENRE_PROBE = CHR ''S'' # tl GENRE_PROBE"
  by code_simp

lemma not_probe: "hd q \<noteq> CHR ''S'' \<Longrightarrow> hd q \<noteq> CHR ''?'' \<Longrightarrow> q \<noteq> [] \<Longrightarrow> with_marks q (Positional ps) \<noteq> GENRE_PROBE"
  using with_marks_hd [of "hd q" "tl q" ps] probe_hd by (metis list.collapse list.inject)

lemma metadata_marks:
  assumes "key \<in> {''title_synonyms'', ''genres''}"
  shows "with_marks (delete_value_statement key) (Positional ps) = delete_value_statement key"
    and "with_marks (insert_value_statement key) (Positional ps) = insert_value_statement key"
    and "with_marks (fetch_values_statement key) (Positional ps) = fetch_values_statement key"
    and "is_read (fetch_values_statement key)"
    and "key \<in> set MARIA_TABLES"
    and "fetch_values_statement key \<noteq> GENRE_PROBE"
proof -
  have "positional_marks (delete_value_statement ''title_synonyms'') = delete_value_statement ''title_synonyms''"
    "positional_marks (delete_value_statement ''genres'') = delete_value_statement ''genres''"
    "positional_marks (insert_value_statement ''title_synonyms'') = insert_value_statement ''title_synonyms''"
    "positional_marks (insert_value_statement ''genres'') = insert_value_statement ''genres''"
    "positional_marks (fetch_values_statement ''title_synonyms'') = fetch_values_statement ''title_synonyms''"
    "positional_marks (fetch_values_statement ''genres'') = fetch_values_statement ''genres''"
    by code_simp+
  then show "with_marks (delete_value_statement key) (Positional ps) = delete_value_statement key"
    "with_marks (insert_value_statement key) (Positional ps) = insert_value_statement key"
    "with_marks (fetch_values_statement key) (Positional ps) = fetch_values_statement key"
    using assms unfolding with_marks_def by (auto split: sql_params.split)
  have "is_read (fetch_values_statement ''title_synonyms'')"
    "is_read (fetch_values_statement ''genres'')" by code_simp+
  then show "is_read (fetch_values_statement key)" using assms by blast
  show "key \<in> set MARIA_TABLES" using assms by (auto simp: MARIA_TABLES_def)
  have "fetch_values_statement ''title_synonyms'' \<noteq> GENRE_PROBE"
    "fetch_values_statement ''genres'' \<noteq> GENRE_PROBE" by code_simp+
  then show "fetch_values_statement key \<noteq> GENRE_PROBE" using assms by blast
qed

lemma metadata_not_probe:
  "delete_value_statement key \<noteq> GENRE_PROBE" "insert_value_statement key \<noteq> GENRE_PROBE"
proof -
  have "hd GENRE_PROBE = CHR ''S''" by code_simp
  moreover have "hd (delete_value_statement key) = CHR ''D''" "hd (insert_value_statement key) = CHR ''I''"
    by (simp_all add: delete_value_statement_def insert_value_statement_def)
  ultimately show "delete_value_statement key \<noteq> GENRE_PROBE" "insert_value_statement key \<noteq> GENRE_PROBE" by auto
qed

lemma first_cells_ok: "[] \<notin> set rows \<Longrightarrow> \<exists>vs. first_cells rows = Inr vs"
  by (induction rows rule: first_cells.induct) auto

lemma ok_from: "r = Inr x \<Longrightarrow> ok_run P (from_res r) (\<lambda>_. P)"
  by (simp add: ok_run_def from_res_def)

lemma ok_table: "table \<in> set MARIA_TABLES \<Longrightarrow> ok_run P (maria_table table) (\<lambda>t s. t = table \<and> P s)"
  unfolding maria_table_def by (auto intro: ok_ret)

lemma ok_fetch:
  assumes "serves S missing" and "transactional S persisted pending" and "missing \<subseteq> {GENRE_PROBE}"
    and "key \<in> {''title_synonyms'', ''genres''}"
  shows "ok_run (holds_back persisted pending conn p \<phi>) (fetch_metadata_storage_values S rid key)
    (\<lambda>_. holds_back persisted pending conn p \<phi>)"
proof -
  note marks = metadata_marks [OF assms(4)]
  let ?q = "fetch_values_statement key"
  have q: "with_marks ?q (Positional [rid]) \<notin> missing" "is_read (with_marks ?q (Positional [rid]))"
    unfolding marks(3) using assms(3) marks(4,6) by blast+
  have rows: "ok_run (\<lambda>s. [] \<notin> set rows \<and> holds_back persisted pending conn p \<phi> s) (from_res (first_cells rows))
    (\<lambda>_. holds_back persisted pending conn p \<phi>)" for rows
    by (rule ok_fact) (use first_cells_ok in \<open>blast intro: ok_from\<close>)
  show ?thesis
    unfolding fetch_metadata_storage_values_def
    by (rule ok_then [OF ok_table [OF marks(5)]], rule ok_fact)
      (simp only:, rule ok_then [OF ok_query [OF assms(1,2) q(1)] rows], simp add: q(2))
qed

lemma ok_save_values:
  assumes "serves S missing" and "transactional S persisted pending" and "missing \<subseteq> {GENRE_PROBE}"
    and key: "key \<in> {''title_synonyms'', ''genres''}" and \<phi>: "\<And>st. metadata_write st \<Longrightarrow> \<phi> st"
    and pre: "ok_run P (preprocess_metadata_values S key vs) (\<lambda>_. holds_back persisted pending conn p \<phi>)"
    and P: "\<And>s. P s \<Longrightarrow> P s"
  shows "ok_run P (save_values S False rid (key, PList vs)) (\<lambda>_. holds_back persisted pending conn p \<phi>)"
proof -
  note marks = metadata_marks [OF key]
  let ?J = "holds_back persisted pending conn p \<phi>"
  have change: "ok_run ?J (change S (delete_value_statement key) ps False) (\<lambda>_. ?J)"
    "ok_run ?J (change S (insert_value_statement key) ps False) (\<lambda>_. ?J)" for ps
    using assms(3) metadata_not_probe key
    by (intro ok_change [OF assms(1,2)] \<phi>; auto simp: marks(1,2) metadata_write_def)+
  have "ok_run P (then_run (preprocess_metadata_values S key vs) (\<lambda>values.
           then_run (fetch_metadata_storage_values S rid key) (\<lambda>existing.
           then_run (each (\<lambda>v. change S (delete_value_statement key) [rid, v] False)
                       (filter (\<lambda>v. v \<notin> set values) (remdups existing))) (\<lambda>_.
           each (\<lambda>v. change S (insert_value_statement key) [rid, v] False)
             (filter (\<lambda>v. v \<notin> set existing) (remdups values)))))) (\<lambda>_. ?J)"
    by (rule ok_then [OF pre] ok_then [OF ok_fetch [OF assms(1-4)]] ok_then ok_each change)+
  then show ?thesis
    unfolding save_values_def
    by (simp, intro ok_then [OF ok_table [OF marks(5)]] ok_fact) simp
qed

lemma ok_preprocess: "key \<noteq> ''genres'' \<or> vs = [] \<Longrightarrow> ok_run P (preprocess_metadata_values S key vs) (\<lambda>_. P)"
  unfolding preprocess_metadata_values_def by (auto intro: ok_ret)

text \<open>Without the genre table, the probe forgets what was held back.\<close>

lemma probe_marks: "with_marks GENRE_PROBE (Positional []) = GENRE_PROBE" "\<not> py_contains GENRE_PROBE ''IN ()''"
  by (simp add: with_marks_def no_params_def) code_simp

lemma ok_probe_missing:
  assumes "serves S {GENRE_PROBE}" and "transactional S persisted pending"
  shows "ok_run (holds_back persisted pending conn p \<phi>) (genre_index_table_available S)
    (\<lambda>b s. \<not> b \<and> holds_back persisted pending conn p \<psi> s)"
  unfolding ok_run_def
proof (intro allI impI)
  fix s assume "holds_back persisted pending conn p \<phi> s"
  then obtain l where l: "held_at persisted pending conn p l s" by (auto simp: holds_back_def)
  obtain s' e where s': "sql S GENRE_PROBE (Positional []) False False False s = Some (s', Inl e)"
      "held_at persisted pending conn p [] s'"
    using sql_missing [OF assms l, of GENRE_PROBE "Positional []"] probe_marks by auto
  then show "\<exists>s' b. genre_index_table_available S s = Some (s', Inr b) \<and> \<not> b \<and> holds_back persisted pending conn p \<psi> s'"
    by (auto simp: genre_index_table_available_def or_else_def then_run_def query_def ret_def holds_back_def)
qed

lemma ok_genres_missing:
  assumes "serves S {GENRE_PROBE}" and "transactional S persisted pending" and "vs \<noteq> []"
  shows "ok_run (holds_back persisted pending conn p \<phi>) (preprocess_metadata_values S ''genres'' vs)
    (\<lambda>_. holds_back persisted pending conn p \<psi>)"
  unfolding preprocess_metadata_values_def normalize_genre_values_for_store_def
  by (simp add: assms(3), rule ok_then [OF ok_probe_missing [OF assms(1,2)]], rule ok_fact) (auto intro: ok_ret)

section \<open>The row of a record\<close>

lemma row_not_probe:
  "with_marks (insert_statement t args) (Positional ps) \<noteq> GENRE_PROBE"
  "with_marks (update_statement t args) (Positional ps) \<noteq> GENRE_PROBE"
  by (rule not_probe; simp add: insert_statement_def update_statement_def)+

lemma exists_not_probe:
  "with_marks (exists_statement ''anime'') (Positional [rid]) \<noteq> GENRE_PROBE"
proof -
  have "positional_marks (exists_statement ''anime'') \<noteq> GENRE_PROBE" by code_simp
  then show ?thesis by (simp add: with_marks_def no_params_def)
qed

lemma anime_table: "''anime'' \<in> set MARIA_TABLES"
  by (simp add: MARIA_TABLES_def)

definition scalar_row :: "pydict \<Rightarrow> bool" where
  "scalar_row data \<longleftrightarrow> (\<forall>(k, v) \<in> set data. \<not> is_container v)"

lemma scalar_parts:
  "scalar_row data \<Longrightarrow> filter (\<lambda>(k, v). \<not> is_container v) data = data"
  "scalar_row data \<Longrightarrow> filter (\<lambda>(k, v). is_container v) data = []"
  by (auto simp: scalar_row_def filter_id_conv filter_empty_conv)

lemma ok_exists_row:
  assumes "serves S missing" and "transactional S persisted pending" and "missing \<subseteq> {GENRE_PROBE}"
  shows "ok_run (holds_back persisted pending conn p (\<lambda>_. True)) (exists_row S rid ''anime'')
    (\<lambda>_. holds_back persisted pending conn p (\<lambda>_. True))"
proof -
  let ?J = "holds_back persisted pending conn p (\<lambda>_. True)"
  have q: "with_marks (exists_statement ''anime'') (Positional [rid]) \<notin> missing"
    using exists_not_probe assms(3) by blast
  have rows: "ok_run (\<lambda>s. [] \<notin> set rows \<and> ?J s)
      (if rows = [] then ret False else then_run (from_res (first_cell rows)) (\<lambda>v. ret (py_truthy v))) (\<lambda>_. ?J)" for rows
    by (rule ok_fact, cases rows rule: first_cell.cases) (auto intro!: ok_ret ok_then [OF ok_from])
  show ?thesis
    unfolding exists_row_def
    by (rule ok_then [OF ok_table [OF anime_table]], rule ok_fact)
      (simp only:, rule ok_then [OF ok_query [OF assms(1,2) q] rows], simp)
qed

lemma ok_set_row:
  assumes "serves S missing" and "transactional S persisted pending" and "missing \<subseteq> {GENRE_PROBE}"
    and "scalar_row (with_id rid data)"
  shows "ok_run (holds_back persisted pending conn p (\<lambda>_. True)) (set_row S rid data ''anime'' False)
    (\<lambda>_. holds_back persisted pending conn p (\<lambda>_. True))"
proof -
  let ?J = "holds_back persisted pending conn p (\<lambda>_. True)"
  note parts = scalar_parts [OF assms(4)]
  have change: "ok_run ?J (change S q ps False) (\<lambda>_. ?J)" if "with_marks q (Positional ps) \<noteq> GENRE_PROBE" for q ps
    using that assms(3) by (intro ok_change [OF assms(1,2)]) auto
  have none: "ok_run ?J (ret ()) (\<lambda>_. ?J)" by (rule ok_ret)
  have "ok_run ?J (update_row S rid (with_id rid data) ''anime'' False) (\<lambda>_. ?J)"
    unfolding update_row_def parts Let_def
    by (auto intro!: none ok_then [OF ok_table [OF anime_table]] ok_fact ok_then [OF change] row_not_probe)
  moreover have "ok_run ?J (insert_row S (with_id rid data) ''anime'' False) (\<lambda>_. ?J)"
    unfolding insert_row_def parts Let_def
    by (auto intro!: none ok_then [OF ok_table [OF anime_table]] ok_fact ok_then [OF change] row_not_probe
        split: option.split)
  ultimately show ?thesis
    unfolding set_row_def by (intro ok_then [OF ok_exists_row [OF assms(1-3)]]) simp
qed

section \<open>The metadata of a record\<close>

text \<open>
  Records whose persistence raises nothing: an accepted id, lists under the metadata keys and plain
  values elsewhere.
\<close>

definition record_ok :: "pydict \<Rightarrow> bool" where
  "record_ok r \<longleftrightarrow> (\<exists>i. record_id r = Inr i)
     \<and> (\<forall>(k, v) \<in> set r. if k \<in> set ANIME_METADATA_KEYS then \<exists>vs. v = PList vs else \<not> is_container v)"

definition has_genres :: "pydict \<Rightarrow> bool" where
  "has_genres r \<longleftrightarrow> (\<exists>vs. (''genres'', PList vs) \<in> set r \<and> vs \<noteq> [])"

lemma metadata_keys: "set ANIME_METADATA_KEYS = {''title_synonyms'', ''genres''}"
  by (auto simp: ANIME_METADATA_KEYS_def)

lemma genres_known: "''genres'' \<in> set ANIME_DATA_KEYS"
  by (simp add: ANIME_DATA_KEYS_def)

lemma metadata_of:
  assumes "record_ok r" and "kv \<in> set (snd (save_format r))"
  obtains key vs where "kv = (key, PList vs)" and "key \<in> {''title_synonyms'', ''genres''}" and "kv \<in> set r"
proof -
  obtain key v where kv: "kv = (key, v)" by fastforce
  then have mem: "kv \<in> set r" "key \<in> {''title_synonyms'', ''genres''}"
    using assms(2) by (auto simp: save_format_def metadata_keys Let_def)
  have "if key \<in> set ANIME_METADATA_KEYS then \<exists>vs. v = PList vs else \<not> is_container v"
    using assms(1) mem(1) unfolding record_ok_def kv by blast
  then obtain vs where "v = PList vs" using mem(2) unfolding metadata_keys by (auto split: if_splits)
  then show thesis using that [of key vs] kv mem by blast
qed

lemma scalar_of:
  assumes "record_ok r"
  shows "scalar_row (with_id (PInt i) (with_id (PInt i) (fst (save_format r))))"
proof -
  have "scalar_row (fst (save_format r))"
    using assms unfolding record_ok_def scalar_row_def save_format_def by (auto simp: Let_def)
  then show ?thesis by (auto simp: scalar_row_def with_id_def)
qed

lemma pinned_metadata:
  "holds_back persisted pending conn p \<phi> s \<Longrightarrow> save_metadata S rid m s = each (save_values S False rid) m s"
  by (auto simp: save_metadata_def holds_back_def held_at_def)

lemma ok_value_kept:
  assumes "serves S missing" and "transactional S persisted pending" and "missing \<subseteq> {GENRE_PROBE}"
    and "record_ok r" and "\<not> has_genres r \<or> missing = {GENRE_PROBE}" and "\<And>st. metadata_write st \<Longrightarrow> \<phi> st"
    and "kv \<in> set (snd (save_format r))"
  shows "ok_run (holds_back persisted pending conn p \<phi>) (save_values S False rid kv)
    (\<lambda>_. holds_back persisted pending conn p \<phi>)"
proof -
  obtain key vs where kv: "kv = (key, PList vs)" "key \<in> {''title_synonyms'', ''genres''}" "kv \<in> set r"
    using metadata_of [OF assms(4,7)] by blast
  have "ok_run (holds_back persisted pending conn p \<phi>) (preprocess_metadata_values S key vs)
    (\<lambda>_. holds_back persisted pending conn p \<phi>)"
  proof (cases "key \<noteq> ''genres'' \<or> vs = []")
    case False
    then have "missing = {GENRE_PROBE}" using assms(5) kv by (auto simp: has_genres_def)
    then show ?thesis using False ok_genres_missing [of S, OF _ assms(2)] assms(1) by auto
  qed (rule ok_preprocess)
  from ok_save_values [OF assms(1-3) kv(2) assms(6) this] show ?thesis by (simp add: kv(1))
qed

lemma ok_genres_reached:
  assumes "serves S {GENRE_PROBE}" and "transactional S persisted pending" and "vs \<noteq> []"
  shows "ok_run (holds_back persisted pending conn p \<phi>) (save_values S False rid (''genres'', PList vs))
    (\<lambda>_. holds_back persisted pending conn p metadata_write)"
  by (rule ok_save_values [OF assms(1,2)]) (auto intro: ok_genres_missing [OF assms])

lemma ok_metadata_kept:
  assumes "serves S missing" and "transactional S persisted pending" and "missing \<subseteq> {GENRE_PROBE}"
    and "record_ok r" and "\<not> has_genres r \<or> missing = {GENRE_PROBE}"
  shows "ok_run (holds_back persisted pending conn p (\<lambda>_. True)) (save_metadata S rid (snd (save_format r)))
    (\<lambda>_. holds_back persisted pending conn p (\<lambda>_. True))"
proof -
  have "ok_run (holds_back persisted pending conn p (\<lambda>_. True)) (each (save_values S False rid) (snd (save_format r)))
    (\<lambda>_. holds_back persisted pending conn p (\<lambda>_. True))"
    by (rule ok_each, rule ok_value_kept [OF assms TrueI])
  then show ?thesis by (rule ok_cong) (rule pinned_metadata)
qed

lemma ok_metadata_reached:
  assumes "serves S {GENRE_PROBE}" and "transactional S persisted pending" and "record_ok r" and "has_genres r"
  shows "ok_run (holds_back persisted pending conn p (\<lambda>_. True)) (save_metadata S rid (snd (save_format r)))
    (\<lambda>_. holds_back persisted pending conn p metadata_write)"
proof -
  obtain vs where vs: "(''genres'', PList vs) \<in> set r" "vs \<noteq> []" using assms(4) by (auto simp: has_genres_def)
  then have mem: "(''genres'', PList vs) \<in> set (snd (save_format r))"
    using genres_known by (simp add: save_format_def metadata_keys Let_def)
  let ?J = "holds_back persisted pending conn p"
  have kept: "ok_run (?J \<phi>) (save_values S False rid kv) (\<lambda>_. ?J \<phi>)"
    if "kv \<in> set (snd (save_format r))" and "\<And>st. metadata_write st \<Longrightarrow> \<phi> st" for kv \<phi>
    by (rule ok_value_kept [OF assms(1,2) subset_refl assms(3) disjI2 [OF refl]]) (use that in blast)+
  have "ok_run (?J (\<lambda>_. True)) (each (save_values S False rid) (snd (save_format r))) (\<lambda>_. ?J metadata_write)"
  proof (rule ok_each_reaches)
    show "ok_run (?J (\<lambda>_. True)) (save_values S False rid kv) (\<lambda>_. ?J (\<lambda>_. True))"
      if "kv \<in> set (snd (save_format r))" for kv using that by (rule kept) simp
    show "ok_run (?J metadata_write) (save_values S False rid kv) (\<lambda>_. ?J metadata_write)"
      if "kv \<in> set (snd (save_format r))" for kv using that by (rule kept)
    show "ok_run (?J (\<lambda>_. True)) (save_values S False rid (''genres'', PList vs)) (\<lambda>_. ?J metadata_write)"
      by (rule ok_genres_reached [OF assms(1,2) vs(2)])
  qed (rule mem)
  then show ?thesis by (rule ok_cong) (rule pinned_metadata)
qed

lemma pinned_persist:
  assumes "holds_back persisted pending conn p \<phi> s" and "record_id r = Inr i"
  shows "persist_anime_record S commit r s =
    then_run (set_row S (PInt i) (with_id (PInt i) (fst (save_format r))) ''anime'' False) (\<lambda>_.
    then_run (if snd (save_format r) \<noteq> [] then or_else (save_metadata S (PInt i) (snd (save_format r))) (ret ()) else ret ()) (\<lambda>_.
    if commit then commit_pinned_connection S else ret ())) s"
proof -
  have "pinned s \<noteq> None" using assms(1) by (auto simp: holds_back_def held_at_def)
  then show ?thesis by (simp add: persist_anime_record_def assms(2) Let_def)
qed

lemma ok_persist_kept:
  assumes "serves S missing" and "transactional S persisted pending" and "missing \<subseteq> {GENRE_PROBE}"
    and "record_ok r" and "\<not> has_genres r \<or> missing = {GENRE_PROBE}"
  shows "ok_run (holds_back persisted pending conn p (\<lambda>_. True)) (persist_anime_record S False r)
    (\<lambda>_. holds_back persisted pending conn p (\<lambda>_. True))"
proof -
  obtain i where i: "record_id r = Inr i" using assms(4) by (auto simp: record_ok_def)
  have "ok_run (holds_back persisted pending conn p (\<lambda>_. True))
    (then_run (set_row S (PInt i) (with_id (PInt i) (fst (save_format r))) ''anime'' False) (\<lambda>_.
     then_run (if snd (save_format r) \<noteq> [] then or_else (save_metadata S (PInt i) (snd (save_format r))) (ret ()) else ret ()) (\<lambda>_.
     if False then commit_pinned_connection S else ret ())))
    (\<lambda>_. holds_back persisted pending conn p (\<lambda>_. True))"
    by (intro ok_then [OF ok_set_row [OF assms(1-3) scalar_of [OF assms(4)]]] ok_then)
      (auto intro: ok_ret ok_or_else ok_metadata_kept [OF assms])
  then show ?thesis by (rule ok_cong) (rule pinned_persist [OF _ i])
qed

lemma ok_commit:
  assumes "serves S missing" and "transactional S persisted pending"
  shows "ok_run (holds_back persisted pending conn p \<phi>) (commit_pinned_connection S)
    (\<lambda>_ s. \<exists>l. persisted (world s) = p @ l \<and> (\<forall>st \<in> set l. \<phi> st))"
  unfolding ok_run_def
proof (intro allI impI)
  fix s assume "holds_back persisted pending conn p \<phi> s"
  then obtain l where l: "held_at persisted pending conn p l s" "\<forall>st \<in> set l. \<phi> st" by (auto simp: holds_back_def)
  obtain w where w: "s_commit S conn (world s) = (w, Inr ())" using assms(1) unfolding serves_def by blast
  then have "persisted w = p @ l"
    using assms(2) held_at_world [OF l(1)] unfolding transactional_def by metis
  then show "\<exists>s' x. commit_pinned_connection S s = Some (s', Inr x)
      \<and> (\<exists>l. persisted (world s') = p @ l \<and> (\<forall>st \<in> set l. \<phi> st))"
    using l w by (auto simp: commit_pinned_connection_def held_at_def and_then_def on_world_def modify_def count_commit_def)
qed

lemma ok_persist_last:
  assumes "serves S {GENRE_PROBE}" and "transactional S persisted pending" and "record_ok r" and "has_genres r"
  shows "ok_run (holds_back persisted pending conn p (\<lambda>_. True)) (persist_anime_record S True r)
    (\<lambda>_ s. \<exists>l. persisted (world s) = p @ l \<and> (\<forall>st \<in> set l. metadata_write st))"
proof -
  obtain i where i: "record_id r = Inr i" using assms(3) by (auto simp: record_ok_def)
  have ne: "snd (save_format r) \<noteq> []"
    using assms(4) genres_known by (force simp: has_genres_def save_format_def metadata_keys Let_def filter_empty_conv)
  have "ok_run (holds_back persisted pending conn p (\<lambda>_. True))
    (then_run (set_row S (PInt i) (with_id (PInt i) (fst (save_format r))) ''anime'' False) (\<lambda>_.
     then_run (if snd (save_format r) \<noteq> [] then or_else (save_metadata S (PInt i) (snd (save_format r))) (ret ()) else ret ()) (\<lambda>_.
     if True then commit_pinned_connection S else ret ())))
    (\<lambda>_ s. \<exists>l. persisted (world s) = p @ l \<and> (\<forall>st \<in> set l. metadata_write st))"
    by (rule ok_then [OF ok_set_row [OF assms(1,2) _ scalar_of [OF assms(3)]]])
      (simp, simp add: ne, rule ok_then [OF ok_or_else [OF ok_metadata_reached [OF assms]]], rule ok_commit [OF assms(1,2)])
  then show ?thesis by (rule ok_cong) (rule pinned_persist [OF _ i])
qed

section \<open>The fate of a batch\<close>

lemma ok_upsert_step:
  "ok_run P (persist_anime_record S c r) (\<lambda>_. Q) \<Longrightarrow>
   ok_run P (or_else (then_run (persist_anime_record S c r) (\<lambda>_. ret (1::nat))) (ret 0)) (\<lambda>n s. n = 1 \<and> Q s)"
  by (rule ok_or_else, rule ok_then) (auto intro: ok_ret)

lemma ok_upsert_loop:
  assumes step: "\<And>r. r \<in> set rs \<Longrightarrow> ok_run P (persist_anime_record S False r) (\<lambda>_. P)"
    and final: "ok_run P (upsert_loop S True [r]) (\<lambda>n s. n = k \<and> Q s)"
  shows "ok_run P (upsert_loop S True (rs @ [r])) (\<lambda>n s. n = length rs + k \<and> Q s)"
  using step
proof (induction rs)
  case Nil
  then show ?case using final by simp
next
  case (Cons x rs)
  have ih: "ok_run P (upsert_loop S True (rs @ [r])) (\<lambda>n s. n = length rs + k \<and> Q s)" using Cons by simp
  have "ok_run P (then_run (upsert_loop S True (rs @ [r])) (\<lambda>k. ret (1 + k)))
    (\<lambda>n s. n = length (x # rs) + k \<and> Q s)"
    by (rule ok_then [OF ih]) (auto intro: ok_ret)
  then have "ok_run (\<lambda>s. n = 1 \<and> P s) (then_run (upsert_loop S True (rs @ [r])) (\<lambda>k. ret (n + k)))
    (\<lambda>n s. n = length (x # rs) + k \<and> Q s)" for n
    by (intro ok_fact) simp
  note rest = this
  have "\<not> (\<not> True \<or> rs @ [r] = [])" by simp
  then have "upsert_loop S True ((x # rs) @ [r]) =
    then_run (or_else (then_run (persist_anime_record S False x) (\<lambda>_. ret 1)) (ret 0))
      (\<lambda>n. then_run (upsert_loop S True (rs @ [r])) (\<lambda>k. ret (n + k)))" by simp
  moreover have "ok_run P (persist_anime_record S False x) (\<lambda>_. P)" using Cons.prems by simp
  ultimately show ?case by (simp only:) (rule ok_then [OF ok_upsert_step rest])
qed

lemma persisted_checkin: "transactional S persisted pending \<Longrightarrow> persisted (world (checkin S conn s)) = persisted (world s)"
  by (simp add: transactional_def checkin_def world_def return_connection_def Let_def)

lemma persisted_checkout:
  assumes "transactional S persisted pending" and "checkout S s = (s1, Inr conn)"
  shows "persisted (world s1) = persisted (world s)"
proof -
  have [simp]: "persisted w' = persisted w" if "c_open (s_conns S) w = (w', r)" for w w' r
    using that assms(1) unfolding transactional_def by metis
  have [simp]: "persisted (c_close (s_conns S) w conn) = persisted w" for w conn
    using assms(1) unfolding transactional_def by blast
  show ?thesis
    using assms(2)
    by (auto simp: checkout_def world_def get_connection_def take_connection_def open_new_def hand_out_def
        split: prod.splits sum.splits list.splits if_splits)
qed

lemma upsert_batch_ends:
  assumes trans: "transactional S persisted pending" and "main_cur s" and out: "checkout S s = (s1, Inr conn)"
    and run: "ok_run (holds_back persisted pending conn (persisted (world s)) (\<lambda>_. True)) (upsert_loop S True records)
      (\<lambda>n s'. n = k \<and> R (persisted (world s')))"
    and "records \<noteq> []"
  shows "\<exists>s'. upsert_anime_batch S records s = Some (s', Inr k) \<and> R (persisted (world s'))"
proof -
  let ?s = "s1\<lparr>pinned := Some conn\<rparr>"
  have "main_cur s1" "handles s1 conn \<noteq> None"
    using out assms(2) by (auto simp: checkout_def split: prod.splits sum.splits)
  then have "holds_back persisted pending conn (persisted (world s)) (\<lambda>_. True) ?s"
    using persisted_checkout [OF trans out] by (auto simp: holds_back_def held_at_def)
  then obtain s2 where s2: "upsert_loop S True records ?s = Some (s2, Inr k)" "R (persisted (world s2))"
    using run unfolding ok_run_def by blast
  have "persisted (world (checkin S conn (s2\<lparr>pinned := pinned s1\<rparr>))) = persisted (world s2)"
    using persisted_checkin [OF trans] by simp
  then show ?thesis
    using s2 assms(5) out by (simp add: upsert_anime_batch_def with_pinned_def upsert_anime_records_def)
qed

lemma ok_refused: "record_id r = Inl e \<Longrightarrow> ok_run P (upsert_loop S True [r]) (\<lambda>n s. n = 0 \<and> P s)"
  by (simp add: ok_run_def then_run_def or_else_def ret_def throw_def persist_anime_record_def)

lemma ok_single:
  "ok_run P (persist_anime_record S True r) (\<lambda>_. Q) \<Longrightarrow> ok_run P (upsert_loop S True [r]) (\<lambda>n s. n = 1 \<and> Q s)"
  using ok_then [OF ok_upsert_step, of P S True r Q]
  by (auto simp: ok_run_def then_run_def or_else_def ret_def)


text \<open>
  C9. On a database without the table of genre names, a batch that ends with a record that has genres
  persists none of its rows: the probe of the missing table fails on the connection of the batch and
  rolls back all that is held back there.  Only changes of synonyms and genres are committed, and
  the batch reports all its records as saved.
\<close>

theorem genre_probe_loses_the_batch:
  assumes "serves S {GENRE_PROBE}" and "transactional S persisted pending"
    and "main_cur s" and "checkout S s = (s1, Inr conn)"
    and "\<forall>r \<in> set rs. record_ok r" and "record_ok r" and "has_genres r"
  shows "\<exists>s' l. upsert_anime_batch S (rs @ [r]) s = Some (s', Inr (length rs + 1))
    \<and> persisted (world s') = persisted (world s) @ l \<and> (\<forall>st \<in> set l. metadata_write st)"
proof -
  let ?J = "holds_back persisted pending conn (persisted (world s)) (\<lambda>_. True)"
  let ?R = "\<lambda>p. \<exists>l. p = persisted (world s) @ l \<and> (\<forall>st \<in> set l. metadata_write st)"
  have "ok_run ?J (upsert_loop S True (rs @ [r])) (\<lambda>n s'. n = length rs + 1 \<and> ?R (persisted (world s')))"
    using assms(5)
    by (intro ok_upsert_loop ok_single ok_persist_last [OF assms(1,2,6,7)] ok_persist_kept [OF assms(1,2)]) auto
  from upsert_batch_ends [OF assms(2-4) this] show ?thesis by auto
qed

section \<open>Examples\<close>

lemma journal_transactional: "transactional (journal_server refuse) j_committed j_pending"
  by (auto simp: transactional_def journal_server_def journal_conns_def split: option.splits)

lemma journal_serves: "serves (journal_server (\<lambda>_. None)) {}"
  by (simp add: serves_def journal_server_def journal_conns_def)

definition no_genre_table :: "string \<Rightarrow> db_error option" where
  "no_genre_table q = (if q = GENRE_PROBE then Some (DatabaseError 1146 ''no such table'') else None)"

lemma journal_lacks_genres: "serves (journal_server no_genre_table) {GENRE_PROBE}"
proof -
  have "harmless ''no such table''" unfolding harmless_def by code_simp
  then show ?thesis by (auto simp: serves_def journal_server_def journal_conns_def no_genre_table_def)
qed

lemma journal_checkout: "\<exists>s1. checkout (journal_server refuse) journal_state = (s1, Inr 1)"
  by (simp add: checkout_def get_connection_def open_new_def hand_out_def journal_defs)

definition sample_anime_row :: pydict where
  "sample_anime_row = [(''id'', PInt 7), (''title'', PStr ''Frieren'')]"

definition sample_tagged :: pydict where
  "sample_tagged = [(''id'', PInt 8), (''title'', PStr ''Kaguya''), (''genres'', PList [PStr ''Comedy''])]"

lemma sample_rows_fine: "record_ok sample_anime_row" "\<not> has_genres sample_anime_row" "record_ok sample_tagged" "has_genres sample_tagged"
  by (simp_all add: record_ok_def has_genres_def record_id_def sample_anime_row_def sample_tagged_def metadata_keys)


theorem genre_probe_loses_the_batch_witness:
  "\<exists>s' l. upsert_anime_batch (journal_server no_genre_table) [sample_anime_row, sample_tagged] journal_state = Some (s', Inr 2)
     \<and> j_committed (world s') = l \<and> list_all metadata_write l"
proof -
  obtain s1 where c: "checkout (journal_server no_genre_table) journal_state = (s1, Inr 1)" using journal_checkout by blast
  have cur: "main_cur journal_state" "j_committed (world journal_state) = []" by (simp_all add: journal_defs world_def)
  from genre_probe_loses_the_batch [OF journal_lacks_genres journal_transactional cur(1) c _ sample_rows_fine(3,4),
      of "[sample_anime_row]"]
  show ?thesis using sample_rows_fine(1) cur(2) by (simp add: list_all_iff numeral_2_eq_2)
qed

end
