(* ===== verification/PersistenceQueue.thy ===== *)
theory PersistenceQueue
  imports Values "HOL-Library.Multiset"
begin

text \<open>
  The batching write queue (\<open>adapters/persistence/queue.py\<close>): producers that put records, the
  worker threads that collect them into batches, \<open>flush_now\<close> and \<open>stop\<close>, in any interleaving.  A
  step is what happens between two operations on the shared queue.  \<open>Some r\<close> is a record and
  \<open>None\<close> Python's \<open>None\<close>, which may be put like anything else.
\<close>

section \<open>The queue and its workers\<close>

record queue_config =
  qc_batch_size :: nat
  qc_max_latency :: rat
  qc_maxsize :: int

text \<open>
  A worker is in the loop of \<open>_run\<close>, in the loop after it that empties the queue, or has returned.
\<close>

datatype phase = Collecting | Emptying | Returned

record 'r worker =
  wk_phase :: phase
  wk_batch :: "'r option list"
  wk_deadline :: "rat option"

text \<open>
  \<open>pq_accepted\<close> (the records whose \<open>put\<close> answered \<open>True\<close>) and \<open>pq_flushed\<close> (the batches the flush
  callable was given) are histories the program does not keep.  \<open>pq_workers\<close> are all the threads
  ever started; \<open>pq_has_worker\<close> says whether \<open>_worker\<close> is set.
\<close>

record 'r persistence_queue =
  pq_items :: "'r option list"
  pq_stop :: bool
  pq_has_worker :: bool
  pq_workers :: "'r worker list"
  pq_processed :: nat
  pq_dropped :: nat
  pq_accepted :: "'r option list"
  pq_flushed :: "'r option list list"

definition new_persistence_queue :: "int \<Rightarrow> int \<Rightarrow> int \<Rightarrow> (queue_config \<times> 'r persistence_queue) res" where
  "new_persistence_queue batch_size max_latency_ms queue_maxsize =
     (if batch_size \<le> 0 then Inl (ValueError ''batch_size must be positive'')
      else if max_latency_ms \<le> 0 then Inl (ValueError ''max_latency_ms must be positive'')
      else Inr (\<lparr>qc_batch_size = nat batch_size, qc_max_latency = of_int max_latency_ms / 1000,
                 qc_maxsize = queue_maxsize\<rparr>,
                \<lparr>pq_items = [], pq_stop = False, pq_has_worker = False, pq_workers = [], pq_processed = 0,
                 pq_dropped = 0, pq_accepted = [], pq_flushed = []\<rparr>))"

definition start_worker :: "'r persistence_queue \<Rightarrow> 'r persistence_queue" where
  "start_worker q =
     (if pq_has_worker q then q
      else q\<lparr>pq_stop := False, pq_has_worker := True,
             pq_workers := pq_workers q @ [\<lparr>wk_phase = Collecting, wk_batch = [], wk_deadline = None\<rparr>]\<rparr>)"

text \<open>\<open>stop\<close>; waiting for the worker with \<open>join\<close> changes nothing itself.\<close>

definition stop_queue :: "'r persistence_queue \<Rightarrow> 'r persistence_queue" where
  "stop_queue q = q\<lparr>pq_stop := True, pq_has_worker := False\<rparr>"

text \<open>A maximal size of zero or less is no limit.\<close>

definition put_record :: "queue_config \<Rightarrow> 'r option \<Rightarrow> 'r persistence_queue \<Rightarrow> 'r persistence_queue \<times> bool" where
  "put_record c record q =
     (if qc_maxsize c > 0 \<and> int (length (pq_items q)) \<ge> qc_maxsize c
      then (q\<lparr>pq_dropped := pq_dropped q + 1\<rparr>, False)
      else (q\<lparr>pq_items := pq_items q @ [record], pq_accepted := pq_accepted q @ [record]\<rparr>, True))"

text \<open>\<open>_safe_flush\<close>: the batch counts as processed whether or not the callable raises.\<close>

definition safe_flush :: "'r option list \<Rightarrow> 'r persistence_queue \<Rightarrow> 'r persistence_queue" where
  "safe_flush batch q =
     q\<lparr>pq_flushed := pq_flushed q @ [batch], pq_processed := pq_processed q + length batch\<rparr>"

definition flush_if_any :: "'r option list \<Rightarrow> 'r persistence_queue \<Rightarrow> 'r persistence_queue" where
  "flush_if_any batch q = (if batch = [] then q else safe_flush batch q)"

text \<open>\<open>flush_now\<close>, when no other thread gets between its reads of the queue.\<close>

definition flush_now :: "'r persistence_queue \<Rightarrow> 'r persistence_queue" where
  "flush_now q = flush_if_any (pq_items q) (q\<lparr>pq_items := []\<rparr>)"

definition collect_record :: "queue_config \<Rightarrow> rat \<Rightarrow> 'r option \<Rightarrow> 'r worker \<Rightarrow> 'r worker" where
  "collect_record c now record w =
     (if record = None then w
      else w\<lparr>wk_deadline := (if wk_batch w = [] then Some (now + qc_max_latency c) else wk_deadline w),
             wk_batch := wk_batch w @ [record]\<rparr>)"

definition should_flush :: "queue_config \<Rightarrow> rat \<Rightarrow> 'r worker \<Rightarrow> bool" where
  "should_flush c now w =
     (wk_batch w \<noteq> [] \<and> (length (wk_batch w) \<ge> qc_batch_size c
        \<or> (case wk_deadline w of None \<Rightarrow> False | Some d \<Rightarrow> now \<ge> d)))"

text \<open>One turn of the loop: \<open>get\<close> answers the first record or times out on an empty queue.\<close>

definition collect_turn :: "queue_config \<Rightarrow> rat \<Rightarrow> 'r worker \<Rightarrow> 'r persistence_queue \<Rightarrow>
   'r worker \<times> 'r persistence_queue" where
  "collect_turn c now w q =
     (let record = (case pq_items q of [] \<Rightarrow> None | r # rest \<Rightarrow> r);
          q1 = q\<lparr>pq_items := tl (pq_items q)\<rparr>;
          w1 = collect_record c now record w
      in if should_flush c now w1
         then (w1\<lparr>wk_batch := [], wk_deadline := None\<rparr>, safe_flush (wk_batch w1) q1)
         else (w1, q1))"

definition leave_loop :: "'r worker \<Rightarrow> 'r persistence_queue \<Rightarrow> 'r worker \<times> 'r persistence_queue" where
  "leave_loop w q = (w\<lparr>wk_phase := Emptying, wk_batch := []\<rparr>, flush_if_any (wk_batch w) q)"

definition empty_turn :: "'r worker \<Rightarrow> 'r persistence_queue \<Rightarrow> 'r worker \<times> 'r persistence_queue" where
  "empty_turn w q =
     (case pq_items q of
        [] \<Rightarrow> (w\<lparr>wk_phase := Returned\<rparr>, q)
      | record # rest \<Rightarrow> (w, safe_flush [record] (q\<lparr>pq_items := rest\<rparr>)))"

definition worker_turn :: "queue_config \<Rightarrow> rat \<Rightarrow> 'r worker \<Rightarrow> 'r persistence_queue \<Rightarrow>
   'r worker \<times> 'r persistence_queue" where
  "worker_turn c now w q =
     (case wk_phase w of
        Collecting \<Rightarrow> if pq_stop q then leave_loop w q else collect_turn c now w q
      | Emptying \<Rightarrow> empty_turn w q
      | Returned \<Rightarrow> (w, q))"

definition run_worker :: "queue_config \<Rightarrow> rat \<Rightarrow> nat \<Rightarrow> 'r persistence_queue \<Rightarrow> 'r persistence_queue" where
  "run_worker c now i q =
     (case worker_turn c now (pq_workers q ! i) q of
        (w, q') \<Rightarrow> q'\<lparr>pq_workers := (pq_workers q')[i := w]\<rparr>)"

inductive queue_step :: "queue_config \<Rightarrow> 'r persistence_queue \<Rightarrow> 'r persistence_queue \<Rightarrow> bool" for c where
  Start: "queue_step c q (start_worker q)"
| Stop: "queue_step c q (stop_queue q)"
| Put: "put_record c record q = (q', accepted) \<Longrightarrow> queue_step c q q'"
| FlushNow: "queue_step c q (flush_now q)"
| Turn: "i < length (pq_workers q) \<Longrightarrow> queue_step c q (run_worker c now i q)"

inductive queue_reachable :: "queue_config \<Rightarrow> 'r persistence_queue \<Rightarrow> bool" for c where
  New: "new_persistence_queue batch_size latency maxsize = Inr (c, q) \<Longrightarrow> queue_reachable c q"
| Step: "queue_reachable c q \<Longrightarrow> queue_step c q q' \<Longrightarrow> queue_reachable c q'"

inductive_cases queue_stepE: "queue_step c q q'"

section \<open>Every record is in one place\<close>

text \<open>The records of a list, without the \<open>None\<close>s.\<close>

definition records :: "'r option list \<Rightarrow> 'r multiset" where
  "records xs = image_mset the (filter_mset (\<lambda>x. x \<noteq> None) (mset xs))"

lemma records_simps [simp]:
  "records [] = {#}" "records (xs @ ys) = records xs + records ys"
  "records (None # xs) = records xs" "records (Some r # xs) = add_mset r (records xs)"
  by (simp_all add: records_def)

lemma records_first: "records ((case xs of [] \<Rightarrow> None | r # rest \<Rightarrow> r) # tl xs) = records xs"
  by (cases xs) auto

lemma records_Cons: "records (x # xs) = records [x] + records xs"
  by (cases x) simp_all

definition batches :: "'r persistence_queue \<Rightarrow> 'r multiset" where
  "batches q = (\<Sum>w \<leftarrow> pq_workers q. records (wk_batch w))"

definition accounted :: "'r persistence_queue \<Rightarrow> 'r multiset" where
  "accounted q = records (concat (pq_flushed q)) + batches q + records (pq_items q)"

definition queue_ok :: "queue_config \<Rightarrow> 'r persistence_queue \<Rightarrow> bool" where
  "queue_ok c q \<longleftrightarrow> records (pq_accepted q) = accounted q
     \<and> 0 < qc_batch_size c
     \<and> (\<forall>w \<in> set (pq_workers q). length (wk_batch w) < qc_batch_size c
          \<and> (wk_phase w \<noteq> Collecting \<longrightarrow> wk_batch w = []))
     \<and> pq_processed q = length (concat (pq_flushed q))"

lemma sum_list_update:
  "i < length ws \<Longrightarrow> (\<Sum>w \<leftarrow> ws[i := v]. f w) + f (ws ! i) = (\<Sum>w \<leftarrow> ws. f w) + (f v :: 'a multiset)"
proof (induction ws arbitrary: i)
  case (Cons w ws)
  then show ?case by (cases i) (auto simp: ac_simps)
qed simp

text \<open>What a turn of a worker moves between its batch, the queue and the flushed batches.\<close>

lemma turn_moves:
  assumes "worker_turn c now w q = (w', q')" and "wk_phase w \<noteq> Collecting \<longrightarrow> wk_batch w = []"
  shows "records (concat (pq_flushed q')) + records (wk_batch w') + records (pq_items q')
      = records (concat (pq_flushed q)) + records (wk_batch w) + records (pq_items q)
    \<and> pq_workers q' = pq_workers q \<and> pq_accepted q' = pq_accepted q
    \<and> pq_processed q' + length (concat (pq_flushed q)) = pq_processed q + length (concat (pq_flushed q'))
    \<and> (wk_phase w' \<noteq> Collecting \<longrightarrow> wk_batch w' = [])
    \<and> (length (wk_batch w) < qc_batch_size c \<longrightarrow> length (wk_batch w') < qc_batch_size c)"
proof (cases "wk_phase w")
  case Collecting
  show ?thesis
  proof (cases "pq_stop q")
    case True
    then show ?thesis
      using assms(1) Collecting
      by (auto simp: worker_turn_def leave_loop_def flush_if_any_def safe_flush_def)
  next
    case False
    let ?r = "case pq_items q of [] \<Rightarrow> None | r # rest \<Rightarrow> r"
    have items: "records (pq_items q) = records [?r] + records (tl (pq_items q))"
      using records_first [of "pq_items q"] records_Cons [of ?r "tl (pq_items q)"] by simp
    have batch: "records (wk_batch (collect_record c now ?r w)) = records (wk_batch w) + records [?r]"
      by (cases ?r) (simp_all add: collect_record_def)
    have phase: "wk_phase (collect_record c now ?r w) = Collecting" using Collecting by (simp add: collect_record_def)
    have small: "length (wk_batch (collect_record c now ?r w)) < qc_batch_size c"
      if "\<not> should_flush c now (collect_record c now ?r w)" "length (wk_batch w) < qc_batch_size c"
      using that by (auto simp: should_flush_def collect_record_def split: if_splits)
    show ?thesis
      using assms(1) Collecting False items batch phase small
      by (auto simp: worker_turn_def collect_turn_def Let_def safe_flush_def ac_simps split: if_splits)
  qed
next
  case Emptying
  then show ?thesis
    using assms by (auto simp: worker_turn_def empty_turn_def safe_flush_def ac_simps records_Cons [of "hd (pq_items q)"]
        split: list.splits)
      (metis records_Cons add.commute)+
next
  case Returned
  then show ?thesis using assms by (auto simp: worker_turn_def)
qed

lemma exchange:
  assumes "f' + b + i' = f + a + (i :: 'a multiset)" and "s' + a = s + b"
  shows "f' + s' + i' = f + s + i"
proof -
  have "f' + s' + i' + (a + b) = (f' + b + i') + (s' + a)" by (simp add: ac_simps)
  also have "\<dots> = f + s + i + (a + b)" unfolding assms by (simp add: ac_simps)
  finally show ?thesis by simp
qed

lemma run_worker_ok:
  assumes "queue_ok c q" and "i < length (pq_workers q)"
  shows "queue_ok c (run_worker c now i q)"
proof -
  let ?w = "pq_workers q ! i"
  obtain w' q' where t: "worker_turn c now ?w q = (w', q')" by fastforce
  have mem: "?w \<in> set (pq_workers q)" using assms(2) by simp
  then have w: "wk_phase ?w \<noteq> Collecting \<longrightarrow> wk_batch ?w = []" "length (wk_batch ?w) < qc_batch_size c"
    using assms(1) by (auto simp: queue_ok_def)
  note moves = turn_moves [OF t w(1)]
  let ?q = "q'\<lparr>pq_workers := (pq_workers q)[i := w']\<rparr>"
  have "batches ?q + records (wk_batch ?w) = batches q + records (wk_batch w')"
    using sum_list_update [OF assms(2), of "\<lambda>w. records (wk_batch w)" w'] by (simp add: batches_def)
  from exchange [OF conjunct1 [OF moves] this] have "accounted ?q = accounted q" by (simp add: accounted_def)
  moreover have "\<forall>v \<in> set (pq_workers ?q). length (wk_batch v) < qc_batch_size c
      \<and> (wk_phase v \<noteq> Collecting \<longrightarrow> wk_batch v = [])"
    using assms(1) moves w(2) set_update_subset_insert [of "pq_workers q" i w'] by (auto simp: queue_ok_def)
  ultimately have "queue_ok c ?q" using assms(1) moves by (simp add: queue_ok_def)
  then show ?thesis using t moves by (simp add: run_worker_def)
qed

lemma put_record_ok: "put_record c record q = (q', b) \<Longrightarrow> queue_ok c q \<Longrightarrow> queue_ok c q'"
  by (auto split: if_splits simp: put_record_def queue_ok_def accounted_def batches_def add.assoc)

lemma flush_now_ok: "queue_ok c q \<Longrightarrow> queue_ok c (flush_now q)"
  by (simp add: flush_now_def flush_if_any_def safe_flush_def queue_ok_def accounted_def batches_def ac_simps)

lemma start_stop_ok:
  "queue_ok c q \<Longrightarrow> queue_ok c (start_worker q)" "queue_ok c q \<Longrightarrow> queue_ok c (stop_queue q)"
  by (auto simp: start_worker_def stop_queue_def queue_ok_def accounted_def batches_def)

lemma queue_step_ok: "queue_step c q q' \<Longrightarrow> queue_ok c q \<Longrightarrow> queue_ok c q'"
  by (erule queue_stepE) (auto intro: run_worker_ok flush_now_ok start_stop_ok put_record_ok)

lemma queue_reachable_ok: "queue_reachable c q \<Longrightarrow> queue_ok c q"
proof (induction rule: queue_reachable.induct)
  case (New batch_size latency maxsize q)
  then show ?case
    by (auto simp: new_persistence_queue_def queue_ok_def accounted_def batches_def split: if_splits)
qed (rule queue_step_ok)

text \<open>
  C12. However puts, worker turns, flushes, starts and stops interleave, every record that was accepted
  is in exactly one place, once: handed to the flush callable, in the batch of one worker, or
  waiting in the queue.  A worker never holds a full batch between two turns, and the count of
  processed entries is that of the entries handed out.
\<close>

theorem every_record_in_one_place:
  assumes "queue_reachable c q"
  shows "records (pq_accepted q)
      = records (concat (pq_flushed q)) + (\<Sum>w \<leftarrow> pq_workers q. records (wk_batch w)) + records (pq_items q)
    \<and> list_all (\<lambda>w. length (wk_batch w) < qc_batch_size c) (pq_workers q)
    \<and> pq_processed q = length (concat (pq_flushed q))"
  using queue_reachable_ok [OF assms] by (auto simp: queue_ok_def accounted_def batches_def list_all_iff)

section \<open>A stopped worker\<close>

lemma emptying_finishes:
  "pq_workers q = [w] \<Longrightarrow> wk_phase w = Emptying \<Longrightarrow>
   \<exists>q'. (run_worker c now 0 ^^ Suc (length (pq_items q))) q = q' \<and> pq_items q' = []
     \<and> pq_workers q' = [w\<lparr>wk_phase := Returned\<rparr>]"
proof (induction "pq_items q" arbitrary: q)
  case Nil
  then show ?case by (simp add: run_worker_def worker_turn_def empty_turn_def)
next
  case (Cons r rest)
  let ?q = "run_worker c now 0 q"
  have q: "pq_items ?q = rest" "pq_workers ?q = [w]"
    using Cons.prems Cons.hyps(2) [symmetric] by (auto simp: run_worker_def worker_turn_def empty_turn_def safe_flush_def)
  have "(run_worker c now 0 ^^ Suc (length (pq_items q))) q = (run_worker c now 0 ^^ Suc (length (pq_items ?q))) ?q"
    using q(1) Cons.hyps(2) [symmetric] by (simp add: funpow_swap1)
  then show ?case using Cons.hyps(1) [of ?q] q Cons.prems(2) by simp
qed

lemma leave_then_finish:
  assumes "pq_workers q = [w]" and "wk_phase w = Collecting" and "pq_stop q"
  shows "pq_workers (run_worker c now 0 q) = [w\<lparr>wk_phase := Emptying, wk_batch := []\<rparr>]
    \<and> pq_items (run_worker c now 0 q) = pq_items q"
  using assms by (auto simp: run_worker_def worker_turn_def leave_loop_def flush_if_any_def safe_flush_def)

lemma turns_reachable:
  "queue_reachable c q \<Longrightarrow> pq_workers q \<noteq> [] \<Longrightarrow>
   queue_reachable c ((run_worker c now 0 ^^ n) q) \<and> pq_workers ((run_worker c now 0 ^^ n) q) \<noteq> []
     \<and> pq_accepted ((run_worker c now 0 ^^ n) q) = pq_accepted q"
proof (induction n)
  case (Suc n)
  let ?q = "(run_worker c now 0 ^^ n) q"
  have ok: "queue_reachable c ?q" "pq_workers ?q \<noteq> []" "pq_accepted ?q = pq_accepted q" using Suc by auto
  have "wk_phase (pq_workers ?q ! 0) \<noteq> Collecting \<longrightarrow> wk_batch (pq_workers ?q ! 0) = []"
    using queue_reachable_ok [OF ok(1)] ok(2) by (auto simp: queue_ok_def)
  note idle = this
  obtain v q' where t: "worker_turn c now (pq_workers ?q ! 0) ?q = (v, q')" by fastforce
  then have "run_worker c now 0 ?q = q'\<lparr>pq_workers := (pq_workers q')[0 := v]\<rparr>" by (simp only: run_worker_def prod.case)
  then have "pq_workers (run_worker c now 0 ?q) \<noteq> []" "pq_accepted (run_worker c now 0 ?q) = pq_accepted q"
    using turn_moves [OF t idle] ok(2,3) by simp_all
  moreover have "queue_step c ?q (run_worker c now 0 ?q)" using ok(2) by (intro queue_step.Turn) simp
  ultimately show ?case using ok(1) queue_reachable.Step by auto
qed simp


section \<open>Examples\<close>

definition sample_queue_config :: queue_config where
  "sample_queue_config = \<lparr>qc_batch_size = 2, qc_max_latency = of_int 250 / 1000, qc_maxsize = 10\<rparr>"

definition empty_queue :: "nat persistence_queue" where
  "empty_queue =
     \<lparr>pq_items = [], pq_stop = False, pq_has_worker = False, pq_workers = [], pq_processed = 0, pq_dropped = 0,
      pq_accepted = [], pq_flushed = []\<rparr>"

definition one_put :: "nat persistence_queue" where
  "one_put = stop_queue (fst (put_record sample_queue_config (Some 5) (start_worker empty_queue)))"

lemma one_put_state:
  "one_put = \<lparr>pq_items = [Some 5], pq_stop = True, pq_has_worker = False,
     pq_workers = [\<lparr>wk_phase = Collecting, wk_batch = [], wk_deadline = None\<rparr>], pq_processed = 0, pq_dropped = 0,
     pq_accepted = [Some 5], pq_flushed = []\<rparr>"
  by (simp add: one_put_def stop_queue_def put_record_def start_worker_def empty_queue_def sample_queue_config_def)

lemma one_put_reachable: "queue_reachable sample_queue_config one_put"
proof -
  have "new_persistence_queue 2 250 10 = Inr (sample_queue_config, empty_queue)"
    by (simp add: new_persistence_queue_def sample_queue_config_def empty_queue_def)
  then have "queue_reachable sample_queue_config empty_queue" by (rule queue_reachable.New)
  then have "queue_reachable sample_queue_config (start_worker empty_queue)"
    by (rule queue_reachable.Step) (rule queue_step.Start)
  then have "queue_reachable sample_queue_config (fst (put_record sample_queue_config (Some 5) (start_worker empty_queue)))"
    by (rule queue_reachable.Step) (rule queue_step.Put, rule prod.collapse [symmetric])
  then show ?thesis unfolding one_put_def by (rule queue_reachable.Step) (rule queue_step.Stop)
qed

theorem every_record_in_one_place_witness:
  "records (pq_accepted one_put)
     = records (concat (pq_flushed one_put)) + (\<Sum>w \<leftarrow> pq_workers one_put. records (wk_batch w)) + records (pq_items one_put)
   \<and> list_all (\<lambda>w. length (wk_batch w) < qc_batch_size sample_queue_config) (pq_workers one_put)
   \<and> pq_processed one_put = length (concat (pq_flushed one_put))"
  by (rule every_record_in_one_place [OF one_put_reachable])


end
