(* ===== verification/FolderMerge.thy ===== *)
theory FolderMerge
  imports TorrentNames "HOL-Library.Sublist"
begin

text \<open>
  Merging the library folders of one anime (\<open>application/services/anime_folder_consolidation.py\<close>).
  The library is a list of files and a list of directories; a path is the list of its components
  below the library root, so a folder of the library is a path of one component.  What \<open>os.walk\<close>
  lists, whether a move succeeds and the redirection of saved paths are arguments.
\<close>

section \<open>The library\<close>

type_synonym fpath = "string list"

text \<open>
  \<open>lib_redirects\<close> are the calls of \<open>redirect_save_paths\<close> made so far; what that callback raises is
  swallowed.
\<close>

record library_fs =
  lib_files :: "(fpath \<times> string) list"
  lib_dirs :: "fpath list"
  lib_redirects :: "(fpath \<times> fpath) list"

text \<open>
  The walk lists, for a directory, the directories in it bottom-up, each as its path relative to it
  with the names of its subdirectories and of its files.
\<close>

record disk =
  dk_walk :: "library_fs \<Rightarrow> fpath \<Rightarrow> (fpath \<times> string list \<times> string list) list"
  dk_can_move :: "fpath \<Rightarrow> fpath \<Rightarrow> bool"
  dk_dir_size :: "fpath \<Rightarrow> nat"

definition file_at :: "library_fs \<Rightarrow> fpath \<Rightarrow> string option" where
  "file_at fs p = map_of (lib_files fs) p"

definition path_exists :: "library_fs \<Rightarrow> fpath \<Rightarrow> bool" where
  "path_exists fs p = (file_at fs p \<noteq> None \<or> p \<in> set (lib_dirs fs))"

definition remove_file :: "fpath \<Rightarrow> library_fs \<Rightarrow> library_fs" where
  "remove_file p fs = fs\<lparr>lib_files := AList.delete p (lib_files fs)\<rparr>"

definition rename_file :: "fpath \<Rightarrow> fpath \<Rightarrow> string \<Rightarrow> library_fs \<Rightarrow> library_fs" where
  "rename_file src dest content fs =
     fs\<lparr>lib_files := AList.update dest content (AList.delete src (lib_files fs))\<rparr>"

text \<open>\<open>os.makedirs(path, exist_ok=True)\<close>: \<open>None\<close> is the exception when a file is in the way.\<close>

definition make_dirs :: "fpath \<Rightarrow> library_fs \<Rightarrow> library_fs option" where
  "make_dirs p fs =
     (if list_ex (\<lambda>q. file_at fs q \<noteq> None) (prefixes p) then None
      else Some (fs\<lparr>lib_dirs := lib_dirs fs @ filter (\<lambda>q. q \<noteq> [] \<and> q \<notin> set (lib_dirs fs)) (prefixes p)\<rparr>))"

text \<open>\<open>os.rmdir\<close>: a directory that is not empty stays (the exception is caught).\<close>

definition empty_dir :: "library_fs \<Rightarrow> fpath \<Rightarrow> bool" where
  "empty_dir fs p =
     (p \<in> set (lib_dirs fs) \<and> list_all (\<lambda>(q, c). \<not> strict_prefix p q) (lib_files fs)
      \<and> list_all (\<lambda>q. \<not> strict_prefix p q) (lib_dirs fs))"

definition remove_dir :: "fpath \<Rightarrow> library_fs \<Rightarrow> library_fs" where
  "remove_dir p fs = (if empty_dir fs p then fs\<lparr>lib_dirs := removeAll p (lib_dirs fs)\<rparr> else fs)"

section \<open>A free name\<close>

text \<open>\<open>os.path.splitext\<close> of a file name: leading dots belong to the name.\<close>

definition split_extension :: "string \<Rightarrow> string \<times> string" where
  "split_extension name =
     (let dots = takeWhile (\<lambda>c. c = CHR ''.'') name; body = dropWhile (\<lambda>c. c = CHR ''.'') name;
          ext = after_last CHR ''.'' body
      in if CHR ''.'' \<in> set body
         then (dots @ take (length body - length ext - 1) body, CHR ''.'' # ext)
         else (name, []))"

definition numbered :: "fpath \<Rightarrow> string \<Rightarrow> nat \<Rightarrow> fpath" where
  "numbered dir name index =
     (case split_extension name of (base, ext) \<Rightarrow> dir @ [base @ '' ('' @ nat_str index @ '')'' @ ext])"

text \<open>
  The loop of \<open>_unique_destination\<close>.  One try more than there are files and directories is
  enough, for the names tried are distinct.
\<close>

fun unique_from :: "nat \<Rightarrow> library_fs \<Rightarrow> fpath \<Rightarrow> string \<Rightarrow> nat \<Rightarrow> fpath" where
  "unique_from 0 fs dir name index = numbered dir name index"
| "unique_from (Suc n) fs dir name index =
     (if path_exists fs (numbered dir name index) then unique_from n fs dir name (index + 1)
      else numbered dir name index)"

definition unique_destination :: "library_fs \<Rightarrow> fpath \<Rightarrow> string \<Rightarrow> fpath" where
  "unique_destination fs dir name = unique_from (length (lib_files fs) + length (lib_dirs fs)) fs dir name 2"

section \<open>Merging directories\<close>

definition move_file :: "disk \<Rightarrow> fpath \<Rightarrow> fpath \<Rightarrow> string \<Rightarrow> library_fs \<Rightarrow> library_fs \<times> nat" where
  "move_file D src dest content fs =
     (if dk_can_move D src dest then (rename_file src dest content fs, 1) else (fs, 0))"

text \<open>The size \<open>os.path.getsize\<close> reads.\<close>

definition size_at :: "disk \<Rightarrow> library_fs \<Rightarrow> fpath \<Rightarrow> nat" where
  "size_at D fs p = (case file_at fs p of Some c \<Rightarrow> length c | None \<Rightarrow> dk_dir_size D p)"

definition merge_file :: "disk \<Rightarrow> fpath \<Rightarrow> fpath \<Rightarrow> string \<Rightarrow> library_fs \<Rightarrow> library_fs \<times> nat" where
  "merge_file D src_dir target_dir name fs =
     (let src = src_dir @ [name]; dest = target_dir @ [name]
      in case file_at fs src of
           None \<Rightarrow> (fs, 0)
         | Some content \<Rightarrow>
             if path_exists fs dest
             then (if length content = size_at D fs dest then (remove_file src fs, 0)
                   else move_file D src (unique_destination fs target_dir name) content fs)
             else move_file D src dest content fs)"

fun merge_files :: "disk \<Rightarrow> fpath \<Rightarrow> fpath \<Rightarrow> string list \<Rightarrow> library_fs \<Rightarrow> library_fs \<times> nat" where
  "merge_files D src_dir target_dir [] fs = (fs, 0)"
| "merge_files D src_dir target_dir (name # names) fs =
     (case merge_file D src_dir target_dir name fs of (fs1, n) \<Rightarrow>
      case merge_files D src_dir target_dir names fs1 of (fs2, k) \<Rightarrow> (fs2, n + k))"

text \<open>The loop over the walk; an exception of \<open>makedirs\<close> ends it.\<close>

fun merge_walk :: "disk \<Rightarrow> fpath \<Rightarrow> fpath \<Rightarrow> (fpath \<times> string list \<times> string list) list \<Rightarrow> library_fs \<Rightarrow>
   library_fs \<times> nat option" where
  "merge_walk D source destination [] fs = (fs, Some 0)"
| "merge_walk D source destination ((rel, dirs, names) # entries) fs =
     (case make_dirs (destination @ rel) fs of
        None \<Rightarrow> (fs, None)
      | Some fs1 \<Rightarrow>
          (case merge_files D (source @ rel) (destination @ rel) names fs1 of (fs2, n) \<Rightarrow>
           case merge_walk D source destination entries (remove_dir (source @ rel) fs2) of
             (fs3, k) \<Rightarrow> (fs3, map_option (\<lambda>k. n + k) k)))"

definition merge_directory_into :: "disk \<Rightarrow> fpath \<Rightarrow> fpath \<Rightarrow> library_fs \<Rightarrow> library_fs \<times> nat option" where
  "merge_directory_into D source destination fs =
     (if source \<notin> set (lib_dirs fs) then (fs, Some 0)
      else merge_walk D source destination (dk_walk D fs source) fs)"

text \<open>\<open>_remove_empty_tree\<close>: stops at the first directory with a file, or that cannot be removed.\<close>

fun remove_children :: "fpath \<Rightarrow> string list \<Rightarrow> library_fs \<Rightarrow> library_fs \<times> bool" where
  "remove_children dir [] fs = (fs, True)"
| "remove_children dir (name # names) fs =
     (if empty_dir fs (dir @ [name]) then remove_children dir names (remove_dir (dir @ [name]) fs) else (fs, False))"

fun remove_walk :: "fpath \<Rightarrow> (fpath \<times> string list \<times> string list) list \<Rightarrow> library_fs \<Rightarrow> library_fs \<times> bool" where
  "remove_walk path [] fs = (fs, True)"
| "remove_walk path ((rel, dirs, names) # entries) fs =
     (if names \<noteq> [] then (fs, False)
      else case remove_children (path @ rel) dirs fs of
             (fs1, True) \<Rightarrow> remove_walk path entries fs1
           | (fs1, False) \<Rightarrow> (fs1, False))"

definition remove_empty_tree :: "disk \<Rightarrow> fpath \<Rightarrow> library_fs \<Rightarrow> library_fs" where
  "remove_empty_tree D path fs =
     (if path \<notin> set (lib_dirs fs) then fs
      else case remove_walk path (dk_walk D fs path) fs of
             (fs1, True) \<Rightarrow> remove_dir path fs1
           | (fs1, False) \<Rightarrow> fs1)"

section \<open>Consolidation\<close>

record ConsolidationResult =
  cr_anime_id :: int
  cr_canonical :: fpath
  cr_merged_from :: "fpath list"
  cr_moved_files :: nat

fun merge_folders :: "disk \<Rightarrow> bool \<Rightarrow> string \<Rightarrow> string list \<Rightarrow> library_fs \<Rightarrow>
   library_fs \<times> (fpath list \<times> nat) option" where
  "merge_folders D redirects canonical [] fs = (fs, Some ([], 0))"
| "merge_folders D redirects canonical (name # names) fs =
     (if name = canonical then merge_folders D redirects canonical names fs
      else case merge_directory_into D [name] [canonical] fs of
             (fs1, None) \<Rightarrow> (fs1, None)
           | (fs1, Some moved) \<Rightarrow>
               let fs2 = (if redirects then fs1\<lparr>lib_redirects := lib_redirects fs1 @ [([name], [canonical])]\<rparr> else fs1);
                   fs3 = remove_empty_tree D [name] fs2
               in case merge_folders D redirects canonical names fs3 of
                    (fs4, r) \<Rightarrow> (fs4, map_option (\<lambda>(merged, k). ([name] # merged, moved + k)) r))"

text \<open>
  \<open>None\<close> in the result is an exception; \<open>Some None\<close> the answer \<open>None\<close>, when fewer than two
  folders carry the id.  \<open>pick\<close> is \<open>choose_canonical_anime_folder_name\<close> with its other arguments.
\<close>

definition consolidate_duplicate_folders_for_anime ::
  "disk \<Rightarrow> (string list \<Rightarrow> string res) \<Rightarrow> bool \<Rightarrow> int \<Rightarrow> string list \<Rightarrow> library_fs \<Rightarrow>
   library_fs \<times> ConsolidationResult option option" where
  "consolidate_duplicate_folders_for_anime D pick redirects anime_id names fs =
     (let matches = filter (\<lambda>name. [name] \<in> set (lib_dirs fs)) (match_anime_folder_names names anime_id)
      in if length matches < 2 then (fs, Some None)
         else case pick matches of
                Inl _ \<Rightarrow> (fs, None)
              | Inr canonical \<Rightarrow>
                  (case make_dirs [canonical] fs of
                     None \<Rightarrow> (fs, None)
                   | Some fs1 \<Rightarrow>
                       (case merge_folders D redirects canonical matches fs1 of
                          (fs2, r) \<Rightarrow> (fs2, map_option (\<lambda>(merged, moved).
                             Some \<lparr>cr_anime_id = anime_id, cr_canonical = [canonical], cr_merged_from = merged,
                                   cr_moved_files = moved\<rparr>) r))))"

text \<open>Every id that more than one folder carries, in increasing order.\<close>

definition folder_ids :: "library_fs \<Rightarrow> string list \<Rightarrow> int list" where
  "folder_ids fs entries =
     sort (remdups (map the (filter (\<lambda>i. i \<noteq> None)
       (map parse_anime_id_from_folder_name (filter (\<lambda>name. [name] \<in> set (lib_dirs fs)) entries)))))"

fun consolidate_ids :: "disk \<Rightarrow> (int \<Rightarrow> string list \<Rightarrow> string res) \<Rightarrow> bool \<Rightarrow> (int \<Rightarrow> string list) \<Rightarrow> int list \<Rightarrow>
   library_fs \<Rightarrow> library_fs \<times> ConsolidationResult list option" where
  "consolidate_ids D pick redirects names_of [] fs = (fs, Some [])"
| "consolidate_ids D pick redirects names_of (i # ids) fs =
     (if length (names_of i) < 2 then consolidate_ids D pick redirects names_of ids fs
      else case consolidate_duplicate_folders_for_anime D (pick i) redirects i (names_of i) fs of
             (fs1, None) \<Rightarrow> (fs1, None)
           | (fs1, Some r) \<Rightarrow>
               (case consolidate_ids D pick redirects names_of ids fs1 of
                  (fs2, rs) \<Rightarrow> (fs2, map_option (\<lambda>rs. case r of None \<Rightarrow> rs | Some m \<Rightarrow> m # rs) rs)))"

definition consolidate_all_duplicate_anime_folders ::
  "disk \<Rightarrow> (int \<Rightarrow> string list \<Rightarrow> string res) \<Rightarrow> bool \<Rightarrow> string list \<Rightarrow> library_fs \<Rightarrow>
   library_fs \<times> ConsolidationResult list option" where
  "consolidate_all_duplicate_anime_folders D pick redirects entries fs =
     consolidate_ids D pick redirects
       (\<lambda>i. match_anime_folder_names (filter (\<lambda>name. [name] \<in> set (lib_dirs fs)) entries) i)
       (folder_ids fs entries) fs"

section \<open>The free name is free\<close>

lemma file_at_simps [simp]:
  "file_at (remove_file p fs) q = (if q = p then None else file_at fs q)"
  "src \<noteq> dest \<Longrightarrow> file_at (rename_file src dest content fs) q
     = (if q = dest then Some content else if q = src then None else file_at fs q)"
  "file_at (fs\<lparr>lib_dirs := d\<rparr>) q = file_at fs q" "file_at (fs\<lparr>lib_redirects := r\<rparr>) q = file_at fs q"
  "file_at (remove_dir p fs) q = file_at fs q"
  "lib_dirs (remove_file p fs) = lib_dirs fs" "lib_dirs (rename_file src dest content fs) = lib_dirs fs"
  by (simp_all add: file_at_def remove_file_def rename_file_def remove_dir_def delete_conv' update_conv')

lemma make_dirs_files: "make_dirs p fs = Some fs' \<Longrightarrow> file_at fs' q = file_at fs q"
  by (auto simp: make_dirs_def file_at_def split: if_splits)

definition taken :: "library_fs \<Rightarrow> fpath set" where
  "taken fs = fst ` set (lib_files fs) \<union> set (lib_dirs fs)"

lemma path_exists_taken: "path_exists fs p \<longleftrightarrow> p \<in> taken fs"
  by (auto simp: path_exists_def taken_def file_at_def map_of_eq_None_iff)

lemma card_taken: "card (taken fs) \<le> length (lib_files fs) + length (lib_dirs fs)"
proof -
  have "card (taken fs) \<le> card (fst ` set (lib_files fs)) + card (set (lib_dirs fs))"
    unfolding taken_def by (rule card_Un_le)
  also have "card (fst ` set (lib_files fs)) \<le> length (lib_files fs)"
    by (metis card_length length_map set_map)
  also have "card (set (lib_dirs fs)) \<le> length (lib_dirs fs)" by (rule card_length)
  finally show ?thesis by simp
qed

lemma numbered_inject: "numbered dir name i = numbered dir name j \<longleftrightarrow> i = j"
  by (auto simp: numbered_def split: prod.splits)

lemma unique_from_taken:
  "path_exists fs (unique_from n fs dir name i) \<Longrightarrow> k \<le> n \<Longrightarrow> path_exists fs (numbered dir name (i + k))"
proof (induction n arbitrary: i k)
  case (Suc n)
  then show ?case using Suc.IH [of "Suc i" "k - 1"] by (cases k) (auto split: if_splits)
qed simp

lemma unique_destination_free: "\<not> path_exists fs (unique_destination fs dir name)"
proof
  let ?n = "length (lib_files fs) + length (lib_dirs fs)"
  assume "path_exists fs (unique_destination fs dir name)"
  then have "(\<lambda>k. numbered dir name (2 + k)) ` {..?n} \<subseteq> taken fs"
    unfolding unique_destination_def path_exists_taken [symmetric]
    by (auto simp: path_exists_taken [symmetric] dest: unique_from_taken)
  moreover have "finite (taken fs)" by (simp add: taken_def)
  ultimately have "card ((\<lambda>k. numbered dir name (2 + k)) ` {..?n}) \<le> card (taken fs)" by (simp add: card_mono)
  moreover have "inj_on (\<lambda>k. numbered dir name (2 + k)) {..?n}" by (auto simp: inj_on_def numbered_inject)
  ultimately show False using card_taken [of fs] by (simp add: card_image)
qed

lemma unique_destination_in: "\<exists>name'. unique_destination fs dir name = dir @ [name']"
proof -
  have "\<exists>name'. unique_from n fs dir name i = dir @ [name']" for n i
    by (induction n arbitrary: i) (auto simp: numbered_def split: prod.splits)
  then show ?thesis by (simp add: unique_destination_def)
qed

section \<open>No file is lost\<close>

text \<open>
  The fate of the content \<open>c\<close> of the file \<open>p\<close> of a folder that is merged into \<open>canonical\<close>: it stays
  where it was, it is in a file of the canonical folder, or its place there is held by a file of the
  same size or by a directory.
\<close>

definition safe_content :: "string \<Rightarrow> fpath \<Rightarrow> string \<Rightarrow> library_fs \<Rightarrow> bool" where
  "safe_content canonical p c fs \<longleftrightarrow>
     file_at fs p = Some c
     \<or> (\<exists>q. q \<noteq> [] \<and> hd q = canonical \<and> file_at fs q = Some c)
     \<or> (\<exists>c'. file_at fs (canonical # tl p) = Some c' \<and> length c' = length c)
     \<or> canonical # tl p \<in> set (lib_dirs fs)"

lemma merge_file_cases:
  assumes "merge_file D (source @ rel) ([canonical] @ rel) name fs = (fs', n)" and "source = [folder]" and "folder \<noteq> canonical"
  obtains (Same) "fs' = fs"
  | (Removed) c c' where "file_at fs (source @ rel @ [name]) = Some c" and "file_at fs (canonical # rel @ [name]) = Some c'"
      and "length c = length c'" and "fs' = remove_file (source @ rel @ [name]) fs"
  | (Removed_dir) c where "file_at fs (source @ rel @ [name]) = Some c" and "canonical # rel @ [name] \<in> set (lib_dirs fs)" and "fs' = remove_file (source @ rel @ [name]) fs"
  | (Moved) c name' where "file_at fs (source @ rel @ [name]) = Some c" and "file_at fs (canonical # rel @ [name']) = None"
      and "fs' = rename_file (source @ rel @ [name]) (canonical # rel @ [name']) c fs"
proof (cases "file_at fs (source @ rel @ [name])")
  case None
  then show thesis using assms(1) Same by (simp add: merge_file_def Let_def)
next
  case (Some c)
  obtain name' where name': "unique_destination fs ([canonical] @ rel) name = ([canonical] @ rel) @ [name']"
    using unique_destination_in by blast
  then have free: "file_at fs (canonical # rel @ [name']) = None"
    using unique_destination_free [of fs "[canonical] @ rel" name] by (simp add: path_exists_def)
  show thesis
  proof (cases "path_exists fs (canonical # rel @ [name])")
    case False
    then show thesis
      using assms(1) Some Same Moved [of c name] by (auto simp: merge_file_def move_file_def Let_def path_exists_def split: if_splits)
  next
    case True
    show thesis
    proof (cases "length c = size_at D fs (canonical # rel @ [name])")
      case True
      then have fs': "fs' = remove_file (source @ rel @ [name]) fs"
        using assms(1) Some \<open>path_exists _ _\<close> by (simp add: merge_file_def Let_def)
      show thesis
      proof (cases "file_at fs (canonical # rel @ [name])")
        case None
        then have "canonical # rel @ [name] \<in> set (lib_dirs fs)" using \<open>path_exists _ _\<close> by (simp add: path_exists_def)
        then show thesis using Removed_dir [OF \<open>file_at fs (source @ rel @ [name]) = Some c\<close> _ fs'] by simp
      next
        case (Some c')
        then show thesis using Removed [OF \<open>file_at fs (source @ rel @ [name]) = Some c\<close> Some _ fs'] True
          by (simp add: size_at_def)
      qed
    next
      case False
      then show thesis
        using assms(1) Some Same Moved [OF Some free] name' \<open>path_exists _ _\<close>
        by (auto simp: merge_file_def move_file_def Let_def split: if_splits)
    qed
  qed
qed

text \<open>A step that removes no file outside the folder and loses no content of it.\<close>

definition gentle :: "string \<Rightarrow> string \<Rightarrow> library_fs \<Rightarrow> library_fs \<Rightarrow> bool" where
  "gentle folder canonical fs fs' \<longleftrightarrow>
     (\<forall>p c. file_at fs p = Some c \<and> \<not> prefix [folder] p \<longrightarrow> file_at fs' p = Some c)
     \<and> (\<forall>p c. file_at fs p = Some c \<and> prefix [folder] p \<longrightarrow> safe_content canonical p c fs')
     \<and> (\<forall>p \<in> set (lib_dirs fs). \<not> prefix [folder] p \<longrightarrow> p \<in> set (lib_dirs fs'))"

lemma prefix_single: "prefix [folder] p \<longleftrightarrow> p \<noteq> [] \<and> hd p = folder"
  by (cases p) auto

lemma gentle_refl: "gentle folder canonical fs fs"
  by (simp add: gentle_def safe_content_def)

lemma gentle_safe:
  assumes "gentle folder canonical fs fs'" and "folder \<noteq> canonical" and "safe_content canonical p c fs" and "prefix [folder] p"
  shows "safe_content canonical p c fs'"
  using assms unfolding gentle_def safe_content_def by (auto simp: prefix_single)

lemma gentle_trans:
  assumes "gentle folder canonical fs fs1" and "gentle folder canonical fs1 fs2" and "folder \<noteq> canonical"
  shows "gentle folder canonical fs fs2"
  using assms gentle_safe [OF assms(2,3)] unfolding gentle_def by blast

lemma gentle_merge_file:
  assumes "merge_file D ([folder] @ rel) ([canonical] @ rel) name fs = (fs', n)" and "folder \<noteq> canonical"
  shows "gentle folder canonical fs fs'"
  using assms(1) refl assms(2)
proof (cases rule: merge_file_cases)
  case Same
  then show ?thesis by (simp add: gentle_refl)
next
  case (Removed c c')
  then show ?thesis using assms(2)
    by (auto simp: gentle_def safe_content_def prefix_single )
next
  case (Removed_dir c)
  then show ?thesis using assms(2) by (auto simp: gentle_def safe_content_def prefix_single)
next
  case (Moved c name')
  then show ?thesis using assms(2) by (auto simp: gentle_def safe_content_def prefix_single)
qed

lemma gentle_merge_files:
  assumes "folder \<noteq> canonical"
  shows "merge_files D ([folder] @ rel) ([canonical] @ rel) names fs = (fs', n) \<Longrightarrow> gentle folder canonical fs fs'"
proof (induction names arbitrary: fs fs' n)
  case (Cons name names)
  obtain fs1 k where a: "merge_file D ([folder] @ rel) ([canonical] @ rel) name fs = (fs1, k)" by fastforce
  obtain fs2 j where b: "merge_files D ([folder] @ rel) ([canonical] @ rel) names fs1 = (fs2, j)" by fastforce
  have "fs' = fs2" using Cons.prems a b by simp
  then show ?case using gentle_trans [OF gentle_merge_file [OF a assms] Cons.IH [OF b] assms] by simp
qed (simp add: gentle_refl)

lemma gentle_make_dirs: "make_dirs p fs = Some fs' \<Longrightarrow> gentle folder canonical fs fs'"
  using make_dirs_files [of p fs fs'] by (auto simp: gentle_def safe_content_def make_dirs_def split: if_splits)

lemma gentle_remove_dir: "prefix [folder] p \<Longrightarrow> folder \<noteq> canonical \<Longrightarrow> gentle folder canonical fs (remove_dir p fs)"
  by (auto simp: gentle_def safe_content_def) (auto simp: remove_dir_def)

lemma gentle_merge_walk:
  assumes "folder \<noteq> canonical"
  shows "merge_walk D [folder] [canonical] entries fs = (fs', r) \<Longrightarrow> gentle folder canonical fs fs'"
proof (induction entries arbitrary: fs fs' r)
  case (Cons entry entries)
  obtain rel dirs names where e: "entry = (rel, dirs, names)" by (cases entry)
  show ?case
  proof (cases "make_dirs ([canonical] @ rel) fs")
    case None
    then show ?thesis using Cons.prems by (simp add: e gentle_refl)
  next
    case (Some fs1)
    obtain fs2 n where b: "merge_files D ([folder] @ rel) ([canonical] @ rel) names fs1 = (fs2, n)" by fastforce
    obtain fs3 k where c: "merge_walk D [folder] [canonical] entries (remove_dir ([folder] @ rel) fs2) = (fs3, k)" by fastforce
    have "fs' = fs3" using Cons.prems Some b c by (simp add: e)
    moreover have "gentle folder canonical fs2 (remove_dir ([folder] @ rel) fs2)"
      by (rule gentle_remove_dir [OF _ assms]) simp
    ultimately show ?thesis
      using gentle_trans [OF gentle_trans [OF gentle_make_dirs [OF Some] gentle_merge_files [OF assms b] assms]
          gentle_trans [OF _ Cons.IH [OF c] assms] assms] by simp
  qed
qed (simp add: gentle_refl)

lemma gentle_merge_directory:
  "merge_directory_into D [folder] [canonical] fs = (fs', r) \<Longrightarrow> folder \<noteq> canonical \<Longrightarrow> gentle folder canonical fs fs'"
  by (auto simp: merge_directory_into_def gentle_refl split: if_splits dest: gentle_merge_walk)

lemma gentle_remove_children:
  assumes "folder \<noteq> canonical"
  shows "remove_children ([folder] @ rel) names fs = (fs', b) \<Longrightarrow> gentle folder canonical fs fs'"
proof (induction names arbitrary: fs)
  case (Cons name names)
  show ?case
  proof (cases "empty_dir fs (([folder] @ rel) @ [name])")
    case True
    have "gentle folder canonical fs (remove_dir (([folder] @ rel) @ [name]) fs)"
      by (rule gentle_remove_dir [OF _ assms]) simp
    then show ?thesis using gentle_trans [OF _ Cons.IH assms] Cons.prems True by simp
  next
    case False
    then show ?thesis using Cons.prems by (simp add: gentle_refl)
  qed
qed (simp add: gentle_refl)

lemma gentle_remove_walk:
  assumes "folder \<noteq> canonical"
  shows "remove_walk [folder] entries fs = (fs', b) \<Longrightarrow> gentle folder canonical fs fs'"
proof (induction entries arbitrary: fs)
  case (Cons entry entries)
  obtain rel dirs names where e: "entry = (rel, dirs, names)" by (cases entry)
  obtain fs1 b1 where c: "remove_children ([folder] @ rel) dirs fs = (fs1, b1)" by fastforce
  show ?case
    using Cons.prems c gentle_remove_children [OF assms c] gentle_trans [OF _ Cons.IH assms, of fs fs1]
    by (cases b1) (auto simp: e gentle_refl split: if_splits)
qed (simp add: gentle_refl)

lemma gentle_remove_empty_tree: "folder \<noteq> canonical \<Longrightarrow> gentle folder canonical fs (remove_empty_tree D [folder] fs)"
proof -
  assume ne: "folder \<noteq> canonical"
  obtain fs1 b where w: "remove_walk [folder] (dk_walk D fs [folder]) fs = (fs1, b)" by fastforce
  have "gentle folder canonical fs fs1" using gentle_remove_walk [OF ne w] .
  moreover have "gentle folder canonical fs1 (remove_dir [folder] fs1)" by (rule gentle_remove_dir [OF _ ne]) simp
  ultimately show ?thesis
    using w gentle_trans [OF _ _ ne] by (cases b) (auto simp: remove_empty_tree_def gentle_refl)
qed

lemma gentle_redirects: "gentle folder canonical fs (fs\<lparr>lib_redirects := r\<rparr>)"
  by (simp add: gentle_def safe_content_def)

text \<open>Over several folders: contents of files outside them stay, contents inside are safe.\<close>

definition folders_safe :: "string list \<Rightarrow> string \<Rightarrow> library_fs \<Rightarrow> library_fs \<Rightarrow> bool" where
  "folders_safe folders canonical fs fs' \<longleftrightarrow>
     (\<forall>p c. file_at fs p = Some c \<and> p \<noteq> [] \<longrightarrow>
        (if hd p \<in> set folders \<and> hd p \<noteq> canonical then safe_content canonical p c fs' else file_at fs' p = Some c))
     \<and> (\<forall>p c. p \<noteq> [] \<and> hd p \<noteq> canonical \<and> safe_content canonical p c fs \<longrightarrow> safe_content canonical p c fs')
     \<and> (\<forall>p \<in> set (lib_dirs fs). p \<noteq> [] \<and> hd p = canonical \<longrightarrow> p \<in> set (lib_dirs fs'))"

lemma gentle_other_safe:
  assumes "gentle folder canonical fs fs'" and "folder \<noteq> canonical" and "p \<noteq> []" and "safe_content canonical p c fs"
  shows "safe_content canonical p c fs'"
proof (cases "hd p = folder")
  case True
  then show ?thesis using gentle_safe [OF assms(1,2,4)] assms(3) by (simp add: prefix_single)
next
  case False
  then show ?thesis
    using assms unfolding gentle_def safe_content_def by (auto simp: prefix_single)
qed

lemma folders_safe_step:
  assumes "gentle name canonical fs fs1" and "name \<noteq> canonical" and "folders_safe names canonical fs1 fs2"
  shows "folders_safe (name # names) canonical fs fs2"
proof -
  have "if hd p \<in> set (name # names) \<and> hd p \<noteq> canonical then safe_content canonical p c fs2 else file_at fs2 p = Some c"
    if p: "file_at fs p = Some c" "p \<noteq> []" for p c
  proof (cases "hd p = name")
    case True
    then have "safe_content canonical p c fs1" using assms(1) p by (simp add: gentle_def prefix_single)
    then show ?thesis using assms(2,3) p(2) True unfolding folders_safe_def by auto
  next
    case False
    then have "file_at fs1 p = Some c" using assms(1) p by (simp add: gentle_def prefix_single)
    then show ?thesis using assms(3) p(2) False unfolding folders_safe_def by auto
  qed
  moreover have "safe_content canonical p c fs2"
    if "p \<noteq> []" "hd p \<noteq> canonical" "safe_content canonical p c fs" for p c
    using gentle_other_safe [OF assms(1,2) that(1,3)] assms(3) that(1,2) unfolding folders_safe_def by blast
  moreover have "p \<in> set (lib_dirs fs2)" if "p \<in> set (lib_dirs fs)" "p \<noteq> []" "hd p = canonical" for p
    using assms that unfolding folders_safe_def gentle_def by (auto simp: prefix_single)
  ultimately show ?thesis unfolding folders_safe_def by blast
qed

lemma folders_safe_skip: "folders_safe names canonical fs fs' \<Longrightarrow> folders_safe (canonical # names) canonical fs fs'"
  unfolding folders_safe_def by (auto split: if_splits)

lemma folders_safe_partial:
  assumes "gentle name canonical fs fs1" and "name \<noteq> canonical"
  shows "folders_safe (name # names) canonical fs fs1"
proof -
  have "folders_safe names canonical fs1 fs1" unfolding folders_safe_def safe_content_def by auto
  from folders_safe_step [OF assms this] show ?thesis .
qed

lemma merge_folders_safe: "merge_folders D redirects canonical names fs = (fs', r) \<Longrightarrow> folders_safe names canonical fs fs'"
proof (induction names arbitrary: fs fs' r)
  case Nil
  then show ?case by (auto simp: folders_safe_def)
next
  case (Cons name names)
  show ?case
  proof (cases "name = canonical")
    case True
    then show ?thesis using Cons folders_safe_skip by simp
  next
    case False
    obtain fs1 m where m: "merge_directory_into D [name] [canonical] fs = (fs1, m)" by fastforce
    note first = gentle_merge_directory [OF m False]
    show ?thesis
    proof (cases m)
      case None
      then show ?thesis using Cons.prems m False folders_safe_partial [OF first False] by simp
    next
      case (Some moved)
      let ?fs2 = "if redirects then fs1\<lparr>lib_redirects := lib_redirects fs1 @ [([name], [canonical])]\<rparr> else fs1"
      have "gentle name canonical fs1 ?fs2" by (simp add: gentle_redirects gentle_refl)
      then have all: "gentle name canonical fs (remove_empty_tree D [name] ?fs2)"
        using gentle_trans [OF gentle_trans [OF first _ False] gentle_remove_empty_tree [OF False] False] by blast
      obtain fs4 r4 where f: "merge_folders D redirects canonical names (remove_empty_tree D [name] ?fs2) = (fs4, r4)" by fastforce
      have "fs' = fs4" using Cons.prems m Some False f by (simp add: Let_def)
      then show ?thesis using folders_safe_step [OF all False Cons.IH [OF f]] by simp
    qed
  qed
qed

text \<open>
  C15. Consolidating the folders of an anime loses no file but one whose place in the canonical folder
  is taken by a file of the same size or a directory: every file outside the folders of the anime and
  every file of the canonical folder stays as it is, and every content of a merged folder is left
  where it was, is in the canonical folder, or has such a stand-in there, whatever the walk lists,
  whichever moves fail and wherever an exception ends the work.
\<close>

theorem consolidation_keeps_contents:
  assumes "consolidate_duplicate_folders_for_anime D pick redirects i names fs = (fs', r)"
    and "file_at fs p = Some c" and "p \<noteq> []"
  shows "(hd p \<notin> set (match_anime_folder_names names i) \<longrightarrow> file_at fs' p = Some c)
    \<and> (\<exists>canonical. safe_content canonical p c fs'
        \<and> (\<forall>m. r = Some (Some m) \<longrightarrow> cr_canonical m = [canonical])
        \<and> (hd p = canonical \<longrightarrow> file_at fs' p = Some c))"
proof -
  let ?matches = "filter (\<lambda>name. [name] \<in> set (lib_dirs fs)) (match_anime_folder_names names i)"
  consider (same) "fs' = fs" "\<forall>m. r \<noteq> Some (Some m)"
    | (merged) canonical fs1 x where "make_dirs [canonical] fs = Some fs1"
        "merge_folders D redirects canonical ?matches fs1 = (fs', x)" "\<forall>m. r = Some (Some m) \<longrightarrow> cr_canonical m = [canonical]"
  proof (cases "length ?matches < 2")
    case True
    then show thesis using assms(1) by (intro same) (auto simp: consolidate_duplicate_folders_for_anime_def Let_def)
  next
    case False
    show thesis
    proof (cases "pick ?matches")
      case (Inl e)
      then show thesis using assms(1) False by (intro same) (auto simp: consolidate_duplicate_folders_for_anime_def Let_def)
    next
      case (Inr canonical)
      show thesis
      proof (cases "make_dirs [canonical] fs")
        case None
        then show thesis using assms(1) False Inr by (intro same) (auto simp: consolidate_duplicate_folders_for_anime_def Let_def)
      next
        case (Some fs1)
        obtain fs2 x where x: "merge_folders D redirects canonical ?matches fs1 = (fs2, x)" by fastforce
        then have "fs2 = fs'" "\<forall>m. r = Some (Some m) \<longrightarrow> cr_canonical m = [canonical]"
          using assms(1) False Inr Some by (auto simp: consolidate_duplicate_folders_for_anime_def Let_def)
        then show thesis using merged [OF Some] x by blast
      qed
    qed
  qed
  then show ?thesis
  proof cases
    case same
    then show ?thesis using assms(2) by (auto simp: safe_content_def)
  next
    case merged
    have "file_at fs1 p = Some c" using make_dirs_files [OF merged(1)] assms(2) by simp
    then have p: "if hd p \<in> set ?matches \<and> hd p \<noteq> canonical then safe_content canonical p c fs' else file_at fs' p = Some c"
      using merge_folders_safe [OF merged(2)] assms(3) unfolding folders_safe_def by blast
    then have "safe_content canonical p c fs'" by (auto simp: safe_content_def split: if_splits)
    then show ?thesis using p merged(3) by auto
  qed
qed

section \<open>Examples\<close>

text \<open>Two folders of anime 7, with different files of one name and one size.\<close>

definition sample_library :: library_fs where
  "sample_library =
     \<lparr>lib_files = [([''Old - 7'', ''01.mkv''], ''abc''), ([''New - 7'', ''01.mkv''], ''xyz''), ([''Old - 7'', ''02.mkv''], ''de'')],
      lib_dirs = [[''Old - 7''], [''New - 7'']], lib_redirects = []\<rparr>"

definition sample_disk :: disk where
  "sample_disk =
     \<lparr>dk_walk = (\<lambda>fs p. [([], [], map (\<lambda>(q, c). last q) (filter (\<lambda>(q, c). prefix p q) (lib_files fs)))]),
      dk_can_move = (\<lambda>p q. True), dk_dir_size = (\<lambda>p. 4096)\<rparr>"

definition sample_consolidation :: "library_fs \<times> ConsolidationResult option option" where
  "sample_consolidation =
     consolidate_duplicate_folders_for_anime sample_disk (\<lambda>names. Inr (last names)) True 7 [''Old - 7'', ''New - 7''] sample_library"

lemma same_size_file_is_deleted:
  "map fst (lib_files (fst sample_consolidation)) = [[''New - 7'', ''01.mkv''], [''New - 7'', ''02.mkv'']]
   \<and> file_at (fst sample_consolidation) [''New - 7'', ''01.mkv''] = Some ''xyz''
   \<and> \<not> list_ex (\<lambda>(p, c). c = ''abc'') (lib_files (fst sample_consolidation))"
  by code_simp

theorem consolidation_keeps_contents_witness:
  "\<exists>canonical. safe_content canonical [''Old - 7'', ''02.mkv''] ''de'' (fst sample_consolidation)"
proof -
  have f: "file_at sample_library [''Old - 7'', ''02.mkv''] = Some ''de''" by code_simp
  show ?thesis
    using consolidation_keeps_contents [OF prod.collapse [symmetric] f] unfolding sample_consolidation_def by blast
qed

end
