(* ===== verification/SearchPlan.thy ===== *)
theory SearchPlan
  imports ReleaseTitles "HOL-Library.AList" "HOL-Library.Char_ord" "HOL-Library.List_Lexorder"
    "HOL-Library.Product_Lexorder"
begin

text \<open>
  The planning of release searches (\<open>adapters/search/planner.py\<close>) under the limits of
  \<open>adapters/search/config.py\<close>: the catalogue titles are cleaned, expanded into the spellings release
  names use, deduplicated, scored and cut to a budget.  Text is Latin-1, so the classes of Chinese,
  Japanese and Korean characters the patterns list never occur; scores are rationals.
\<close>

section \<open>Limits\<close>

record SearchLimits =
  max_terms :: int
  max_term_length :: int
  max_concurrent_jobs :: int
  per_job_timeout_s :: rat
  request_deadline_s :: rat
  max_results_per_term :: int
  max_output_bytes :: int
  max_line_bytes :: int
  queue_capacity :: int

definition DEFAULT_LIMITS :: SearchLimits where
  "DEFAULT_LIMITS =
     \<lparr>max_terms = 6, max_term_length = 200, max_concurrent_jobs = 4, per_job_timeout_s = 45,
      request_deadline_s = 90, max_results_per_term = 50, max_output_bytes = 8 * 1024 * 1024,
      max_line_bytes = 16 * 1024, queue_capacity = 256\<rparr>"

section \<open>Patterns\<close>

definition LATIN_RE :: rx where
  "LATIN_RE = Cls ascii_letter"

definition cjk_char :: "char \<Rightarrow> bool" where
  "cjk_char c =
     (let n = (of_char c :: nat)
      in (12288 \<le> n \<and> n \<le> 12543) \<or> (13312 \<le> n \<and> n \<le> 19903) \<or> (19968 \<le> n \<and> n \<le> 40879)
       \<or> (44032 \<le> n \<and> n \<le> 55215))"

definition CJK_RE :: rx where
  "CJK_RE = Cls cjk_char"

definition SPACES_RE :: rx where
  "SPACES_RE = Rep 1 None (Cls py_isspace)"

definition PUNCT_CLUSTER_RE :: rx where
  "PUNCT_CLUSTER_RE = rx_seq [rx_chr CHR ''.'', rx_spaces, rx_chr CHR '':'', rx_spaces]"

definition ROMANIZED_FIRST_WORD_RE :: rx where
  "ROMANIZED_FIRST_WORD_RE =
     rx_seq [Rep 1 None (Cls ascii_letter), rx_chr CHR ''-'', Cls ascii_letter]"

definition small_letter :: "char \<Rightarrow> bool" where
  "small_letter c = (let n = (of_char c :: nat) in 97 \<le> n \<and> n \<le> 122)"

definition HYPHEN_RE :: rx where
  "HYPHEN_RE = rx_seq [Cls small_letter, rx_chr CHR ''-'', Cls small_letter]"

definition SHORT_SEASON_RE :: rx where
  "SHORT_SEASON_RE = rx_seq [WordB, rx_chr CHR ''S'', rx_digits 1 (Some 2), WordB]"

definition SEASON_WORD_RE :: rx where
  "SEASON_WORD_RE = rx_seq [WordB, rx_istr ''Season'', SPACES_RE, Grp 1 (rx_digits 1 None), WordB]"

definition SEASON_PART_RE :: rx where
  "SEASON_PART_RE = rx_seq [WordB, rx_istr ''Part'', SPACES_RE, Grp 1 (rx_digits 1 None), WordB]"

text \<open>The alternative spelled with Japanese characters cannot match Latin-1 text.\<close>

definition SEASON_SUFFIX_RE :: rx where
  "SEASON_SUFFIX_RE =
     rx_seq [SPACES_RE,
       rx_alt [rx_seq [rx_digits 1 None, rx_alt [rx_istr ''st'', rx_istr ''nd'', rx_istr ''rd'', rx_istr ''th''],
                       SPACES_RE, rx_istr ''Season''],
               rx_seq [rx_istr ''Season'', SPACES_RE, rx_digits 1 None],
               rx_seq [rx_istr ''Part'', SPACES_RE, rx_digits 1 None],
               Sequ (rx_ichr CHR ''S'') (rx_digits 1 None)],
       rx_spaces, Eol]"

text \<open>\<open>pattern.sub(r"S\1", text)\<close>: the replacement is made of each match.\<close>

fun sub_groups_from :: "rx \<Rightarrow> (found \<Rightarrow> string) \<Rightarrow> nat \<Rightarrow> string \<Rightarrow> string \<Rightarrow> string" where
  "sub_groups_from r repl 0 pre rest = rest"
| "sub_groups_from r repl (Suc k) pre rest =
     (case search_at r pre rest of
        None \<Rightarrow> rest
      | Some m \<Rightarrow> drop (length pre) (f_before m) @ repl m
                  @ sub_groups_from r repl k (rev (f_before m @ f_text m)) (f_after m))"

definition rsub_groups :: "rx \<Rightarrow> (found \<Rightarrow> string) \<Rightarrow> string \<Rightarrow> string" where
  "rsub_groups r repl text = sub_groups_from r repl (length text) [] text"

definition found_in :: "rx \<Rightarrow> string \<Rightarrow> bool" where
  "found_in r text = (rsearch r text \<noteq> None)"

section \<open>Spellings of a title\<close>

text \<open>The base letter left when the canonical decomposition loses its combining marks.\<close>

definition base_letter :: "char \<Rightarrow> char" where
  "base_letter c =
     (let n = (of_char c :: nat)
      in if 192 \<le> n \<and> n \<le> 197 then CHR ''A'' else if n = 199 then CHR ''C''
         else if 200 \<le> n \<and> n \<le> 203 then CHR ''E'' else if 204 \<le> n \<and> n \<le> 207 then CHR ''I''
         else if n = 209 then CHR ''N'' else if 210 \<le> n \<and> n \<le> 214 then CHR ''O''
         else if 217 \<le> n \<and> n \<le> 220 then CHR ''U'' else if n = 221 then CHR ''Y''
         else if 224 \<le> n \<and> n \<le> 229 then CHR ''a'' else if n = 231 then CHR ''c''
         else if 232 \<le> n \<and> n \<le> 235 then CHR ''e'' else if 236 \<le> n \<and> n \<le> 239 then CHR ''i''
         else if n = 241 then CHR ''n'' else if 242 \<le> n \<and> n \<le> 246 then CHR ''o''
         else if 249 \<le> n \<and> n \<le> 252 then CHR ''u'' else if n = 253 \<or> n = 255 then CHR ''y''
         else c)"

definition ascii_fold :: "string \<Rightarrow> string" where
  "ascii_fold text = map base_letter text"

definition loosen_punctuation :: "string \<Rightarrow> string" where
  "loosen_punctuation text =
     (let loosened = rsub PUNCT_CLUSTER_RE ''. '' text
      in if loosened = text then text else py_strip (rsub SPACES_RE '' '' loosened))"

text \<open>The letters around a hyphen are those of the text before any is removed.\<close>

fun dehyphenate_after :: "bool \<Rightarrow> string \<Rightarrow> string" where
  "dehyphenate_after letter [] = []"
| "dehyphenate_after letter (c # cs) =
     (if c = CHR ''-'' \<and> letter \<and> cs \<noteq> [] \<and> small_letter (hd cs) then dehyphenate_after False cs
      else c # dehyphenate_after (small_letter c) cs)"

definition dehyphenate_words :: "string \<Rightarrow> string" where
  "dehyphenate_words text = dehyphenate_after False text"

definition colon_subtitle_prefix :: "string \<Rightarrow> string option" where
  "colon_subtitle_prefix term =
     (if length term < 40 \<or> CHR '':'' \<notin> set term then None
      else let head = py_strip (takeWhile (\<lambda>c. c \<noteq> CHR '':'') term)
           in if length head < 6 \<or> head = term \<or> found_in CJK_RE head \<or> \<not> found_in LATIN_RE head then None
              else let word_count = length (py_split head)
                   in if word_count > 8 then None
                      else if word_count = 1 then (if length head < 6 then None else Some head)
                      else if word_count < 2 then None
                      else Some head)"

definition word_marks :: string where
  "word_marks = ''.,:;!?'' @ [char_of (34::nat), char_of (39::nat)]"

definition clean_words :: "string list \<Rightarrow> string list" where
  "clean_words ws = filter (\<lambda>w. w \<noteq> []) (map (strip_chars word_marks) ws)"

definition romanized_prefix :: "string \<Rightarrow> string option" where
  "romanized_prefix term =
     (if length term < 40 then None
      else case colon_subtitle_prefix term of
             Some p \<Rightarrow> Some p
           | None \<Rightarrow>
               let ws = py_split term
               in if length ws < 2 \<or> rmatch_start ROMANIZED_FIRST_WORD_RE (hd ws) = None then None
                  else let head = clean_words (take 2 ws); prefix = py_join '' '' head
                       in if length head < 2 \<or> length prefix < 6 \<or> prefix = term then None
                          else Some prefix)"

definition alias_of :: "rx \<Rightarrow> string \<Rightarrow> string list" where
  "alias_of pattern term =
     (if found_in pattern term
      then let aliased = rsub_groups pattern (\<lambda>m. CHR ''S'' # group m 1) term
           in if aliased = term then [] else [aliased]
      else [])"

definition season_alias_variants :: "string \<Rightarrow> string list" where
  "season_alias_variants term = alias_of SEASON_WORD_RE term @ alias_of SEASON_PART_RE term"

definition season_base_title :: "string \<Rightarrow> string option" where
  "season_base_title term =
     (let stripped = strip_chars '' -:'' (rsub SEASON_SUFFIX_RE [] term)
      in if stripped = [] \<or> stripped = term \<or> length stripped < 6 \<or> \<not> list_ex py_isalnum stripped
         then None else Some stripped)"

definition leading_words_prefix :: "nat \<Rightarrow> string \<Rightarrow> string option" where
  "leading_words_prefix max_words term =
     (if length term < 40 \<or> found_in CJK_RE term \<or> \<not> found_in LATIN_RE term then None
      else let ws = py_split term
           in if length ws < max_words + 1 then None
              else let head = clean_words (take max_words ws); prefix = py_join '' '' head
                   in if length head < 3 \<or> length prefix < 12 \<or> prefix = term then None
                      else Some prefix)"

text \<open>The inner function \<open>add\<close>: an empty text or one already listed is left out.\<close>

definition add_spelling :: "string \<Rightarrow> string list \<Rightarrow> string list" where
  "add_spelling text variants = (if text = [] \<or> text \<in> set variants then variants else variants @ [text])"

definition add_folded :: "string \<Rightarrow> string list \<Rightarrow> string list" where
  "add_folded text variants =
     (let folded = ascii_fold text
      in if folded \<noteq> text \<and> list_ex py_isalnum folded then add_spelling folded variants else variants)"

definition add_with_fold :: "string \<Rightarrow> string list \<Rightarrow> string list" where
  "add_with_fold text variants =
     (let v = add_spelling text variants; folded = ascii_fold text
      in if folded \<noteq> text then add_spelling folded v else v)"

definition expand_variants :: "string \<Rightarrow> string list" where
  "expand_variants term =
     (let v1 = add_folded term (add_spelling term []);
          loose = loosen_punctuation term;
          v2 = (if loose \<noteq> term then add_folded loose (add_spelling loose v1) else v1);
          base = (if loose \<noteq> term then loose else term);
          dehyphenated = dehyphenate_words base;
          v3 = (if dehyphenated \<noteq> base then add_spelling dehyphenated v2 else v2);
          v4 = (if py_endswith term ''.'' \<and> length term > 2 then add_spelling (py_rstrip (butlast term)) v3
                else v3);
          v5 = (case romanized_prefix base of None \<Rightarrow> v4 | Some p \<Rightarrow> add_spelling p v4);
          v6 = (case leading_words_prefix 4 base of None \<Rightarrow> v5 | Some p \<Rightarrow> add_spelling p v5);
          v7 = fold add_with_fold (season_alias_variants base) v6
      in case season_base_title base of None \<Rightarrow> v7 | Some p \<Rightarrow> add_with_fold p v7)"

section \<open>Cleaning and scoring\<close>

text \<open>
  The compatibility normal form of a character where it lies in Latin-1; the eight characters whose
  normal form does not are kept.
\<close>

definition nfkc_char :: "char \<Rightarrow> char" where
  "nfkc_char c =
     (let n = (of_char c :: nat)
      in if n = 160 then CHR '' '' else if n = 170 then CHR ''a'' else if n = 186 then CHR ''o''
         else if n = 185 then CHR ''1'' else if n = 178 then CHR ''2'' else if n = 179 then CHR ''3''
         else c)"

definition is_control :: "char \<Rightarrow> bool" where
  "is_control c = (let n = (of_char c :: nat) in n < 32 \<or> (127 \<le> n \<and> n \<le> 159) \<or> n = 173)"

definition drop_controls :: "string \<Rightarrow> string" where
  "drop_controls text = filter (\<lambda>c. c = CHR '' '' \<or> \<not> is_control c) (map nfkc_char text)"

definition sanitize :: "SearchLimits \<Rightarrow> pyval \<Rightarrow> string option" where
  "sanitize limits raw =
     (case raw of
        PStr text \<Rightarrow>
          let cleaned = py_strip (rsub SPACES_RE '' '' (drop_controls text))
          in if cleaned = [] then None
             else if int (length cleaned) > max_term_length limits then None
             else if \<not> list_ex py_isalnum cleaned then None
             else Some cleaned
      | _ \<Rightarrow> None)"

definition canonical_key :: "string \<Rightarrow> string" where
  "canonical_key term = py_strip (filter (\<lambda>c. py_isalnum c \<or> c = CHR '' '') (py_lower term))"

definition script_bonus :: "string \<Rightarrow> rat" where
  "script_bonus term =
     (let n = length term; words = length (py_split term);
          has_latin = found_in LATIN_RE term; has_cjk = found_in CJK_RE term
      in if has_latin \<and> \<not> has_cjk
         then (if 6 \<le> n \<and> n \<le> 32 \<and> 1 \<le> words \<and> words \<le> 3 then 16 / 5
               else if n \<le> 42 \<and> words \<le> 5 then 2
               else if n \<le> 60 then 6 / 5 else 17 / 20)
         else if has_latin \<and> has_cjk then 11 / 10
         else if has_cjk \<and> \<not> has_latin then (if n > 20 then 11 / 20 else 9 / 10)
         else 1)"

definition score :: "string \<Rightarrow> rat" where
  "score term =
     (let alnum = filter py_isalnum term; n = length term
      in if alnum = [] then 0
         else rat_of_nat (min (length (remdups alnum)) 18)
              * (if n < 6 then 3 / 5 else if 6 \<le> n \<and> n \<le> 40 then 1 else if n \<le> 50 then 3 / 4 else 1 / 2)
              * script_bonus term
              * (if found_in PUNCT_CLUSTER_RE term then 7 / 10 else 1)
              * (if found_in HYPHEN_RE term then 19 / 20 else 1)
              * (if n > 70 then 7 / 20 else if n > 50 then 11 / 20 else 1)
              * (if CHR ''('' \<in> set term \<or> CHR '')'' \<in> set term then 13 / 20 else 1)
              * (if found_in SHORT_SEASON_RE term then 23 / 20 else 1))"

definition safe_preview :: "pyval \<Rightarrow> string" where
  "safe_preview raw = (let text = py_repr raw in if length text \<le> 80 then text else take 77 text @ ''...'')"

section \<open>The plan\<close>

record PlannedTerm =
  pt_normalized :: string
  pt_key :: string
  pt_score :: rat

record PlanResult =
  pr_terms :: "PlannedTerm list"
  pr_dropped :: "string list"

type_synonym plan_state = "(string \<times> PlannedTerm) list \<times> string list"

definition planned :: "string \<Rightarrow> PlannedTerm" where
  "planned variant = \<lparr>pt_normalized = variant, pt_key = canonical_key variant, pt_score = score variant\<rparr>"

text \<open>The list of spellings starts with the term itself, and no other is equal to it.\<close>

definition plan_variant :: "string \<Rightarrow> string \<Rightarrow> plan_state \<Rightarrow> plan_state" where
  "plan_variant term variant st =
     (case st of (by_key, dropped) \<Rightarrow>
        let key = canonical_key variant
        in if key = [] then (by_key, if variant = term then dropped @ [variant] else dropped)
           else case map_of by_key key of
                  None \<Rightarrow> (AList.update key (planned variant) by_key, dropped)
                | Some existing \<Rightarrow>
                    if score variant > pt_score existing
                    then (AList.update key (planned variant) by_key, dropped @ [pt_normalized existing])
                    else (by_key, dropped @ [variant]))"

definition plan_raw :: "SearchLimits \<Rightarrow> pyval \<Rightarrow> plan_state \<Rightarrow> plan_state" where
  "plan_raw limits raw st =
     (case sanitize limits raw of
        None \<Rightarrow> (fst st, snd st @ [safe_preview raw])
      | Some term \<Rightarrow> fold (plan_variant term) (expand_variants term) st)"

definition rank :: "PlannedTerm \<Rightarrow> rat \<times> string" where
  "rank p = (- pt_score p, pt_normalized p)"

definition pinned_keys :: "SearchLimits \<Rightarrow> pyval list \<Rightarrow> string set" where
  "pinned_keys limits raws =
     set (filter (\<lambda>k. k \<noteq> []) (map canonical_key (List.map_filter (sanitize limits) raws)))"

definition plan :: "SearchLimits \<Rightarrow> pyval list \<Rightarrow> PlanResult" where
  "plan limits raw_terms =
     (case fold (plan_raw limits) raw_terms ([], []) of (by_key, dropped) \<Rightarrow>
        let normalized = sort_key rank (map snd by_key);
            keys = pinned_keys limits raw_terms;
            pinned = filter (\<lambda>p. pt_key p \<in> keys) normalized;
            variants = filter (\<lambda>p. pt_key p \<notin> keys) normalized;
            budget = max (max_terms limits) (int (length pinned));
            kept = sort_key rank (pinned @ take (nat (budget - int (length pinned))) variants);
            kept_keys = pt_key ` set kept
        in \<lparr>pr_terms = kept,
            pr_dropped = dropped @ map pt_normalized (filter (\<lambda>p. pt_key p \<notin> kept_keys) normalized)\<rparr>)"

section \<open>Every spelling is planned or reported\<close>

definition spellings :: "SearchLimits \<Rightarrow> pyval \<Rightarrow> string set" where
  "spellings limits raw = (case sanitize limits raw of None \<Rightarrow> {} | Some term \<Rightarrow> set (expand_variants term))"

definition plan_inv :: "string set \<Rightarrow> plan_state \<Rightarrow> bool" where
  "plan_inv seen st \<longleftrightarrow>
     distinct (map fst (fst st))
     \<and> (\<forall>(k, p) \<in> set (fst st). k = pt_key p \<and> k \<noteq> [] \<and> (\<exists>v \<in> seen. p = planned v))
     \<and> (\<forall>v \<in> seen. canonical_key v \<noteq> [] \<longrightarrow>
          (\<exists>p. map_of (fst st) (canonical_key v) = Some p \<and> score v \<le> pt_score p
             \<and> (pt_normalized p = v \<or> v \<in> set (snd st))))"

lemma planned_simps [simp]:
  "pt_normalized (planned v) = v" "pt_key (planned v) = canonical_key v" "pt_score (planned v) = score v"
  by (simp_all add: planned_def)

lemma plan_inv_start: "plan_inv {} ([], [])"
  by (simp add: plan_inv_def)

lemma plan_inv_dropped: "plan_inv seen st \<Longrightarrow> plan_inv seen (fst st, snd st @ ds)"
  by (fastforce simp: plan_inv_def)

lemma set_update_planned:
  "distinct (map fst al) \<Longrightarrow> set (AList.update k p al) = insert (k, p) {x \<in> set al. fst x \<noteq> k}"
  by (induction al) (auto simp: image_iff)

lemma plan_variant_inv:
  assumes "plan_inv seen st"
  shows "plan_inv (insert v seen) (plan_variant term v st)"
proof -
  obtain al dropped where st: "st = (al, dropped)" by (cases st)
  note inv = assms [unfolded st plan_inv_def fst_conv snd_conv]
  have best: "\<exists>p. map_of al (canonical_key w) = Some p \<and> score w \<le> pt_score p
      \<and> (pt_normalized p = w \<or> w \<in> set dropped)" if "w \<in> seen" "canonical_key w \<noteq> []" for w
    using conjunct2 [OF conjunct2 [OF inv]] that by blast
  consider (blank) "canonical_key v = []"
    | (new) "canonical_key v \<noteq> []" "map_of al (canonical_key v) = None"
    | (old) e where "canonical_key v \<noteq> []" "map_of al (canonical_key v) = Some e"
    by (cases "map_of al (canonical_key v)") auto
  then show ?thesis
  proof cases
    case blank
    then show ?thesis using inv by (fastforce simp: st plan_variant_def plan_inv_def)
  next
    case new
    have d: "distinct (map fst (AList.update (canonical_key v) (planned v) al))"
      using inv by (simp add: distinct_update)
    have "plan_variant term v st = (AList.update (canonical_key v) (planned v) al, dropped)"
      using new by (simp add: st plan_variant_def Let_def)
    then show ?thesis
      unfolding plan_inv_def using inv d new
      by (auto simp: set_update_planned update_conv')
  next
    case (old e)
    then have e: "(canonical_key v, e) \<in> set al" by (blast intro: map_of_SomeD)
    show ?thesis
    proof (cases "score v > pt_score e")
      case True
      have d: "distinct (map fst (AList.update (canonical_key v) (planned v) al))"
        using inv by (simp add: distinct_update)
      have step: "plan_variant term v st
          = (AList.update (canonical_key v) (planned v) al, dropped @ [pt_normalized e])"
        using old True by (simp add: st plan_variant_def Let_def)
      have "\<exists>p. map_of (AList.update (canonical_key v) (planned v) al) (canonical_key w) = Some p
          \<and> score w \<le> pt_score p \<and> (pt_normalized p = w \<or> w \<in> set (dropped @ [pt_normalized e]))"
        if w: "w \<in> insert v seen" "canonical_key w \<noteq> []" for w
      proof (cases "canonical_key w = canonical_key v")
        case True
        show ?thesis
        proof (cases "w = v")
          case False
          then obtain p where "map_of al (canonical_key w) = Some p" "score w \<le> pt_score p"
              "pt_normalized p = w \<or> w \<in> set dropped"
            using best [of w] w by auto
          then show ?thesis using old True \<open>score v > pt_score e\<close> by (auto simp: update_conv')
        qed (simp add: update_conv')
      next
        case False
        then show ?thesis using best [of w] w by (auto simp: update_conv')
      qed
      then show ?thesis
        unfolding step plan_inv_def using inv d old by (auto simp: set_update_planned)
    next
      case False
      have "plan_variant term v st = (al, dropped @ [v])"
        using old False by (simp add: st plan_variant_def Let_def)
      then show ?thesis
        unfolding plan_inv_def using inv old False by fastforce
    qed
  qed
qed

lemma plan_variants_inv:
  "plan_inv seen st \<Longrightarrow> plan_inv (seen \<union> set vs) (fold (plan_variant term) vs st)"
proof (induction vs arbitrary: seen st)
  case (Cons v vs)
  from Cons.IH [OF plan_variant_inv [OF Cons.prems]] show ?case by simp
qed simp

lemma plan_raw_inv: "plan_inv seen st \<Longrightarrow> plan_inv (seen \<union> spellings limits raw) (plan_raw limits raw st)"
  by (cases "sanitize limits raw") (simp_all add: plan_raw_def spellings_def plan_inv_dropped plan_variants_inv)

lemma plan_raws_inv:
  "plan_inv seen st \<Longrightarrow>
   plan_inv (seen \<union> (\<Union>raw \<in> set raws. spellings limits raw)) (fold (plan_raw limits) raws st)"
proof (induction raws arbitrary: seen st)
  case (Cons raw raws)
  from Cons.IH [OF plan_raw_inv [OF Cons.prems]] show ?case by (simp add: Un_assoc)
qed simp

lemma plan_fold_inv:
  "plan_inv (\<Union>raw \<in> set raws. spellings limits raw) (fold (plan_raw limits) raws ([], []))"
  using plan_raws_inv [OF plan_inv_start] by simp

text \<open>A cleaned title is its own first spelling, and its key is not empty.\<close>

lemma add_spelling_mono: "set vs \<subseteq> set (add_spelling s vs)"
  by (auto simp: add_spelling_def)

lemma add_folded_mono: "set vs \<subseteq> set (add_folded s vs)"
  by (simp add: add_folded_def Let_def add_spelling_mono)

lemma add_with_fold_mono: "set vs \<subseteq> set (add_with_fold s vs)"
  using add_spelling_mono [of vs s] add_spelling_mono [of "add_spelling s vs" "ascii_fold s"]
  by (auto simp: add_with_fold_def Let_def)

lemma fold_add_mono: "set vs \<subseteq> set (fold add_with_fold ss vs)"
proof (induction ss arbitrary: vs)
  case (Cons s ss)
  then show ?case using add_with_fold_mono [of vs s] by (simp add: subset_trans)
qed simp

lemma term_expanded:
  assumes "term \<noteq> []"
  shows "term \<in> set (expand_variants term)"
proof -
  have mono: "set vs \<subseteq> set (if b then add_spelling s vs else vs)"
    "set vs \<subseteq> set (if b then add_folded s (add_spelling s vs) else vs)"
    "set vs \<subseteq> set (case p of None \<Rightarrow> vs | Some q \<Rightarrow> add_spelling q vs)"
    "set vs \<subseteq> set (case p of None \<Rightarrow> vs | Some q \<Rightarrow> add_with_fold q vs)" for b s vs p
    using add_spelling_mono [of vs] add_folded_mono [of "add_spelling s vs" s] add_with_fold_mono [of vs]
    by (simp_all split: option.split) blast
  have "term \<in> set (add_folded term (add_spelling term []))"
    using assms add_folded_mono [of "add_spelling term []" "term"] by (auto simp: add_spelling_def)
  then show ?thesis
    unfolding expand_variants_def Let_def
    by (intro subsetD [OF mono(4)] subsetD [OF fold_add_mono] subsetD [OF mono(3)] subsetD [OF mono(1)]
        subsetD [OF mono(2)])
qed

lemma lower_code:
  "(of_char (py_lower_char c) :: nat) =
     (let n = of_char c in if (65 \<le> n \<and> n \<le> 90) \<or> (192 \<le> n \<and> n \<le> 222 \<and> n \<noteq> 215) then n + 32 else n)"
  by (simp add: py_lower_char_def Let_def of_char_char_of_small)

lemma alnum_lower: "py_isalnum c \<Longrightarrow> py_isalnum (py_lower_char c)"
proof (cases "py_lower_char c = c")
  case False
  then have "(65 \<le> (of_char c :: nat) \<and> (of_char c :: nat) \<le> 90)
      \<or> (192 \<le> (of_char c :: nat) \<and> (of_char c :: nat) \<le> 222 \<and> (of_char c :: nat) \<noteq> 215)"
    unfolding py_lower_char_def Let_def by presburger
  then have "(of_char (py_lower_char c) :: nat) = of_char c + 32"
    "(97 \<le> (of_char c :: nat) + 32 \<and> (of_char c :: nat) + 32 \<le> 122)
      \<or> (216 \<le> (of_char c :: nat) + 32 \<and> (of_char c :: nat) + 32 \<le> 246)
      \<or> (248 \<le> (of_char c :: nat) + 32 \<and> (of_char c :: nat) + 32 \<le> 255)"
    by (simp add: lower_code Let_def, arith)
  then show ?thesis unfolding py_isalnum_def Let_def by metis
qed simp

lemma strip_keeps_text: "c \<in> set s \<Longrightarrow> \<not> py_isspace c \<Longrightarrow> py_strip s \<noteq> []"
proof -
  assume c: "c \<in> set s" "\<not> py_isspace c"
  then have "c \<in> set (py_lstrip s)"
    unfolding py_lstrip_def by (induction s) auto
  then have "dropWhile py_isspace (rev (py_lstrip s)) \<noteq> []" using c(2) by (auto simp: dropWhile_eq_Nil_conv)
  then show "py_strip s \<noteq> []" by (simp add: py_strip_def py_rstrip_def)
qed

lemma sanitize_key:
  assumes "sanitize limits raw = Some term"
  shows "term \<noteq> []" and "canonical_key term \<noteq> []"
proof -
  obtain c where c: "c \<in> set term" "py_isalnum c" and ne: "term \<noteq> []"
    using assms by (auto simp: sanitize_def Let_def list_ex_iff split: pyval.splits if_splits)
  show "term \<noteq> []" by (rule ne)
  have "py_lower_char c \<in> set (filter (\<lambda>c. py_isalnum c \<or> c = CHR '' '') (py_lower term))"
    using c by (simp add: py_lower_def alnum_lower)
  moreover have "\<not> py_isspace (py_lower_char c)" using alnum_lower [OF c(2)] space_not_alnum by blast
  ultimately show "canonical_key term \<noteq> []" unfolding canonical_key_def by (rule strip_keeps_text)
qed

section \<open>The plan keeps the caller's titles within its budget\<close>

lemma key_inj: "distinct (map f xs) \<Longrightarrow> inj_on f (set xs)" "distinct (map f xs) \<Longrightarrow> distinct xs"
  by (simp_all add: distinct_map)

lemma distinct_map_sort: "distinct (map f (sort_key g xs)) \<longleftrightarrow> distinct (map f xs)"
  by (simp add: distinct_map)

lemma plan_parts:
  assumes "fold (plan_raw limits) raws ([], []) = (al, dropped)"
  defines "ps \<equiv> map snd al"
  shows "distinct (map pt_key ps)"
    and "p \<in> set ps \<Longrightarrow> pt_key p \<noteq> [] \<and> (\<exists>raw \<in> set raws. \<exists>v \<in> spellings limits raw. p = planned v)"
    and "raw \<in> set raws \<Longrightarrow> v \<in> spellings limits raw \<Longrightarrow> canonical_key v \<noteq> [] \<Longrightarrow>
      \<exists>p \<in> set ps. pt_key p = canonical_key v \<and> score v \<le> pt_score p
        \<and> (pt_normalized p = v \<or> v \<in> set dropped)"
proof -
  let ?seen = "\<Union>raw \<in> set raws. spellings limits raw"
  have inv: "plan_inv ?seen (al, dropped)" using plan_fold_inv [of limits raws] assms(1) by simp
  have "map pt_key ps = map fst al"
    using inv unfolding plan_inv_def ps_def by (auto intro!: map_cong)
  then show "distinct (map pt_key ps)" using inv by (simp add: plan_inv_def)
  show "p \<in> set ps \<Longrightarrow> pt_key p \<noteq> [] \<and> (\<exists>raw \<in> set raws. \<exists>v \<in> spellings limits raw. p = planned v)"
    using inv unfolding plan_inv_def ps_def by fastforce
  show "\<exists>p \<in> set ps. pt_key p = canonical_key v \<and> score v \<le> pt_score p \<and> (pt_normalized p = v \<or> v \<in> set dropped)"
    if "raw \<in> set raws" "v \<in> spellings limits raw" "canonical_key v \<noteq> []"
  proof -
    have "\<exists>p. map_of al (canonical_key v) = Some p \<and> score v \<le> pt_score p
        \<and> (pt_normalized p = v \<or> v \<in> set dropped)"
      using inv that unfolding plan_inv_def by auto
    then obtain p where p: "(canonical_key v, p) \<in> set al" "score v \<le> pt_score p"
        "pt_normalized p = v \<or> v \<in> set dropped"
      by (auto dest: map_of_SomeD)
    then have "pt_key p = canonical_key v" using inv unfolding plan_inv_def by fastforce
    then show ?thesis using p unfolding ps_def by force
  qed
qed

lemma plan_unfold:
  assumes "fold (plan_raw limits) raws ([], []) = (al, dropped)"
  defines "normalized \<equiv> sort_key rank (map snd al)"
  defines "pinned \<equiv> filter (\<lambda>p. pt_key p \<in> pinned_keys limits raws) normalized"
    and "others \<equiv> filter (\<lambda>p. pt_key p \<notin> pinned_keys limits raws) normalized"
  defines "kept \<equiv> pinned @ take (nat (max (max_terms limits) (int (length pinned)) - int (length pinned))) others"
  shows "pr_terms (plan limits raws) = sort_key rank kept"
    and "pr_dropped (plan limits raws)
      = dropped @ map pt_normalized (filter (\<lambda>p. pt_key p \<notin> pt_key ` set kept) normalized)"
  using assms(1) by (simp_all add: plan_def Let_def normalized_def pinned_def others_def kept_def)


text \<open>
  C38. The planned terms have distinct keys, best score first, and are no more than the budget unless the
  caller's titles alone are; every spelling with a key is either planned or reported as dropped.
\<close>
theorem plan_within_budget:
  "distinct (map pt_key (pr_terms (plan limits raws)))
   \<and> sorted (map rank (pr_terms (plan limits raws)))
   \<and> length (pr_terms (plan limits raws)) \<le> max (nat (max_terms limits)) (card (pinned_keys limits raws))
   \<and> (\<forall>raw \<in> set raws. \<forall>v \<in> spellings limits raw. canonical_key v \<noteq> [] \<longrightarrow>
        v \<in> pt_normalized ` set (pr_terms (plan limits raws)) \<union> set (pr_dropped (plan limits raws)))"
proof -
  obtain al dropped where st: "fold (plan_raw limits) raws ([], []) = (al, dropped)"
    by (cases "fold (plan_raw limits) raws ([], [])")
  note parts = plan_parts [OF st] and unf = plan_unfold [OF st]
  let ?N = "sort_key rank (map snd al)"
  let ?pin = "filter (\<lambda>p. pt_key p \<in> pinned_keys limits raws) ?N"
  let ?oth = "filter (\<lambda>p. pt_key p \<notin> pinned_keys limits raws) ?N"
  let ?t = "take (nat (max (max_terms limits) (int (length ?pin)) - int (length ?pin))) ?oth"
  have inj: "distinct ?N" "inj_on pt_key (set ?N)"
    using key_inj [OF parts(1)] by simp_all
  have sub: "set (?pin @ ?t) \<subseteq> set ?N" using set_take_subset [of _ ?oth] by auto
  have "distinct (?pin @ ?t)" using inj(1) set_take_subset [of _ ?oth] by auto
  then have "distinct (map pt_key (?pin @ ?t))"
    unfolding distinct_map using inj_on_subset [OF inj(2) sub] by blast
  then have d: "distinct (map pt_key (pr_terms (plan limits raws)))"
    unfolding unf distinct_map_sort .
  have "distinct (map pt_key ?pin)" using inj unfolding distinct_map by (auto intro: inj_on_subset)
  then have "length ?pin = card (pt_key ` set ?pin)" by (metis distinct_card length_map set_map)
  also have "\<dots> \<le> card (pinned_keys limits raws)"
    by (rule card_mono) (auto simp: pinned_keys_def)
  finally have len: "length (pr_terms (plan limits raws)) \<le> max (nat (max_terms limits)) (card (pinned_keys limits raws))"
    unfolding unf by simp
  have found: "v \<in> pt_normalized ` set (pr_terms (plan limits raws)) \<union> set (pr_dropped (plan limits raws))"
    if given: "raw \<in> set raws" "v \<in> spellings limits raw" "canonical_key v \<noteq> []" for raw v
  proof -
    obtain p where p: "p \<in> set (map snd al)" "pt_normalized p = v \<or> v \<in> set dropped"
      using parts(3) [OF given] by blast
    then show ?thesis
    proof (cases "v \<in> set dropped")
      case False
      then have v: "pt_normalized p = v" using p by blast
      show ?thesis
      proof (cases "p \<in> set (?pin @ ?t)")
        case True
        then show ?thesis using v unfolding unf by force
      next
        case False
        then have "pt_key p \<notin> pt_key ` set (?pin @ ?t)" using inj(2) sub p(1) by (auto dest: inj_onD)
        then show ?thesis using v p(1) unfolding unf by force
      qed
    qed (simp add: unf)
  qed
  have "sorted (map rank (pr_terms (plan limits raws)))" unfolding unf by simp
  then show ?thesis using d len found by blast
qed

section \<open>Examples\<close>

definition sample_titles :: "pyval list" where
  "sample_titles = [PStr ''Grand Blue Season 3'', PStr '' Grand  Blue '', PInt 7, PStr ''Saijo no Osewa: a very long subtitle nobody types'']"


theorem plan_within_budget_witness:
  "''Grand Blue'' \<in> pt_normalized ` set (pr_terms (plan DEFAULT_LIMITS sample_titles))
     \<union> set (pr_dropped (plan DEFAULT_LIMITS sample_titles))"
proof -
  have s: "sanitize DEFAULT_LIMITS (PStr '' Grand  Blue '') = Some ''Grand Blue''" by code_simp
  then have "''Grand Blue'' \<in> spellings DEFAULT_LIMITS (PStr '' Grand  Blue '')"
    using sanitize_key(1) [OF s] by (simp add: spellings_def term_expanded)
  moreover have "PStr '' Grand  Blue '' \<in> set sample_titles" by (simp add: sample_titles_def)
  ultimately show ?thesis
    using plan_within_budget [of DEFAULT_LIMITS sample_titles] sanitize_key(2) [OF s] by blast
qed

end
