(* ===== verification/SearchResults.thy ===== *)
theory SearchResults
  imports SearchPlan TorrentNames "HOL-Library.Multiset"
begin

text \<open>
  The rows a release search returns: filtering of engines (\<open>adapters/search/engine_policy.py\<close>),
  parsing (\<open>adapters/search/parser.py\<close>), adult releases (\<open>domain/policies/adult_content.py\<close>),
  duplicates (\<open>adapters/search/dedupe.py\<close>) and ranking (\<open>adapters/search/ranking.py\<close>).  The parser
  of titles and the decoding of UTF-8 are arguments.
\<close>

section \<open>Engines\<close>

record SearchProfile =
  pf_name :: string
  pf_limits :: SearchLimits
  pf_allow_insecure :: bool
  pf_allow_no_timeout :: bool
  pf_allow_nsfw :: bool
  pf_engines :: "string list option"
  pf_category :: string
  pf_rank_results :: bool

record EngineRecord =
  en_enabled :: bool
  en_insecure_tls :: bool
  en_missing_timeout :: bool
  en_nsfw :: bool

record EnginePolicy =
  ep_records :: "(string \<times> EngineRecord) list"
  ep_default_action :: string

definition known_engines :: "EnginePolicy \<Rightarrow> string list" where
  "known_engines P = sort (map fst (ep_records P))"

definition evaluate_engine :: "EnginePolicy \<Rightarrow> string \<Rightarrow> SearchProfile \<Rightarrow> string list option \<Rightarrow> bool \<times> string" where
  "evaluate_engine P engine profile allowlist =
     (if allowlist \<noteq> None \<and> py_lower engine \<notin> set (the allowlist) then (False, ''not_in_explicit_allowlist'')
      else case map_of (ep_records P) engine of
             None \<Rightarrow>
               if ep_default_action P = ''allow'' then (True, ''unknown_engine_default_allow'')
               else (False, ''unknown_engine_default_deny'')
           | Some r \<Rightarrow>
               if \<not> en_enabled r then (False, ''policy_disabled'')
               else if en_insecure_tls r \<and> \<not> pf_allow_insecure profile then (False, ''requires_insecure_tls'')
               else if en_missing_timeout r \<and> \<not> pf_allow_no_timeout profile then (False, ''missing_timeout'')
               else if en_nsfw r \<and> \<not> pf_allow_nsfw profile then (False, ''nsfw_blocked'')
               else (True, ''ok''))"

definition filter_engines :: "EnginePolicy \<Rightarrow> string list \<Rightarrow> SearchProfile \<Rightarrow> string list" where
  "filter_engines P candidates profile =
     (let allowlist = (case pf_engines profile of
                         None \<Rightarrow> None | Some es \<Rightarrow> if es = [] then None else Some (map py_lower es))
      in filter (\<lambda>engine. fst (evaluate_engine P engine profile allowlist)) candidates)"

section \<open>Adult releases\<close>

definition rx_word :: "rx \<Rightarrow> rx" where
  "rx_word r = rx_seq [WordB, r, WordB]"

definition ADULT_TITLE_PATTERNS :: "rx list" where
  "ADULT_TITLE_PATTERNS =
     [rx_word (rx_istr ''hentai''), rx_istr ''[18+]'', rx_istr ''(18+)'', rx_word (rx_istr ''18+''),
      rx_word (rx_istr ''uncensored''), rx_word (Sequ (rx_istr ''doujin'') (Rep 0 (Some 1) (rx_istr ''shi''))),
      rx_word (rx_istr ''xxx''), rx_word (rx_istr ''porn''),
      rx_word (rx_seq [rx_istr ''adult'', SPACES_RE, rx_istr ''only'']), rx_word (rx_istr ''oppai''),
      rx_word (rx_istr ''loli''), rx_word (rx_istr ''shotacon''), rx_word (rx_istr ''shota'')]"

definition is_adult_torrent :: "string \<Rightarrow> string \<Rightarrow> bool" where
  "is_adult_torrent name engine_url =
     (let title = py_strip name
      in if title = [] then False
         else if list_ex (\<lambda>p. found_in p title) ADULT_TITLE_PATTERNS then True
         else py_contains (py_lower engine_url) ''sukebei'')"

section \<open>Parsing\<close>

record TorrentResult =
  rs_link :: string
  rs_name :: string
  rs_size :: int
  rs_seeds :: int
  rs_leech :: int
  rs_engine_url :: string
  rs_desc_link :: "string option"
  rs_infohash :: "string option"
  rs_parsed :: "pyval option"

definition result_as_dict :: "TorrentResult \<Rightarrow> pydict" where
  "result_as_dict r =
     [(''link'', PStr (rs_link r)), (''name'', PStr (rs_name r)), (''size'', PInt (rs_size r)),
      (''seeds'', PInt (rs_seeds r)), (''leech'', PInt (rs_leech r)), (''engine_url'', PStr (rs_engine_url r)),
      (''desc_link'', PStr (or_empty (rs_desc_link r))),
      (''infohash'', case rs_infohash r of None \<Rightarrow> PNone | Some h \<Rightarrow> PStr h),
      (''parsed'', case rs_parsed r of None \<Rightarrow> PNone | Some p \<Rightarrow> p)]"

definition MAGNET_RE :: rx where
  "MAGNET_RE =
     rx_seq [rx_istr ''magnet:?xt=urn:'', Rep 1 None (Cls ascii_alnum), rx_chr CHR '':'', Cls ascii_alnum]"

definition clean_text :: "string \<Rightarrow> string" where
  "clean_text value = py_join '' '' (py_split (drop_controls value))"

definition extract_infohash :: "string \<Rightarrow> string option" where
  "extract_infohash magnet = map_option py_lower (infohash_search magnet)"

text \<open>\<open>int(str(raw).strip() or 0)\<close>, or 0; never negative.\<close>

definition safe_int :: "pyval \<Rightarrow> int" where
  "safe_int raw =
     (case raw of
        PNone \<Rightarrow> 0
      | _ \<Rightarrow> (let text = py_strip (py_str raw)
              in if text = [] then 0 else case parse_int text of None \<Rightarrow> 0 | Some n \<Rightarrow> max 0 n))"

definition size_of_field :: "pyval \<Rightarrow> int" where
  "size_of_field size_v =
     (case py_int (py_or size_v (PInt 0)) of None \<Rightarrow> 0 | Some n \<Rightarrow> max 0 n)"

definition from_fields ::
  "(string \<Rightarrow> pyval res) \<Rightarrow> string \<Rightarrow> string \<Rightarrow> pyval \<Rightarrow> pyval \<Rightarrow> pyval \<Rightarrow> string \<Rightarrow> string option \<Rightarrow>
   TorrentResult option" where
  "from_fields parse_title link name size_v seeds leech engine_url desc_link =
     (let magnet = py_strip link; clean_name = clean_text name; clean_engine = py_strip engine_url
      in if rmatch_start MAGNET_RE magnet = None then None
         else if clean_name = [] \<or> clean_engine = [] then None
         else Some \<lparr>rs_link = magnet, rs_name = clean_name, rs_size = size_of_field size_v,
                    rs_seeds = safe_int seeds, rs_leech = safe_int leech, rs_engine_url = clean_engine,
                    rs_desc_link = or_none (py_strip (or_empty desc_link)),
                    rs_infohash = extract_infohash magnet,
                    rs_parsed = (case parse_title clean_name of Inl _ \<Rightarrow> None | Inr p \<Rightarrow> Some p)\<rparr>)"

definition PRETTY_KEYS :: "string list" where
  "PRETTY_KEYS = [''link'', ''name'', ''size'', ''seeds'', ''leech'', ''engine_url'', ''desc_link'']"

text \<open>A line of output: its bytes; \<open>decode\<close> is \<open>bytes.decode("utf-8", errors="replace")\<close>.\<close>

definition parse_line ::
  "(string \<Rightarrow> pyval res) \<Rightarrow> (string \<Rightarrow> string) \<Rightarrow> int \<Rightarrow> string \<Rightarrow> TorrentResult option" where
  "parse_line parse_title decode max_bytes line =
     (if line = [] then None
      else if int (length line) > max_bytes then None
      else let text = py_strip (decode line); parts = py_split_on CHR ''|'' text
           in if text = [] then None
              else if length parts < length PRETTY_KEYS - 1 then None
              else let record = zip PRETTY_KEYS parts;
                       field = (\<lambda>k d. case map_of record k of None \<Rightarrow> d | Some v \<Rightarrow> PStr v);
                       text_of = (\<lambda>k. or_empty (map_of record k))
                   in from_fields parse_title (text_of ''link'') (text_of ''name'')
                        (field ''size'' (PStr ''0'')) (field ''seeds'' PNone) (field ''leech'' PNone)
                        (text_of ''engine_url'') (map_of record ''desc_link''))"

section \<open>Duplicates\<close>

text \<open>
  The compatibility decomposition, which is only compared: characters that it composes differently
  stay apart.  The four marks that decompose into a blank and a combining mark keep the blank.
\<close>

definition nfkd_char :: "char \<Rightarrow> string" where
  "nfkd_char c = (if (of_char c :: nat) \<in> {168, 175, 180, 184} then [CHR '' '', c] else [nfkc_char c])"

definition normalize_name :: "string \<Rightarrow> string" where
  "normalize_name name = py_join '' '' (py_split (py_casefold (concat (map nfkd_char name))))"

definition result_fingerprint :: "TorrentResult \<Rightarrow> string list" where
  "result_fingerprint r =
     (if rs_infohash r \<noteq> None \<and> rs_infohash r \<noteq> Some []
      then [''ih'', py_lower (py_strip (or_empty (rs_infohash r)))]
      else [''nf'', normalize_name (rs_name r), int_str (rs_size r), py_lower (py_strip (rs_engine_url r)),
            py_lower (py_strip (or_empty (rs_desc_link r)))])"

definition register :: "string list list \<Rightarrow> TorrentResult \<Rightarrow> string list list \<times> string list option" where
  "register seen r =
     (let fp = result_fingerprint r in if fp \<in> set seen then (seen, None) else (fp # seen, Some fp))"

text \<open>The rows that are not registered yet, one after the other.\<close>

fun unregistered :: "string list list \<Rightarrow> TorrentResult list \<Rightarrow> TorrentResult list" where
  "unregistered seen [] = []"
| "unregistered seen (r # rs) =
     (case register seen r of
        (seen', None) \<Rightarrow> unregistered seen' rs
      | (seen', Some fp) \<Rightarrow> r # unregistered seen' rs)"

interpretation dedupe: first_seen_filter unregistered result_fingerprint
  by unfold_locales (simp_all add: register_def Let_def)

section \<open>Ranking\<close>

definition result_key :: "TorrentResult \<Rightarrow> int \<times> int \<times> string \<times> string" where
  "result_key r = (- rs_seeds r, - rs_size r, py_casefold (rs_name r), rs_engine_url r)"

definition sort_results :: "TorrentResult list \<Rightarrow> TorrentResult list" where
  "sort_results results = sort_key result_key results"

section \<open>What the rows satisfy\<close>

lemma parsed_row_valid:
  assumes "from_fields parse_title link name size_v seeds leech engine_url desc_link = Some r"
  shows "rs_name r \<noteq> [] \<and> rs_engine_url r \<noteq> [] \<and> 0 \<le> rs_size r \<and> 0 \<le> rs_seeds r \<and> 0 \<le> rs_leech r
    \<and> py_strip (rs_name r) = rs_name r \<and> rs_desc_link r \<noteq> Some []"
proof -
  have "0 \<le> size_of_field v" for v by (auto simp: size_of_field_def split: option.split)
  moreover have "0 \<le> safe_int v" for v by (auto simp: safe_int_def Let_def split: option.split pyval.split)
  moreover have "py_strip (clean_text v) = clean_text v" for v
    unfolding clean_text_def by (rule py_strip_join_blank) (use py_split_words in blast)
  ultimately show ?thesis using assms by (auto simp: from_fields_def Let_def split: if_splits)
qed

text \<open>
  Registering keeps the first row of each fingerprint, and the ranked rows do not depend on the order
  in which engines delivered them as long as no two have the same seeds, size, name and engine.
\<close>
lemma ranking_ignores_arrival_order:
  assumes "mset xs = mset ys" and "inj_on result_key (set xs)"
  shows "sort_results xs = sort_results ys
    \<and> sorted (map result_key (sort_results xs)) \<and> mset (sort_results xs) = mset xs
    \<and> distinct (map result_fingerprint (sort_results (unregistered [] xs)))
    \<and> result_fingerprint ` set (unregistered [] xs) = result_fingerprint ` set xs"
proof -
  have "inj_on result_key (set ys)" using assms by (metis mset_eq_setD)
  then have "sort_key result_key xs = sort_key result_key ys"
    using assms by (intro sort_key_inj_key_eq) simp_all
  then show ?thesis
    using assms(1) dedupe.distinct_go [of "[]" xs] dedupe.keys_go [of "[]" xs]
    by (simp add: sort_results_def distinct_map_sort)
qed

section \<open>Examples\<close>

definition sample_result :: "string \<Rightarrow> int \<Rightarrow> TorrentResult" where
  "sample_result h seeds = \<lparr>rs_link = ''magnet:?xt=urn:btih:'' @ h, rs_name = ''Show - 01'', rs_size = 700,
     rs_seeds = seeds, rs_leech = 0, rs_engine_url = ''http://e'', rs_desc_link = None, rs_infohash = Some h,
     rs_parsed = None\<rparr>"

lemma ranking_ignores_arrival_order_witness:
  "sort_results [sample_result ''aa'' 1, sample_result ''bb'' 2] = sort_results [sample_result ''bb'' 2, sample_result ''aa'' 1]"
  using ranking_ignores_arrival_order [of "[sample_result ''aa'' 1, sample_result ''bb'' 2]" "[sample_result ''bb'' 2, sample_result ''aa'' 1]"]
  by (simp add: sample_result_def result_key_def)

text \<open>Rows with the same seeds, size, name and engine keep the order they arrived in.\<close>

lemma ties_keep_arrival_order:
  "result_fingerprint (sample_result ''aa'' 1) \<noteq> result_fingerprint (sample_result ''bb'' 1)
   \<and> sort_results [sample_result ''aa'' 1, sample_result ''bb'' 1] = [sample_result ''aa'' 1, sample_result ''bb'' 1]
   \<and> sort_results [sample_result ''bb'' 1, sample_result ''aa'' 1] = [sample_result ''bb'' 1, sample_result ''aa'' 1]"
proof -
  have "result_fingerprint (sample_result ''aa'' 1) \<noteq> result_fingerprint (sample_result ''bb'' 1)" by code_simp
  then show ?thesis by (simp add: sort_results_def sample_result_def result_key_def)
qed

end
