(* ===== verification/SubsPleaseApi.thy ===== *)
theory SubsPleaseApi
  imports SearchResults
begin

text \<open>
  The client of the SubsPlease search (\<open>adapters/search/subsplease_api.py\<close>).  Fetching a page and
  decoding JSON are arguments, over a world of their own; text is Latin-1, so the separators of
  titles beyond code point 255 cannot occur.
\<close>

section \<open>Small conversions\<close>

fun split_first :: "string \<Rightarrow> string \<Rightarrow> (string \<times> string) option" where
  "split_first sep [] = (if sep = [] then Some ([], []) else None)"
| "split_first sep (c # cs) =
     (if py_startswith (c # cs) sep then Some ([], drop (length sep) (c # cs))
      else map_option (\<lambda>(a, b). (c # a, b)) (split_first sep cs))"

text \<open>\<open>s.split(sep, 1)[0]\<close> and \<open>s.rsplit(sep, 1)[0]\<close>.\<close>

definition before_first :: "string \<Rightarrow> string \<Rightarrow> string" where
  "before_first sep s = (case split_first sep s of None \<Rightarrow> s | Some (a, b) \<Rightarrow> a)"

definition before_last :: "string \<Rightarrow> string \<Rightarrow> string" where
  "before_last sep s = (case split_first (rev sep) (rev s) of None \<Rightarrow> s | Some (a, b) \<Rightarrow> rev b)"

text \<open>
  \<open>urllib.parse.unquote\<close>; an escape of a byte above 127 stands for a character that is neither a
  digit nor a blank.
\<close>

definition hex_value :: "char \<Rightarrow> nat option" where
  "hex_value c =
     (let n = (of_char c :: nat)
      in if 48 \<le> n \<and> n \<le> 57 then Some (n - 48) else if 65 \<le> n \<and> n \<le> 70 then Some (n - 55)
         else if 97 \<le> n \<and> n \<le> 102 then Some (n - 87) else None)"

fun unquote :: "string \<Rightarrow> string" where
  "unquote (c # h # l # cs) =
     (if c = CHR ''%'' then
        (case (hex_value h, hex_value l) of
           (Some a, Some b) \<Rightarrow> (if 16 * a + b < 128 then char_of (16 * a + b) else char_of (255::nat)) # unquote cs
         | _ \<Rightarrow> c # unquote (h # l # cs))
      else c # unquote (h # l # cs))"
| "unquote cs = cs"

definition query_text :: "string \<Rightarrow> string" where
  "query_text s = unquote (py_replace_char CHR ''+'' CHR '' '' s)"

text \<open>\<open>parse_qs(urlparse(magnet).query)\<close>: the pairs with a value.\<close>

definition url_query :: "string \<Rightarrow> string" where
  "url_query url =
     (let url = filter (\<lambda>c. (of_char c :: nat) \<notin> {9, 10, 13}) url
      in drop 1 (dropWhile (\<lambda>c. c \<noteq> CHR ''?'') (takeWhile (\<lambda>c. c \<noteq> CHR ''#'') url)))"

definition query_pairs :: "string \<Rightarrow> (string \<times> string) list" where
  "query_pairs q =
     List.map_filter (\<lambda>field.
       let name = takeWhile (\<lambda>c. c \<noteq> CHR ''='') field; rest = dropWhile (\<lambda>c. c \<noteq> CHR ''='') field
       in if length rest \<le> 1 then None else Some (query_text name, query_text (tl rest)))
     (py_split_on CHR ''&'' q)"

definition magnet_size_bytes :: "string \<Rightarrow> int" where
  "magnet_size_bytes magnet =
     (case map_of (query_pairs (url_query magnet)) ''xl'' of
        None \<Rightarrow> 0
      | Some raw \<Rightarrow> (case parse_int (py_strip raw) of None \<Rightarrow> 0 | Some n \<Rightarrow> max 0 n))"

definition episode_int :: "pyval \<Rightarrow> int option" where
  "episode_int value =
     (if value = PNone then None
      else let text = py_strip (py_str value) in if text = [] then None else parse_int text)"

definition remove_p :: "string \<Rightarrow> string" where
  "remove_p s = (if py_endswith s ''p'' then butlast s else s)"

definition normalize_resolution :: "string option \<Rightarrow> string option" where
  "normalize_resolution value =
     (case value of None \<Rightarrow> None | Some v \<Rightarrow> or_none (remove_p (py_lower (py_strip v))))"

section \<open>Queries\<close>

definition ascii_letters :: "string \<Rightarrow> string" where
  "ascii_letters s = filter ascii_alnum s"

definition is_useful_search_query :: "string \<Rightarrow> bool" where
  "is_useful_search_query term =
     (let clean = py_strip term in if clean = [] then False else length (ascii_letters clean) \<ge> 4)"

text \<open>The variants so far; those with the same lower case are one.\<close>

definition add_variant :: "string \<Rightarrow> string list \<Rightarrow> string list" where
  "add_variant value variants =
     (let text = strip_chars '' -,;:'' (py_join '' '' (py_split value))
      in if text = [] \<or> \<not> is_useful_search_query text then variants
         else if py_lower text \<in> set (map py_lower variants) then variants
         else variants @ [text])"

definition search_query_variants :: "string \<Rightarrow> string list" where
  "search_query_variants term =
     (let clean = py_strip term
      in if clean = [] \<or> \<not> is_useful_search_query clean then []
         else let v1 = add_variant clean [];
                  v2 = (if py_contains clean '':'' then add_variant (before_first '':'' clean) v1
                        else if py_contains clean '' - '' then add_variant (before_first '' - '' clean) v1
                        else v1);
                  ws = py_split clean;
                  v3 = (if length ws > 4 then add_variant (py_join '' '' (take 4 ws)) v2 else v2)
              in if length ws > 6 then add_variant (py_join '' '' (take 6 ws)) v3 else v3)"

section \<open>Rows of an answer\<close>

text \<open>\<open>f"{episode:02d}"\<close>.\<close>

definition two_digits :: "int \<Rightarrow> string" where
  "two_digits n = (if n < 0 then CHR ''-'' # nat_str_pad 1 (nat (- n)) else nat_str_pad 2 (nat n))"

definition display_name :: "string \<Rightarrow> string \<Rightarrow> int option \<Rightarrow> string \<Rightarrow> bool \<Rightarrow> string" where
  "display_name result_name show_name episode resolution interactive =
     (let res_label = resolution @ ''p''; name = py_strip result_name;
          t1 = (if show_name \<noteq> [] then show_name
                else if name \<noteq> [] then py_strip (before_last '' - '' name) else []);
          title = (if t1 \<noteq> [] then t1 else if name \<noteq> [] then name else ''release'')
      in if interactive
         then (if name \<noteq> [] then ''[SubsPlease] '' @ name @ '' ('' @ res_label @ '')''
               else case episode of
                      Some n \<Rightarrow> ''[SubsPlease] '' @ title @ '' - '' @ two_digits n @ '' ('' @ res_label @ '')''
                    | None \<Rightarrow> ''[SubsPlease] '' @ title @ '' ('' @ res_label @ '')'')
         else case episode of
                Some n \<Rightarrow> ''[SubsPlease] '' @ title @ '' - '' @ two_digits n @ '' ('' @ res_label @ '') [API].mkv''
              | None \<Rightarrow> ''[SubsPlease] '' @ (if name \<noteq> [] then name else title) @ '' ('' @ res_label @ '') [API].mkv'')"

definition dict_text :: "pydict \<Rightarrow> string \<Rightarrow> string" where
  "dict_text d k = py_strip (str_or_empty (dget d k))"

definition ENGINE_URL :: string where
  "ENGINE_URL = ''https://subsplease.org/''"

definition download_row ::
  "string option \<Rightarrow> string \<Rightarrow> string \<Rightarrow> int option \<Rightarrow> string \<Rightarrow> pyval \<Rightarrow> pydict option" where
  "download_row wanted result_name show_name episode page download =
     (case download of
        PDict d \<Rightarrow>
          let res = remove_p (py_lower (dict_text d ''res'')); magnet = dict_text d ''magnet'';
              t1 = (if show_name \<noteq> [] then show_name else py_strip (before_last '' - '' result_name));
              t2 = (if t1 \<noteq> [] then t1
                    else let n = py_strip (if result_name \<noteq> [] then result_name else ''release'')
                         in if n \<noteq> [] then n else ''release'')
          in if res = [] then None
             else if wanted \<noteq> None \<and> Some res \<noteq> wanted then None
             else if \<not> py_startswith (py_lower magnet) ''magnet:'' then None
             else Some
               [(''name'', PStr (display_name result_name t2 episode res (wanted = None))), (''show'', PStr t2),
                (''episode'', case episode of None \<Rightarrow> PNone | Some n \<Rightarrow> PInt n),
                (''link'', PStr magnet), (''url'', PStr magnet), (''magnet'', PStr magnet),
                (''infohash'', case extract_infohash magnet of None \<Rightarrow> PNone | Some h \<Rightarrow> PStr h),
                (''resolution'', PStr (res @ ''p'')), (''publisher'', PStr ''subsplease''),
                (''source'', PStr ''subsplease-api''), (''size'', PInt (magnet_size_bytes magnet)),
                (''seeds'', PInt 0), (''leech'', PInt 0), (''engine_url'', PStr ENGINE_URL),
                (''desc_link'', PStr (if page \<noteq> [] then ENGINE_URL @ ''shows/'' @ page else []))]
      | _ \<Rightarrow> None)"

definition payload_rows :: "string option \<Rightarrow> bool \<Rightarrow> string \<times> pyval \<Rightarrow> pydict list" where
  "payload_rows wanted include_batches entry =
     (case entry of (result_name, PDict data) \<Rightarrow>
        let episode = episode_int (dget data ''episode'')
        in if episode = None \<and> \<not> include_batches then []
           else (case dget data ''downloads'' of
                   PList downloads \<Rightarrow>
                     List.map_filter
                       (download_row wanted result_name (dict_text data ''show'') episode (dict_text data ''page''))
                       downloads
                 | _ \<Rightarrow> [])
      | _ \<Rightarrow> [])"

definition parse_search_payload :: "pyval \<Rightarrow> string option \<Rightarrow> bool \<Rightarrow> pydict list" where
  "parse_search_payload payload resolution include_batches =
     (case payload of
        PDict d \<Rightarrow> concat (map (payload_rows (normalize_resolution resolution) include_batches) d)
      | _ \<Rightarrow> [])"

section \<open>The candidate for an episode\<close>

definition candidate_row :: "string list \<Rightarrow> int \<Rightarrow> pydict \<Rightarrow> bool" where
  "candidate_row ts target row =
     (let name = dict_text row ''name''; ep0 = episode_int (dget row ''episode''); show0 = dict_text row ''show'';
          parsed = (if ep0 = None \<and> name \<noteq> [] then parse_subsplease_release name else None);
          ep = (case parsed of None \<Rightarrow> ep0 | Some p \<Rightarrow> sp_episode p);
          show1 = (case parsed of None \<Rightarrow> show0 | Some p \<Rightarrow> if show0 \<noteq> [] then show0 else show_title p);
          title = (if show1 \<noteq> [] then show1 else name);
          season = (case extract_title_season title of None \<Rightarrow> 1 | Some s \<Rightarrow> if s = 0 then 1 else s)
      in ep = Some target \<and> season = expected_catalog_season ts
         \<and> list_ex (\<lambda>t. release_matches_catalog title t \<or> (name \<noteq> [] \<and> release_matches_catalog name t)) ts
         \<and> py_strip (str_or_empty (py_or (dget row ''magnet'') (py_or (dget row ''link'') (dget row ''url'')))) \<noteq> [])"

definition find_api_candidate :: "pydict list \<Rightarrow> string list \<Rightarrow> int \<Rightarrow> pydict option" where
  "find_api_candidate results search_terms episode =
     (let ts = filter (\<lambda>t. t \<noteq> []) (map py_strip search_terms)
      in if ts = [] then None else find (candidate_row ts episode) results)"

section \<open>Searching\<close>

record 'w api =
  api_fetch :: "'w \<Rightarrow> string \<Rightarrow> nat \<Rightarrow> 'w \<times> string res"
  api_loads :: "string \<Rightarrow> pyval option"
  api_max_pages :: int
  api_resolution :: string

definition api_row_key :: "pydict \<Rightarrow> string" where
  "api_row_key row = str_or_empty (py_or (dget row ''infohash'') (py_or (dget row ''magnet'') (dget row ''name'')))"

fun new_rows :: "string list \<Rightarrow> pydict list \<Rightarrow> pydict list" where
  "new_rows seen [] = []"
| "new_rows seen (row # rows) =
     (if api_row_key row \<in> set seen then new_rows seen rows else row # new_rows (api_row_key row # seen) rows)"

interpretation rows: first_seen_filter new_rows api_row_key
  by unfold_locales simp_all

text \<open>The loop over the pages; \<open>n\<close> pages are left.\<close>

fun collect_pages ::
  "'w api \<Rightarrow> string \<Rightarrow> string option \<Rightarrow> bool \<Rightarrow> nat \<Rightarrow> nat \<Rightarrow> pydict list \<Rightarrow> 'w \<Rightarrow> 'w \<times> pydict list" where
  "collect_pages A query resolution batches 0 page collected w = (w, collected)"
| "collect_pages A query resolution batches (Suc n) page collected w =
     (case api_fetch A w query page of
        (w1, Inl _) \<Rightarrow> (w1, collected)
      | (w1, Inr raw) \<Rightarrow>
          (case (if raw = [] then Some (PDict []) else api_loads A raw) of
             None \<Rightarrow> (w1, collected)
           | Some payload \<Rightarrow>
               if \<not> py_truthy payload then (w1, collected)
               else case payload of
                      PDict d \<Rightarrow>
                        collect_pages A query resolution batches n (page + 1)
                          (collected @ new_rows (map api_row_key collected) (parse_search_payload payload resolution batches)) w1
                    | _ \<Rightarrow> (w1, collected)))"

definition collect :: "'w api \<Rightarrow> string \<Rightarrow> string option \<Rightarrow> bool \<Rightarrow> 'w \<Rightarrow> 'w \<times> pydict list" where
  "collect A query resolution batches w =
     (let clean = py_strip query
      in if clean = [] \<or> \<not> is_useful_search_query clean then (w, [])
         else collect_pages A clean resolution batches (nat (max 1 (api_max_pages A))) 0 [] w)"

definition search :: "'w api \<Rightarrow> string \<Rightarrow> 'w \<Rightarrow> 'w \<times> pydict list" where
  "search A query w = collect A query (Some (api_resolution A)) False w"

definition search_interactive :: "'w api \<Rightarrow> string \<Rightarrow> 'w \<Rightarrow> 'w \<times> pydict list" where
  "search_interactive A query w = collect A query None True w"

text \<open>The queries of a term, those already tried left out; the first match ends the search.\<close>

fun try_queries ::
  "'w api \<Rightarrow> string list \<Rightarrow> int \<Rightarrow> string list \<Rightarrow> string list \<Rightarrow> 'w \<Rightarrow> 'w \<times> string list \<times> pydict option" where
  "try_queries A search_terms episode tried [] w = (w, tried, None)"
| "try_queries A search_terms episode tried (query # queries) w =
     (if py_lower query \<in> set tried then try_queries A search_terms episode tried queries w
      else case search A query w of
             (w1, results) \<Rightarrow>
               (case find_api_candidate results search_terms episode of
                  Some row \<Rightarrow> (w1, py_lower query # tried, Some row)
                | None \<Rightarrow> try_queries A search_terms episode (py_lower query # tried) queries w1))"

fun try_terms ::
  "'w api \<Rightarrow> string list \<Rightarrow> int \<Rightarrow> string list \<Rightarrow> string list \<Rightarrow> 'w \<Rightarrow> 'w \<times> string list \<times> pydict option" where
  "try_terms A search_terms episode tried [] w = (w, tried, None)"
| "try_terms A search_terms episode tried (t # ts) w =
     (case try_queries A search_terms episode tried (search_query_variants t) w of
        (w1, tried1, Some row) \<Rightarrow> (w1, tried1, Some row)
      | (w1, tried1, None) \<Rightarrow> try_terms A search_terms episode tried1 ts w1)"

definition search_for_episode :: "'w api \<Rightarrow> string list \<Rightarrow> int \<Rightarrow> 'w \<Rightarrow> 'w \<times> pydict option" where
  "search_for_episode A search_terms episode w =
     (case try_terms A search_terms episode [] search_terms w of (w1, tried, r) \<Rightarrow> (w1, r))"

section \<open>What a search for an episode returns\<close>

definition api_row :: "string option \<Rightarrow> bool \<Rightarrow> pydict \<Rightarrow> bool" where
  "api_row wanted batches row \<longleftrightarrow>
     (\<exists>res magnet. dget row ''resolution'' = PStr (res @ ''p'') \<and> (wanted \<noteq> None \<longrightarrow> wanted = Some res)
        \<and> dget row ''magnet'' = PStr magnet \<and> py_startswith (py_lower magnet) ''magnet:'')
     \<and> (batches \<or> (\<exists>n. dget row ''episode'' = PInt n))"

lemma download_row_fine:
  assumes "download_row wanted result_name show_name episode page download = Some row"
    and "batches \<or> episode \<noteq> None"
  shows "api_row wanted batches row"
proof -
  obtain d where d: "download = PDict d" using assms(1) by (cases download) (simp_all add: download_row_def)
  show ?thesis
    using assms unfolding d api_row_def
    by (cases episode) (auto simp: download_row_def Let_def split: if_splits)
qed

lemma payload_row_fine:
  assumes "row \<in> set (parse_search_payload payload resolution batches)"
  shows "api_row (normalize_resolution resolution) batches row"
proof -
  obtain d name v where d: "payload = PDict d" "row \<in> set (payload_rows (normalize_resolution resolution) batches (name, v))"
    using assms by (cases payload) (auto simp: parse_search_payload_def)
  then show ?thesis
    by (cases v) (auto simp: payload_rows_def Let_def map_filter_def split: if_splits pyval.splits
        intro!: download_row_fine)
qed

lemma collect_pages_fine:
  assumes "collect_pages A query resolution batches n page collected w = (w', rows)"
    and "\<forall>row \<in> set collected. api_row (normalize_resolution resolution) batches row"
    and "distinct (map api_row_key collected)"
  shows "(\<forall>row \<in> set rows. api_row (normalize_resolution resolution) batches row) \<and> distinct (map api_row_key rows)"
  using assms
proof (induction A query resolution batches n page collected w rule: collect_pages.induct)
  case (2 A query resolution batches n page collected w)
  show ?case
  proof (cases "rows = collected")
    case False
    obtain w1 raw where f: "api_fetch A w query page = (w1, Inr raw)"
      using 2(2) False by (cases "api_fetch A w query page"; cases "snd (api_fetch A w query page)") auto
    obtain d where p: "(if raw = [] then Some (PDict []) else api_loads A raw) = Some (PDict d)" "py_truthy (PDict d)"
      and step: "collect_pages A query resolution batches n (page + 1)
          (collected @ new_rows (map api_row_key collected) (parse_search_payload (PDict d) resolution batches)) w1 = (w', rows)"
      using 2(2) False f by (auto split: option.splits if_splits pyval.splits)
    let ?new = "new_rows (map api_row_key collected) (parse_search_payload (PDict d) resolution batches)"
    have "\<forall>row \<in> set ?new. api_row (normalize_resolution resolution) batches row"
      using rows.set_go payload_row_fine by blast
    moreover have "api_row_key ` set ?new \<inter> set (map api_row_key collected) = {}" by (auto simp: rows.keys_go)
    ultimately show ?thesis
      using 2(1) [OF f [symmetric] refl p(1) _ refl step] 2(3,4) p(2) rows.distinct_go by auto
  qed (use 2 in simp)
qed auto

lemma search_fine:
  assumes "search A query w = (w', rows)"
  shows "\<forall>row \<in> set rows. api_row (normalize_resolution (Some (api_resolution A))) False row"
  using assms collect_pages_fine [of A "py_strip query" "Some (api_resolution A)" False _ 0 "[]" w w' rows]
  by (auto simp: search_def collect_def Let_def split: if_splits)

lemma candidate_found:
  assumes "find_api_candidate results search_terms episode = Some row"
  shows "row \<in> set results \<and> candidate_row (filter (\<lambda>t. t \<noteq> []) (map py_strip search_terms)) episode row"
  using assms
  by (auto simp: find_api_candidate_def Let_def find_Some_iff in_set_conv_nth split: if_splits)

lemma try_queries_found:
  "try_queries A search_terms episode tried queries w = (w', tried', Some row) \<Longrightarrow>
   \<exists>query w1 w2 results. search A query w1 = (w2, results)
     \<and> find_api_candidate results search_terms episode = Some row"
  by (induction A search_terms episode tried queries w rule: try_queries.induct)
    (auto split: if_splits prod.splits option.splits)

lemma try_terms_found:
  "try_terms A search_terms episode tried ts w = (w', tried', Some row) \<Longrightarrow>
   \<exists>query w1 w2 results. search A query w1 = (w2, results)
     \<and> find_api_candidate results search_terms episode = Some row"
proof (induction A search_terms episode tried ts w rule: try_terms.induct)
  case (2 A search_terms episode tried t ts w)
  then show ?case
    by (cases "try_queries A search_terms episode tried (search_query_variants t) w";
        cases "snd (snd (try_queries A search_terms episode tried (search_query_variants t) w))")
      (auto dest: try_queries_found)
qed simp

text \<open>
  C35. What a search for an episode returns is a row for that episode in the resolution of the client,
  with a magnet link, and its show or its name matches one of the search terms.
\<close>
theorem episode_search_is_sound:
  assumes "search_for_episode A search_terms episode w = (w', Some row)"
    and "normalize_resolution (Some (api_resolution A)) = Some resolution"
  shows "dget row ''episode'' = PInt episode \<and> dget row ''resolution'' = PStr (resolution @ ''p'')
    \<and> (\<exists>magnet. dget row ''magnet'' = PStr magnet \<and> py_startswith (py_lower magnet) ''magnet:'')
    \<and> (\<exists>t \<in> set search_terms. release_matches_catalog (dict_text row ''show'') (py_strip t)
         \<or> release_matches_catalog (dict_text row ''name'') (py_strip t))"
proof -
  obtain query w1 w2 results where s: "search A query w1 = (w2, results)"
    and f: "find_api_candidate results search_terms episode = Some row"
    using assms(1) try_terms_found
    by (fastforce simp: search_for_episode_def split: prod.splits)
  let ?ts = "filter (\<lambda>t. t \<noteq> []) (map py_strip search_terms)"
  have row: "row \<in> set results" "candidate_row ?ts episode row" using candidate_found [OF f] by auto
  then have fine: "api_row (Some resolution) False row" using search_fine [OF s] assms(2) by auto
  then obtain n where n: "dget row ''episode'' = PInt n" by (auto simp: api_row_def)
  have int_text: "py_strip (int_str i) = int_str i" "int_str i \<noteq> []" for i
  proof -
    have "\<forall>c \<in> set (int_str i). \<not> py_isspace c"
      using nat_str_digits digit_not_space by (auto simp: int_str_def py_isspace_def)
    then show "py_strip (int_str i) = int_str i" by (rule py_strip_no_space)
  qed (simp add: int_str_def)
  have "episode_int (PInt n) = Some n"
    by (simp add: episode_int_def py_str_def int_text parse_int_str Let_def)
  then have "n = episode" using row(2) n by (auto simp: candidate_row_def Let_def split: option.splits)
  moreover have "\<exists>t \<in> set ?ts. release_matches_catalog (dict_text row ''show'') t \<or> release_matches_catalog (dict_text row ''name'') t"
    using row(2) n \<open>episode_int (PInt n) = Some n\<close>
    by (auto simp: candidate_row_def Let_def list_ex_iff split: if_splits)
  ultimately show ?thesis using fine n by (auto simp: api_row_def)
qed

section \<open>Example\<close>

definition sample_answer :: pyval where
  "sample_answer = PDict [(''Grand Blue - 03'', PDict [(''show'', PStr ''Grand Blue''), (''episode'', PStr ''03''),
     (''downloads'', PList [PDict [(''res'', PStr ''1080''), (''magnet'', PStr ''magnet:?xt=urn:btih:AA'')],
                            PDict [(''res'', PStr ''720''), (''magnet'', PStr ''magnet:?xt=urn:btih:BB'')]])])]"

definition sample_api :: "unit api" where
  "sample_api = \<lparr>api_fetch = (\<lambda>w query page. (w, if page = 0 then Inr ''{...}'' else Inl (RuntimeError ''timeout''))),
     api_loads = (\<lambda>raw. Some sample_answer), api_max_pages = 3, api_resolution = ''720''\<rparr>"

definition sample_found :: pydict where
  "sample_found = hd (parse_search_payload sample_answer (Some ''720'') False)"

lemma sample_found_parts:
  "dict_text sample_found ''show'' = ''Grand Blue''" "episode_int (dget sample_found ''episode'') = Some 3"
  "py_strip (str_or_empty (py_or (dget sample_found ''magnet'') (py_or (dget sample_found ''link'') (dget sample_found ''url'')))) \<noteq> []"
  by code_simp+

lemma sample_candidate: "candidate_row [''Grand Blue''] 3 sample_found"
proof -
  have "release_matches_catalog ''Grand Blue'' ''Grand Blue''" "expected_catalog_season [''Grand Blue''] = 1"
    "extract_title_season ''Grand Blue'' = None"
    by code_simp+
  then show ?thesis using sample_found_parts by (simp add: candidate_row_def Let_def)
qed

lemma sample_episode_found: "search_for_episode sample_api [''Grand Blue''] 3 () = ((), Some sample_found)"
proof -
  have "search_query_variants ''Grand Blue'' = [''Grand Blue'']" by code_simp
  moreover have "search sample_api ''Grand Blue'' () = ((), [sample_found])" unfolding sample_found_def by code_simp
  moreover have "filter (\<lambda>t. t \<noteq> []) (map py_strip [''Grand Blue'']) = [''Grand Blue'']" by code_simp
  ultimately show ?thesis
    using sample_candidate by (simp add: search_for_episode_def find_api_candidate_def Let_def del: filter.simps list.map)
qed

theorem episode_search_is_sound_witness:
  "\<exists>row. snd (search_for_episode sample_api [''Grand Blue''] 3 ()) = Some row \<and> dget row ''resolution'' = PStr ''720p''"
proof -
  have "normalize_resolution (Some (api_resolution sample_api)) = Some ''720''" by code_simp
  then show ?thesis using episode_search_is_sound [OF sample_episode_found] sample_episode_found by simp
qed

end
