(* ===== verification/SearchRun.thy ===== *)
theory SearchRun
  imports SubsPleaseApi
begin

text \<open>
  One search: the worker that reads the output of an engine process
  (\<open>adapters/search/worker.py\<close>), the search of SubsPlease and the stream from the workers to the
  caller (\<open>adapters/search/facade.py\<close>).
\<close>

section \<open>The worker\<close>

text \<open>
  What one turn of the reading loop sees: whether the request is cancelled or the time is up, the
  bytes \<open>readline\<close> returned and whether the process has exited.
\<close>

record line_read =
  lr_cancelled :: bool
  lr_late :: bool
  lr_data :: string
  lr_exited :: bool

definition ends_line :: "string \<Rightarrow> bool" where
  "ends_line s = (s \<noteq> [] \<and> last s = char_of (10::nat))"

fun drain_overflow :: "int \<Rightarrow> line_read list \<Rightarrow> line_read list" where
  "drain_overflow remaining [] = []"
| "drain_overflow remaining (e # es) =
     (if remaining \<le> 0 then e # es
      else if lr_data e = [] \<or> ends_line (lr_data e) then es
      else drain_overflow (remaining - int (length (lr_data e))) es)"

lemma drain_length: "length (drain_overflow remaining es) \<le> length es"
  by (induction remaining es rule: drain_overflow.induct) auto

text \<open>The lines \<open>_iterate_stdout\<close> yields.\<close>

function iterate_stdout :: "int \<Rightarrow> line_read list \<Rightarrow> string list" where
  "iterate_stdout max_line [] = []"
| "iterate_stdout max_line (e # es) =
     (if lr_cancelled e \<or> lr_late e then []
      else if lr_data e = [] then (if lr_exited e then [] else iterate_stdout max_line es)
      else if int (length (lr_data e)) > max_line
           then iterate_stdout max_line (drain_overflow (max_line * 8) es)
      else lr_data e # iterate_stdout max_line es)"
  by pat_completeness auto
termination
  by (relation "measure (\<lambda>(m, es). length es)") (auto simp: drain_length less_Suc_eq_le)

text \<open>The loop over the lines: the results handed to the sink, the bytes read and the exit reason.\<close>

fun read_lines ::
  "(string \<Rightarrow> TorrentResult option) \<Rightarrow> SearchLimits \<Rightarrow> int \<Rightarrow> int \<Rightarrow> string list \<Rightarrow>
   TorrentResult list \<times> int \<times> string" where
  "read_lines parse limits rows bytes_read [] = ([], bytes_read, ''completed'')"
| "read_lines parse limits rows bytes_read (line # lines) =
     (let n = bytes_read + int (length line)
      in if n > max_output_bytes limits then ([], n, ''output_cap_exceeded'')
         else case parse line of
                None \<Rightarrow> read_lines parse limits rows n lines
              | Some r \<Rightarrow>
                  if rows + 1 \<ge> max_results_per_term limits then ([r], n, ''result_cap_reached'')
                  else (case read_lines parse limits (rows + 1) n lines of
                          (rs, b, reason) \<Rightarrow> (r # rs, b, reason)))"

record JobOutcome =
  jo_exit_reason :: string
  jo_rows_emitted :: nat
  jo_bytes_read :: int

text \<open>
  \<open>NovaWorker.run\<close>: \<open>before\<close> and \<open>after\<close> say whether the request is cancelled when it starts and when
  the loop is over; \<open>spawned\<close> is \<open>None\<close> when the program is not found.
\<close>

definition run_nova_worker ::
  "(string \<Rightarrow> TorrentResult option) \<Rightarrow> SearchLimits \<Rightarrow> bool \<Rightarrow> line_read list option \<Rightarrow> bool \<Rightarrow>
   TorrentResult list \<times> JobOutcome" where
  "run_nova_worker parse limits before spawned after =
     (if before then ([], \<lparr>jo_exit_reason = ''cancelled_before_start'', jo_rows_emitted = 0, jo_bytes_read = 0\<rparr>)
      else case spawned of
             None \<Rightarrow> ([], \<lparr>jo_exit_reason = ''spawn_failed'', jo_rows_emitted = 0, jo_bytes_read = 0\<rparr>)
           | Some es \<Rightarrow>
               (case read_lines parse limits 0 0 (iterate_stdout (max_line_bytes limits) es) of
                  (rs, b, reason) \<Rightarrow>
                    (rs, \<lparr>jo_exit_reason = (if after \<and> reason = ''completed'' then ''cancelled'' else reason),
                          jo_rows_emitted = length rs, jo_bytes_read = b\<rparr>)))"

text \<open>The job of one planned term, once it has a slot of the pool; a late one is not started.\<close>

definition run_job ::
  "(string \<Rightarrow> TorrentResult option) \<Rightarrow> SearchLimits \<Rightarrow> bool \<Rightarrow> bool \<Rightarrow> line_read list option \<Rightarrow> bool \<Rightarrow>
   TorrentResult list \<times> JobOutcome" where
  "run_job parse limits late before spawned after =
     (if before \<or> late
      then ([], \<lparr>jo_exit_reason = ''skipped_after_deadline'', jo_rows_emitted = 0, jo_bytes_read = 0\<rparr>)
      else run_nova_worker parse limits before spawned after)"

section \<open>SubsPlease\<close>

text \<open>
  The adapter and the clock over a world of their own; \<open>sp_stop\<close> looks at the cancellation and at
  the clock and names the reason to stop.
\<close>

record 'w sp_client =
  sp_search :: "'w \<Rightarrow> string \<Rightarrow> 'w \<times> pydict list res"
  sp_stop :: "'w \<Rightarrow> 'w \<times> string option"

definition row_text :: "pydict \<Rightarrow> string list \<Rightarrow> string" where
  "row_text row ks = str_or_empty (foldr (\<lambda>k v. py_or (dget row k) v) ks (PStr []))"

definition row_field :: "pydict \<Rightarrow> string \<Rightarrow> pyval \<Rightarrow> pyval" where
  "row_field row k d = (case map_of row k of None \<Rightarrow> d | Some v \<Rightarrow> v)"

definition row_result :: "(string \<Rightarrow> pyval res) \<Rightarrow> pydict \<Rightarrow> TorrentResult option" where
  "row_result parse_title row =
     from_fields parse_title (row_text row [''link'', ''magnet'']) (row_text row [''name''])
       (row_field row ''size'' (PInt 0)) (row_field row ''seeds'' (PInt 0)) (row_field row ''leech'' (PInt 0))
       (let e = row_text row [''engine_url''] in if e = [] then ''https://subsplease.org/'' else e)
       (or_none (row_text row [''desc_link'']))"

text \<open>The rows of one term, until the budget of the term is used up or the search is stopped.\<close>

fun subsplease_rows ::
  "'w sp_client \<Rightarrow> (string \<Rightarrow> pyval res) \<Rightarrow> int \<Rightarrow> int \<Rightarrow> pydict list \<Rightarrow> 'w \<Rightarrow>
   'w \<times> TorrentResult list \<times> string option" where
  "subsplease_rows C parse_title limit per_term [] w = (w, [], None)"
| "subsplease_rows C parse_title limit per_term (row # rows) w =
     (case sp_stop C w of
        (w1, Some reason) \<Rightarrow> (w1, [], Some reason)
      | (w1, None) \<Rightarrow>
          if per_term \<ge> limit then (w1, [], None)
          else case row_result parse_title row of
                 None \<Rightarrow> subsplease_rows C parse_title limit per_term rows w1
               | Some r \<Rightarrow>
                   (case subsplease_rows C parse_title limit (per_term + 1) rows w1 of
                      (w2, rs, stop) \<Rightarrow> (w2, r # rs, stop)))"

text \<open>The loop over the terms; the result has the rows, the exit reason and the terms searched.\<close>

fun subsplease_terms ::
  "'w sp_client \<Rightarrow> (string \<Rightarrow> pyval res) \<Rightarrow> int \<Rightarrow> string \<Rightarrow> string list \<Rightarrow> 'w \<Rightarrow>
   'w \<times> TorrentResult list \<times> string \<times> string list" where
  "subsplease_terms C parse_title limit reason [] w = (w, [], reason, [])"
| "subsplease_terms C parse_title limit reason (t # ts) w =
     (case sp_stop C w of
        (w1, Some stop) \<Rightarrow> (w1, [], stop, [])
      | (w1, None) \<Rightarrow>
          if \<not> is_useful_search_query t then subsplease_terms C parse_title limit reason ts w1
          else (case sp_search C w1 t of
                  (w2, Inl _) \<Rightarrow>
                    (case subsplease_terms C parse_title limit ''error'' ts w2 of
                       (w3, rs, r, seen) \<Rightarrow> (w3, rs, r, t # seen))
                | (w2, Inr rows) \<Rightarrow>
                    (case subsplease_rows C parse_title limit 0 rows w2 of
                       (w3, rs, stop) \<Rightarrow>
                         let reason1 = (case stop of None \<Rightarrow> reason | Some s \<Rightarrow> s)
                         in if reason1 \<noteq> ''ok'' then (w3, rs, reason1, [t])
                            else (case subsplease_terms C parse_title limit reason1 ts w3 of
                                    (w4, rs2, r, seen) \<Rightarrow> (w4, rs @ rs2, r, t # seen)))))"

definition run_subsplease ::
  "'w sp_client option \<Rightarrow> (string \<Rightarrow> pyval res) \<Rightarrow> SearchLimits \<Rightarrow> string list \<Rightarrow> 'w \<Rightarrow>
   'w \<times> TorrentResult list \<times> JobOutcome option" where
  "run_subsplease C parse_title limits ts w =
     (case C of
        None \<Rightarrow> (w, [], None)
      | Some C \<Rightarrow>
          (case subsplease_terms C parse_title (max_results_per_term limits) ''ok'' ts w of
             (w1, rs, reason, seen) \<Rightarrow>
               (w1, rs, Some \<lparr>jo_exit_reason = reason, jo_rows_emitted = length rs, jo_bytes_read = 0\<rparr>)))"

section \<open>The request\<close>

record SearchJob =
  sj_term :: string
  sj_engines :: "string list"
  sj_category :: string

text \<open>
  What a request starts: \<open>None\<close> when there is nothing to search, otherwise the engine jobs and the
  terms SubsPlease is asked for.
\<close>

definition start_search ::
  "SearchProfile \<Rightarrow> EnginePolicy \<Rightarrow> bool \<Rightarrow> pyval list \<Rightarrow> (SearchJob list \<times> string list) option" where
  "start_search profile P use_subsplease titles =
     (let ts = map pt_normalized (pr_terms (plan (pf_limits profile) titles));
          engines = filter_engines P (known_engines P) profile
      in if ts = [] \<or> (engines = [] \<and> \<not> use_subsplease) then None
         else Some (if engines = [] then []
                    else map (\<lambda>t. \<lparr>sj_term = t, sj_engines = engines, sj_category = pf_category profile\<rparr>) ts,
                    ts))"

section \<open>The stream\<close>

datatype stream_item = Item TorrentResult | Sentinel

text \<open>
  \<open>se_registered\<close> are the results between the duplicate check and the look at \<open>_closed\<close> in \<open>put\<close>,
  \<open>se_checked\<close> those between that look and the queue; \<open>se_entering\<close> counts the calls of \<open>close\<close> that
  have seen the stream open, \<open>se_closers\<close> and \<open>se_reclosers\<close> those before their first and their second
  attempt to put the sentinel, \<open>se_droppers\<close> those that make room in between.  Counting an emitted
  result is one step with putting it.
\<close>

record search_state =
  se_seen :: "string list list"
  se_queue :: "stream_item list"
  se_closed :: bool
  se_entering :: nat
  se_closers :: nat
  se_droppers :: nat
  se_reclosers :: nat
  se_cancelled :: bool
  se_registered :: "TorrentResult list"
  se_checked :: "TorrentResult list"
  se_emitted :: nat
  se_out :: "TorrentResult list"
  se_done :: bool

definition search_start :: search_state where
  "search_start = \<lparr>se_seen = [], se_queue = [], se_closed = False, se_entering = 0, se_closers = 0, se_droppers = 0, se_reclosers = 0,
     se_cancelled = False, se_registered = [], se_checked = [], se_emitted = 0, se_out = [], se_done = False\<rparr>"

definition queue_full :: "SearchProfile \<Rightarrow> search_state \<Rightarrow> bool" where
  "queue_full profile st =
     (let c = queue_capacity (pf_limits profile) in 0 < c \<and> c \<le> int (length (se_queue st)))"

text \<open>The sink up to \<open>stream.put\<close>.\<close>

definition sink_register :: "SearchProfile \<Rightarrow> TorrentResult \<Rightarrow> search_state \<Rightarrow> search_state" where
  "sink_register profile r st =
     (if se_cancelled st then st
      else if \<not> pf_allow_nsfw profile \<and> is_adult_torrent (rs_name r) (rs_engine_url r) then st
      else case register (se_seen st) r of
             (seen, None) \<Rightarrow> st
           | (seen, Some fp) \<Rightarrow> st\<lparr>se_seen := seen, se_registered := se_registered st @ [r]\<rparr>)"

definition put_check :: "TorrentResult \<Rightarrow> search_state \<Rightarrow> search_state" where
  "put_check r st =
     (let st1 = st\<lparr>se_registered := remove1 r (se_registered st)\<rparr>
      in if se_closed st then st1\<lparr>se_emitted := se_emitted st + 1\<rparr>
         else st1\<lparr>se_checked := se_checked st @ [r]\<rparr>)"

definition put_queue :: "SearchProfile \<Rightarrow> TorrentResult \<Rightarrow> search_state \<Rightarrow> search_state" where
  "put_queue profile r st =
     (let st1 = st\<lparr>se_checked := remove1 r (se_checked st), se_emitted := se_emitted st + 1\<rparr>
      in if queue_full profile st then st1 else st1\<lparr>se_queue := se_queue st @ [Item r]\<rparr>)"

definition close_put :: "SearchProfile \<Rightarrow> search_state \<Rightarrow> search_state" where
  "close_put profile st =
     (let st1 = st\<lparr>se_closers := se_closers st - 1\<rparr>
      in if queue_full profile st then st1\<lparr>se_droppers := se_droppers st + 1\<rparr>
         else st1\<lparr>se_queue := se_queue st @ [Sentinel]\<rparr>)"

definition close_drop :: "search_state \<Rightarrow> search_state" where
  "close_drop st =
     st\<lparr>se_queue := tl (se_queue st), se_droppers := se_droppers st - 1, se_reclosers := se_reclosers st + 1\<rparr>"

definition close_again :: "SearchProfile \<Rightarrow> search_state \<Rightarrow> search_state" where
  "close_again profile st =
     (let st1 = st\<lparr>se_reclosers := se_reclosers st - 1\<rparr>
      in if queue_full profile st then st1 else st1\<lparr>se_queue := se_queue st @ [Sentinel]\<rparr>)"

definition take_item :: "search_state \<Rightarrow> search_state" where
  "take_item st =
     (case se_queue st of
        [] \<Rightarrow> st\<lparr>se_done := True\<rparr>
      | Item r # q \<Rightarrow> st\<lparr>se_queue := q, se_out := se_out st @ [r]\<rparr>
      | Sentinel # q \<Rightarrow> st\<lparr>se_queue := q, se_done := True\<rparr>)"

text \<open>
  \<open>close\<close> is called by the pool and by the consumer.  Taking from an empty queue is the deadline;
  \<open>stop\<close> is the end of the consumer.
\<close>

inductive search_step :: "SearchProfile \<Rightarrow> TorrentResult set \<Rightarrow> search_state \<Rightarrow> search_state \<Rightarrow> bool"
  for profile produced where
  emit: "r \<in> produced \<Longrightarrow> search_step profile produced st (sink_register profile r st)"
| check: "r \<in> set (se_registered st) \<Longrightarrow> search_step profile produced st (put_check r st)"
| enqueue: "r \<in> set (se_checked st) \<Longrightarrow> search_step profile produced st (put_queue profile r st)"
| enter: "\<not> se_closed st \<Longrightarrow> search_step profile produced st (st\<lparr>se_entering := se_entering st + 1\<rparr>)"
| close: "0 < se_entering st \<Longrightarrow> search_step profile produced st
    (st\<lparr>se_closed := True, se_entering := se_entering st - 1, se_closers := se_closers st + 1\<rparr>)"
| sentinel: "0 < se_closers st \<Longrightarrow> search_step profile produced st (close_put profile st)"
| drop: "0 < se_droppers st \<Longrightarrow> search_step profile produced st (close_drop st)"
| again: "0 < se_reclosers st \<Longrightarrow> search_step profile produced st (close_again profile st)"
| take_next: "\<not> se_done st \<Longrightarrow> search_step profile produced st (take_item st)"
| stop: "search_step profile produced st (st\<lparr>se_done := True, se_cancelled := True\<rparr>)"

text \<open>What the caller gets: in order of arrival, or ranked.\<close>

definition search_output :: "SearchProfile \<Rightarrow> search_state \<Rightarrow> TorrentResult list" where
  "search_output profile st = (if pf_rank_results profile then sort_results (se_out st) else se_out st)"

definition duplicates_dropped :: "search_state \<Rightarrow> nat" where
  "duplicates_dropped st =
     (if length (se_seen st) \<ge> se_emitted st then length (se_seen st) - se_emitted st else 0)"

section \<open>What reaches the caller\<close>

fun items :: "stream_item list \<Rightarrow> TorrentResult list" where
  "items [] = []"
| "items (Item r # q) = r # items q"
| "items (Sentinel # q) = items q"

lemma items_append [simp]: "items (p @ q) = items p @ items q"
  by (induction p rule: items.induct) simp_all

lemma items_tl: "mset (items (tl q)) \<subseteq># mset (items q)"
  by (cases q rule: items.cases) simp_all

definition under_way :: "search_state \<Rightarrow> TorrentResult list" where
  "under_way st = se_registered st @ se_checked st @ items (se_queue st) @ se_out st"

definition search_inv :: "SearchProfile \<Rightarrow> TorrentResult set \<Rightarrow> search_state \<Rightarrow> bool" where
  "search_inv profile produced st \<longleftrightarrow>
     distinct (map result_fingerprint (under_way st))
     \<and> (\<forall>r \<in> set (under_way st). result_fingerprint r \<in> set (se_seen st) \<and> r \<in> produced
          \<and> (pf_allow_nsfw profile \<or> \<not> is_adult_torrent (rs_name r) (rs_engine_url r)))
     \<and> length (se_seen st) = se_emitted st + length (se_registered st) + length (se_checked st)
     \<and> (0 < queue_capacity (pf_limits profile) \<longrightarrow> int (length (se_queue st)) \<le> queue_capacity (pf_limits profile))"

lemma sub_distinct:
  assumes "mset xs \<subseteq># mset ys" and "distinct (map f ys)"
  shows "distinct (map f xs)"
proof -
  have "mset (map f xs) \<subseteq># mset (map f ys)" using assms(1) by (simp add: image_mset_subseteq_mono)
  then have "count (mset (map f xs)) a \<le> count (mset (map f ys)) a" for a by (rule mset_subset_eq_count)
  moreover have "count (mset (map f ys)) a \<le> 1" for a
    using assms(2) by (simp add: distinct_count_atmost_1)
  ultimately have "count (mset (map f xs)) a \<le> 1" for a using le_trans by blast
  then show ?thesis
    by (metis count_mset_0_iff distinct_count_atmost_1 le_antisym less_one linorder_not_le)
qed

lemma search_inv_sub:
  assumes "search_inv profile produced st" and "mset (under_way st') \<subseteq># mset (under_way st)"
    and "se_seen st' = se_seen st"
    and "se_emitted st' + length (se_registered st') + length (se_checked st')
      = se_emitted st + length (se_registered st) + length (se_checked st)"
    and "length (se_queue st') \<le> length (se_queue st) \<or> \<not> queue_full profile st \<and> length (se_queue st') \<le> length (se_queue st) + 1"
  shows "search_inv profile produced st'"
proof -
  have "set (under_way st') \<subseteq> set (under_way st)" using assms(2) by (metis set_mset_mono set_mset_mset)
  moreover have "distinct (map result_fingerprint (under_way st'))"
    using sub_distinct [OF assms(2), of result_fingerprint] assms(1) unfolding search_inv_def by blast
  moreover have "0 < queue_capacity (pf_limits profile) \<longrightarrow> int (length (se_queue st')) \<le> queue_capacity (pf_limits profile)"
    using assms(1,5) by (auto simp: search_inv_def queue_full_def Let_def)
  ultimately show ?thesis using assms(1,3,4) by (auto simp: search_inv_def)
qed

lemma search_inv_register:
  assumes "search_inv profile produced st" and "r \<in> produced"
  shows "search_inv profile produced (sink_register profile r st)"
proof (cases "sink_register profile r st = st")
  case False
  then have new: "result_fingerprint r \<notin> set (se_seen st)"
      "pf_allow_nsfw profile \<or> \<not> is_adult_torrent (rs_name r) (rs_engine_url r)"
    and st': "sink_register profile r st
      = st\<lparr>se_seen := result_fingerprint r # se_seen st, se_registered := se_registered st @ [r]\<rparr>"
    by (auto simp: sink_register_def register_def Let_def split: if_splits)
  have "result_fingerprint r \<notin> result_fingerprint ` set (under_way st)" using assms(1) new(1) by (auto simp: search_inv_def)
  then show ?thesis
    using assms new(2) unfolding st' search_inv_def by (auto simp: under_way_def)
qed (use assms in simp)

lemma search_inv_step:
  assumes "search_step profile produced st st'" and "search_inv profile produced st"
  shows "search_inv profile produced st'"
  using assms
proof cases
  case (check r)
  then show ?thesis
    by (intro search_inv_sub [OF assms(2)])
      (auto simp: put_check_def under_way_def Let_def length_remove1 dest: length_pos_if_in_set)
next
  case (enqueue r)
  then show ?thesis
    by (intro search_inv_sub [OF assms(2)])
      (auto simp: put_queue_def under_way_def Let_def length_remove1 dest: length_pos_if_in_set)
next
  case sentinel
  then show ?thesis
    by (intro search_inv_sub [OF assms(2)]) (auto simp: close_put_def under_way_def Let_def)
next
  case drop
  then show ?thesis
    using items_tl [of "se_queue st"]
    by (intro search_inv_sub [OF assms(2)]) (auto simp: close_drop_def under_way_def)
next
  case again
  then show ?thesis
    by (intro search_inv_sub [OF assms(2)]) (auto simp: close_again_def under_way_def Let_def)
next
  case take_next
  then show ?thesis
    by (intro search_inv_sub [OF assms(2)])
      (auto simp: take_item_def under_way_def split: list.split stream_item.split)
qed (auto intro: search_inv_register search_inv_sub [OF assms(2)] simp: under_way_def)

lemma search_inv_reachable:
  "(search_step profile produced)\<^sup>*\<^sup>* search_start st \<Longrightarrow> search_inv profile produced st"
proof (induction rule: rtranclp_induct)
  case base
  show ?case by (simp add: search_inv_def search_start_def under_way_def)
next
  case (step st st')
  then show ?case by (blast intro: search_inv_step)
qed

text \<open>
  C16. However the workers, the calls of \<open>close\<close> and the consumer interleave, the caller gets results of
  the workers only, no two with one fingerprint and no adult ones unless the profile allows them;
  when the profile asks for it, best first; and the queue stays within its capacity.
\<close>
theorem search_delivers_distinct:
  assumes "(search_step profile produced)\<^sup>*\<^sup>* search_start st"
  shows "distinct (map result_fingerprint (search_output profile st))
    \<and> set (search_output profile st) \<subseteq> produced
    \<and> (\<forall>r \<in> set (search_output profile st).
         pf_allow_nsfw profile \<or> \<not> is_adult_torrent (rs_name r) (rs_engine_url r))
    \<and> (pf_rank_results profile \<longrightarrow> sorted (map result_key (search_output profile st)))
    \<and> (0 < queue_capacity (pf_limits profile) \<longrightarrow> int (length (se_queue st)) \<le> queue_capacity (pf_limits profile))"
proof -
  have inv: "search_inv profile produced st" by (rule search_inv_reachable [OF assms])
  then have d: "distinct (map result_fingerprint (se_out st))" by (simp add: search_inv_def under_way_def)
  moreover have "set (search_output profile st) = set (se_out st)"
    by (simp add: search_output_def sort_results_def)
  moreover have "distinct (map result_fingerprint (search_output profile st))"
    using d by (simp add: search_output_def sort_results_def distinct_map_sort)
  moreover have "pf_rank_results profile \<longrightarrow> sorted (map result_key (search_output profile st))"
    by (simp add: search_output_def sort_results_def)
  ultimately show ?thesis using inv by (auto simp: search_inv_def under_way_def)
qed

text \<open>
  The counter of dropped duplicates counts none: it is the number of results on their way to the
  queue, and 0 once there are none.
\<close>
lemma duplicates_are_not_counted:
  assumes "(search_step profile produced)\<^sup>*\<^sup>* search_start st"
  shows "duplicates_dropped st = length (se_registered st) + length (se_checked st)"
  using search_inv_reachable [OF assms] by (simp add: search_inv_def duplicates_dropped_def)

section \<open>What a worker hands over\<close>

lemma read_lines_spec:
  assumes "read_lines parse limits rows b lines = (rs, n, reason)" and "rows < max 1 (max_results_per_term limits)"
    and "b \<le> n0" and "max_output_bytes limits \<le> n0" and "\<forall>l \<in> set lines. int (length l) \<le> m" and "0 \<le> m"
  shows "rows + int (length rs) \<le> max 1 (max_results_per_term limits)
    \<and> n \<le> n0 + m \<and> set rs \<subseteq> {r. \<exists>l \<in> set lines. parse l = Some r}
    \<and> reason \<in> {''completed'', ''output_cap_exceeded'', ''result_cap_reached''}"
  using assms
proof (induction parse limits rows b lines arbitrary: rs n reason rule: read_lines.induct)
  case (2 parse limits rows b line lines)
  let ?n = "b + int (length line)"
  show ?case
  proof (cases "?n > max_output_bytes limits")
    case True
    then show ?thesis using 2 by (auto simp: Let_def)
  next
    case False
    show ?thesis
    proof (cases "parse line")
      case None
      then have "read_lines parse limits rows ?n lines = (rs, n, reason)" using 2 False by (simp add: Let_def)
      then show ?thesis using 2(1) [OF refl False None] 2 False by auto
    next
      case (Some r)
      show ?thesis
      proof (cases "rows + 1 \<ge> max_results_per_term limits")
        case True
        then have "rs = [r]" "n = ?n" "reason = ''result_cap_reached''"
          using Some False 2(3) by (simp_all add: Let_def)
        then show ?thesis using 2 False Some by auto
      next
        case more: False
        obtain rs' n' reason' where rec: "read_lines parse limits (rows + 1) ?n lines = (rs', n', reason')"
          by (cases "read_lines parse limits (rows + 1) ?n lines")
        have out: "rs = r # rs'" "n = n'" "reason = reason'"
          using Some False more rec 2(3) by (simp_all add: Let_def)
        have "(rows + 1) + int (length rs') \<le> max 1 (max_results_per_term limits)
            \<and> n' \<le> n0 + m \<and> set rs' \<subseteq> {r. \<exists>l \<in> set lines. parse l = Some r}
            \<and> reason' \<in> {''completed'', ''output_cap_exceeded'', ''result_cap_reached''}"
          using 2(2) [OF refl False Some more rec] 2(5-) False more by auto
        then show ?thesis using out Some by auto
      qed
    qed
  qed
qed auto

lemma iterate_lines: "l \<in> set (iterate_stdout m es) \<Longrightarrow> int (length l) \<le> m \<and> l \<noteq> []"
  by (induction m es rule: iterate_stdout.induct) (auto split: if_splits)


text \<open>
  A worker that runs out of time is reported as completed: no outcome of it says that it timed out,
  which is what the summary of a request counts.
\<close>
lemma timeout_is_not_reported:
  "\<not> py_startswith (jo_exit_reason (snd (run_job parse limits late before spawned after))) ''timed_out''"
proof -
  have no: "\<not> py_startswith x ''timed_out''"
    if "x \<in> {''completed'', ''output_cap_exceeded'', ''result_cap_reached'', ''cancelled'', ''spawn_failed'',
      ''cancelled_before_start'', ''skipped_after_deadline''}" for x
    using that by (auto simp: py_startswith_def)
  have "jo_exit_reason (snd (run_job parse limits late before spawned after))
      \<in> {''completed'', ''output_cap_exceeded'', ''result_cap_reached'', ''cancelled'', ''spawn_failed'',
        ''cancelled_before_start'', ''skipped_after_deadline''}"
  proof (cases spawned)
    case (Some es)
    have reasons: "reason \<in> {''completed'', ''output_cap_exceeded'', ''result_cap_reached''}"
      if "read_lines parse limits rows b lines = (ys, n, reason)" for rows b lines ys n reason
      using that
      by (induction parse limits rows b lines arbitrary: ys n reason rule: read_lines.induct)
        (auto simp: Let_def split: if_splits option.splits prod.splits)
    obtain ys n reason where r: "read_lines parse limits 0 0 (iterate_stdout (max_line_bytes limits) es) = (ys, n, reason)"
      by (cases "read_lines parse limits 0 0 (iterate_stdout (max_line_bytes limits) es)")
    show ?thesis using Some r reasons [OF r] by (auto simp: run_job_def run_nova_worker_def)
  qed (auto simp: run_job_def run_nova_worker_def)
  then show ?thesis by (rule no)
qed

section \<open>A failed SubsPlease search\<close>

text \<open>
  When the search of a term fails, the next useful term is the last one that is searched: the terms
  after it have no effect.
\<close>
lemma failed_term_ends_search:
  assumes "is_useful_search_query t" and "is_useful_search_query u"
    and "sp_stop C w = (w1, None)" and "sp_search C w1 t = (w2, Inl e)"
    and "sp_stop C w2 = (w3, None)" and "sp_search C w3 u = (w4, Inr rows)"
    and "snd (snd (subsplease_rows C parse_title limit 0 rows w4)) = None"
  shows "subsplease_terms C parse_title limit ''ok'' (t # u # ts) w
      = subsplease_terms C parse_title limit ''ok'' [t, u] w
    \<and> fst (snd (snd (subsplease_terms C parse_title limit ''ok'' (t # u # ts) w))) = ''error''"
  using assms by (cases "subsplease_rows C parse_title limit 0 rows w4") simp

section \<open>Examples\<close>

definition sample_profile :: SearchProfile where
  "sample_profile = \<lparr>pf_name = ''strict'', pf_limits = DEFAULT_LIMITS\<lparr>max_results_per_term := 1\<rparr>,
     pf_allow_insecure = False, pf_allow_no_timeout = False, pf_allow_nsfw = False, pf_engines = None,
     pf_category = ''anime'', pf_rank_results = True\<rparr>"

definition sample_parse :: "string \<Rightarrow> TorrentResult option" where
  "sample_parse line = parse_line (\<lambda>_. Inr PNone) (\<lambda>bytes. bytes) (max_line_bytes DEFAULT_LIMITS) line"

definition sample_line :: string where
  "sample_line = ''magnet:?xt=urn:btih:AB|Show - 01|700|3|1|http://e''"

definition sample_row :: TorrentResult where
  "sample_row = \<lparr>rs_link = ''magnet:?xt=urn:btih:AB'', rs_name = ''Show - 01'', rs_size = 700, rs_seeds = 3,
     rs_leech = 1, rs_engine_url = ''http://e'', rs_desc_link = None, rs_infohash = Some ''ab'', rs_parsed = Some PNone\<rparr>"

definition sample_reads :: "line_read list" where
  "sample_reads = map (\<lambda>l. \<lparr>lr_cancelled = False, lr_late = False, lr_data = l, lr_exited = True\<rparr>)
     [''noise'', sample_line, sample_line]"

lemma sample_parsed: "sample_parse sample_line = Some sample_row"
  by code_simp

lemma sample_job:
  "run_job sample_parse (pf_limits sample_profile) False False (Some sample_reads) False
     = ([sample_row], \<lparr>jo_exit_reason = ''result_cap_reached'', jo_rows_emitted = 1, jo_bytes_read = 54\<rparr>)"
  by code_simp


definition sample_search :: search_state where
  "sample_search = take_item (put_queue sample_profile sample_row (put_check sample_row
     (sink_register sample_profile sample_row search_start)))"

lemma sample_search_out: "search_output sample_profile sample_search = [sample_row]"
  by code_simp

theorem search_delivers_distinct_witness:
  "set (search_output sample_profile sample_search) \<subseteq> {sample_row} \<and> search_output sample_profile sample_search \<noteq> []"
proof -
  let ?s1 = "sink_register sample_profile sample_row search_start"
  let ?s2 = "put_check sample_row ?s1"
  let ?s3 = "put_queue sample_profile sample_row ?s2"
  have "\<not> is_adult_torrent (rs_name sample_row) (rs_engine_url sample_row)" by code_simp
  then have s1: "?s1 = search_start\<lparr>se_seen := [result_fingerprint sample_row], se_registered := [sample_row]\<rparr>"
    by (simp add: sink_register_def register_def search_start_def Let_def)
  then have more: "sample_row \<in> set (se_registered ?s1)" "sample_row \<in> set (se_checked ?s2)" "\<not> se_done ?s3"
    by (simp_all add: put_check_def put_queue_def search_start_def Let_def)
  have steps: "search_step sample_profile {sample_row} ?s1 ?s2" "search_step sample_profile {sample_row} ?s2 ?s3"
    "search_step sample_profile {sample_row} ?s3 sample_search"
    unfolding sample_search_def by (rule check [OF more(1)], rule enqueue [OF more(2)], rule take_next [OF more(3)])
  have "(search_step sample_profile {sample_row})\<^sup>*\<^sup>* search_start ?s1"
    by (rule r_into_rtranclp, rule emit, simp)
  then have "(search_step sample_profile {sample_row})\<^sup>*\<^sup>* search_start ?s2"
    by (rule rtranclp.rtrancl_into_rtrancl) (rule steps(1))
  then have "(search_step sample_profile {sample_row})\<^sup>*\<^sup>* search_start ?s3"
    by (rule rtranclp.rtrancl_into_rtrancl) (rule steps(2))
  then have "(search_step sample_profile {sample_row})\<^sup>*\<^sup>* search_start sample_search"
    by (rule rtranclp.rtrancl_into_rtrancl) (rule steps(3))
  then show ?thesis using search_delivers_distinct [of sample_profile "{sample_row}" sample_search] sample_search_out by simp
qed

definition failing_client :: "nat sp_client" where
  "failing_client = \<lparr>sp_search = (\<lambda>w t. (w + 1, if w = 0 then Inl (RuntimeError ''timeout'') else Inr [])),
     sp_stop = (\<lambda>w. (w, None))\<rparr>"

lemma third_term_is_not_searched:
  "snd (snd (subsplease_terms failing_client (\<lambda>_. Inr PNone) 50 ''ok'' [''Grand Blue'', ''Tenkosaki'', ''Frieren''] 0))
     = (''error'', [''Grand Blue'', ''Tenkosaki''])"
  by code_simp

end
