(* ===== verification/Spec2Isabelle.thy ===== *)
theory Spec2Isabelle
  imports Covers CatalogIdentity RecordUnion DownloadRun AutoDownload PlaybackLife UserActions Listing
    MariaStore PersistenceQueue FolderMerge SearchRun
begin

text \<open>
  A model of the application core of AnimeManager, a program that keeps a catalogue of anime,
  searches and downloads their episodes and plays them.  File names are relative to \<open>src/\<close>.

  \<^bold>\<open>The program and how its parts interact.\<close>  Providers of metadata are queried in parallel by the
  ingestion pipeline, which collects their payloads, removes duplicates and hands them to a sink.
  The catalogue identity service gives each payload one internal id, folding catalogue rows that
  turn out to be the same anime; it works on the index and merge repositories.  Records are written
  by the database manager in batches, possibly through a write queue, on connections of a pool.
  Users browse the catalogue through listings, and mark anime, episodes and preferences.  The
  automatic download reads those marks, chooses a release and asks the download manager for it;
  the manager drives a torrent client, records torrents in the database and reconciles them with
  the files on disk.  The playback service turns a local file into a stream of segments and guards
  it with tokens.

  \<^bold>\<open>Theories and sources.\<close>

  \<^descr> \<open>Prelude\<close>, \<open>Values\<close>, \<open>Regex\<close>: Python as the code uses it. Strings on Latin-1 text, exceptions
  as values (\<open>domain/errors\<close>), dictionaries as association lists, dynamically typed values, printing
  and parsing of integers, regular expressions.  \<open>Prelude\<close> also holds the locale
  \<open>first_seen_filter\<close> of loops that keep the first item of each key.

  \<^descr> \<open>Contracts\<close>, \<open>Policies\<close>, \<open>Covers\<close>: \<open>shared/contracts.py\<close>, \<open>domain/entities\<close>, \<open>domain/catalog.py\<close>,
  \<open>domain/policies\<close>, \<open>domain/cover_images.py\<close>.

  \<^descr> \<open>Catalog\<close>, \<open>CatalogMerge\<close>, \<open>CatalogIdentity\<close>: \<open>adapters/persistence/catalog_repository.py\<close>,
  \<open>application/services/catalog_merge.py\<close>, \<open>application/services/catalog_identity.py\<close>.  The locale
  \<open>repoint_table\<close> is the contract of the five routines that move rows from a duplicate to its
  canonical id, interpreted on each; \<open>catalog_services\<close> is what the identity service asks of its
  repositories, interpreted on theirs.

  \<^descr> \<open>Ingestion\<close>, \<open>RecordUnion\<close>: \<open>application/services/ingestion_pipeline.py\<close>.

  \<^descr> \<open>TorrentNames\<close>, \<open>TorrentStore\<close>, \<open>TorrentPresence\<close>: infohashes and folder names
  (\<open>adapters/persistence/models.py\<close>, \<open>shared/utils/folder_names.py\<close>), the torrent tables of
  \<open>application/services/database_manager.py\<close> (locale \<open>status_store\<close>), and
  \<open>application/services/torrent_file_presence.py\<close>.

  \<^descr> \<open>FolderMerge\<close>: \<open>application/services/anime_folder_consolidation.py\<close>, merging the library folders
  of one anime.

  \<^descr> \<open>DownloadBase\<close>, \<open>DownloadStatus\<close>, \<open>DownloadRun\<close>: \<open>application/services/download_manager.py\<close>; its
  threads are the steps of \<open>download_step\<close>.

  \<^descr> \<open>ReleaseTitles\<close>, \<open>AutoMatching\<close>, \<open>AutoPrefs\<close>, \<open>AutoDownload\<close>: \<open>shared/utils/title_season.py\<close>,
  \<open>adapters/search/subsplease.py\<close>, \<open>adapters/feeds/rss_match.py\<close> and the modules
  \<open>application/services/auto_download_*.py\<close>.

  \<^descr> \<open>SearchPlan\<close>, \<open>SearchResults\<close>, \<open>SubsPleaseApi\<close>, \<open>SearchRun\<close>: the release search of
  \<open>adapters/search\<close>.  A request plans its terms, starts one worker per term and the SubsPlease
  client, and streams their rows, without duplicates and adult releases, to the caller; workers,
  closing and caller are the steps of \<open>search_step\<close>.

  \<^descr> \<open>PlaybackMath\<close>, \<open>Playback\<close>, \<open>PlaybackLife\<close>: \<open>application/playback\<close>; the calls of a client are the
  steps of \<open>playback_step\<close>.

  \<^descr> \<open>UserActions\<close>, \<open>Listing\<close>: \<open>adapters/persistence/user_actions_repository.py\<close> (locale
  \<open>keyed_table\<close>), and \<open>adapters/persistence/query_builder.py\<close> with the listing operations of the database
  manager and of \<open>adapters/persistence/anime_repository.py\<close>.

  \<^descr> \<open>ConnectionPool\<close>, \<open>SqlRetry\<close>, \<open>MariaStore\<close>, \<open>PersistenceQueue\<close>: \<open>ConnectionPool\<close> and
  \<open>pooled_connection\<close> of \<open>adapters/persistence/base.py\<close>; statements, retries and row operations of
  \<open>adapters/persistence/embeddedMariaDB.py\<close>; \<open>adapters/persistence/genre_metadata.py\<close>; the batches of
  the database manager; \<open>adapters/persistence/queue.py\<close>.  They build on one another: a batch pins
  a connection, runs its statements through the retries, and each statement checks a connection out
  of the pool or uses the pinned one.

  \<^bold>\<open>State and operations.\<close>  An object with state is a record, each of its methods a function from the
  state (and the arguments) to the new state and the result; an exception is the left summand of the
  result.  Injected services, the file system, the network, clocks, the torrent client, the encoder
  and the database server are records of operations over a world of their own and are arguments of
  the definitions; what is asked of them is a hypothesis of the theorem that needs it, and each such
  theorem has an example in which it holds.  Where threads interleave, a step relation takes the
  pieces between two accesses of the shared state as its steps, and properties are proved of all
  reachable states.  Database tables are lists of rows, and a statement is what it does to them,
  except in \<open>MariaStore\<close>, where statements are the texts sent to the server and
  transactions matter: there the state of the server is read off as the statements committed and
  those held back on each connection.

  \<^bold>\<open>What the lemmas show.\<close>  Per component: invariants over all reachable states (unique index after
  repair, torrents indexed, no duplicate pending downloads, well-formed playback sessions, one
  holder per connection, every queued record in one place); the result of each operation on its
  branches (identity resolution, merging, overview, reconciliation, choice of a release, automatic
  download); equivalence with simpler definitions (order of provider completion does not matter,
  marks refine a map); round trips (folder names, episode progress); termination (union-find, waits,
  retries, the write queue); bounds of segments; and what goes wrong where the code does not do what
  its comments promise.

  \<^bold>\<open>Bounds and recursion.\<close>  The loop of \<open>wait_for_file\<close> has fuel \<open>wait_fuel\<close>, one poll more than
  the tenths of a second it may wait; any larger fuel gives the same answer (\<open>wait_finds_file_in_time\<close>).  The substitution loop of \<open>Regex\<close>
  has the length of the text as its fuel, as every match consumes a character.  The union-find
  (\<open>uf_find\<close>) and the wrapper \<open>handle_sql_error\<close> are \<open>partial_function\<close>s: that they return is a theorem
  of its own for the former, for the latter it is proved when the idle disconnect does not occur and
  refuted when it always does.  The numbering of \<open>unique_destination\<close> has one try more than there
  are files and directories, and ends on a free name (\<open>unique_destination_free\<close>).  \<open>CATCH_UP_MAX\<close> is the bound of the source.

  \<^bold>\<open>Simplifications.\<close>  Text is Latin-1.  Floating-point numbers are rationals.  Locks are not part of
  the state where operations run under one lock.  Log messages and telemetry are left out.  Outside
  \<open>SqlRetry\<close> and \<open>MariaStore\<close> the tables are read truthfully, that is, without the query cache
  of the SQLite backend, and statements do not fail except where a failure is modelled
  (\<open>broken\<close> in \<open>Catalog\<close>).

  \<^bold>\<open>Not modelled.\<close>  The HTTP and desktop clients and the torrent daemon (request handling and user
  interface), the bindings to torrent clients, provider APIs, the engines of the release search with
  their processes, the title parser and ffmpeg (external programs and libraries), file and FTP access, settings, telemetry, start-up jobs and
  provider coordination (scheduling of calls modelled here), installation and control of the MariaDB
  server, the SQLite and MySQL backends beyond the listing statement, the conversion of rows to
  entities beyond the listings, and the composition of the objects.
\<close>

end
